(* ===== verification/C_Prelude.thy ===== *)
theory C_Prelude
  imports Main "HOL-Library.Word" "HOL-Library.Monad_Syntax"
begin

text \<open>
  What every component shares: the machine types of the SDCC Z80 target (\<open>char\<close> is an
  unsigned byte, \<open>int\<close> and \<open>size_t\<close> have 16 bits), little-endian loads and stores on
  byte buffers, C strings, bounds-checked array accesses, printing, and the search loop
  \<open>for (i = 0; i < N; i++) if (P) return i;\<close> that the page allocator, the process table
  and the schedule table all use.

  A C function that can fail to have a defined result is modelled with \<open>option\<close>:
  \<open>Some r\<close> says that the call returns \<open>r\<close> and never touches memory outside the objects it
  is given; \<open>None\<close> stands for an access outside an array and for a loop that does not end.
  A theorem with \<open>Some\<close> in its conclusion is therefore a total-correctness statement.
\<close>

named_theorems word_nat \<open>unsigned words read as natural numbers\<close>
named_theorems buf_simps \<open>reads of updated byte buffers\<close>

type_synonym u8 = "8 word"
type_synonym u16 = "16 word"
type_synonym u32 = "32 word"
type_synonym bytes = "8 word list"

section \<open>Words\<close>

lemma unat_u8_less: "unat (b :: u8) < 256"
  using unsigned_less [of b] by simp

lemma unat_u16_less: "unat (w :: u16) < 65536"
  using unsigned_less [of w] by simp

lemma unat_u32_less: "unat (w :: u32) < 4294967296"
  using unsigned_less [of w] by simp

lemma unat_u8_u16 [word_nat]: "unat (ucast (b :: u8) :: u16) = unat b"
  using unat_u8_less [of b] by (simp add: unsigned_ucast_eq take_bit_eq_mod)

lemma unat_u8_u32 [word_nat]: "unat (ucast (b :: u8) :: u32) = unat b"
  using unat_u8_less [of b] by (simp add: unsigned_ucast_eq take_bit_eq_mod)

lemma unat_u16_u32 [word_nat]: "unat (ucast (w :: u16) :: u32) = unat w"
  using unat_u16_less [of w] by (simp add: unsigned_ucast_eq take_bit_eq_mod)

lemma unat_u16_u8 [word_nat]: "unat (ucast (w :: u16) :: u8) = unat w mod 256"
  by (simp add: unsigned_ucast_eq take_bit_eq_mod)

lemma unat_u32_u8 [word_nat]: "unat (ucast (w :: u32) :: u8) = unat w mod 256"
  by (simp add: unsigned_ucast_eq take_bit_eq_mod)

lemma unat_u32_u16 [word_nat]: "unat (ucast (w :: u32) :: u16) = unat w mod 65536"
  by (simp add: unsigned_ucast_eq take_bit_eq_mod)

lemma unat_drop_bit_div [word_nat]: "unat (drop_bit n w) = unat w div 2 ^ n"
  by (simp only: unat_drop_bit_eq drop_bit_eq_div [where 'a = nat])

lemma unat_add_lt: "unat (a :: 'a::len word) + unat b < 2 ^ LENGTH('a) \<Longrightarrow> unat (a + b) = unat a + unat b"
  by (simp add: unat_word_ariths)

lemma unat_mult_lt: "unat (a :: 'a::len word) * unat b < 2 ^ LENGTH('a) \<Longrightarrow> unat (a * b) = unat a * unat b"
  by (simp add: unat_word_ariths)

lemma unat_Suc_word: "unat (w :: 'a::len word) + 1 < 2 ^ LENGTH('a) \<Longrightarrow> unat (w + 1) = unat w + 1"
  by (simp add: unat_word_ariths)

lemma unat_of_nat_u16: "n < 65536 \<Longrightarrow> unat (of_nat n :: u16) = n"
  by (simp only: unsigned_of_nat take_bit_eq_mod) simp

lemma unat_of_nat_u32: "n < 4294967296 \<Longrightarrow> unat (of_nat n :: u32) = n"
  by (simp only: unsigned_of_nat take_bit_eq_mod) simp

lemma unat_of_nat_u8: "n < 256 \<Longrightarrow> unat (of_nat n :: u8) = n"
  by (simp only: unsigned_of_nat take_bit_eq_mod) simp

section \<open>Byte buffers\<close>

text \<open>\<open>GET_UINT16\<close> and \<open>GET_UINT32\<close> of \<open>kernel/file.c\<close>: unaligned little-endian reads.\<close>

definition le16 :: "bytes \<Rightarrow> nat \<Rightarrow> u16" where
  "le16 buf i = ucast (buf ! i) + 256 * ucast (buf ! Suc i)"

definition le32 :: "bytes \<Rightarrow> nat \<Rightarrow> u32" where
  "le32 buf i = ucast (buf ! i) + 256 * ucast (buf ! (i + 1))
     + 65536 * ucast (buf ! (i + 2)) + 16777216 * ucast (buf ! (i + 3))"

definition put16 :: "u16 \<Rightarrow> bytes" where
  "put16 v = [ucast v, ucast (drop_bit 8 v)]"

definition put32 :: "u32 \<Rightarrow> bytes" where
  "put32 v = [ucast v, ucast (drop_bit 8 v), ucast (drop_bit 16 v), ucast (drop_bit 24 v)]"

text \<open>The checked forms: \<open>None\<close> when the access leaves the buffer.\<close>

definition rd :: "'a list \<Rightarrow> nat \<Rightarrow> 'a option" where
  "rd buf i = (if i < length buf then Some (buf ! i) else None)"

definition rd16 :: "bytes \<Rightarrow> nat \<Rightarrow> u16 option" where
  "rd16 buf i = (if i + 1 < length buf then Some (le16 buf i) else None)"

definition memcpy :: "'a list \<Rightarrow> nat \<Rightarrow> 'a list \<Rightarrow> 'a list option" where
  "memcpy dst off src =
     (if off + length src \<le> length dst
      then Some (take off dst @ src @ drop (off + length src) dst) else None)"

lemma length_put16 [simp]: "length (put16 v) = 2"
  by (simp add: put16_def)

lemma length_put32 [simp]: "length (put32 v) = 4"
  by (simp add: put32_def)

lemma memcpy_length [buf_simps]: "memcpy dst off src = Some dst' \<Longrightarrow> length dst' = length dst"
  by (auto simp: memcpy_def split: if_splits)

lemma memcpy_Some [buf_simps]:
  "off + length src \<le> length dst
   \<Longrightarrow> memcpy dst off src = Some (take off dst @ src @ drop (off + length src) dst)"
  by (simp add: memcpy_def)

lemma memcpy_nth:
  assumes "memcpy dst off src = Some dst'" and "i < length dst"
  shows "dst' ! i = (if off \<le> i \<and> i < off + length src then src ! (i - off) else dst ! i)"
  using assms by (auto simp: memcpy_def nth_append min_def split: if_splits)

lemma unat_le16 [word_nat]: "unat (le16 buf i) = unat (buf ! i) + 256 * unat (buf ! Suc i)"
proof -
  have "unat (buf ! i) < 256" "unat (buf ! Suc i) < 256" by (rule unat_u8_less)+
  then show ?thesis
    by (simp add: le16_def unat_word_ariths word_nat)
qed

lemma le16_put16 [simp]: "le16 (put16 v) 0 = v"
proof (rule word_unat_eq_iff [THEN iffD2])
  have "unat v div 256 < 256" using unat_u16_less [of v] by linarith
  then show "unat (le16 (put16 v) 0) = unat v"
    by (simp add: put16_def word_nat)
qed

lemma le16_nth: "buf ! i = a \<Longrightarrow> buf ! Suc i = b \<Longrightarrow> le16 buf i = le16 [a, b] 0"
  by (simp add: le16_def)

lemma le16_put16_at:
  "buf ! i = put16 v ! 0 \<Longrightarrow> buf ! Suc i = put16 v ! 1 \<Longrightarrow> le16 buf i = v"
  using le16_put16 [of v] by (simp add: le16_def)

lemma le16_memcpy_same:
  "memcpy dst i (put16 v) = Some dst' \<Longrightarrow> le16 dst' i = v"
  using memcpy_nth [of dst i "put16 v" dst' i] memcpy_nth [of dst i "put16 v" dst' "Suc i"]
  by (intro le16_put16_at) (auto simp: memcpy_def split: if_splits)

lemma le16_memcpy_other:
  assumes "memcpy dst i (put16 v) = Some dst'" "j + 1 < i \<or> i + 1 < j" "j + 1 < length dst"
  shows "le16 dst' j = le16 dst j"
  using assms memcpy_nth [OF assms(1), of j] memcpy_nth [OF assms(1), of "Suc j"]
  by (auto simp: le16_def)

lemma put32_bytes:
  "unat (v :: u32) = unat (ucast v :: u8) + 256 * unat (ucast (drop_bit 8 v) :: u8)
     + 65536 * unat (ucast (drop_bit 16 v) :: u8) + 16777216 * unat (ucast (drop_bit 24 v) :: u8)"
proof -
  define n where "n = unat v"
  have "n < 4294967296" unfolding n_def by (rule unat_u32_less)
  then have "n div 256 div 256 div 256 < 256" by linarith
  then have "n div 256 div 256 div 256 mod 256 = n div 256 div 256 div 256" by (rule mod_less)
  moreover have "\<And>k::nat. k = k mod 256 + 256 * (k div 256)" by simp
  ultimately have "n = n mod 256 + 256 * (n div 256 mod 256 + 256 * (n div 256 div 256 mod 256
      + 256 * (n div 256 div 256 div 256 mod 256)))" by metis
  then show ?thesis
    using \<open>n div 256 div 256 div 256 < 256\<close>
    by (simp add: word_nat n_def div_mult2_eq [symmetric])
qed

lemma unat_le32 [word_nat]:
  "unat (le32 buf i) = unat (buf ! i) + 256 * unat (buf ! (i + 1))
     + 65536 * unat (buf ! (i + 2)) + 16777216 * unat (buf ! (i + 3))"
proof -
  have "unat (buf ! i) < 256" "unat (buf ! (i+1)) < 256"
    "unat (buf ! (i+2)) < 256" "unat (buf ! (i+3)) < 256" by (rule unat_u8_less)+
  then show ?thesis
    by (simp add: le32_def unat_word_ariths word_nat)
qed

lemma put32_nth:
  "put32 v ! 0 = ucast v" "put32 v ! 1 = ucast (drop_bit 8 v)"
  "put32 v ! 2 = ucast (drop_bit 16 v)" "put32 v ! 3 = ucast (drop_bit 24 v)"
  by (simp_all add: put32_def numeral_eq_Suc)

lemma le32_put32_at:
  assumes "buf ! i = put32 v ! 0" "buf ! (i + 1) = put32 v ! 1"
    "buf ! (i + 2) = put32 v ! 2" "buf ! (i + 3) = put32 v ! 3"
  shows "le32 buf i = v"
proof (rule word_unat_eq_iff [THEN iffD2])
  have "unat (le32 buf i) = unat (ucast v :: u8) + 256 * unat (ucast (drop_bit 8 v) :: u8)
     + 65536 * unat (ucast (drop_bit 16 v) :: u8) + 16777216 * unat (ucast (drop_bit 24 v) :: u8)"
    by (simp only: unat_le32 assms put32_nth)
  then show "unat (le32 buf i) = unat v"
    by (simp only: put32_bytes [symmetric])
qed

section \<open>C strings\<close>

text \<open>The characters of a NUL-terminated string, up to its NUL.\<close>

definition cstr :: "bytes \<Rightarrow> bytes" where
  "cstr s = takeWhile (\<lambda>c. c \<noteq> 0) s"

lemma cstr_append_nul [simp]: "0 \<notin> set s \<Longrightarrow> cstr (s @ 0 # t) = s"
  by (induction s) (auto simp: cstr_def)

lemma cstr_no_nul: "0 \<notin> set (cstr s)"
  by (auto simp: cstr_def dest: set_takeWhileD)

section \<open>Printing\<close>

text \<open>Text as bytes, and the conversions \<open>%d\<close>, \<open>%u\<close> and \<open>%x\<close> of \<open>printf\<close>, which can be padded
  on the left to a width.\<close>

abbreviation (input) ascii :: "string \<Rightarrow> bytes" where "ascii \<equiv> map of_char"

fun decimal :: "nat \<Rightarrow> bytes" where
  "decimal n = (if n < 10 then [of_nat (48 + n)] else decimal (n div 10) @ [of_nat (48 + n mod 10)])"

declare decimal.simps [simp del]

definition print_d :: "u16 \<Rightarrow> bytes" where
  "print_d v = (if sint v < 0 then of_char (CHR ''-'') # decimal (nat (- sint v)) else decimal (nat (sint v)))"

definition print_u :: "u16 \<Rightarrow> bytes" where
  "print_u v = decimal (unat v)"

fun hexadecimal :: "nat \<Rightarrow> bytes" where
  "hexadecimal n =
     (let d = (if n mod 16 < 10 then of_nat (48 + n mod 16) else of_nat (87 + n mod 16))
      in if n < 16 then [d] else hexadecimal (n div 16) @ [d])"

declare hexadecimal.simps [simp del]

definition padded :: "u8 \<Rightarrow> nat \<Rightarrow> bytes \<Rightarrow> bytes" where
  "padded c width s = replicate (width - length s) c @ s"

section \<open>Lists of blocks of equal length\<close>

lemma length_concat_uniform:
  "(\<And>xs. xs \<in> set xss \<Longrightarrow> length xs = m) \<Longrightarrow> length (concat xss) = m * length xss"
  by (induction xss) auto

lemma nth_concat_uniform:
  assumes "\<And>xs. xs \<in> set xss \<Longrightarrow> length xs = m" "i < m * length xss"
  shows "concat xss ! i = xss ! (i div m) ! (i mod m)"
  using assms
proof (induction xss arbitrary: i)
  case (Cons xs xss)
  have m: "length xs = m" and "0 < m" using Cons.prems by (auto intro: gr0I)
  show ?case
  proof (cases "i < m")
    case True
    then show ?thesis using m by (simp add: nth_append)
  next
    case False
    then have "i - m < m * length xss" "i div m = Suc ((i - m) div m)" "(i - m) mod m = i mod m"
      using Cons.prems(2) \<open>0 < m\<close> by (simp_all add: le_div_geq le_mod_geq)
    with Cons.IH [of "i - m"] Cons.prems(1) m False show ?thesis by (simp add: nth_append)
  qed
qed simp

section \<open>The search loop\<close>

fun first_idx :: "('a \<Rightarrow> bool) \<Rightarrow> 'a list \<Rightarrow> nat option" where
  "first_idx P [] = None"
| "first_idx P (x # xs) = (if P x then Some 0 else map_option Suc (first_idx P xs))"

lemma first_idx_None [simp]: "first_idx P xs = None \<longleftrightarrow> (\<forall>x \<in> set xs. \<not> P x)"
  by (induction xs) auto

lemma first_idx_Some:
  "first_idx P xs = Some i \<longleftrightarrow> i < length xs \<and> P (xs ! i) \<and> (\<forall>j < i. \<not> P (xs ! j))"
proof (induction xs arbitrary: i)
  case Nil
  then show ?case by simp
next
  case (Cons x xs)
  show ?case
  proof (cases i)
    case 0
    then show ?thesis by auto
  next
    case (Suc k)
    then show ?thesis using Cons.IH [of k] by (auto simp: less_Suc_eq_0_disj)
  qed
qed

lemmas first_idxD = first_idx_Some [THEN iffD1]

lemma first_idx_ex: "x \<in> set xs \<Longrightarrow> P x \<Longrightarrow> \<exists>i. first_idx P xs = Some i"
  by (meson first_idx_None not_None_eq)

text \<open>
  The C functions that search return the index, or a negative error code: \<open>c_index\<close> is
  that encoding.
\<close>

definition c_index :: "int \<Rightarrow> nat option \<Rightarrow> int" where
  "c_index err r = (case r of None \<Rightarrow> err | Some i \<Rightarrow> int i)"

lemma c_index_simps [simp]:
  "c_index e None = e"
  "c_index e (Some i) = int i"
  by (simp_all add: c_index_def)

lemma c_index_first_idx:
  assumes "e < 0"
  shows "c_index e (first_idx P xs) = int i \<longleftrightarrow> i < length xs \<and> P (xs ! i) \<and> (\<forall>j < i. \<not> P (xs ! j))"
    and "c_index e (first_idx P xs) < 0 \<longleftrightarrow> (\<forall>i < length xs. \<not> P (xs ! i))"
proof -
  show "c_index e (first_idx P xs) = int i \<longleftrightarrow> i < length xs \<and> P (xs ! i) \<and> (\<forall>j < i. \<not> P (xs ! j))"
    using assms first_idx_Some [of P xs i]
    by (cases "first_idx P xs") (auto simp del: first_idx_None)
  show "c_index e (first_idx P xs) < 0 \<longleftrightarrow> (\<forall>i < length xs. \<not> P (xs ! i))"
  proof (cases "first_idx P xs")
    case None
    with first_idx_None [of P xs] assms show ?thesis
      by (auto simp: all_set_conv_all_nth simp del: first_idx_None)
  next
    case (Some k)
    with first_idxD [OF Some] show ?thesis by auto
  qed
qed

lemma c_index_ge0: "e < 0 \<Longrightarrow> (0 \<le> c_index e r) = (r \<noteq> None)"
  by (cases r) auto

section \<open>The interface of a slot search\<close>

text \<open>
  What a caller of \<open>memory_allocate\<close>, \<open>process_allocate\<close> or \<open>scheduler_allocate\<close> relies on:
  the result is the least free slot, or negative when there is none.
\<close>

locale slot_finder =
  fixes find :: "'s \<Rightarrow> int"
    and free :: "'s \<Rightarrow> nat \<Rightarrow> bool"
    and cap :: "'s \<Rightarrow> nat"
  assumes find_free: "find s = int i \<Longrightarrow> i < cap s \<and> free s i"
    and find_least: "find s = int i \<Longrightarrow> j < i \<Longrightarrow> \<not> free s j"
    and find_none: "find s < 0 \<Longrightarrow> i < cap s \<Longrightarrow> \<not> free s i"
begin

lemma find_neg_iff: "find s < 0 \<longleftrightarrow> (\<forall>i < cap s. \<not> free s i)"
proof
  assume "find s < 0"
  then show "\<forall>i < cap s. \<not> free s i" using find_none by blast
next
  assume none: "\<forall>i < cap s. \<not> free s i"
  show "find s < 0"
  proof (rule ccontr)
    assume "\<not> find s < 0"
    then obtain i where "find s = int i" by (metis nonneg_int_cases not_less)
    with find_free none show False by blast
  qed
qed

lemma find_bounds: "0 \<le> find s \<Longrightarrow> nat (find s) < cap s \<and> free s (nat (find s))"
  using find_free [of s "nat (find s)"] by simp

lemma find_eq:
  assumes "i < cap s" "free s i" "\<And>j. j < i \<Longrightarrow> \<not> free s j"
  shows "find s = int i"
proof -
  have "\<not> find s < 0" using assms find_none by blast
  then obtain k where k: "find s = int k" by (metis nonneg_int_cases not_less)
  have "k = i"
    using find_free [OF k] find_least [OF k, of i] assms
    by (meson linorder_neqE_nat)
  with k show ?thesis by simp
qed

end

end
