(* ===== verification/Process_Table.thy ===== *)
theory Process_Table
  imports C_Prelude
begin

unbundle bit_operations_syntax

text \<open>
  The process table of \<open>kernel/process.c\<close> (descriptors, the current process) and the signal
  flags of \<open>kernel/signal.c\<close> that live in it. A pointer \<open>&process_table[pid]\<close> is modelled by
  the index \<open>pid\<close>; using one outside the table gives \<open>None\<close>. A free descriptor is one whose base
  address is 0. The record is extensible: the terminal, the scheduler and the kernel state extend it.
\<close>

text \<open>Handler addresses are 16-bit pointers, 0 being \<open>NULL\<close>.\<close>

record sighandlers =
  cancel :: u16
  brk :: u16

record procdesc =
  base_address :: u16
  bank :: u8
  termstatus :: u8
  sigstatus :: u8
  sighandlers :: sighandlers

record procs =
  process_table :: "procdesc list"
  process_current_ptr :: int

abbreviation (input) PROCS_MAX :: nat where "PROCS_MAX \<equiv> 16"
abbreviation (input) SIG_CANCEL :: int where "SIG_CANCEL \<equiv> 0"
abbreviation (input) SIG_BREAK :: int where "SIG_BREAK \<equiv> 1"
abbreviation (input) SIGSTAT_CANCEL :: u8 where "SIGSTAT_CANCEL \<equiv> 1"
abbreviation (input) SIGSTAT_BREAK :: u8 where "SIGSTAT_BREAK \<equiv> 2"

section \<open>Process table operations\<close>

definition process_init :: "'a procs_scheme \<Rightarrow> 'a procs_scheme" where
  "process_init s = s\<lparr>process_table := map (\<lambda>p. p\<lparr>base_address := 0\<rparr>) (process_table s)\<rparr>"

definition process_info :: "int \<Rightarrow> 'a procs_scheme \<Rightarrow> procdesc option" where
  "process_info pid s =
     (if 0 \<le> pid \<and> nat pid < length (process_table s) then Some (process_table s ! nat pid) else None)"

definition process_current :: "'a procs_scheme \<Rightarrow> procdesc option" where
  "process_current s = process_info (process_current_ptr s) s"

definition process_set_current :: "int \<Rightarrow> 'a procs_scheme \<Rightarrow> 'a procs_scheme" where
  "process_set_current pid s = s\<lparr>process_current_ptr := pid\<rparr>"

text \<open>A write through a descriptor pointer, at index \<open>pid\<close>.\<close>

definition process_update :: "int \<Rightarrow> (procdesc \<Rightarrow> procdesc) \<Rightarrow> 'a procs_scheme \<Rightarrow> 'a procs_scheme option" where
  "process_update pid f s =
     (case process_info pid s of None \<Rightarrow> None
      | Some p \<Rightarrow> Some (s\<lparr>process_table := (process_table s)[nat pid := f p]\<rparr>))"

definition process_allocate :: "'a procs_scheme \<Rightarrow> int" where
  "process_allocate s = c_index (-1) (first_idx (\<lambda>p. base_address p = 0) (process_table s))"

interpretation procslots: slot_finder
  process_allocate
  "\<lambda>s i. base_address (process_table s ! i) = 0"
  "\<lambda>s. length (process_table s)"
  by unfold_locales (auto simp: process_allocate_def c_index_first_idx)

lemma process_info_Some:
  "process_info pid s = Some p \<longleftrightarrow> 0 \<le> pid \<and> nat pid < length (process_table s) \<and> p = process_table s ! nat pid"
  by (auto simp: process_info_def)

lemma process_info_set_current [simp]: "process_info pid (process_set_current q s) = process_info pid s"
  by (simp add: process_info_def process_set_current_def)

lemma process_current_set_current [simp]: "process_current (process_set_current pid s) = process_info pid s"
  by (simp add: process_current_def process_set_current_def process_info_def)

lemma process_info_update:
  "process_update pid f s = Some s' \<Longrightarrow>
   process_info q s' = (if q = pid then map_option f (process_info q s) else process_info q s)"
  by (auto simp: process_update_def process_info_def nth_list_update nat_eq_iff split: option.splits if_splits)

lemma process_update_ptr:
  "process_update pid f s = Some s' \<Longrightarrow> process_current_ptr s' = process_current_ptr s"
  by (auto simp: process_update_def split: option.splits)

lemma process_update_length:
  "process_update pid f s = Some s' \<Longrightarrow> length (process_table s') = length (process_table s)"
  by (auto simp: process_update_def split: option.splits)

lemma process_update_None [simp]: "process_update pid f s = None \<longleftrightarrow> process_info pid s = None"
  by (auto simp: process_update_def split: option.splits)

section \<open>Signals\<close>

definition BIT_IS_SET :: "u8 \<Rightarrow> u8 \<Rightarrow> bool" where "BIT_IS_SET v b \<longleftrightarrow> v AND b = b"
definition BIT_IS_CLR :: "u8 \<Rightarrow> u8 \<Rightarrow> bool" where "BIT_IS_CLR v b \<longleftrightarrow> v AND b = 0"
definition BIT_SET :: "u8 \<Rightarrow> u8 \<Rightarrow> u8" where "BIT_SET v b = v OR b"
definition BIT_CLR :: "u8 \<Rightarrow> u8 \<Rightarrow> u8" where "BIT_CLR v b = v AND NOT b"

definition signal_set :: "u8 \<Rightarrow> 'a procs_scheme \<Rightarrow> 'a procs_scheme option" where
  "signal_set sig s =
     process_update (process_current_ptr s) (\<lambda>p. p\<lparr>sigstatus := BIT_SET (sigstatus p) sig\<rparr>) s"

definition signal_sethandler :: "u16 \<Rightarrow> int \<Rightarrow> 'a procs_scheme \<Rightarrow> 'a procs_scheme option" where
  "signal_sethandler handler sig s =
     (if sig = SIG_CANCEL then
        process_update (process_current_ptr s)
          (\<lambda>p. p\<lparr>sighandlers := (sighandlers p)\<lparr>cancel := handler\<rparr>\<rparr>) s
      else if sig = SIG_BREAK then
        process_update (process_current_ptr s)
          (\<lambda>p. p\<lparr>sighandlers := (sighandlers p)\<lparr>brk := handler\<rparr>\<rparr>) s
      else Some s)"

definition signal_get_handler :: "'a procs_scheme \<Rightarrow> (u16 \<times> 'a procs_scheme) option" where
  "signal_get_handler s =
     do {
       p \<leftarrow> process_current s;
       if sigstatus p = 0 then Some (0, s)
       else if BIT_IS_SET (sigstatus p) SIGSTAT_CANCEL then
         do {
           s' \<leftarrow> process_update (process_current_ptr s)
                  (\<lambda>p. p\<lparr>sigstatus := BIT_CLR (sigstatus p) SIGSTAT_CANCEL\<rparr>) s;
           Some (cancel (sighandlers p), s')
         }
       else Some (0, s)
     }"

lemmas bit_macros = BIT_IS_SET_def BIT_IS_CLR_def BIT_SET_def BIT_CLR_def

lemma bit_set_is_set [simp]: "BIT_IS_SET (BIT_SET v b) b"
  by (auto simp: bit_macros bit_eq_iff bit_and_iff bit_or_iff)

lemma bit_clr_is_clr [simp]: "BIT_IS_CLR (BIT_CLR v b) b"
  by (simp add: bit_macros bit_eq_iff bit_and_iff bit_not_iff)

lemma bit_clr_not_set [simp]: "\<not> BIT_IS_SET (BIT_CLR v SIGSTAT_CANCEL) SIGSTAT_CANCEL"
  by (simp add: bit_macros and.assoc) 

lemma bit_set_nonzero [simp]: "b \<noteq> 0 \<Longrightarrow> BIT_SET v b \<noteq> 0"
  by (auto simp: bit_macros bit_eq_iff bit_or_iff)

lemma signal_get_handler_pending:
  assumes "process_current s = Some p" "BIT_IS_SET (sigstatus p) SIGSTAT_CANCEL"
  obtains s' where "signal_get_handler s = Some (cancel (sighandlers p), s')"
    "process_update (process_current_ptr s)
       (\<lambda>p. p\<lparr>sigstatus := BIT_CLR (sigstatus p) SIGSTAT_CANCEL\<rparr>) s = Some s'"
proof -
  have "sigstatus p \<noteq> 0" using assms(2) by (auto simp: BIT_IS_SET_def)
  moreover obtain s' where s': "process_update (process_current_ptr s)
       (\<lambda>p. p\<lparr>sigstatus := BIT_CLR (sigstatus p) SIGSTAT_CANCEL\<rparr>) s = Some s'"
    using assms(1) by (auto simp: process_update_def process_current_def)
  ultimately have "signal_get_handler s = Some (cancel (sighandlers p), s')"
    using assms by (simp add: signal_get_handler_def)
  then show thesis using s' by (rule that)
qed

lemma signal_get_handler_idle:
  "process_current s = Some p \<Longrightarrow> \<not> BIT_IS_SET (sigstatus p) SIGSTAT_CANCEL
   \<Longrightarrow> signal_get_handler s = Some (0, s)"
  by (simp add: signal_get_handler_def)

text \<open>A cancel signal is delivered exactly once: after \<open>signal_set(SIGSTAT_CANCEL)\<close> the next
  \<open>signal_get_handler\<close> returns the cancel handler of the current process, and the one after it
  returns no handler until the signal is set again. Only the flag changes.\<close>

theorem signal_cancel_once:
  assumes cur: "process_current s = Some p" and set: "signal_set SIGSTAT_CANCEL s = Some s1"
  shows "\<exists>s2. signal_get_handler s1 = Some (cancel (sighandlers p), s2)
    \<and> signal_get_handler s2 = Some (0, s2)
    \<and> process_current s2 = Some (p\<lparr>sigstatus := BIT_CLR (BIT_SET (sigstatus p) SIGSTAT_CANCEL) SIGSTAT_CANCEL\<rparr>)
    \<and> (\<forall>q. q \<noteq> process_current_ptr s \<longrightarrow> process_info q s2 = process_info q s)"
proof -
  let ?c = "process_current_ptr s"
  let ?p1 = "p\<lparr>sigstatus := BIT_SET (sigstatus p) SIGSTAT_CANCEL\<rparr>"
  note upd1 = set [unfolded signal_set_def]
  note i1 = process_info_update [OF upd1] and c1 = process_update_ptr [OF upd1]
  have cur1: "process_current s1 = Some ?p1"
    using cur unfolding process_current_def c1 i1 by simp
  obtain s2 where get: "signal_get_handler s1 = Some (cancel (sighandlers p), s2)"
    and upd2: "process_update ?c (\<lambda>p. p\<lparr>sigstatus := BIT_CLR (sigstatus p) SIGSTAT_CANCEL\<rparr>) s1 = Some s2"
    using signal_get_handler_pending [OF cur1] c1 by auto
  note i2 = process_info_update [OF upd2] and c2 = process_update_ptr [OF upd2]
  have cur2: "process_current s2 = Some (?p1\<lparr>sigstatus := BIT_CLR (sigstatus ?p1) SIGSTAT_CANCEL\<rparr>)"
    using cur unfolding process_current_def c2 c1 i2 i1 by simp
  have "signal_get_handler s2 = Some (0, s2)"
    by (rule signal_get_handler_idle [OF cur2]) simp
  with get cur2 i1 i2 show ?thesis by simp
qed

lemma signal_cancel_once_witness:
  "\<exists>s s1 s2. signal_set SIGSTAT_CANCEL (s :: procs) = Some s1 \<and> signal_get_handler s1 = Some (0x9000, s2)
     \<and> signal_get_handler s2 = Some (0, s2)"
proof -
  define p where "p = \<lparr>base_address = 0x8000, bank = 1, termstatus = 0, sigstatus = 0, sighandlers = \<lparr>cancel = 0x9000, brk = 0\<rparr>\<rparr>"
  define s :: procs where "s = \<lparr>process_table = [p], process_current_ptr = 0\<rparr>"
  have cur: "process_current s = Some p" by (simp add: process_current_def process_info_def s_def)
  then obtain s1 where s1: "signal_set SIGSTAT_CANCEL s = Some s1"
    by (auto simp: signal_set_def process_update_def process_current_def)
  from signal_cancel_once [OF cur s1] s1 show ?thesis by (auto simp: p_def)
qed

end
