(* ===== verification/Terminal.thy ===== *)
theory Terminal
  imports Process_Table
begin

text \<open>
  The terminal of \<open>kernel/terminal.c\<close>: a 256-byte ring buffer with 8-bit \<open>head\<close> and \<open>tail\<close>
  that wrap by themselves, filled by the UART interrupt (\<open>terminal_put\<close>) and emptied by the
  \<open>sread\<close> system call (\<open>terminal_get\<close>). In interactive mode the CANCEL byte becomes a signal.
  The interface \<open>byte_queue\<close> is what the interrupt handler and the readers rely on; the ring
  buffer provides it up to 255 stored bytes.
\<close>

abbreviation (input) TERMSTATUS_MODE_BINARY :: u8 where "TERMSTATUS_MODE_BINARY \<equiv> 1"
abbreviation (input) ASCII_CANCEL :: u8 where "ASCII_CANCEL \<equiv> 0x18"

record termdev = procs +
  term_data :: bytes
  term_head :: u8
  term_tail :: u8

section \<open>Operations\<close>

definition terminal_init :: "'a termdev_scheme \<Rightarrow> 'a termdev_scheme" where
  "terminal_init s = s\<lparr>term_head := 0, term_tail := 0\<rparr>"

definition terminal_status :: "'a termdev_scheme \<Rightarrow> u8 option" where
  "terminal_status s = map_option termstatus (process_current s)"

definition terminal_set_mode :: "int \<Rightarrow> 'a termdev_scheme \<Rightarrow> 'a termdev_scheme option" where
  "terminal_set_mode mode s =
     process_update (process_current_ptr s)
       (\<lambda>p. p\<lparr>termstatus := (if mode \<noteq> 0 then BIT_SET (termstatus p) TERMSTATUS_MODE_BINARY
                             else BIT_CLR (termstatus p) TERMSTATUS_MODE_BINARY)\<rparr>) s"

definition terminal_put :: "u8 \<Rightarrow> 'a termdev_scheme \<Rightarrow> 'a termdev_scheme option" where
  "terminal_put c s =
     do {
       cancelled \<leftarrow> (if c = ASCII_CANCEL
                     then map_option (\<lambda>st. BIT_IS_CLR st TERMSTATUS_MODE_BINARY) (terminal_status s)
                     else Some False);
       if cancelled then signal_set SIGSTAT_CANCEL s
       else if unat (term_head s) < length (term_data s)
       then Some (s\<lparr>term_data := (term_data s)[unat (term_head s) := c], term_head := term_head s + 1\<rparr>)
       else None
     }"

definition terminal_get :: "'a termdev_scheme \<Rightarrow> (int \<times> 'a termdev_scheme) option" where
  "terminal_get s =
     (if term_head s = term_tail s then Some (-1, s)
      else do {
        c \<leftarrow> rd (term_data s) (unat (term_tail s));
        Some (int (unat c), s\<lparr>term_tail := term_tail s + 1\<rparr>)
      })"

section \<open>The queue interface\<close>

text \<open>The events of a queue are arrivals (\<open>Inl c\<close>) and reads (\<open>Inr ()\<close>). On an unbounded list, a
  reader should see this; \<open>queue_fits cap\<close> says that no more than \<open>cap\<close> bytes ever wait.\<close>

fun queue_spec :: "(u8 + unit) list \<Rightarrow> bytes \<Rightarrow> int list \<times> bytes" where
  "queue_spec [] q = ([], q)"
| "queue_spec (Inl c # es) q = queue_spec es (q @ [c])"
| "queue_spec (Inr u # es) q =
     (case q of [] \<Rightarrow> (let (rs, q') = queue_spec es [] in (-1 # rs, q'))
      | c # cs \<Rightarrow> (let (rs, q') = queue_spec es cs in (int (unat c) # rs, q')))"

fun queue_fits :: "nat \<Rightarrow> (u8 + unit) list \<Rightarrow> nat \<Rightarrow> bool" where
  "queue_fits cap [] n = True"
| "queue_fits cap (Inl c # es) n = (n < cap \<and> queue_fits cap es (Suc n))"
| "queue_fits cap (Inr u # es) n = queue_fits cap es (n - 1)"

text \<open>The events without the arrivals that are not data.\<close>

definition data_events :: "(u8 \<Rightarrow> bool) \<Rightarrow> (u8 + unit) list \<Rightarrow> (u8 + unit) list" where
  "data_events ok es = filter (\<lambda>e. case e of Inl c \<Rightarrow> ok c | Inr u \<Rightarrow> True) es"

lemma data_events_simps [simp]:
  "data_events ok [] = []" "data_events ok (Inl c # es) = (if ok c then Inl c # data_events ok es else data_events ok es)"
  "data_events ok (Inr u # es) = Inr u # data_events ok es"
  by (simp_all add: data_events_def)

text \<open>\<open>accepts c s\<close>: the byte is data in this state, not a signal. A signal leaves the queue alone.\<close>

locale byte_queue =
  fixes put :: "u8 \<Rightarrow> 's \<Rightarrow> 's option"
    and get :: "'s \<Rightarrow> (int \<times> 's) option"
    and contents :: "'s \<Rightarrow> bytes"
    and accepts :: "u8 \<Rightarrow> 's \<Rightarrow> bool"
    and wf :: "'s \<Rightarrow> bool"
    and cap :: nat
  assumes put_ok: "wf s \<Longrightarrow> accepts c s \<Longrightarrow> length (contents s) < cap \<Longrightarrow>
      \<exists>s'. put c s = Some s' \<and> contents s' = contents s @ [c] \<and> wf s' \<and> (\<forall>d. accepts d s' = accepts d s)"
    and put_signal: "wf s \<Longrightarrow> \<not> accepts c s \<Longrightarrow>
      \<exists>s'. put c s = Some s' \<and> contents s' = contents s \<and> wf s' \<and> (\<forall>d. accepts d s' = accepts d s)"
    and get_nil: "wf s \<Longrightarrow> contents s = [] \<Longrightarrow> get s = Some (-1, s)"
    and get_ok: "wf s \<Longrightarrow> contents s = c # cs \<Longrightarrow>
      \<exists>s'. get s = Some (int (unat c), s') \<and> contents s' = cs \<and> wf s' \<and> (\<forall>d. accepts d s' = accepts d s)"
begin

text \<open>A run interleaves arrivals with reads and collects the reads' results.\<close>

fun run :: "(u8 + unit) list \<Rightarrow> 's \<Rightarrow> (int list \<times> 's) option" where
  "run [] s = Some ([], s)"
| "run (Inl c # es) s = do { s' \<leftarrow> put c s; run es s' }"
| "run (Inr u # es) s = do { (r, s') \<leftarrow> get s; (rs, s'') \<leftarrow> run es s'; Some (r # rs, s'') }"

lemma run_spec:
  assumes "wf s" "queue_fits cap (data_events (\<lambda>c. accepts c s) es) (length (contents s))"
  shows "\<exists>s'. run es s = Some (fst (queue_spec (data_events (\<lambda>c. accepts c s) es) (contents s)), s')
    \<and> contents s' = snd (queue_spec (data_events (\<lambda>c. accepts c s) es) (contents s)) \<and> wf s'"
  using assms
proof (induction es arbitrary: s)
  case Nil
  then show ?case by simp
next
  case (Cons e es)
  have IH: "\<exists>s''. run es s' = Some (fst (queue_spec (data_events (\<lambda>c. accepts c s) es) (contents s')), s'')
      \<and> contents s'' = snd (queue_spec (data_events (\<lambda>c. accepts c s) es) (contents s')) \<and> wf s''"
    if "wf s'" "\<forall>d. accepts d s' = accepts d s" "queue_fits cap (data_events (\<lambda>c. accepts c s) es) (length (contents s'))" for s'
    using Cons.IH [of s'] that by simp
  show ?case
  proof (cases e)
    case (Inl c)
    show ?thesis
    proof (cases "accepts c s")
      case True
      then obtain s' where s': "put c s = Some s'" "contents s' = contents s @ [c]" "wf s'"
          "\<forall>d. accepts d s' = accepts d s"
        using put_ok [of s c] Inl Cons.prems by auto
      with True Inl Cons.prems IH [of s'] show ?thesis by auto
    next
      case False
      then obtain s' where s': "put c s = Some s'" "contents s' = contents s" "wf s'"
          "\<forall>d. accepts d s' = accepts d s"
        using put_signal [of s c] Cons.prems by auto
      with False Inl Cons.prems IH [of s'] show ?thesis by auto
    qed
  next
    case (Inr u)
    show ?thesis
    proof (cases "contents s")
      case Nil
      with Inr Cons.prems IH [of s] get_nil [of s] show ?thesis
        by (auto split: prod.splits)
    next
      case (Cons c cs)
      then obtain s' where s': "get s = Some (int (unat c), s')" "contents s' = cs" "wf s'"
          "\<forall>d. accepts d s' = accepts d s"
        using get_ok [of s c cs] Cons.prems by auto
      with Inr Cons Cons.prems IH [of s'] show ?thesis
        by (auto split: prod.splits)
    qed
  qed
qed

end

section \<open>The ring buffer is a byte queue\<close>

definition term_wf :: "'a termdev_scheme \<Rightarrow> bool" where
  "term_wf s \<longleftrightarrow> length (term_data s) = 256 \<and> process_current s \<noteq> None"

definition term_contents :: "'a termdev_scheme \<Rightarrow> bytes" where
  "term_contents s = map (\<lambda>i. term_data s ! unat (term_tail s + of_nat i)) [0..<unat (term_head s - term_tail s)]"

definition term_accepts :: "u8 \<Rightarrow> 'a termdev_scheme \<Rightarrow> bool" where
  "term_accepts c s \<longleftrightarrow> c \<noteq> ASCII_CANCEL
     \<or> (\<exists>p. process_current s = Some p \<and> \<not> BIT_IS_CLR (termstatus p) TERMSTATUS_MODE_BINARY)"

lemma term_contents_length [simp]: "length (term_contents s) = unat (term_head s - term_tail s)"
  by (simp add: term_contents_def)

lemma process_current_term_update [simp]:
  "process_current (s\<lparr>term_data := d, term_head := h\<rparr>) = process_current s"
  "process_current (s\<lparr>term_tail := t\<rparr>) = process_current s"
  by (simp_all add: process_current_def process_info_def)

lemma terminal_put_data:
  assumes "term_wf s" "term_accepts c s"
  shows "terminal_put c s =
    Some (s\<lparr>term_data := (term_data s)[unat (term_head s) := c], term_head := term_head s + 1\<rparr>)"
  using assms unat_u8_less [of "term_head s"]
  by (auto simp: terminal_put_def term_accepts_def term_wf_def terminal_status_def)

text \<open>CANCEL in interactive mode.\<close>

definition cancelled :: "'a termdev_scheme \<Rightarrow> bool" where
  "cancelled s \<longleftrightarrow> (\<exists>p. process_current s = Some p \<and> BIT_IS_SET (sigstatus p) SIGSTAT_CANCEL)"

lemma terminal_put_signal:
  assumes "term_wf s" "\<not> term_accepts c s"
  shows "\<exists>s'. terminal_put c s = Some s' \<and> term_contents s' = term_contents s \<and> term_wf s'
    \<and> (\<forall>d. term_accepts d s' = term_accepts d s) \<and> cancelled s'"
proof -
  obtain p where p: "process_current s = Some p" "BIT_IS_CLR (termstatus p) TERMSTATUS_MODE_BINARY" "c = ASCII_CANCEL"
    using assms by (auto simp: term_wf_def term_accepts_def)
  have ptr: "0 \<le> process_current_ptr s" "nat (process_current_ptr s) < length (process_table s)"
      "p = process_table s ! nat (process_current_ptr s)"
    using p(1) by (auto simp: process_current_def process_info_Some)
  define s' where "s' = s\<lparr>process_table := (process_table s)[nat (process_current_ptr s) :=
    p\<lparr>sigstatus := BIT_SET (sigstatus p) SIGSTAT_CANCEL\<rparr>]\<rparr>"
  have put: "terminal_put c s = Some s'"
    using p ptr by (simp add: terminal_put_def terminal_status_def signal_set_def process_update_def process_current_def s'_def)
  have cur: "process_current s' = Some (p\<lparr>sigstatus := BIT_SET (sigstatus p) SIGSTAT_CANCEL\<rparr>)"
    using ptr by (simp add: s'_def process_current_def process_info_def)
  have "term_contents s' = term_contents s" "term_data s' = term_data s" by (simp_all add: s'_def term_contents_def)
  then show ?thesis using put cur p assms(1) by (simp add: term_wf_def term_accepts_def cancelled_def)
qed

lemma unat_Suc_diff_u8: "unat (a :: u8) < 255 \<Longrightarrow> unat (a + 1) = Suc (unat a)"
  using unat_Suc_word [of a] by simp

lemma ring_index_neq_head:
  assumes "i < unat (h - t)"
  shows "unat (t + of_nat i) \<noteq> unat (h :: u8)"
proof
  assume "unat (t + of_nat i) = unat h"
  then have "of_nat i = h - t" by (simp add: word_unat_eq_iff [symmetric] algebra_simps)
  then have "unat (of_nat i :: u8) = unat (h - t)" by simp
  moreover have "unat (of_nat i :: u8) = i"
    using assms unat_u8_less [of "h - t"] by (simp add: unat_of_nat)
  ultimately show False using assms by simp
qed

lemma term_contents_put:
  assumes "length (term_data s) = 256" "length (term_contents s) < 255"
  shows "term_contents (s\<lparr>term_data := (term_data s)[unat (term_head s) := c], term_head := term_head s + 1\<rparr>)
    = term_contents s @ [c]"
proof -
  let ?n = "unat (term_head s - term_tail s)"
  have n: "unat (term_head s + 1 - term_tail s) = Suc ?n"
    using assms(2) unat_Suc_diff_u8 [of "term_head s - term_tail s"] by (simp add: algebra_simps)
  have last: "term_tail s + of_nat ?n = term_head s" by simp
  show ?thesis
    using assms(1) unat_u8_less [of "term_head s"] last
    by (auto simp: term_contents_def n nth_list_update ring_index_neq_head [symmetric])
qed

lemma term_contents_get:
  assumes "term_contents s = c # cs"
  shows "term_data s ! unat (term_tail s) = c"
    and "term_contents (s\<lparr>term_tail := term_tail s + 1\<rparr>) = cs"
    and "term_head s \<noteq> term_tail s"
proof -
  let ?n = "unat (term_head s - term_tail s)"
  have len: "?n = Suc (length cs)" using assms by (metis length_Cons term_contents_length)
  then show ne: "term_head s \<noteq> term_tail s" by auto
  have split: "[0..<?n] = 0 # map Suc [0..<length cs]"
    unfolding len by (simp add: upt_conv_Cons map_Suc_upt del: upt_Suc)
  from assms show "term_data s ! unat (term_tail s) = c"
    unfolding term_contents_def split by simp
  have "unat (term_head s - (term_tail s + 1)) = length cs"
    using len ne unat_minus_one [of "term_head s - term_tail s"] by (simp add: diff_diff_eq)
  with assms show "term_contents (s\<lparr>term_tail := term_tail s + 1\<rparr>) = cs"
    unfolding term_contents_def split by (auto simp: comp_def algebra_simps)
qed

interpretation ring: byte_queue terminal_put terminal_get term_contents term_accepts term_wf 255
proof unfold_locales
  fix s :: "'a termdev_scheme" and c
  assume "term_wf s" "term_accepts c s" "length (term_contents s) < 255"
  then show "\<exists>s'. terminal_put c s = Some s' \<and> term_contents s' = term_contents s @ [c] \<and> term_wf s'
      \<and> (\<forall>d. term_accepts d s' = term_accepts d s)"
    by (simp add: terminal_put_data term_contents_put term_wf_def term_accepts_def)
next
  fix s :: "'a termdev_scheme" and c
  assume "term_wf s" "\<not> term_accepts c s"
  then show "\<exists>s'. terminal_put c s = Some s' \<and> term_contents s' = term_contents s \<and> term_wf s'
      \<and> (\<forall>d. term_accepts d s' = term_accepts d s)"
    using terminal_put_signal by blast
next
  fix s :: "'a termdev_scheme"
  assume "term_wf s" "term_contents s = []"
  then have "unat (term_head s - term_tail s) = 0" by (metis list.size(3) term_contents_length)
  then show "terminal_get s = Some (-1, s)" by (simp add: terminal_get_def unat_eq_0)
next
  fix s :: "'a termdev_scheme" and c cs
  assume wf: "term_wf s" and c: "term_contents s = c # cs"
  from wf have "unat (term_tail s) < length (term_data s)"
    using unat_u8_less [of "term_tail s"] by (simp add: term_wf_def)
  with wf term_contents_get [OF c]
  show "\<exists>s'. terminal_get s = Some (int (unat c), s') \<and> term_contents s' = cs \<and> term_wf s'
      \<and> (\<forall>d. term_accepts d s' = term_accepts d s)"
    by (simp add: terminal_get_def rd_def term_wf_def term_accepts_def)
qed

section \<open>Properties\<close>

text \<open>The events of a run of the terminal: bytes from the UART and \<open>sread\<close> calls.\<close>

fun terminal_run :: "(u8 + unit) list \<Rightarrow> 'a termdev_scheme \<Rightarrow> (int list \<times> 'a termdev_scheme) option" where
  "terminal_run [] s = Some ([], s)"
| "terminal_run (Inl c # es) s = do { s' \<leftarrow> terminal_put c s; terminal_run es s' }"
| "terminal_run (Inr u # es) s =
     do { (r, s') \<leftarrow> terminal_get s; (rs, s'') \<leftarrow> terminal_run es s'; Some (r # rs, s'') }"

lemma terminal_run_ring:
  fixes s :: "'a termdev_scheme"
  shows "terminal_run es s = ring.run es s"
proof (induction es arbitrary: s)
  case (Cons e es)
  then have "terminal_run es = (ring.run es :: 'a termdev_scheme \<Rightarrow> _)" by (intro ext)
  then show ?case by (cases e) simp_all
qed simp

text \<open>A signal that has been set stays set.\<close>

lemma terminal_run_cancelled:
  assumes "terminal_run es s = Some (rs, s')" "term_wf s"
    and "cancelled s \<or> (\<exists>c. Inl c \<in> set es \<and> \<not> term_accepts c s)"
  shows "cancelled s'"
  using assms
proof (induction es arbitrary: s rs)
  case (Cons e es)
  show ?case
  proof (cases e)
    case (Inl c)
    then obtain s1 where s1: "terminal_put c s = Some s1" "terminal_run es s1 = Some (rs, s')"
      using Cons.prems(1) by (auto simp: bind_eq_Some_conv)
    show ?thesis
    proof (cases "term_accepts c s")
      case True
      then have "cancelled s1 = cancelled s" "term_wf s1" "\<And>d. term_accepts d s1 = term_accepts d s"
        using s1(1) terminal_put_data [OF Cons.prems(2) True] Cons.prems(2)
        by (auto simp: cancelled_def term_wf_def term_accepts_def)
      then show ?thesis using Cons.IH [OF s1(2)] Cons.prems(3) Inl True by auto
    next
      case False
      then have "cancelled s1" "term_wf s1" using terminal_put_signal [OF Cons.prems(2) False] s1(1) by auto
      then show ?thesis using Cons.IH [OF s1(2)] by blast
    qed
  next
    case (Inr u)
    then obtain r s1 rs1 where s1: "terminal_get s = Some (r, s1)" "terminal_run es s1 = Some (rs1, s')"
      using Cons.prems(1) by (auto simp: bind_eq_Some_conv)
    then have "cancelled s1 = cancelled s" "term_wf s1" "\<And>d. term_accepts d s1 = term_accepts d s"
      using Cons.prems(2)
      by (auto simp: terminal_get_def bind_eq_Some_conv cancelled_def term_wf_def term_accepts_def split: if_splits)
    then show ?thesis using Cons.IH [OF s1(2)] Cons.prems(3) Inr by auto
  qed
qed auto

text \<open>C25. Bytes reach the reader in the order of arrival. For every interleaving of UART bytes and
  \<open>sread\<close> calls, as long as at most 255 bytes wait at a time, no call fails, each \<open>sread\<close> returns
  what an unbounded queue of the data bytes would (\<open>-1\<close> when it is empty), and what is left in the
  ring buffer is what is left in that queue. Data are all bytes when the current process is in binary mode and
  all but CANCEL in interactive mode; there CANCEL is not queued but sets the cancel flag of the process.\<close>

theorem terminal_fifo:
  assumes "term_wf s" "queue_fits 255 (data_events (\<lambda>c. term_accepts c s) es) (length (term_contents s))"
  shows "\<exists>s'. terminal_run es s = Some (fst (queue_spec (data_events (\<lambda>c. term_accepts c s) es) (term_contents s)), s')
    \<and> term_contents s' = snd (queue_spec (data_events (\<lambda>c. term_accepts c s) es) (term_contents s)) \<and> term_wf s'
    \<and> (\<forall>c. Inl c \<in> set es \<and> \<not> term_accepts c s \<longrightarrow> c = ASCII_CANCEL \<and> cancelled s')"
proof -
  obtain s' where s': "terminal_run es s = Some (fst (queue_spec (data_events (\<lambda>c. term_accepts c s) es) (term_contents s)), s')"
    "term_contents s' = snd (queue_spec (data_events (\<lambda>c. term_accepts c s) es) (term_contents s))" "term_wf s'"
    using ring.run_spec [OF assms] unfolding terminal_run_ring by blast
  then show ?thesis
    using terminal_run_cancelled [OF s'(1) assms(1)] by (auto simp: term_accepts_def)
qed

text \<open>The 256th waiting byte empties the buffer: there is no overflow check, \<open>head\<close> wraps onto
  \<open>tail\<close>, and the reader is told that nothing has arrived.\<close>

theorem terminal_overflow_loses_all:
  assumes wf: "term_wf s" and full: "length (term_contents s) = 255" and acc: "term_accepts c s"
  shows "\<exists>s'. terminal_put c s = Some s' \<and> term_contents s' = [] \<and> terminal_get s' = Some (-1, s')"
proof -
  let ?s = "s\<lparr>term_data := (term_data s)[unat (term_head s) := c], term_head := term_head s + 1\<rparr>"
  have "term_head s - term_tail s = 255" using full by (simp add: word_unat_eq_iff)
  then have eq: "term_head s + 1 = term_tail s" by (simp add: diff_eq_eq)
  then have "term_contents ?s = []" by (simp add: term_contents_def)
  with eq show ?thesis
    using terminal_put_data [OF wf acc] by (simp add: terminal_get_def)
qed

text \<open>In interactive mode CANCEL is not data: it sets the cancel flag of the current process
  and leaves the buffer alone; in binary mode it is stored like any other byte.\<close>

theorem terminal_put_cancel:
  assumes "process_current s = Some p" "term_wf s"
  shows "terminal_put ASCII_CANCEL s =
    (if termstatus p AND TERMSTATUS_MODE_BINARY = 0 then signal_set SIGSTAT_CANCEL s
     else Some (s\<lparr>term_data := (term_data s)[unat (term_head s) := ASCII_CANCEL],
                  term_head := term_head s + 1\<rparr>))"
proof (cases "termstatus p AND TERMSTATUS_MODE_BINARY = 0")
  case True
  with assms(1) show ?thesis by (simp add: terminal_put_def terminal_status_def BIT_IS_CLR_def)
next
  case False
  with assms(1) have "term_accepts ASCII_CANCEL s" by (simp add: term_accepts_def BIT_IS_CLR_def)
  with False assms(2) show ?thesis by (simp add: terminal_put_data)
qed

text \<open>A terminal whose current process is in the given mode and whose buffer holds \<open>n\<close> zeros.\<close>

definition demo_terminal :: "u8 \<Rightarrow> u8 \<Rightarrow> termdev" where
  "demo_terminal m n =
     \<lparr>process_table = [\<lparr>base_address = 0x8000, bank = 1, termstatus = m, sigstatus = 0, sighandlers = \<lparr>cancel = 0, brk = 0\<rparr>\<rparr>],
      process_current_ptr = 0, term_data = replicate 256 0, term_head = n, term_tail = 0\<rparr>"

lemma demo_terminal:
  "term_wf (demo_terminal m n)" "length (term_contents (demo_terminal m n)) = unat n"
  "process_current (demo_terminal m n) = Some (process_table (demo_terminal m n) ! 0)"
  "term_contents (demo_terminal m 0) = []" "c \<noteq> ASCII_CANCEL \<Longrightarrow> term_accepts c (demo_terminal m n)"
  by (simp_all add: demo_terminal_def term_wf_def term_contents_def process_current_def process_info_def term_accepts_def
      terminal_status_def)

lemma terminal_fifo_witness:
  "\<exists>s'. terminal_run [Inl 7, Inl 8, Inr (), Inl ASCII_CANCEL, Inl 9, Inr ()] (demo_terminal 0 0) = Some ([7, 8], s')
     \<and> term_contents s' = [9] \<and> cancelled s'"
proof -
  have "\<not> term_accepts ASCII_CANCEL (demo_terminal 0 0)"
    by (simp add: demo_terminal(3) term_accepts_def BIT_IS_CLR_def) (simp add: demo_terminal_def)
  then show ?thesis
    using terminal_fifo [of "demo_terminal 0 0" "[Inl 7, Inl 8, Inr (), Inl ASCII_CANCEL, Inl 9, Inr ()]"]
    by (auto simp: demo_terminal)
qed

lemma terminal_overflow_loses_all_witness:
  "\<exists>s'. terminal_put 7 (demo_terminal 0 255) = Some s' \<and> term_contents s' = []"
proof -
  have full: "length (term_contents (demo_terminal 0 255)) = 255" by (simp only: demo_terminal(2)) simp
  have "term_accepts 7 (demo_terminal 0 255)" by (rule demo_terminal(5)) simp
  from terminal_overflow_loses_all [OF demo_terminal(1) full this] show ?thesis by blast
qed

lemma terminal_put_cancel_witness:
  "terminal_put ASCII_CANCEL (demo_terminal 0 0) = signal_set SIGSTAT_CANCEL (demo_terminal 0 0)"
  using terminal_put_cancel [OF demo_terminal(3,1)] by (simp add: demo_terminal_def)

end
