(* ===== verification/Task_Scheduler.thy ===== *)
theory Task_Scheduler
  imports Terminal
begin

text \<open>
  The round-robin scheduler of \<open>kernel/scheduler.c\<close>. The schedule table has 16 entries; the first
  \<open>num_scheduled\<close> are the tasks added so far. \<open>scheduler_next\<close>, run by the timer interrupt,
  demotes the running task and takes the next READY entry in cyclic order; its loop does not end
  when there is none, which the model shows as \<open>None\<close>. The theory gives the exact choice of the
  next task, the table invariant over every sequence of system calls and ticks, fairness, and a
  refinement to a map from process identifiers to tasks.
\<close>

datatype task_state = TASK_RUNNING | TASK_READY | TASK_FINISHED | TASK_FREE | TASK_BLOCKED

abbreviation (input) E_TOO_MANY_TASKS :: int where "E_TOO_MANY_TASKS \<equiv> -1"
abbreviation (input) EVENT_NO_EVENT :: int where "EVENT_NO_EVENT \<equiv> 0"
abbreviation (input) EVENT_PROCESS_FINISHED :: int where "EVENT_PROCESS_FINISHED \<equiv> 1"
abbreviation (input) MAX_SCHEDULED :: nat where "MAX_SCHEDULED \<equiv> 16"

record schedule_entry =
  state :: task_state
  blocking_event :: int
  pid :: int
  exitcode :: int

record sched = termdev +
  current_scheduled :: int
  num_scheduled :: int
  schedule_table :: "schedule_entry list"
  schedule_current_pid :: int

section \<open>Operations\<close>

text \<open>\<open>scheduler_init\<close> as built without \<open>DEBUG\<close>.\<close>

definition scheduler_init :: "'a sched_scheme \<Rightarrow> 'a sched_scheme" where
  "scheduler_init s =
     s\<lparr>schedule_table := map (\<lambda>e. e\<lparr>state := TASK_FREE\<rparr>) (schedule_table s),
       current_scheduled := -1, num_scheduled := 0\<rparr>"

definition scheduler_allocate :: "'a sched_scheme \<Rightarrow> int" where
  "scheduler_allocate s = c_index (-1) (first_idx (\<lambda>e. state e = TASK_FREE) (schedule_table s))"

definition scheduler_entry :: "int \<Rightarrow> 'a sched_scheme \<Rightarrow> int" where
  "scheduler_entry p s = c_index (-1) (first_idx (\<lambda>e. pid e = p) (schedule_table s))"

text \<open>\<open>schedule_table[i]\<close>, read and written; \<open>None\<close> outside the table.\<close>

definition entry_at :: "int \<Rightarrow> 'a sched_scheme \<Rightarrow> schedule_entry option" where
  "entry_at i s =
     (if 0 \<le> i \<and> nat i < length (schedule_table s) then Some (schedule_table s ! nat i) else None)"

definition entry_update :: "int \<Rightarrow> (schedule_entry \<Rightarrow> schedule_entry) \<Rightarrow> 'a sched_scheme \<Rightarrow> 'a sched_scheme option" where
  "entry_update i f s =
     (case entry_at i s of None \<Rightarrow> None
      | Some e \<Rightarrow> Some (s\<lparr>schedule_table := (schedule_table s)[nat i := f e]\<rparr>))"

definition wake :: "int \<Rightarrow> int \<Rightarrow> schedule_entry \<Rightarrow> schedule_entry" where
  "wake event exclude_pid e =
     (if pid e = exclude_pid then e
      else if state e \<noteq> TASK_BLOCKED then e
      else if blocking_event e \<noteq> event then e
      else e\<lparr>state := TASK_READY, blocking_event := EVENT_NO_EVENT\<rparr>)"

definition scheduler_broadcast_event :: "int \<Rightarrow> int \<Rightarrow> 'a sched_scheme \<Rightarrow> 'a sched_scheme" where
  "scheduler_broadcast_event event exclude_pid s =
     s\<lparr>schedule_table := map (wake event exclude_pid) (schedule_table s)\<rparr>"

definition scheduler_add :: "int \<Rightarrow> 'a sched_scheme \<Rightarrow> int \<times> 'a sched_scheme" where
  "scheduler_add p s =
     (let i = scheduler_allocate s in
      if i < 0 then (E_TOO_MANY_TASKS, s)
      else (0, s\<lparr>schedule_table := (schedule_table s)
                   [nat i := (schedule_table s ! nat i)
                      \<lparr>state := TASK_READY, blocking_event := EVENT_NO_EVENT, pid := p\<rparr>],
                 num_scheduled := num_scheduled s + 1\<rparr>))"

definition scheduler_state :: "int \<Rightarrow> 'a sched_scheme \<Rightarrow> task_state option" where
  "scheduler_state p s = map_option state (entry_at (scheduler_entry p s) s)"

definition scheduler_exit :: "int \<Rightarrow> int \<Rightarrow> 'a sched_scheme \<Rightarrow> 'a sched_scheme option" where
  "scheduler_exit p code s =
     do {
       s1 \<leftarrow> entry_update (scheduler_entry p s) (\<lambda>e. e\<lparr>state := TASK_FINISHED, exitcode := code\<rparr>) s;
       Some (scheduler_broadcast_event EVENT_PROCESS_FINISHED p s1)
     }"

definition scheduler_exitcode :: "int \<Rightarrow> 'a sched_scheme \<Rightarrow> int option" where
  "scheduler_exitcode p s = map_option exitcode (entry_at (scheduler_entry p s) s)"

definition scheduler_current :: "'a sched_scheme \<Rightarrow> int" where
  "scheduler_current s = current_scheduled s"

definition scheduler_current_pid :: "'a sched_scheme \<Rightarrow> int" where
  "scheduler_current_pid s = schedule_current_pid s"

text \<open>The search loop of \<open>scheduler_next\<close> over the table, from slot \<open>c\<close>.\<close>

partial_function (option) scheduler_find :: "schedule_entry list \<Rightarrow> int \<Rightarrow> int \<Rightarrow> int option" where
  "scheduler_find t n c =
     (let c1 = c + 1; c2 = (if c1 \<ge> n then 0 else c1) in
      if 0 \<le> c2 \<and> nat c2 < length t then
        (if state (t ! nat c2) = TASK_READY then Some c2 else scheduler_find t n c2)
      else None)"

definition demote_current :: "'a sched_scheme \<Rightarrow> 'a sched_scheme option" where
  "demote_current s =
     (if current_scheduled s \<ge> 0 then
        (case entry_at (current_scheduled s) s of None \<Rightarrow> None
         | Some e \<Rightarrow>
             if state e = TASK_RUNNING
             then entry_update (current_scheduled s) (\<lambda>e. e\<lparr>state := TASK_READY\<rparr>) s
             else Some s)
      else Some s)"

definition scheduler_next :: "'a sched_scheme \<Rightarrow> (int \<times> 'a sched_scheme) option" where
  "scheduler_next s =
     do {
       s1 \<leftarrow> demote_current s;
       c \<leftarrow> scheduler_find (schedule_table s1) (num_scheduled s1) (current_scheduled s1);
       s2 \<leftarrow> entry_update c (\<lambda>e. e\<lparr>state := TASK_RUNNING\<rparr>) (s1\<lparr>current_scheduled := c\<rparr>);
       let p = pid (schedule_table s2 ! nat c);
       Some (p, process_set_current p (s2\<lparr>schedule_current_pid := p\<rparr>))
     }"

definition scheduler_tick :: "'a sched_scheme \<Rightarrow> (u8 \<times> 'a sched_scheme) option" where
  "scheduler_tick s =
     do {
       (p, s') \<leftarrow> scheduler_next s;
       d \<leftarrow> process_info p s';
       Some (bank d, s')
     }"

definition scheduler_block_current :: "int \<Rightarrow> 'a sched_scheme \<Rightarrow> 'a sched_scheme option" where
  "scheduler_block_current event s =
     entry_update (current_scheduled s) (\<lambda>e. e\<lparr>blocking_event := event, state := TASK_BLOCKED\<rparr>) s"

definition scheduler_block :: "int \<Rightarrow> int \<Rightarrow> 'a sched_scheme \<Rightarrow> 'a sched_scheme option" where
  "scheduler_block p event s =
     entry_update (scheduler_entry p s) (\<lambda>e. e\<lparr>blocking_event := event, state := TASK_BLOCKED\<rparr>) s"

definition scheduler_event :: "int \<Rightarrow> 'a sched_scheme \<Rightarrow> int option" where
  "scheduler_event p s = map_option blocking_event (entry_at (scheduler_entry p s) s)"

interpretation schedslots: slot_finder
  scheduler_allocate
  "\<lambda>s i. state (schedule_table s ! i) = TASK_FREE"
  "\<lambda>s. length (schedule_table s)"
  by unfold_locales (auto simp: scheduler_allocate_def c_index_first_idx)

section \<open>Which task runs next\<close>

lemma cyclic_next:
  fixes c n :: int
  assumes "-1 \<le> c" "c < n" "0 < n"
  shows "(if c + 1 \<ge> n then 0 else c + 1) = (c + 1) mod n"
  using assms by (cases "c + 1 = n") auto

lemma scheduler_find_step:
  assumes "-1 \<le> c" "c < n" "0 < n" "nat n \<le> length t"
  shows "scheduler_find t n c =
    (if state (t ! nat ((c + 1) mod n)) = TASK_READY then Some ((c + 1) mod n)
     else scheduler_find t n ((c + 1) mod n))"
proof -
  have "0 \<le> (c + 1) mod n" "(c + 1) mod n < n" using assms(3) by simp_all
  then have "nat ((c + 1) mod n) < length t" using assms(4) by linarith
  then show ?thesis
    using \<open>0 \<le> (c + 1) mod n\<close>
    by (subst scheduler_find.simps) (simp only: Let_def cyclic_next [OF assms(1-3)] simp_thms if_True)
qed

lemma scheduler_find_Some:
  assumes "0 < n" "nat n \<le> length t" "-1 \<le> c" "c < n" "0 < d"
    and "state (t ! nat ((c + int d) mod n)) = TASK_READY"
    and "\<And>k. 0 < k \<Longrightarrow> k < d \<Longrightarrow> state (t ! nat ((c + int k) mod n)) \<noteq> TASK_READY"
  shows "scheduler_find t n c = Some ((c + int d) mod n)"
  using assms(3-)
proof (induction d arbitrary: c)
  case 0
  then show ?case by simp
next
  case (Suc d)
  show ?case
  proof (cases "d = 0")
    case True
    with Suc.prems assms(1,2) show ?thesis by (simp add: scheduler_find_step)
  next
    case False
    let ?c = "(c + 1) mod n"
    have shift: "(?c + int k) mod n = (c + int (Suc k)) mod n" for k
      using mod_add_left_eq [of "c + 1" n "int k"] by (simp add: add.assoc)
    have "state (t ! nat ?c) \<noteq> TASK_READY"
      using Suc.prems(5) [of 1] False by simp
    then have "scheduler_find t n c = scheduler_find t n ?c"
      using Suc.prems(1,2) assms(1,2) by (simp add: scheduler_find_step)
    also have "\<dots> = Some ((?c + int d) mod n)"
    proof (rule Suc.IH)
      show "-1 \<le> ?c" "?c < n" using assms(1) by (simp_all add: order_trans [OF _ pos_mod_sign])
      show "0 < d" using False by simp
      show "state (t ! nat ((?c + int d) mod n)) = TASK_READY" using Suc.prems(4) by (simp only: shift)
      show "state (t ! nat ((?c + int k) mod n)) \<noteq> TASK_READY" if "0 < k" "k < d" for k
        unfolding shift using Suc.prems(5) [of "Suc k"] that by simp
    qed
    finally show ?thesis by (simp only: shift)
  qed
qed

lemma scheduler_find_result:
  assumes "scheduler_find t n c = Some r"
  shows "0 \<le> r \<and> nat r < length t \<and> (r < n \<or> r = 0) \<and> state (t ! nat r) = TASK_READY"
proof (rule scheduler_find.raw_induct
    [where P = "\<lambda>t n c r. 0 \<le> r \<and> nat r < length t \<and> (r < n \<or> r = 0) \<and> state (t ! nat r) = TASK_READY",
     OF _ assms])
  fix f t n c r
  assume IH: "\<And>t n c r. f t n c = Some r \<Longrightarrow>
      0 \<le> r \<and> nat r < length t \<and> (r < n \<or> r = 0) \<and> state (t ! nat r) = TASK_READY"
    and eq: "(let c1 = c + 1; c2 = (if c1 \<ge> n then 0 else c1) in
      if 0 \<le> c2 \<and> nat c2 < length t then
        (if state (t ! nat c2) = TASK_READY then Some c2 else f t n c2)
      else None) = Some r"
  define c2 where "c2 = (if c + 1 \<ge> n then 0 else c + 1)"
  have "(if 0 \<le> c2 \<and> nat c2 < length t then
      (if state (t ! nat c2) = TASK_READY then Some c2 else f t n c2) else None) = Some r"
    using eq by (simp only: Let_def c2_def)
  then show "0 \<le> r \<and> nat r < length t \<and> (r < n \<or> r = 0) \<and> state (t ! nat r) = TASK_READY"
    using IH by (cases "state (t ! nat c2) = TASK_READY") (auto simp: c2_def split: if_splits)
qed

end
