(* ===== verification/Scheduler_Proofs.thy ===== *)
theory Scheduler_Proofs
  imports Task_Scheduler
begin

text \<open>
  Correctness of the scheduler. \<open>sched_wf\<close> is the invariant of the schedule table; under it
  \<open>scheduler_next\<close> is characterised completely (\<open>scheduler_next_eq\<close>), the operations refine a map
  from process identifiers to tasks (\<open>task_map\<close>), and the invariant holds after every sequence of
  the calls the kernel makes (\<open>sched_step\<close>).
\<close>

section \<open>The invariant\<close>

definition sched_wf :: "'a sched_scheme \<Rightarrow> bool" where
  "sched_wf s \<longleftrightarrow> length (schedule_table s) = MAX_SCHEDULED
     \<and> 0 \<le> num_scheduled s \<and> num_scheduled s \<le> int MAX_SCHEDULED
     \<and> -1 \<le> current_scheduled s \<and> current_scheduled s < num_scheduled s
     \<and> (\<forall>i < MAX_SCHEDULED. state (schedule_table s ! i) = TASK_FREE \<longleftrightarrow> num_scheduled s \<le> int i)
     \<and> (\<forall>i < MAX_SCHEDULED. state (schedule_table s ! i) = TASK_RUNNING \<longrightarrow> int i = current_scheduled s)
     \<and> (0 \<le> current_scheduled s \<longrightarrow>
          schedule_current_pid s = pid (schedule_table s ! nat (current_scheduled s)))"

lemma sched_wfD:
  assumes "sched_wf s"
  shows "length (schedule_table s) = MAX_SCHEDULED"
    and "0 \<le> num_scheduled s" "num_scheduled s \<le> int MAX_SCHEDULED"
    and "-1 \<le> current_scheduled s" "current_scheduled s < num_scheduled s"
    and "\<And>i. i < MAX_SCHEDULED \<Longrightarrow> state (schedule_table s ! i) = TASK_FREE \<longleftrightarrow> num_scheduled s \<le> int i"
    and "\<And>i. i < MAX_SCHEDULED \<Longrightarrow> state (schedule_table s ! i) = TASK_RUNNING \<Longrightarrow> int i = current_scheduled s"
    and "0 \<le> current_scheduled s \<Longrightarrow>
          schedule_current_pid s = pid (schedule_table s ! nat (current_scheduled s))"
  using assms by (auto simp: sched_wf_def)

lemma scheduler_init_wf:
  "length (schedule_table s) = MAX_SCHEDULED \<Longrightarrow> sched_wf (scheduler_init s)"
  by (simp add: sched_wf_def scheduler_init_def)

lemma entry_update_eq:
  "0 \<le> i \<Longrightarrow> nat i < length (schedule_table s) \<Longrightarrow>
   entry_update i f s = Some (s\<lparr>schedule_table := (schedule_table s)[nat i := f (schedule_table s ! nat i)]\<rparr>)"
  by (simp add: entry_update_def entry_at_def)

section \<open>The next task\<close>

definition demote :: "schedule_entry \<Rightarrow> schedule_entry" where
  "demote e = (if state e = TASK_RUNNING then e\<lparr>state := TASK_READY\<rparr> else e)"

definition runnable :: "'a sched_scheme \<Rightarrow> nat \<Rightarrow> bool" where
  "runnable s i \<longleftrightarrow> state (schedule_table s ! i) \<in> {TASK_READY, TASK_RUNNING}"

text \<open>The slots in the order the loop visits them: after the current one, cyclically.\<close>

definition cyclic_order :: "'a sched_scheme \<Rightarrow> nat list" where
  "cyclic_order s =
     map (\<lambda>d. nat ((current_scheduled s + int (Suc d)) mod num_scheduled s)) [0..<nat (num_scheduled s)]"

definition run_slot :: "nat \<Rightarrow> 'a sched_scheme \<Rightarrow> 'a sched_scheme" where
  "run_slot i s =
     (let p = pid (schedule_table s ! i) in
      s\<lparr>process_current_ptr := p, current_scheduled := int i, schedule_current_pid := p,
        schedule_table := (map demote (schedule_table s))[i := (schedule_table s ! i)\<lparr>state := TASK_RUNNING\<rparr>]\<rparr>)"

lemma demote_current_eq:
  assumes "sched_wf s"
  shows "demote_current s = Some (s\<lparr>schedule_table := map demote (schedule_table s)\<rparr>)"
proof -
  let ?c = "current_scheduled s" and ?t = "schedule_table s"
  note wf = sched_wfD [OF assms]
  have others: "demote (?t ! i) = ?t ! i" if "i < MAX_SCHEDULED" "int i \<noteq> ?c" for i
    using wf(7) [OF that(1)] that(2) by (auto simp: demote_def)
  show ?thesis
  proof (cases "0 \<le> ?c \<and> state (?t ! nat ?c) = TASK_RUNNING")
    case True
    then have cur: "demote (?t ! nat ?c) = (?t ! nat ?c)\<lparr>state := TASK_READY\<rparr>"
      by (simp add: demote_def)
    have "?t[nat ?c := (?t ! nat ?c)\<lparr>state := TASK_READY\<rparr>] = map demote ?t"
      unfolding cur [symmetric] using True wf(1,3,5)
      by (intro nth_equalityI) (auto simp: nth_list_update others)
    with True wf(1,3,5) show ?thesis
      by (simp add: demote_current_def entry_at_def entry_update_eq)
  next
    case False
    have "demote (?t ! i) = ?t ! i" if "i < MAX_SCHEDULED" for i
    proof (cases "int i = ?c")
      case True
      then have "nat ?c = i" by linarith
      with False True show ?thesis by (simp add: demote_def)
    qed (rule others [OF that])
    then have "map demote ?t = ?t" using wf(1) by (intro nth_equalityI) auto
    with False wf(1,3,5) show ?thesis
      by (auto simp: demote_current_def entry_at_def)
  qed
qed

lemma cyclic_order_bound:
  "i \<in> set (cyclic_order s) \<Longrightarrow> int i < num_scheduled s"
  by (auto simp: cyclic_order_def)

lemma cyclic_order_all:
  assumes "sched_wf s" "int i < num_scheduled s"
  shows "i \<in> set (cyclic_order s)"
proof -
  let ?c = "current_scheduled s" and ?n = "num_scheduled s"
  let ?d = "nat ((int i - ?c - 1) mod ?n)"
  have n: "0 < ?n" using assms(2) by linarith
  have d: "int ?d = (int i - ?c - 1) mod ?n" "?d < nat ?n" using n by (simp_all add: nat_less_iff)
  have "(?c + int (Suc ?d)) mod ?n = (?c + 1 + (int i - ?c - 1) mod ?n) mod ?n"
    using d(1) by (simp add: algebra_simps)
  also have "\<dots> = int i" using assms(2) by (simp add: mod_add_right_eq)
  finally have "i = nat ((?c + int (Suc ?d)) mod ?n)" by simp
  then show ?thesis unfolding cyclic_order_def set_map set_upt
    using d(2) by (intro image_eqI [of _ _ ?d]) auto
qed

lemma scheduler_next_eq:
  assumes "sched_wf s"
  shows "scheduler_next s = (case List.find (runnable s) (cyclic_order s) of
      None \<Rightarrow> None | Some i \<Rightarrow> Some (pid (schedule_table s ! i), run_slot i s))"
proof -
  let ?c = "current_scheduled s" and ?n = "num_scheduled s"
  let ?t = "map demote (schedule_table s)"
  note wf = sched_wfD [OF assms]
  have ready: "state (?t ! i) = TASK_READY \<longleftrightarrow> runnable s i" if "i < MAX_SCHEDULED" for i
    using that wf(1) by (auto simp: runnable_def demote_def)
  have n16: "nat ?n \<le> length ?t" using wf(1,3) by simp
  show ?thesis
  proof (cases "List.find (runnable s) (cyclic_order s)")
    case None
    have "scheduler_find ?t ?n ?c = None"
    proof (rule ccontr)
      assume "scheduler_find ?t ?n ?c \<noteq> None"
      then obtain r where "scheduler_find ?t ?n ?c = Some r" by auto
      note r = scheduler_find_result [OF this]
      then have 16: "nat r < MAX_SCHEDULED" using wf(1) by simp
      with r ready have run: "runnable s (nat r)" by simp
      with wf(6) [OF 16] have "int (nat r) < ?n" by (auto simp: runnable_def)
      then have "nat r \<in> set (cyclic_order s)" by (rule cyclic_order_all [OF assms])
      with run None show False by (auto simp: find_None_iff)
    qed
    with None show ?thesis
      by (simp add: scheduler_next_def demote_current_eq [OF assms])
  next
    case (Some i)
    then obtain d where d: "d < nat ?n" "i = nat ((?c + int (Suc d)) mod ?n)" "runnable s i"
        "\<And>k. k < d \<Longrightarrow> \<not> runnable s (nat ((?c + int (Suc k)) mod ?n))"
      by (auto simp: find_Some_iff cyclic_order_def)
    have n: "0 < ?n" using d(1) by simp
    have i: "int i = (?c + int (Suc d)) mod ?n" using d(2) n by simp
    have lt: "nat ((?c + k) mod ?n) < MAX_SCHEDULED" for k
      using pos_mod_bound [OF n, of "?c + k"] wf(3) by linarith
    have "scheduler_find ?t ?n ?c = Some ((?c + int (Suc d)) mod ?n)"
    proof (rule scheduler_find_Some [OF n n16 wf(4,5)])
      show "state (?t ! nat ((?c + int (Suc d)) mod ?n)) = TASK_READY"
        using d(3) unfolding d(2) by (subst ready [OF lt])
      fix k assume "0 < k" "k < Suc d"
      then obtain j where "k = Suc j" "j < d" by (cases k) auto
      with d(4) [of j] show "state (?t ! nat ((?c + int k) mod ?n)) \<noteq> TASK_READY"
        by (subst ready [OF lt]) simp
    qed simp
    then have "scheduler_find ?t ?n ?c = Some (int i)" by (simp only: i)
    moreover have "i < MAX_SCHEDULED" unfolding d(2) by (rule lt)
    moreover have "(demote e)\<lparr>state := TASK_RUNNING\<rparr> = e\<lparr>state := TASK_RUNNING\<rparr>" "pid (demote e) = pid e" for e
      by (simp_all add: demote_def)
    ultimately show ?thesis
      using Some wf(1)
      by (simp add: scheduler_next_def demote_current_eq [OF assms] entry_update_eq run_slot_def
            process_set_current_def Let_def)
  qed
qed

section \<open>The operations keep the invariant\<close>

lemma run_slot_simps [simp]:
  "num_scheduled (run_slot i s) = num_scheduled s"
  "current_scheduled (run_slot i s) = int i"
  "length (schedule_table (run_slot i s)) = length (schedule_table s)"
  "process_table (run_slot i s) = process_table s"
  by (simp_all add: run_slot_def Let_def)

lemma run_slot_nth:
  "i < length (schedule_table s) \<Longrightarrow> j < length (schedule_table s) \<Longrightarrow>
   schedule_table (run_slot i s) ! j =
     (if j = i then (schedule_table s ! i)\<lparr>state := TASK_RUNNING\<rparr> else demote (schedule_table s ! j))"
  by (simp add: run_slot_def Let_def nth_list_update)

lemma demote_simps [simp]:
  "pid (demote e) = pid e" "exitcode (demote e) = exitcode e" "blocking_event (demote e) = blocking_event e"
  "state (demote e) = (if state e = TASK_RUNNING then TASK_READY else state e)"
  by (simp_all add: demote_def)

lemma run_slot_pids [simp]:
  "i < length (schedule_table s) \<Longrightarrow> map pid (schedule_table (run_slot i s)) = map pid (schedule_table s)"
  by (rule nth_equalityI) (simp_all add: run_slot_nth)

lemma run_slot_wf:
  assumes "sched_wf s" "int i < num_scheduled s" "runnable s i"
  shows "sched_wf (run_slot i s)"
proof -
  note wf = sched_wfD [OF assms(1)]
  have i: "i < MAX_SCHEDULED" using assms(2) wf(3) by simp
  have "state (schedule_table (run_slot i s) ! j) = TASK_FREE \<longleftrightarrow> num_scheduled s \<le> int j"
    and "state (schedule_table (run_slot i s) ! j) = TASK_RUNNING \<longrightarrow> int j = int i" if "j < MAX_SCHEDULED" for j
    using that i wf(1) wf(6) [OF that] assms(2) by (auto simp: run_slot_nth split: if_splits)
  moreover have "schedule_current_pid (run_slot i s) = pid (schedule_table (run_slot i s) ! i)"
    using i wf(1) by (simp add: run_slot_nth) (simp add: run_slot_def Let_def)
  ultimately show ?thesis using wf(1-3) assms(2) by (simp add: sched_wf_def)
qed

lemma scheduler_next_cases:
  assumes "sched_wf s"
  obtains (stuck) "scheduler_next s = None" "\<forall>i. int i < num_scheduled s \<longrightarrow> \<not> runnable s i"
    | (runs) i where "scheduler_next s = Some (pid (schedule_table s ! i), run_slot i s)"
        "List.find (runnable s) (cyclic_order s) = Some i" "runnable s i"
        "int i < num_scheduled s" "i < MAX_SCHEDULED" "sched_wf (run_slot i s)"
proof (cases "List.find (runnable s) (cyclic_order s)")
  case None
  then have "\<forall>i. int i < num_scheduled s \<longrightarrow> \<not> runnable s i"
    using cyclic_order_all [OF assms] by (auto simp: find_None_iff)
  with None show ?thesis
    using scheduler_next_eq [OF assms] by (intro stuck) simp_all
next
  case (Some i)
  then have "runnable s i" "i \<in> set (cyclic_order s)" by (auto simp: find_Some_iff)
  moreover have "int i < num_scheduled s" using calculation(2) by (rule cyclic_order_bound)
  moreover have "i < MAX_SCHEDULED" using calculation(3) sched_wfD(3) [OF assms] by simp
  ultimately show ?thesis
    using scheduler_next_eq [OF assms] Some run_slot_wf [OF assms]
    by (intro runs) simp_all
qed

text \<open>\<open>add_slot\<close> is the effect of a successful \<open>scheduler_add\<close> under the invariant: the tasks form a
  prefix of the table, so the free entry is the one after the last task.\<close>

lemma scheduler_allocate_eq:
  assumes "sched_wf s"
  shows "scheduler_allocate s = (if num_scheduled s = int MAX_SCHEDULED then -1 else num_scheduled s)"
proof (cases "num_scheduled s = int MAX_SCHEDULED")
  case True
  with assms have "scheduler_allocate s < 0"
    by (intro schedslots.find_neg_iff [THEN iffD2]) (auto simp: sched_wf_def)
  with True show ?thesis by (auto simp: scheduler_allocate_def c_index_def split: option.splits)
next
  case False
  note wf = sched_wfD [OF assms]
  have "scheduler_allocate s = int (nat (num_scheduled s))"
    using False wf by (intro schedslots.find_eq) auto
  with False wf(2) show ?thesis by simp
qed

lemma scheduler_add_eq:
  assumes "sched_wf s"
  shows "scheduler_add p s =
    (if num_scheduled s = int MAX_SCHEDULED then (E_TOO_MANY_TASKS, s)
     else (0, s\<lparr>schedule_table := (schedule_table s)[nat (num_scheduled s) :=
                  (schedule_table s ! nat (num_scheduled s))
                    \<lparr>state := TASK_READY, blocking_event := EVENT_NO_EVENT, pid := p\<rparr>],
                num_scheduled := num_scheduled s + 1\<rparr>))"
  using sched_wfD(2) [OF assms] by (simp add: scheduler_add_def scheduler_allocate_eq [OF assms] Let_def)

lemma take_Suc_nat: "0 \<le> n \<Longrightarrow> nat n < length t \<Longrightarrow> take (nat (n + 1)) t = take (nat n) t @ [t ! nat n]"
  by (simp add: nat_add_distrib take_Suc_conv_app_nth)

section \<open>The tasks as a map from process identifiers\<close>

definition task_map :: "'a sched_scheme \<Rightarrow> int \<Rightarrow> schedule_entry option" where
  "task_map s p = List.find (\<lambda>e. pid e = p) (take (nat (num_scheduled s)) (schedule_table s))"

text \<open>No check keeps an identifier from being added twice. The functions that look a task up by its
  identifier find the first entry that holds it.\<close>

definition distinct_pids :: "'a sched_scheme \<Rightarrow> bool" where
  "distinct_pids s \<longleftrightarrow> distinct (map pid (take (nat (num_scheduled s)) (schedule_table s)))"

definition first_slot :: "'a sched_scheme \<Rightarrow> nat \<Rightarrow> int \<Rightarrow> bool" where
  "first_slot s i p \<longleftrightarrow> int i < num_scheduled s \<and> pid (schedule_table s ! i) = p
     \<and> (\<forall>j < i. pid (schedule_table s ! j) \<noteq> p)"

lemma first_slotD:
  assumes "first_slot s i p"
  shows "int i < num_scheduled s" "pid (schedule_table s ! i) = p" "\<And>j. j < i \<Longrightarrow> pid (schedule_table s ! j) \<noteq> p"
  using assms by (simp_all add: first_slot_def)

lemma slot_pid_inject:
  assumes "sched_wf s" "distinct_pids s" "int i < num_scheduled s" "int j < num_scheduled s"
    and "pid (schedule_table s ! i) = pid (schedule_table s ! j)"
  shows "i = j"
proof -
  note wf = sched_wfD [OF assms(1)]
  let ?ps = "map pid (take (nat (num_scheduled s)) (schedule_table s))"
  have "i < length ?ps" "j < length ?ps" "?ps ! i = ?ps ! j" using wf(1,3) assms by simp_all
  then show ?thesis using assms(2) nth_eq_iff_index_eq unfolding distinct_pids_def by blast
qed

lemma first_slot_exists:
  assumes "int j < num_scheduled s" "pid (schedule_table s ! j) = p"
  obtains i where "first_slot s i p" "i \<le> j"
proof -
  obtain i where i: "pid (schedule_table s ! i) = p" "\<And>k. k < i \<Longrightarrow> pid (schedule_table s ! k) \<noteq> p"
    using exists_least_iff [of "\<lambda>i. pid (schedule_table s ! i) = p"] assms(2) by blast
  have "i \<le> j" using i(2) [of j] assms(2) by force
  moreover have "int i < num_scheduled s" using calculation assms(1) by linarith
  then have "first_slot s i p" unfolding first_slot_def using i by blast
  ultimately show thesis using that by blast
qed

lemma first_slot_distinct:
  assumes "sched_wf s" "distinct_pids s" "int i < num_scheduled s" "pid (schedule_table s ! i) = p"
  shows "first_slot s i p"
proof -
  obtain k where k: "first_slot s k p" using assms(3,4) by (rule first_slot_exists)
  have "pid (schedule_table s ! k) = pid (schedule_table s ! i)" using first_slotD(2) [OF k] assms(4) by simp
  then have "k = i" by (rule slot_pid_inject [OF assms(1,2) first_slotD(1) [OF k] assms(3)])
  with k show ?thesis by simp
qed

lemma task_map_first:
  assumes "sched_wf s"
  shows "task_map s p = Some e \<longleftrightarrow> (\<exists>i. first_slot s i p \<and> schedule_table s ! i = e)"
proof -
  note wf = sched_wfD [OF assms]
  let ?t = "take (nat (num_scheduled s)) (schedule_table s)"
  have len: "length ?t = nat (num_scheduled s)" using wf(1,3) by simp
  have slot: "i < length ?t \<and> pid (?t ! i) = p \<and> ?t ! i = e \<and> (\<forall>j<i. pid (?t ! j) \<noteq> p)
      \<longleftrightarrow> first_slot s i p \<and> schedule_table s ! i = e" for i
    using len wf(2) by (simp add: first_slot_def zless_nat_eq_int_zless) (safe; simp add: zless_nat_eq_int_zless)
  have "task_map s p = Some e \<longleftrightarrow> (\<exists>i < length ?t. pid (?t ! i) = p \<and> e = ?t ! i \<and> (\<forall>j<i. pid (?t ! j) \<noteq> p))"
    by (simp only: task_map_def find_Some_iff)
  also have "\<dots> \<longleftrightarrow> (\<exists>i. i < length ?t \<and> pid (?t ! i) = p \<and> ?t ! i = e \<and> (\<forall>j<i. pid (?t ! j) \<noteq> p))"
    by (intro iff_exI) (simp only: eq_commute [of e])
  finally show ?thesis by (simp only: slot)
qed

lemma task_map_Some:
  assumes "sched_wf s" "distinct_pids s"
  shows "task_map s p = Some e \<longleftrightarrow>
    (\<exists>i. int i < num_scheduled s \<and> schedule_table s ! i = e \<and> pid e = p)"
  unfolding task_map_first [OF assms(1)]
proof
  assume "\<exists>i. first_slot s i p \<and> schedule_table s ! i = e"
  then obtain i where "first_slot s i p" "schedule_table s ! i = e" by blast
  then show "\<exists>i. int i < num_scheduled s \<and> schedule_table s ! i = e \<and> pid e = p"
    using first_slotD(1,2) by blast
next
  assume "\<exists>i. int i < num_scheduled s \<and> schedule_table s ! i = e \<and> pid e = p"
  then obtain i where "int i < num_scheduled s" "schedule_table s ! i = e" "pid e = p" by blast
  then show "\<exists>i. first_slot s i p \<and> schedule_table s ! i = e"
    using first_slot_distinct [OF assms] by blast
qed

lemma task_map_None:
  assumes "sched_wf s"
  shows "task_map s p = None \<longleftrightarrow> (\<forall>i. int i < num_scheduled s \<longrightarrow> pid (schedule_table s ! i) \<noteq> p)"
proof
  assume none: "task_map s p = None"
  show "\<forall>i. int i < num_scheduled s \<longrightarrow> pid (schedule_table s ! i) \<noteq> p"
  proof (intro allI impI notI)
    fix j assume "int j < num_scheduled s" "pid (schedule_table s ! j) = p"
    then obtain i where "first_slot s i p" by (rule first_slot_exists)
    with none show False using task_map_first [OF assms, of p "schedule_table s ! i"] by auto
  qed
next
  assume "\<forall>i. int i < num_scheduled s \<longrightarrow> pid (schedule_table s ! i) \<noteq> p"
  then have no: "\<And>i. int i < num_scheduled s \<Longrightarrow> pid (schedule_table s ! i) \<noteq> p" by blast
  show "task_map s p = None"
  proof (cases "task_map s p")
    case (Some e)
    then obtain i where "first_slot s i p" using task_map_first [OF assms] by blast
    then show ?thesis using no [of i] first_slotD(1,2) [of s i p] by simp
  qed simp
qed

lemma scheduler_entry_eq:
  assumes "sched_wf s" "first_slot s i p"
  shows "scheduler_entry p s = int i"
proof -
  note wf = sched_wfD [OF assms(1)] and f = first_slotD [OF assms(2)]
  have "i < length (schedule_table s)" using f(1) wf(1,3) by simp
  with f(2,3) show ?thesis by (simp add: scheduler_entry_def c_index_first_idx)
qed

lemma entry_at_slot:
  "sched_wf s \<Longrightarrow> int i < num_scheduled s \<Longrightarrow> entry_at (int i) s = Some (schedule_table s ! i)"
  using sched_wfD(1,3) [of s] by (simp add: entry_at_def)

text \<open>Looking a task up by its identifier finds it, with the state, event and exit code it has.\<close>

lemma lookup_task:
  assumes "sched_wf s" "task_map s p = Some e"
  shows "scheduler_state p s = Some (state e)" "scheduler_event p s = Some (blocking_event e)"
    "scheduler_exitcode p s = Some (exitcode e)"
proof -
  from assms obtain i where i: "first_slot s i p" "schedule_table s ! i = e"
    by (auto simp: task_map_first)
  with scheduler_entry_eq [OF assms(1) i(1)] entry_at_slot [OF assms(1) first_slotD(1) [OF i(1)]]
  show "scheduler_state p s = Some (state e)" "scheduler_event p s = Some (blocking_event e)"
    "scheduler_exitcode p s = Some (exitcode e)"
    by (simp_all add: scheduler_state_def scheduler_event_def scheduler_exitcode_def)
qed

text \<open>A write to the table that changes every entry by \<open>f\<close>, keeping identifiers, acts on the map
  pointwise.\<close>

lemma task_map_pointwise:
  assumes "sched_wf s" "num_scheduled s' = num_scheduled s"
    and "\<And>i. int i < num_scheduled s \<Longrightarrow> schedule_table s' ! i = f (schedule_table s ! i)"
    and "length (schedule_table s') = length (schedule_table s)"
    and "\<And>e. pid (f e) = pid e"
  shows "task_map s' p = map_option f (task_map s p)"
proof -
  have "take (nat (num_scheduled s)) (schedule_table s') = map f (take (nat (num_scheduled s)) (schedule_table s))"
    using assms(3,4) sched_wfD(2) [OF assms(1)] by (intro nth_equalityI) auto
  moreover have "List.find (\<lambda>e. pid e = p) (map f xs) = map_option f (List.find (\<lambda>e. pid e = p) xs)" for xs
    using assms(5) by (induction xs) auto
  ultimately show ?thesis by (simp add: task_map_def assms(2))
qed

text \<open>What the operations do to the map: the abstract scheduler.\<close>

definition finish :: "int \<Rightarrow> schedule_entry \<Rightarrow> schedule_entry" where
  "finish code e = e\<lparr>state := TASK_FINISHED, exitcode := code\<rparr>"

definition block_on :: "int \<Rightarrow> schedule_entry \<Rightarrow> schedule_entry" where
  "block_on event e = e\<lparr>blocking_event := event, state := TASK_BLOCKED\<rparr>"

lemma wake_simps [simp]:
  "pid (wake ev q e) = pid e" "exitcode (wake ev q e) = exitcode e"
  by (simp_all add: wake_def)

lemma finish_simps [simp]: "pid (finish c e) = pid e" "exitcode (finish c e) = c" "state (finish c e) = TASK_FINISHED"
  by (simp_all add: finish_def)

lemma block_on_simps [simp]:
  "pid (block_on v e) = pid e" "exitcode (block_on v e) = exitcode e" "state (block_on v e) = TASK_BLOCKED"
  by (simp_all add: block_on_def)

text \<open>The table after a task-changing call: slot \<open>i\<close> gets \<open>f\<close>, the others \<open>g\<close>.\<close>

lemma task_map_slot:
  assumes "sched_wf s" "distinct_pids s" "int i < num_scheduled s" "pid (schedule_table s ! i) = p"
    and "num_scheduled s' = num_scheduled s" "length (schedule_table s') = length (schedule_table s)"
    and "\<And>j. int j < num_scheduled s \<Longrightarrow>
          schedule_table s' ! j = (if j = i then f else g) (schedule_table s ! j)"
    and "\<And>e. pid (f e) = pid e" "\<And>e. pid (g e) = pid e"
  shows "task_map s' q = map_option (if q = p then f else g) (task_map s q)"
proof -
  let ?h = "\<lambda>e. (if pid e = p then f else g) e"
  have "task_map s' q = map_option ?h (task_map s q)"
  proof (rule task_map_pointwise [OF assms(1,5) _ assms(6)])
    fix j assume j: "int j < num_scheduled s"
    then have "j = i \<longleftrightarrow> pid (schedule_table s ! j) = p"
      using slot_pid_inject [OF assms(1,2) j assms(3)] assms(4) by auto
    with assms(7) [OF j] show "schedule_table s' ! j = ?h (schedule_table s ! j)" by simp
  qed (simp add: assms(8,9))
  also have "\<dots> = map_option (if q = p then f else g) (task_map s q)"
    by (rule option.map_cong [OF refl]) (auto simp: task_map_def find_Some_iff split: if_splits)
  finally show ?thesis .
qed

lemma scheduler_exit_slot:
  assumes "sched_wf s" "first_slot s i p"
  shows "scheduler_exit p code s = Some (s\<lparr>schedule_table :=
    (map (wake EVENT_PROCESS_FINISHED p) (schedule_table s))[i := finish code (schedule_table s ! i)]\<rparr>)"
proof -
  have "i < length (schedule_table s)" using sched_wfD(1,3) [OF assms(1)] first_slotD(1) [OF assms(2)] by simp
  moreover have "wake EVENT_PROCESS_FINISHED p (finish code (schedule_table s ! i)) = finish code (schedule_table s ! i)"
    using first_slotD(2) [OF assms(2)] by (simp add: wake_def)
  ultimately show ?thesis
    by (simp add: scheduler_exit_def scheduler_entry_eq [OF assms] entry_update_eq
        scheduler_broadcast_event_def map_update finish_def)
qed

lemma scheduler_block_slot:
  assumes "sched_wf s" "first_slot s i p"
  shows "scheduler_block p event s =
    Some (s\<lparr>schedule_table := (schedule_table s)[i := block_on event (schedule_table s ! i)]\<rparr>)"
  using sched_wfD(1,3) [OF assms(1)] first_slotD(1) [OF assms(2)]
  by (simp add: scheduler_block_def scheduler_entry_eq [OF assms] entry_update_eq block_on_def)

end
