(* ===== verification/Scheduler_Properties.thy ===== *)
theory Scheduler_Properties
  imports Scheduler_Proofs
begin

text \<open>
  The scheduler as a state machine: the calls the kernel makes between two timer ticks, the states
  they reach, and the properties of the scheduler that other components rely on.
\<close>

section \<open>Steps and reachable states\<close>

text \<open>
  \<open>pspawn\<close> adds any identifier, also one that is in the table already; the timer interrupt calls
  \<open>scheduler_next\<close>; \<open>pexit\<close> and \<open>pblock\<close> act on the current task, which runs, or still executes the
  rest of its time slice after \<open>pblock\<close>. A finished task makes no further call (\<open>__pexit_loop\<close> in
  \<open>kernel/syscall.asm\<close>). \<open>scheduler_block\<close>, which no system call uses, blocks a task by its
  identifier; for an identifier that no task has it writes to \<open>schedule_table[-1]\<close> or to a free entry.
\<close>

datatype sched_event = Add int | Tick | Exit int | Block int | Block_pid int int

inductive sched_step :: "sched_event \<Rightarrow> 'a sched_scheme \<Rightarrow> 'a sched_scheme \<Rightarrow> bool" where
  add: "scheduler_add p s = (r, s') \<Longrightarrow> sched_step (Add p) s s'"
| tick: "scheduler_next s = Some (p, s') \<Longrightarrow> sched_step Tick s s'"
| exit: "entry_at (scheduler_current s) s = Some e \<Longrightarrow> state e \<in> {TASK_RUNNING, TASK_BLOCKED}
     \<Longrightarrow> scheduler_exit (scheduler_current_pid s) code s = Some s' \<Longrightarrow> sched_step (Exit code) s s'"
| block: "entry_at (scheduler_current s) s = Some e \<Longrightarrow> state e \<in> {TASK_RUNNING, TASK_BLOCKED}
     \<Longrightarrow> scheduler_block_current event s = Some s' \<Longrightarrow> sched_step (Block event) s s'"
| block_pid: "task_map s p = Some e \<Longrightarrow> scheduler_block p event s = Some s'
     \<Longrightarrow> sched_step (Block_pid p event) s s'"

inductive_cases sched_step_cases: "sched_step ev s s'"

inductive sched_reachable :: "'a sched_scheme \<Rightarrow> bool" where
  init: "length (schedule_table s) = MAX_SCHEDULED \<Longrightarrow> sched_reachable (scheduler_init s)"
| step: "sched_reachable s \<Longrightarrow> sched_step ev s s' \<Longrightarrow> sched_reachable s'"

section \<open>Preservation\<close>

lemma sched_wf_table:
  assumes "sched_wf s" "length t = MAX_SCHEDULED"
    and "\<And>j. j < MAX_SCHEDULED \<Longrightarrow> pid (t ! j) = pid (schedule_table s ! j)"
    and "\<And>j. j < MAX_SCHEDULED \<Longrightarrow> state (t ! j) = TASK_FREE \<longleftrightarrow> state (schedule_table s ! j) = TASK_FREE"
    and "\<And>j. j < MAX_SCHEDULED \<Longrightarrow> state (t ! j) = TASK_RUNNING \<Longrightarrow> state (schedule_table s ! j) = TASK_RUNNING"
  shows "sched_wf (s\<lparr>schedule_table := t\<rparr>)"
proof -
  note wf = sched_wfD [OF assms(1)]
  show ?thesis using wf assms(2-5) by (simp add: sched_wf_def nat_less_iff)
qed

lemma current_slot:
  assumes "sched_wf s" "entry_at (scheduler_current s) s = Some e"
  obtains i where "current_scheduled s = int i" "int i < num_scheduled s" "i < MAX_SCHEDULED"
    "schedule_table s ! i = e" "scheduler_current_pid s = pid e"
proof -
  note wf = sched_wfD [OF assms(1)]
  have c: "0 \<le> current_scheduled s" "schedule_table s ! nat (current_scheduled s) = e"
    using assms(2) by (auto simp: entry_at_def scheduler_current_def split: if_splits)
  then show thesis
    using that [of "nat (current_scheduled s)"] wf(3,5) wf(8) [OF c(1)]
    by (simp add: scheduler_current_pid_def)
qed

lemma add_wf:
  assumes "sched_wf s" "scheduler_add p s = (r, s')"
  shows "sched_wf s'"
proof (cases "num_scheduled s = int MAX_SCHEDULED")
  case True
  with assms show ?thesis by (simp add: scheduler_add_eq)
next
  case False
  note wf = sched_wfD [OF assms(1)]
  let ?n = "num_scheduled s" and ?t = "schedule_table s"
  let ?e = "(?t ! nat ?n)\<lparr>state := TASK_READY, blocking_event := EVENT_NO_EVENT, pid := p\<rparr>"
  have s': "s' = s\<lparr>schedule_table := ?t[nat ?n := ?e], num_scheduled := ?n + 1\<rparr>"
    using assms(2) False by (simp add: scheduler_add_eq [OF assms(1)])
  have n: "nat ?n < length ?t" using wf(1,3) False by simp
  have "state ((?t[nat ?n := ?e]) ! i) = TASK_FREE \<longleftrightarrow> ?n + 1 \<le> int i"
    and "state ((?t[nat ?n := ?e]) ! i) = TASK_RUNNING \<longrightarrow> int i = current_scheduled s" if "i < MAX_SCHEDULED" for i
    using that wf(1,2) wf(6) [OF that] wf(7) [OF that] by (auto simp: nth_list_update split: if_splits)
  then show ?thesis
    using wf(1-5) wf(8) n False by (simp add: s' sched_wf_def)
qed

text \<open>A change of slot \<open>i\<close> by \<open>f\<close> and of the others by \<open>g\<close> that frees and starts no task.\<close>

lemma slot_wf:
  assumes "sched_wf s" "int i < num_scheduled s" "length t = MAX_SCHEDULED"
    and "\<And>j. j < MAX_SCHEDULED \<Longrightarrow> t ! j = (if j = i then f else g) (schedule_table s ! j)"
    and "\<And>e. pid (f e) = pid e" "\<And>e. pid (g e) = pid e"
    and "\<And>e. state (f e) \<notin> {TASK_FREE, TASK_RUNNING}"
    and "\<And>e. state (g e) = TASK_FREE \<longleftrightarrow> state e = TASK_FREE"
    and "\<And>e. state (g e) = TASK_RUNNING \<Longrightarrow> state e = TASK_RUNNING"
  shows "sched_wf (s\<lparr>schedule_table := t\<rparr>)"
proof (rule sched_wf_table [OF assms(1,3)])
  fix j assume j: "j < MAX_SCHEDULED"
  have "state (schedule_table s ! i) \<noteq> TASK_FREE"
    using sched_wfD(3) [OF assms(1)] sched_wfD(6) [OF assms(1), of i] assms(2) by simp
  with assms(4) [OF j] assms(5-8) show "pid (t ! j) = pid (schedule_table s ! j)"
    and "state (t ! j) = TASK_FREE \<longleftrightarrow> state (schedule_table s ! j) = TASK_FREE" by auto
  show "state (schedule_table s ! j) = TASK_RUNNING" if "state (t ! j) = TASK_RUNNING"
    using that assms(4) [OF j] assms(7,9) by (cases "j = i") auto
qed

lemma exit_wf:
  assumes "sched_wf s" "first_slot s i p" "scheduler_exit p code s = Some s'"
  shows "sched_wf s'"
proof -
  note wf = sched_wfD [OF assms(1)]
  have i: "i < MAX_SCHEDULED" using first_slotD(1) [OF assms(2)] wf(3) by simp
  have "s' = s\<lparr>schedule_table := (map (wake EVENT_PROCESS_FINISHED p) (schedule_table s))
      [i := finish code (schedule_table s ! i)]\<rparr>"
    using assms(3) by (simp add: scheduler_exit_slot [OF assms(1,2)])
  moreover have "sched_wf (s\<lparr>schedule_table := (map (wake EVENT_PROCESS_FINISHED p) (schedule_table s))
      [i := finish code (schedule_table s ! i)]\<rparr>)"
    by (rule slot_wf [OF assms(1) first_slotD(1) [OF assms(2)], where f = "finish code" and g = "wake EVENT_PROCESS_FINISHED p"])
      (use wf(1) i in \<open>auto simp: nth_list_update wake_def split: if_splits\<close>)
  ultimately show ?thesis by simp
qed

lemma block_current_eq:
  assumes "sched_wf s" "current_scheduled s = int i" "int i < num_scheduled s"
  shows "scheduler_block_current event s =
    Some (s\<lparr>schedule_table := (schedule_table s)[i := block_on event (schedule_table s ! i)]\<rparr>)"
  using sched_wfD(1,3) [OF assms(1)] assms(2,3)
  by (simp add: scheduler_block_current_def entry_update_eq block_on_def)

lemma block_wf:
  assumes "sched_wf s" "current_scheduled s = int i" "int i < num_scheduled s"
    and "scheduler_block_current event s = Some s'"
  shows "sched_wf s'"
proof -
  note wf = sched_wfD [OF assms(1)]
  have i: "i < MAX_SCHEDULED" using assms(3) wf(3) by simp
  have "sched_wf (s\<lparr>schedule_table := (schedule_table s)[i := block_on event (schedule_table s ! i)]\<rparr>)"
    by (rule slot_wf [OF assms(1,3), where f = "block_on event" and g = "\<lambda>e. e"])
      (use wf(1) i in \<open>auto simp: nth_list_update\<close>)
  then show ?thesis using assms(4) by (simp add: block_current_eq [OF assms(1-3)])
qed

lemma block_pid_wf:
  assumes "sched_wf s" "first_slot s i p" "scheduler_block p event s = Some s'"
  shows "sched_wf s'"
proof -
  note wf = sched_wfD [OF assms(1)] and f = first_slotD [OF assms(2)]
  have i: "i < MAX_SCHEDULED" using f(1) wf(3) by simp
  have "sched_wf (s\<lparr>schedule_table := (schedule_table s)[i := block_on event (schedule_table s ! i)]\<rparr>)"
    by (rule slot_wf [OF assms(1) f(1), where f = "block_on event" and g = "\<lambda>e. e"])
      (use wf(1) i in \<open>auto simp: nth_list_update\<close>)
  then show ?thesis using assms(3) by (simp add: scheduler_block_slot [OF assms(1,2)])
qed

lemma next_wf: "sched_wf s \<Longrightarrow> scheduler_next s = Some (p, s') \<Longrightarrow> sched_wf s'"
  by (erule scheduler_next_cases) auto

lemma step_wf:
  assumes "sched_step ev s s'" "sched_wf s"
  shows "sched_wf s'"
  using assms
proof (induction rule: sched_step.induct)
  case (exit s e code s')
  from exit(4,1) show ?case
  proof (rule current_slot)
    fix i assume "current_scheduled s = int i" "int i < num_scheduled s" "schedule_table s ! i = e"
      "scheduler_current_pid s = pid e"
    then obtain k where "first_slot s k (pid e)" using first_slot_exists [of i s "pid e"] by metis
    with exit \<open>scheduler_current_pid s = pid e\<close> show ?case using exit_wf [of s k "pid e" code s'] by simp
  qed
next
  case (block s e event s')
  from block(4,1) show ?case
    by (rule current_slot) (use block block_wf in blast)
next
  case (block_pid s p e event s')
  then obtain i where "first_slot s i p" using task_map_first [OF block_pid(3)] by blast
  with block_pid(2,3) show ?case using block_pid_wf by blast
qed (auto intro: add_wf next_wf)

lemma reachable_wf: "sched_reachable s \<Longrightarrow> sched_wf s"
  by (induction rule: sched_reachable.induct) (auto intro: scheduler_init_wf step_wf)

section \<open>Identifiers\<close>

text \<open>Only \<open>scheduler_add\<close> changes the identifiers of the tasks.\<close>

definition task_pids :: "'a sched_scheme \<Rightarrow> int list" where
  "task_pids s = map pid (take (nat (num_scheduled s)) (schedule_table s))"

lemma distinct_pids_alt: "distinct_pids s = distinct (task_pids s)"
  by (simp add: distinct_pids_def task_pids_def)

lemma dom_task_pids: "dom (task_map s) = set (task_pids s)"
proof -
  have "List.find (\<lambda>e. pid e = p) xs = None \<longleftrightarrow> p \<notin> pid ` set xs" for p xs
    by (auto simp: find_None_iff)
  note find = this
  show ?thesis by (intro set_eqI) (simp only: domIff task_map_def task_pids_def not_not set_map find)
qed

lemma length_task_pids: "sched_wf s \<Longrightarrow> length (task_pids s) = nat (num_scheduled s)"
  using sched_wfD(1,3) [of s] by (simp add: task_pids_def)

lemma task_pids_same:
  assumes "num_scheduled s' = num_scheduled s" "length (schedule_table s') = length (schedule_table s)"
    and "\<And>j. j < length (schedule_table s) \<Longrightarrow> pid (schedule_table s' ! j) = pid (schedule_table s ! j)"
  shows "task_pids s' = task_pids s"
proof -
  have "map pid (schedule_table s') = map pid (schedule_table s)"
    using assms(2,3) by (intro nth_equalityI) auto
  then show ?thesis by (simp add: task_pids_def take_map [symmetric] assms(1) del: take_map)
qed

lemma step_pids:
  assumes "sched_step ev s s'" "sched_wf s"
  shows "task_pids s' = (case ev of
      Add p \<Rightarrow> if num_scheduled s = int MAX_SCHEDULED then task_pids s else task_pids s @ [p]
    | _ \<Rightarrow> task_pids s)"
  using assms
proof (induction rule: sched_step.induct)
  case (add p s r s')
  note wf = sched_wfD [OF add(2)]
  show ?case
  proof (cases "num_scheduled s = int MAX_SCHEDULED")
    case False
    then have "nat (num_scheduled s) < length (schedule_table s)" using wf(1,3) by simp
    with False add wf(2) show ?thesis
      by (auto simp: scheduler_add_eq [OF add(2)] task_pids_def take_Suc_nat)
  qed (use add in \<open>simp add: scheduler_add_eq\<close>)
next
  case (tick s p s')
  from tick(2) show ?case
  proof (cases rule: scheduler_next_cases)
    case (runs i)
    with tick(1) sched_wfD(1) [OF tick(2)] show ?thesis
      by (auto intro!: task_pids_same simp: run_slot_nth)
  qed (use tick in simp)
next
  case (exit s e code s')
  obtain i where "int i < num_scheduled s" "schedule_table s ! i = e" "scheduler_current_pid s = pid e"
    using current_slot [OF exit(4,1)] by metis
  then obtain k where k: "first_slot s k (scheduler_current_pid s)" by (metis first_slot_exists)
  have "k < length (schedule_table s)"
    using first_slotD(1) [OF k] sched_wfD(1,3) [OF exit(4)] by simp
  then show ?case using exit(3) scheduler_exit_slot [OF exit(4) k]
    by (auto intro!: task_pids_same simp: nth_list_update)
next
  case (block s e event s')
  obtain i where "current_scheduled s = int i" "int i < num_scheduled s" "i < MAX_SCHEDULED"
    using current_slot [OF block(4,1)] by metis
  then show ?case using block(3,4) sched_wfD(1) [OF block(4)]
    by (auto intro!: task_pids_same simp: block_current_eq nth_list_update)
next
  case (block_pid s p e event s')
  then obtain k where k: "first_slot s k p" using task_map_first [OF block_pid(3)] by blast
  have "k < length (schedule_table s)"
    using first_slotD(1) [OF k] sched_wfD(1,3) [OF block_pid(3)] by simp
  then show ?case using block_pid(2) scheduler_block_slot [OF block_pid(3) k]
    by (auto intro!: task_pids_same simp: nth_list_update)
qed

text \<open>Identifiers stay distinct until one of them is added again.\<close>

lemma step_distinct:
  assumes "sched_step ev s s'" "sched_wf s" "distinct_pids s"
  shows "distinct_pids s' \<longleftrightarrow> \<not> (\<exists>p. ev = Add p \<and> task_map s p \<noteq> None \<and> num_scheduled s < int MAX_SCHEDULED)"
proof -
  have dom: "task_map s p \<noteq> None \<longleftrightarrow> p \<in> set (task_pids s)" for p
    using dom_task_pids [of s] by (simp only: domIff [symmetric])
  have none: "task_map s p = None \<longleftrightarrow> p \<notin> set (task_pids s)" for p
    using dom [of p] by blast
  show ?thesis
    using step_pids [OF assms(1,2)] assms(3) sched_wfD(3) [OF assms(2)]
    by (cases ev) (auto simp: distinct_pids_alt none)
qed

section \<open>Effects on the task map\<close>

lemma task_map_add:
  assumes "sched_wf s" "num_scheduled s < int MAX_SCHEDULED" "scheduler_add p s = (r, s')"
  shows "\<exists>e. state e = TASK_READY \<and> blocking_event e = EVENT_NO_EVENT \<and> pid e = p
    \<and> task_map s' = (if task_map s p = None then (task_map s)(p \<mapsto> e) else task_map s)"
proof -
  note wf = sched_wfD [OF assms(1)]
  let ?n = "num_scheduled s" and ?t = "schedule_table s"
  let ?e = "(?t ! nat ?n)\<lparr>state := TASK_READY, blocking_event := EVENT_NO_EVENT, pid := p\<rparr>"
  have s': "s' = s\<lparr>schedule_table := ?t[nat ?n := ?e], num_scheduled := ?n + 1\<rparr>"
    using assms(2,3) by (simp add: scheduler_add_eq [OF assms(1)])
  have n: "nat ?n < length ?t" using wf(1) assms(2) by simp
  have append: "List.find P (xs @ [x]) =
      (case List.find P xs of None \<Rightarrow> if P x then Some x else None | r \<Rightarrow> r)" for P and x :: schedule_entry and xs
    by (induction xs) auto
  have "task_map s' q = (if q = p \<and> task_map s p = None then Some ?e else task_map s q)" for q
    using wf(2) n by (auto simp: task_map_def s' take_Suc_nat append split: option.splits)
  then show ?thesis by (intro exI [of _ ?e]) auto
qed

lemma task_map_exit:
  assumes "sched_wf s" "distinct_pids s" "task_map s p = Some e"
  shows "\<exists>s'. scheduler_exit p code s = Some s' \<and> sched_wf s' \<and> (\<forall>q. task_map s' q =
    map_option (if q = p then finish code else wake EVENT_PROCESS_FINISHED p) (task_map s q))"
proof -
  from assms(1,3) obtain i where i: "first_slot s i p" by (auto simp: task_map_first)
  note f = first_slotD [OF i] and ex = scheduler_exit_slot [OF assms(1) i, of code]
  let ?t = "(map (wake EVENT_PROCESS_FINISHED p) (schedule_table s))[i := finish code (schedule_table s ! i)]"
  have "i < length (schedule_table s)" using f(1) sched_wfD(1,3) [OF assms(1)] by simp
  then have "task_map (s\<lparr>schedule_table := ?t\<rparr>) q =
      map_option (if q = p then finish code else wake EVENT_PROCESS_FINISHED p) (task_map s q)" for q
    using sched_wfD(1,3) [OF assms(1)]
    by (intro task_map_slot [OF assms(1,2) f(1,2)]) (auto simp: nth_list_update)
  with ex exit_wf [OF assms(1) i ex] show ?thesis by simp
qed

lemma task_map_block:
  assumes "sched_wf s" "distinct_pids s" "task_map s p = Some e"
  shows "\<exists>s'. scheduler_block p event s = Some s' \<and> task_map s' = (task_map s)(p \<mapsto> block_on event e)"
proof -
  from assms(1,3) obtain i where i: "first_slot s i p" by (auto simp: task_map_first)
  note f = first_slotD [OF i]
  let ?s = "s\<lparr>schedule_table := (schedule_table s)[i := block_on event (schedule_table s ! i)]\<rparr>"
  have "task_map ?s q = map_option (if q = p then block_on event else id) (task_map s q)" for q
    using sched_wfD(1,3) [OF assms(1)] f(1)
    by (intro task_map_slot [OF assms(1,2) f(1,2)]) (auto simp: nth_list_update)
  then have "task_map ?s = (task_map s)(p \<mapsto> block_on event e)"
    using assms(3) by (intro ext) (simp add: option.map_id0)
  with scheduler_block_slot [OF assms(1) i] show ?thesis by simp
qed

lemma task_map_run_slot:
  assumes "sched_wf s" "distinct_pids s" "int i < num_scheduled s" "pid (schedule_table s ! i) = p"
  shows "task_map (run_slot i s) q =
    map_option (if q = p then (\<lambda>e. e\<lparr>state := TASK_RUNNING\<rparr>) else demote) (task_map s q)"
  using sched_wfD(1,3) [OF assms(1)] assms(3)
  by (intro task_map_slot [OF assms]) (auto simp: run_slot_nth)

section \<open>Ticks\<close>

text \<open>\<open>n\<close> choices of \<open>scheduler_next\<close> in a row, as \<open>n\<close> timer interrupts make them, with the tasks they
  start. \<open>scheduler_tick\<close> calls \<open>scheduler_next\<close> and then looks up the bank of the task, which does not
  change the scheduler.\<close>

fun scheduler_ticks :: "nat \<Rightarrow> 'a sched_scheme \<Rightarrow> (int list \<times> 'a sched_scheme) option" where
  "scheduler_ticks 0 s = Some ([], s)"
| "scheduler_ticks (Suc n) s =
     (case scheduler_next s of None \<Rightarrow> None
      | Some (p, s1) \<Rightarrow> (case scheduler_ticks n s1 of None \<Rightarrow> None | Some (ps, s2) \<Rightarrow> Some (p # ps, s2)))"

definition distance :: "'a sched_scheme \<Rightarrow> nat \<Rightarrow> int" where
  "distance s i = (int i - current_scheduled s - 1) mod num_scheduled s"

lemma cyclic_distance:
  assumes "(0::int) < n" "0 \<le> d" "d < n"
  shows "((c + 1 + d) mod n - c - 1) mod n = d"
proof -
  have "((c + 1 + d) mod n - c - 1) mod n = ((c + 1 + d) - (c + 1)) mod n"
    by (simp add: diff_diff_eq mod_diff_left_eq)
  with assms show ?thesis by simp
qed

lemma distance_slot:
  assumes "0 < num_scheduled s" "int i < num_scheduled s"
  shows "(current_scheduled s + 1 + distance s i) mod num_scheduled s = int i"
    and "0 \<le> distance s i" "distance s i < num_scheduled s"
proof -
  have "(current_scheduled s + 1 + distance s i) mod num_scheduled s
      = (current_scheduled s + 1 + (int i - current_scheduled s - 1)) mod num_scheduled s"
    by (simp add: distance_def mod_add_right_eq)
  with assms show "(current_scheduled s + 1 + distance s i) mod num_scheduled s = int i" by simp
qed (use assms in \<open>simp_all add: distance_def\<close>)

text \<open>The slot \<open>scheduler_next\<close> chooses is the nearest runnable one.\<close>

lemma chosen_nearest:
  assumes "sched_wf s" "List.find (runnable s) (cyclic_order s) = Some i" "int j < num_scheduled s" "runnable s j"
  shows "distance s i \<le> distance s j"
proof -
  let ?n = "num_scheduled s" and ?c = "current_scheduled s"
  have n: "0 < ?n" using assms(3) by simp
  obtain d where d: "d < nat ?n" "i = nat ((?c + int (Suc d)) mod ?n)"
      "\<And>k. k < d \<Longrightarrow> \<not> runnable s (nat ((?c + int (Suc k)) mod ?n))"
    using assms(2) by (auto simp: find_Some_iff cyclic_order_def)
  have "int i = (?c + 1 + int d) mod ?n" using d(2) n by (simp add: algebra_simps)
  then have di: "distance s i = int d" using cyclic_distance [OF n, of "int d" ?c] d(1) by (simp add: distance_def)
  note dj = distance_slot [OF n assms(3)]
  show ?thesis
  proof (rule ccontr)
    assume "\<not> distance s i \<le> distance s j"
    then have "nat (distance s j) < d" using di dj(2) by simp
    from d(3) [OF this] have "\<not> runnable s (nat ((?c + 1 + distance s j) mod ?n))"
      using dj(2) by (simp add: algebra_simps)
    with assms(4) show False unfolding dj(1) by simp
  qed
qed

lemma distance_run_slot:
  assumes "0 < num_scheduled s" "int i < num_scheduled s" "int j < num_scheduled s" "distance s i < distance s j"
  shows "distance (run_slot i s) j = distance s j - distance s i - 1"
proof -
  let ?n = "num_scheduled s" and ?c = "current_scheduled s"
  note i = distance_slot [OF assms(1,2)] and j = distance_slot [OF assms(1,3)]
  have "distance (run_slot i s) j = ((?c + 1 + distance s j) mod ?n - (?c + 1 + distance s i) mod ?n - 1) mod ?n"
    by (simp add: distance_def i(1) [unfolded distance_def] j(1) [unfolded distance_def])
  also have "\<dots> = (((?c + 1 + distance s j) - (?c + 1 + distance s i)) mod ?n - 1) mod ?n"
    by (simp only: mod_diff_eq mod_diff_left_eq [symmetric, of "_ mod _ - _ mod _"])
  also have "\<dots> = (distance s j - distance s i - 1) mod ?n"
    by (simp add: mod_diff_left_eq)
  finally show ?thesis using assms(4) i(2) j(3) by simp
qed

lemma runnable_run_slot:
  "i < length (schedule_table s) \<Longrightarrow> j < length (schedule_table s) \<Longrightarrow> runnable s i \<Longrightarrow>
   runnable (run_slot i s) j = runnable s j"
  by (auto simp: runnable_def run_slot_nth)

lemma pid_run_slot:
  "i < length (schedule_table s) \<Longrightarrow> j < length (schedule_table s) \<Longrightarrow>
   pid (schedule_table (run_slot i s) ! j) = pid (schedule_table s ! j)"
  by (simp add: run_slot_nth)

lemma ticks_always:
  "sched_wf s \<Longrightarrow> int j < num_scheduled s \<Longrightarrow> runnable s j \<Longrightarrow>
   \<exists>ps s'. scheduler_ticks n s = Some (ps, s')"
proof (induction n arbitrary: s)
  case (Suc n)
  from Suc.prems(1) show ?case
  proof (cases rule: scheduler_next_cases)
    case stuck
    with Suc.prems show ?thesis by blast
  next
    case (runs i)
    have len: "i < length (schedule_table s)" "j < length (schedule_table s)"
      using runs(5) Suc.prems sched_wfD(1,3) [OF Suc.prems(1)] by simp_all
    obtain ps s' where "scheduler_ticks n (run_slot i s) = Some (ps, s')"
      using Suc.IH [OF runs(6)] Suc.prems runs(3) by (auto simp: runnable_run_slot [OF len])
    with runs(1) show ?thesis by simp
  qed
qed simp

lemma ticks_reach:
  assumes "sched_wf s" "int j < num_scheduled s" "runnable s j" "nat (distance s j) < n"
  shows "\<exists>ps s'. scheduler_ticks n s = Some (ps, s') \<and> pid (schedule_table s ! j) \<in> set ps"
  using assms
proof (induction n arbitrary: s)
  case (Suc n)
  from Suc.prems(1) show ?case
  proof (cases rule: scheduler_next_cases)
    case stuck
    with Suc.prems show ?thesis by blast
  next
    case (runs i)
    have len: "i < length (schedule_table s)" "j < length (schedule_table s)"
      using runs(5) Suc.prems sched_wfD(1,3) [OF Suc.prems(1)] by simp_all
    have run': "runnable (run_slot i s) j" using Suc.prems(3) runs(3) by (simp add: runnable_run_slot [OF len])
    show ?thesis
    proof (cases "i = j")
      case True
      obtain ps s' where "scheduler_ticks n (run_slot i s) = Some (ps, s')"
        using ticks_always [OF runs(6) _ run', of n] Suc.prems(2) by auto
      with runs(1) True show ?thesis by simp
    next
      case False
      have n: "0 < num_scheduled s" using Suc.prems(2) by simp
      have "distance s i \<le> distance s j"
        by (rule chosen_nearest [OF Suc.prems(1) runs(2) Suc.prems(2,3)])
      moreover have "distance s i \<noteq> distance s j"
        using distance_slot(1) [OF n runs(4)] distance_slot(1) [OF n Suc.prems(2)] False by auto
      ultimately have lt: "distance s i < distance s j" by simp
      have "nat (distance (run_slot i s) j) < n"
        using distance_run_slot [OF n runs(4) Suc.prems(2) lt] distance_slot(2) [OF n runs(4)] lt Suc.prems(4)
        by linarith
      with Suc.IH [OF runs(6) _ run'] Suc.prems(2)
      obtain ps s' where "scheduler_ticks n (run_slot i s) = Some (ps, s')"
          "pid (schedule_table (run_slot i s) ! j) \<in> set ps" by auto
      with runs(1) show ?thesis by (simp add: pid_run_slot [OF len])
    qed
  qed
qed simp

end
