(* ===== verification/Scheduler_Claims.thy ===== *)
theory Scheduler_Claims
  imports Scheduler_Properties
begin

text \<open>
  The properties of the scheduler over every history of system calls and timer ticks: the table
  invariant, the choice of the next task, fairness, the refinement to a map of tasks while their
  identifiers are distinct, what happens to finished tasks, and when the search of
  \<open>scheduler_next\<close> does not end.
\<close>

section \<open>The abstract scheduler\<close>

text \<open>The states of the abstract scheduler map process identifiers to tasks; \<open>cur\<close> is the task
  that makes the call. A task added under an identifier that has a task already is not in the map:
  no lookup by the identifier finds it.\<close>

inductive task_step :: "int \<Rightarrow> sched_event \<Rightarrow> (int \<Rightarrow> schedule_entry option) \<Rightarrow> (int \<Rightarrow> schedule_entry option) \<Rightarrow> bool"
  for cur :: int where
  add: "m p = None \<Longrightarrow> card (dom m) < MAX_SCHEDULED \<Longrightarrow> pid e = p \<Longrightarrow> state e = TASK_READY
     \<Longrightarrow> blocking_event e = EVENT_NO_EVENT \<Longrightarrow> task_step cur (Add p) m (m(p \<mapsto> e))"
| add_again: "m p = Some e \<Longrightarrow> card (dom m) < MAX_SCHEDULED \<Longrightarrow> task_step cur (Add p) m m"
| add_full: "card (dom m) = MAX_SCHEDULED \<Longrightarrow> task_step cur (Add p) m m"
| tick: "m p = Some e \<Longrightarrow> state e \<in> {TASK_READY, TASK_RUNNING}
     \<Longrightarrow> task_step cur Tick m (\<lambda>q. map_option (if q = p then (\<lambda>e. e\<lparr>state := TASK_RUNNING\<rparr>) else demote) (m q))"
| exit: "m cur = Some e \<Longrightarrow> task_step cur (Exit code) m
     (\<lambda>q. map_option (if q = cur then finish code else wake EVENT_PROCESS_FINISHED cur) (m q))"
| block: "m cur = Some e \<Longrightarrow> task_step cur (Block event) m (m(cur \<mapsto> block_on event e))"
| block_pid: "m p = Some e \<Longrightarrow> task_step cur (Block_pid p event) m (m(p \<mapsto> block_on event e))"

inductive_simps task_step_tick: "task_step cur Tick m m'"

lemma card_task_map:
  assumes "sched_wf s" "distinct_pids s"
  shows "card (dom (task_map s)) = nat (num_scheduled s)"
  using distinct_card [of "task_pids s"] assms(2) length_task_pids [OF assms(1)]
  by (simp add: dom_task_pids distinct_pids_alt)

lemma task_map_current:
  assumes "sched_wf s" "distinct_pids s" "entry_at (scheduler_current s) s = Some e"
  shows "task_map s (scheduler_current_pid s) = Some e"
  using current_slot [OF assms(1,3)] task_map_Some [OF assms(1,2)] by metis

lemma add_refines:
  assumes "sched_wf s" "distinct_pids s" "scheduler_add p s = (r, s')"
  shows "task_step cur (Add p) (task_map s) (task_map s')"
proof (cases "num_scheduled s = int MAX_SCHEDULED")
  case True
  with assms have "s' = s" by (simp add: scheduler_add_eq)
  with True assms show ?thesis using card_task_map [of s] by (auto intro: task_step.add_full)
next
  case False
  then have less: "num_scheduled s < int MAX_SCHEDULED" using sched_wfD(3) [OF assms(1)] by simp
  then have card: "card (dom (task_map s)) < MAX_SCHEDULED" using card_task_map [OF assms(1,2)] by auto
  obtain e where e: "state e = TASK_READY" "blocking_event e = EVENT_NO_EVENT" "pid e = p"
      "task_map s' = (if task_map s p = None then (task_map s)(p \<mapsto> e) else task_map s)"
    using task_map_add [OF assms(1) less assms(3)] by blast
  show ?thesis
  proof (cases "task_map s p")
    case None
    with e(4) have s': "task_map s' = (task_map s)(p \<mapsto> e)" by simp
    show ?thesis unfolding s' using None card e(3,1,2) by (rule task_step.add)
  next
    case (Some e')
    with e(4) have s': "task_map s' = task_map s" by simp
    show ?thesis unfolding s' using Some card by (rule task_step.add_again)
  qed
qed

lemma step_refines:
  assumes "sched_step ev s s'" "sched_wf s" "distinct_pids s"
  shows "task_step (scheduler_current_pid s) ev (task_map s) (task_map s')"
  using assms
proof (induction rule: sched_step.induct)
  case (add p s r s')
  then show ?case by (intro add_refines)
next
  case (tick s p s')
  from tick(2) show ?case
  proof (cases rule: scheduler_next_cases)
    case stuck
    with tick(1) show ?thesis by simp
  next
    case (runs i)
    let ?p = "pid (schedule_table s ! i)"
    have "task_map s ?p = Some (schedule_table s ! i)"
      using task_map_Some [OF tick(2,3)] runs(4) by blast
    moreover have "state (schedule_table s ! i) \<in> {TASK_READY, TASK_RUNNING}"
      using runs(3) by (simp add: runnable_def)
    moreover have "task_map s' = (\<lambda>q. map_option (if q = ?p then (\<lambda>e. e\<lparr>state := TASK_RUNNING\<rparr>) else demote) (task_map s q))"
      using tick(1) runs(1) task_map_run_slot [OF tick(2,3) runs(4) refl] by auto
    ultimately show ?thesis by (simp add: task_step.tick)
  qed
next
  case (exit s e code s')
  have cur: "task_map s (scheduler_current_pid s) = Some e" by (rule task_map_current [OF exit(4,5,1)])
  with task_map_exit [OF exit(4,5) cur, of code] exit(3)
  have "task_map s' = (\<lambda>q. map_option (if q = scheduler_current_pid s then finish code
      else wake EVENT_PROCESS_FINISHED (scheduler_current_pid s)) (task_map s q))" by auto
  with cur show ?case by (simp add: task_step.exit)
next
  case (block s e event s')
  have cur: "task_map s (scheduler_current_pid s) = Some e" by (rule task_map_current [OF block(4,5,1)])
  obtain i where i: "current_scheduled s = int i" "int i < num_scheduled s"
      "schedule_table s ! i = e" "scheduler_current_pid s = pid e"
    using current_slot [OF block(4,1)] by metis
  have "first_slot s i (scheduler_current_pid s)"
    using first_slot_distinct [OF block(4,5) i(2)] i(3,4) by simp
  then have "scheduler_block (scheduler_current_pid s) event s = Some s'"
    using block(3) block_current_eq [OF block(4) i(1,2)] scheduler_block_slot [OF block(4)] by simp
  with task_map_block [OF block(4,5) cur, of event]
  have eq: "task_map s' = (task_map s)(scheduler_current_pid s \<mapsto> block_on event e)" by simp
  show ?case unfolding eq using cur by (rule task_step.block)
next
  case (block_pid s p e event s')
  from task_map_block [OF block_pid(3,4,1), of event] block_pid(2)
  have eq: "task_map s' = (task_map s)(p \<mapsto> block_on event e)" by simp
  show ?case unfolding eq using block_pid(1) by (rule task_step.block_pid)
qed

section \<open>Finished tasks and the size of the table\<close>

lemma step_num:
  assumes "sched_step ev s s'" "sched_wf s"
  shows "num_scheduled s \<le> num_scheduled s'"
  using assms
proof (induction rule: sched_step.induct)
  case (add s p r s')
  then show ?case by (auto simp: scheduler_add_eq split: if_splits)
next
  case (tick s p s')
  from tick(2) show ?case by (rule scheduler_next_cases) (use tick in auto)
qed (auto simp: scheduler_exit_def scheduler_broadcast_event_def scheduler_block_current_def
      scheduler_block_def entry_update_def split: option.splits Option.bind_splits)

text \<open>The calls that do not use the identifier of another task: a new process has a new identifier, and
  \<open>scheduler_block\<close>, which no system call uses, is not called.\<close>

definition regular_event :: "'a sched_scheme \<Rightarrow> sched_event \<Rightarrow> bool" where
  "regular_event s ev = (case ev of Add p \<Rightarrow> task_map s p = None | Block_pid p event \<Rightarrow> False | _ \<Rightarrow> True)"

lemma step_finished:
  assumes "sched_step ev s s'" "sched_wf s" "distinct_pids s" "regular_event s ev"
    and "task_map s p = Some e" "state e = TASK_FINISHED"
  shows "task_map s' p = Some e"
  using step_refines [OF assms(1-3)] assms
proof (cases rule: task_step.cases)
  case (exit e' code)
  from assms(1) \<open>ev = Exit code\<close> have "\<exists>e. entry_at (scheduler_current s) s = Some e \<and> state e \<noteq> TASK_FINISHED"
    by (cases rule: sched_step.cases) auto
  then have "p \<noteq> scheduler_current_pid s"
    using task_map_current [OF assms(2,3)] assms(5,6) by fastforce
  with exit assms show ?thesis by (simp add: wake_def)
next
  case (block e' event)
  from assms(1) \<open>ev = Block event\<close> have "\<exists>e. entry_at (scheduler_current s) s = Some e \<and> state e \<noteq> TASK_FINISHED"
    by (cases rule: sched_step.cases) auto
  then have "p \<noteq> scheduler_current_pid s"
    using task_map_current [OF assms(2,3)] assms(5,6) by fastforce
  with block assms show ?thesis by simp
qed (auto simp: demote_def regular_event_def)

text \<open>Histories of the calls that \<open>P\<close> allows.\<close>

inductive sched_steps :: "('a sched_scheme \<Rightarrow> sched_event \<Rightarrow> bool) \<Rightarrow> 'a sched_scheme \<Rightarrow> 'a sched_scheme \<Rightarrow> bool"
  for P where
  refl: "sched_steps P s s"
| step: "sched_steps P s s' \<Longrightarrow> P s' ev \<Longrightarrow> sched_step ev s' s'' \<Longrightarrow> sched_steps P s s''"

lemma steps_reachable: "sched_steps P s s' \<Longrightarrow> sched_reachable s \<Longrightarrow> sched_reachable s'"
  by (induction rule: sched_steps.induct) (auto intro: sched_reachable.step)

lemma steps_num: "sched_steps P s s' \<Longrightarrow> sched_reachable s \<Longrightarrow> num_scheduled s \<le> num_scheduled s'"
proof (induction rule: sched_steps.induct)
  case (step s s' ev s'')
  have "sched_wf s'" using steps_reachable [OF step(1,5)] by (rule reachable_wf)
  with step step_num [OF step(3)] show ?case by simp
qed simp

lemma steps_finished:
  assumes "sched_steps regular_event s s'" "sched_reachable s" "distinct_pids s"
    and "task_map s p = Some e" "state e = TASK_FINISHED"
  shows "task_map s' p = Some e \<and> distinct_pids s'"
  using assms
proof (induction rule: sched_steps.induct)
  case (step s s' ev s'')
  have wf: "sched_wf s'" using steps_reachable [OF step(1,5)] by (rule reachable_wf)
  have IH: "task_map s' p = Some e" "distinct_pids s'" using step by simp_all
  have "distinct_pids s''"
    using step_distinct [OF step(3) wf IH(2)] step(2) by (auto simp: regular_event_def)
  with step_finished [OF step(3) wf IH(2) step(2) IH(1) step(8)] show ?case by simp
qed simp

section \<open>Properties\<close>

definition fresh_sched :: sched where
  "fresh_sched = scheduler_init
     \<lparr>process_table = [], process_current_ptr = 0, term_data = [], term_head = 0, term_tail = 0,
      current_scheduled = 0, num_scheduled = 0,
      schedule_table = replicate 16 \<lparr>state = TASK_FREE, blocking_event = 0, pid = 0, exitcode = 0\<rparr>,
      schedule_current_pid = 0\<rparr>"

lemma fresh_reachable: "sched_reachable fresh_sched"
  unfolding fresh_sched_def by (rule sched_reachable.init) simp

lemma fresh_wf: "sched_wf fresh_sched"
  using fresh_reachable by (rule reachable_wf)

lemma fresh_distinct: "distinct_pids fresh_sched"
  by (simp add: distinct_pids_def fresh_sched_def scheduler_init_def)

lemma fresh_num [simp]: "num_scheduled fresh_sched = 0" "current_scheduled fresh_sched = -1"
  by (simp_all add: fresh_sched_def scheduler_init_def)

lemma fresh_task_map: "task_map fresh_sched p = None"
  by (simp add: task_map_def)

text \<open>One task, added by the boot code.\<close>

definition one_task :: sched where
  "one_task = snd (scheduler_add 7 fresh_sched)"

lemma one_task_eq:
  "scheduler_add 7 fresh_sched = (0, one_task)" "num_scheduled one_task = 1" "current_scheduled one_task = -1"
  "schedule_table one_task ! 0 = \<lparr>state = TASK_READY, blocking_event = 0, pid = 7, exitcode = 0\<rparr>"
  by (simp_all add: one_task_def scheduler_add_eq [OF fresh_wf])
    (simp_all add: fresh_sched_def scheduler_init_def)

lemma one_task_step: "sched_step (Add 7) fresh_sched one_task"
  using one_task_eq(1) by (rule sched_step.add)

lemma one_task_reachable: "sched_reachable one_task"
  using fresh_reachable one_task_step by (rule sched_reachable.step)

lemma one_task_runnable: "runnable one_task 0"
  by (simp add: runnable_def one_task_eq)

lemma single_task_distinct: "num_scheduled s = 1 \<Longrightarrow> length (schedule_table s) = MAX_SCHEDULED \<Longrightarrow> distinct_pids s"
  by (cases "schedule_table s") (simp_all add: distinct_pids_def)

lemma one_task_distinct: "distinct_pids one_task"
  using one_task_eq(2) sched_wfD(1) [OF reachable_wf [OF one_task_reachable]] by (rule single_task_distinct)

lemma one_task_map: "task_map one_task 7 = Some (schedule_table one_task ! 0)"
proof -
  have "first_slot one_task 0 7" using one_task_eq(2,4) by (simp add: first_slot_def)
  then show ?thesis using task_map_first [OF reachable_wf [OF one_task_reachable]] by blast
qed

text \<open>The same task running, finished with exit code 5, and blocked on event 1.\<close>

definition one_running :: sched where "one_running = run_slot 0 one_task"

definition one_finished :: sched where "one_finished = the (scheduler_exit 7 5 one_running)"

definition one_blocked :: sched where "one_blocked = the (scheduler_block_current 1 one_running)"

lemma one_running_step: "sched_step Tick one_task one_running"
proof -
  have "sched_wf one_task" using one_task_reachable by (rule reachable_wf)
  then show ?thesis
  proof (cases rule: scheduler_next_cases)
    case stuck
    with one_task_runnable one_task_eq(2) show ?thesis by auto
  next
    case (runs i)
    then have "i = 0" using one_task_eq(2) by simp
    with runs(1) show ?thesis unfolding one_running_def by (simp add: sched_step.tick)
  qed
qed

lemma one_running_reachable: "sched_reachable one_running"
  using one_task_reachable one_running_step by (rule sched_reachable.step)

lemma one_running_eq:
  "schedule_table one_running ! 0 = \<lparr>state = TASK_RUNNING, blocking_event = 0, pid = 7, exitcode = 0\<rparr>"
  "num_scheduled one_running = 1" "scheduler_current one_running = 0" "scheduler_current_pid one_running = 7"
  "entry_at (scheduler_current one_running) one_running = Some (schedule_table one_running ! 0)"
proof -
  have len: "length (schedule_table one_task) = 16"
    using sched_wfD(1) [OF reachable_wf [OF one_task_reachable]] .
  show "schedule_table one_running ! 0 = \<lparr>state = TASK_RUNNING, blocking_event = 0, pid = 7, exitcode = 0\<rparr>"
    using len one_task_eq(4) by (simp add: one_running_def run_slot_nth)
  show "num_scheduled one_running = 1" "scheduler_current one_running = 0" "scheduler_current_pid one_running = 7"
    "entry_at (scheduler_current one_running) one_running = Some (schedule_table one_running ! 0)"
    using len one_task_eq(2,4)
    by (simp_all add: one_running_def scheduler_current_def entry_at_def scheduler_current_pid_def run_slot_def Let_def)
qed

lemma one_running_distinct: "distinct_pids one_running"
  using one_running_eq(2) sched_wfD(1) [OF reachable_wf [OF one_running_reachable]] by (rule single_task_distinct)

lemma one_running_map: "task_map one_running 7 = Some (schedule_table one_running ! 0)"
  using task_map_current [OF reachable_wf [OF one_running_reachable] one_running_distinct one_running_eq(5)] one_running_eq(4) by simp

lemma scheduler_exit_num: "scheduler_exit p c s = Some s' \<Longrightarrow> num_scheduled s' = num_scheduled s"
  by (auto simp: scheduler_exit_def scheduler_broadcast_event_def entry_update_def
      split: option.splits Option.bind_splits)

lemma one_finished_step: "sched_step (Exit 5) one_running one_finished"
  and one_finished_map: "task_map one_finished 7 = Some (finish 5 (schedule_table one_running ! 0))"
proof -
  obtain s' where s': "scheduler_exit 7 5 one_running = Some s'"
      "task_map s' 7 = Some (finish 5 (schedule_table one_running ! 0))"
    using task_map_exit [OF reachable_wf [OF one_running_reachable] one_running_distinct one_running_map, of 5] one_running_map by auto
  then have "s' = one_finished" by (simp add: one_finished_def)
  with s' show "sched_step (Exit 5) one_running one_finished"
    "task_map one_finished 7 = Some (finish 5 (schedule_table one_running ! 0))"
    using sched_step.exit [OF one_running_eq(5), of 5 s'] one_running_eq(1,4) by simp_all
qed

lemma one_blocked_step: "sched_step (Block 1) one_running one_blocked"
proof -
  have "scheduler_block_current 1 one_running = Some one_blocked"
    using block_current_eq [OF reachable_wf [OF one_running_reachable], of 0 1] one_running_eq(2,3)
    by (simp add: one_blocked_def scheduler_current_def)
  then show ?thesis using one_running_eq(1) by (intro sched_step.block [OF one_running_eq(5)]) simp_all
qed

text \<open>A table filled with 16 tasks.\<close>

lemma table_of_size:
  "n \<le> MAX_SCHEDULED \<Longrightarrow> \<exists>s::sched. sched_reachable s \<and> num_scheduled s = int n"
proof (induction n)
  case 0
  then show ?case using fresh_reachable by (intro exI [of _ fresh_sched]) simp
next
  case (Suc n)
  then obtain s :: sched where s: "sched_reachable s" "num_scheduled s = int n" by auto
  obtain r s' where add: "scheduler_add (int n) s = (r, s')" by force
  then have "num_scheduled s' = int (Suc n)"
    using s(2) Suc.prems by (auto simp: scheduler_add_eq [OF reachable_wf [OF s(1)]])
  with sched_reachable.step [OF s(1) sched_step.add [OF add]] show ?case by blast
qed

text \<open>The same process added twice: nothing refuses it, and the identifier is in the table twice.\<close>

definition added_twice :: sched where "added_twice = snd (scheduler_add 7 one_task)"

lemma added_twice_step: "sched_step (Add 7) one_task added_twice"
  unfolding added_twice_def by (rule sched_step.add [where r = "fst (scheduler_add 7 one_task)"]) simp

text \<open>C5. After any history of calls and ticks from \<open>scheduler_init\<close>, adding any identifiers, the table is
  consistent (\<open>sched_wf\<close>): the tasks are the first \<open>num_scheduled\<close> entries, the current index is -1 or
  that of a task, only the current task can be RUNNING, and \<open>schedule_current_pid\<close> names it. While the
  process identifiers of the tasks are distinct they stay so, with the one exception of the call
  that adds an identifier again while the table has room: no check refuses it, and from then on
  the identifier is in the table twice.\<close>

theorem scheduler_invariant:
  assumes "sched_reachable s"
  shows "sched_wf s \<and> (\<forall>ev s'. distinct_pids s \<and> sched_step ev s s' \<longrightarrow>
      (distinct_pids s' \<longleftrightarrow> \<not> (\<exists>p. ev = Add p \<and> task_map s p \<noteq> None \<and> num_scheduled s < int MAX_SCHEDULED)))"
  using reachable_wf [OF assms] step_distinct by blast

lemma scheduler_invariant_witness:
  "sched_wf one_task \<and> distinct_pids one_task \<and> sched_wf added_twice \<and> \<not> distinct_pids added_twice"
proof -
  have "distinct_pids one_task"
    using scheduler_invariant [OF fresh_reachable] fresh_distinct one_task_step fresh_task_map by blast
  moreover from this have "\<not> distinct_pids added_twice"
    using scheduler_invariant [OF one_task_reachable] added_twice_step one_task_map one_task_eq(2) by auto
  ultimately show ?thesis
    using scheduler_invariant one_task_reachable sched_reachable.step [OF one_task_reachable added_twice_step]
    by blast
qed

text \<open>C2. Round robin: in every reachable state \<open>scheduler_next\<close> either never returns, and then no
  task is READY or RUNNING, or it returns the first READY or RUNNING task in cyclic order after the
  current slot, makes it the current process, and leaves it as the only RUNNING task.\<close>

theorem scheduler_next_round_robin:
  assumes "sched_reachable s"
  shows "case scheduler_next s of
      None \<Rightarrow> \<forall>i. int i < num_scheduled s \<longrightarrow> \<not> runnable s i
    | Some (p, s') \<Rightarrow> \<exists>i. int i < num_scheduled s \<and> runnable s i
        \<and> (\<forall>j. int j < num_scheduled s \<longrightarrow> runnable s j \<longrightarrow> distance s i \<le> distance s j)
        \<and> p = pid (schedule_table s ! i) \<and> current_scheduled s' = int i
        \<and> schedule_current_pid s' = p \<and> process_current_ptr s' = p
        \<and> (\<forall>j < MAX_SCHEDULED. state (schedule_table s' ! j) = TASK_RUNNING \<longleftrightarrow> j = i)"
proof -
  note wf = reachable_wf [OF assms]
  from wf show ?thesis
  proof (cases rule: scheduler_next_cases)
    case stuck
    then show ?thesis by simp
  next
    case (runs i)
    note len = sched_wfD(1) [OF wf]
    have "state (schedule_table (run_slot i s) ! j) = TASK_RUNNING \<longleftrightarrow> j = i" if "j < MAX_SCHEDULED" for j
      using that runs(5) len by (simp add: run_slot_nth)
    moreover have "schedule_current_pid (run_slot i s) = pid (schedule_table s ! i)"
        "process_current_ptr (run_slot i s) = pid (schedule_table s ! i)"
      by (simp_all add: run_slot_def Let_def)
    ultimately show ?thesis
      using runs chosen_nearest [OF wf runs(2)] by (auto intro!: exI [of _ i])
  qed
qed

lemma scheduler_next_round_robin_witness:
  "\<exists>s'. scheduler_next one_task = Some (7, s') \<and> process_current_ptr s' = 7"
proof -
  have run: "runnable one_task 0" "int 0 < num_scheduled one_task" "num_scheduled one_task = 1"
    using one_task_runnable one_task_eq(2) by simp_all
  show ?thesis
  proof (cases "scheduler_next one_task")
    case None
    with scheduler_next_round_robin [OF one_task_reachable] run show ?thesis by auto
  next
    case (Some r)
    with scheduler_next_round_robin [OF one_task_reachable] run one_task_eq(4)
    show ?thesis by (cases r) auto
  qed
qed

text \<open>C3. Fairness: a task, an entry among the first \<open>num_scheduled\<close>, that is READY or RUNNING in a reachable
  state is started within the next \<open>num_scheduled\<close> timer ticks (choices of \<open>scheduler_next\<close>), and none of
  these ticks hangs.\<close>

theorem scheduler_fair:
  assumes "sched_reachable s" "int i < num_scheduled s" "schedule_table s ! i = e" "state e \<in> {TASK_READY, TASK_RUNNING}"
  shows "\<exists>ps s'. scheduler_ticks (nat (num_scheduled s)) s = Some (ps, s') \<and> pid e \<in> set ps"
proof -
  note wf = reachable_wf [OF assms(1)]
  have n: "0 < num_scheduled s" using assms(2) by simp
  have "runnable s i" using assms(3,4) by (simp add: runnable_def)
  moreover have "nat (distance s i) < nat (num_scheduled s)"
    using distance_slot(3) [OF n assms(2)] n by simp
  ultimately show ?thesis using ticks_reach [OF wf assms(2)] assms(3) by auto
qed

lemma scheduler_fair_witness:
  "\<exists>ps s'. scheduler_ticks (nat (num_scheduled one_task)) one_task = Some (ps, s') \<and> 7 \<in> set ps"
  using scheduler_fair [OF one_task_reachable, of 0] by (simp add: one_task_eq)

text \<open>C4. The scheduler implements a map of tasks. In every reachable state whose process identifiers are
  distinct, each operation (\<open>scheduler_add\<close>, \<open>scheduler_next\<close>, \<open>scheduler_exit\<close> and
  \<open>scheduler_block_current\<close> of the current task, \<open>scheduler_block\<close> of any scheduled task) is a step of
  the abstract scheduler: adding a new identifier makes it READY, adding one that is there already
  leaves the map as it is (and ends the distinctness, see C5), adding when there are 16 tasks changes
  nothing, ending the current one wakes exactly the tasks blocked on \<open>EVENT_PROCESS_FINISHED\<close>, and a
  tick moves RUNNING from one task to another.\<close>

theorem scheduler_refines_tasks:
  assumes "sched_reachable s" "distinct_pids s" "sched_step ev s s'"
  shows "task_step (scheduler_current_pid s) ev (task_map s) (task_map s')"
  using step_refines [OF assms(3) reachable_wf [OF assms(1)] assms(2)] .

lemma scheduler_refines_tasks_witness:
  "task_step (scheduler_current_pid fresh_sched) (Add 7) (task_map fresh_sched) (task_map one_task)
   \<and> task_step (scheduler_current_pid one_task) (Add 7) (task_map one_task) (task_map added_twice)"
  using scheduler_refines_tasks [OF fresh_reachable fresh_distinct one_task_step]
    scheduler_refines_tasks [OF one_task_reachable one_task_distinct added_twice_step] by blast

text \<open>The exit code of a finished task can be read at any later time: no call or tick changes its
  state or its exit code, whatever the other tasks do, as long as no identifier is added again.\<close>

theorem finished_task_kept:
  assumes "sched_reachable s" "distinct_pids s" "task_map s p = Some e" "state e = TASK_FINISHED"
    and "sched_steps regular_event s s'"
  shows "scheduler_state p s' = Some TASK_FINISHED \<and> scheduler_exitcode p s' = Some (exitcode e)"
  using lookup_task(1,3) [OF reachable_wf [OF steps_reachable [OF assms(5,1)]]]
    steps_finished [OF assms(5,1,2,3,4)] assms(4) by auto

lemma finished_task_kept_witness: "scheduler_exitcode 7 (snd (scheduler_add 8 one_finished)) = Some 5"
proof -
  have fin: "sched_reachable one_finished"
    using one_running_reachable one_finished_step by (rule sched_reachable.step)
  have dist: "distinct_pids one_finished"
    using step_distinct [OF one_finished_step reachable_wf [OF one_running_reachable] one_running_distinct] by simp
  have "num_scheduled one_finished = 1"
    using one_finished_step one_running_eq(2) by (auto elim!: sched_step_cases dest: scheduler_exit_num)
  moreover have "schedule_table one_finished ! 0 = finish 5 (schedule_table one_running ! 0)"
    using one_finished_map task_map_Some [OF reachable_wf [OF fin] dist, of 7] calculation by auto
  ultimately have "task_map one_finished 8 = None"
    using task_map_None [OF reachable_wf [OF fin], of 8] one_running_eq(1) by simp
  then have "regular_event one_finished (Add 8)" by (simp add: regular_event_def)
  moreover have "sched_step (Add 8) one_finished (snd (scheduler_add 8 one_finished))"
    by (rule sched_step.add [where r = "fst (scheduler_add 8 one_finished)"]) simp
  ultimately have "sched_steps regular_event one_finished (snd (scheduler_add 8 one_finished))"
    by (rule sched_steps.step [OF sched_steps.refl])
  from finished_task_kept [OF fin dist one_finished_map _ this] show ?thesis by simp
qed

text \<open>Entries are never freed: once 16 tasks have been added, \<open>scheduler_add\<close> returns
  \<open>E_TOO_MANY_TASKS\<close> and changes nothing for the rest of the system's life, even when all the
  tasks have finished.\<close>

theorem schedule_table_exhausted:
  assumes "sched_reachable s" "num_scheduled s = int MAX_SCHEDULED" "sched_steps P s s'"
  shows "scheduler_add p s' = (E_TOO_MANY_TASKS, s')"
proof -
  have wf: "sched_wf s'" using steps_reachable [OF assms(3,1)] by (rule reachable_wf)
  with steps_num [OF assms(3,1)] sched_wfD(3) [OF wf] assms(2) show ?thesis
    by (simp add: scheduler_add_eq)
qed

lemma schedule_table_exhausted_witness:
  "\<exists>s::sched. num_scheduled s = int MAX_SCHEDULED \<and> scheduler_add 99 s = (E_TOO_MANY_TASKS, s)"
proof -
  obtain s :: sched where "sched_reachable s" "num_scheduled s = int MAX_SCHEDULED"
    using table_of_size [of MAX_SCHEDULED] by auto
  then show ?thesis using schedule_table_exhausted [OF _ _ sched_steps.refl, of s 99] by blast
qed

text \<open>Blocking the last runnable task hangs the kernel: when every other task is finished or
  blocked, the timer interrupt after \<open>scheduler_block_current\<close> never leaves the search loop of
  \<open>scheduler_next\<close>.\<close>

theorem block_last_hangs:
  assumes "sched_reachable s" "distinct_pids s" "sched_step (Block event) s s'"
    and "\<forall>p e. task_map s p = Some e \<and> p \<noteq> scheduler_current_pid s \<longrightarrow> state e \<in> {TASK_FINISHED, TASK_BLOCKED}"
  shows "scheduler_next s' = None"
proof -
  have wf: "sched_wf s" "sched_wf s'" using assms(1,3) by (auto intro: reachable_wf sched_reachable.step)
  have dist: "distinct_pids s'" using step_distinct [OF assms(3) wf(1) assms(2)] by simp
  have m: "task_map s' p = Some e \<Longrightarrow> state e \<in> {TASK_FINISHED, TASK_BLOCKED}" for p e
    using step_refines [OF assms(3) wf(1) assms(2)] assms(4)
    by (cases rule: task_step.cases) (auto split: if_splits)
  have "\<not> runnable s' i" if "int i < num_scheduled s'" for i
  proof -
    have "task_map s' (pid (schedule_table s' ! i)) = Some (schedule_table s' ! i)"
      using task_map_Some [OF wf(2) dist] that by blast
    from m [OF this] show ?thesis by (auto simp: runnable_def)
  qed
  with wf(2) show ?thesis by (cases rule: scheduler_next_cases) auto
qed

lemma block_last_hangs_witness: "scheduler_next one_blocked = None"
proof (rule block_last_hangs [OF one_running_reachable one_running_distinct one_blocked_step])
  show "\<forall>p e. task_map one_running p = Some e \<and> p \<noteq> scheduler_current_pid one_running
      \<longrightarrow> state e \<in> {TASK_FINISHED, TASK_BLOCKED}"
    using task_map_Some [OF reachable_wf [OF one_running_reachable] one_running_distinct] one_running_eq by auto
qed

end
