(* ===== verification/Page_Memory.thy ===== *)
theory Page_Memory
  imports C_Prelude
begin

text \<open>
  The page allocator of \<open>kernel/memory.c\<close>: a table with one status byte for each of up to 256
  banks of user RAM. \<open>memory_init\<close> enables the first \<open>pages\<close> entries, \<open>memory_allocate\<close> hands
  out the lowest free page, \<open>memory_free\<close> gives one back. The lemmas give the effect of each
  operation, the invariant \<open>mem_wf\<close>, and the life of a page over a sequence of calls.
\<close>

abbreviation (input) PAGE_DISABLED :: u8 where "PAGE_DISABLED \<equiv> 0"
abbreviation (input) PAGE_FREE :: u8 where "PAGE_FREE \<equiv> 1"
abbreviation (input) PAGE_USED :: u8 where "PAGE_USED \<equiv> 2"
abbreviation (input) E_NOPAGES :: int where "E_NOPAGES \<equiv> -1"
abbreviation (input) E_INIT :: int where "E_INIT \<equiv> -2"
abbreviation (input) PAGES_MAX :: nat where "PAGES_MAX \<equiv> 256"

record mem =
  num_pages :: int
  page_table :: bytes

section \<open>Operations\<close>

text \<open>\<open>for (i = a; i < b; i++) table[i] = v;\<close>\<close>

definition fill_range :: "nat \<Rightarrow> nat \<Rightarrow> 'a \<Rightarrow> 'a list \<Rightarrow> 'a list" where
  "fill_range a b v t = fold (\<lambda>i t. t[i := v]) [a..<b] t"

definition memory_init :: "int \<Rightarrow> mem \<Rightarrow> (int \<times> mem) option" where
  "memory_init pages m =
     (if pages > int PAGES_MAX then Some (E_INIT, m)
      else if pages < 0 then None \<comment> \<open>the second loop would start below the array\<close>
      else Some (0, m\<lparr>num_pages := pages,
                      page_table := fill_range (nat pages) PAGES_MAX PAGE_DISABLED
                                      (fill_range 0 (nat pages) PAGE_FREE (page_table m))\<rparr>))"

definition free_page :: "mem \<Rightarrow> int" where
  "free_page m = c_index E_NOPAGES (first_idx (\<lambda>p. p = PAGE_FREE) (take (nat (num_pages m)) (page_table m)))"

definition memory_allocate :: "mem \<Rightarrow> int \<times> mem" where
  "memory_allocate m =
     (let i = free_page m in
      if 0 \<le> i then (i, m\<lparr>page_table := (page_table m)[nat i := PAGE_USED]\<rparr>) else (E_NOPAGES, m))"

definition memory_free :: "int \<Rightarrow> mem \<Rightarrow> mem option" where
  "memory_free page m =
     (if 0 \<le> page \<and> nat page < length (page_table m)
      then Some (m\<lparr>page_table := (page_table m)[nat page := PAGE_FREE]\<rparr>) else None)"

section \<open>The invariant\<close>

definition mem_wf :: "mem \<Rightarrow> bool" where
  "mem_wf m \<longleftrightarrow> length (page_table m) = PAGES_MAX \<and> 0 \<le> num_pages m \<and> num_pages m \<le> int PAGES_MAX
     \<and> (\<forall>i < nat (num_pages m). page_table m ! i \<in> {PAGE_FREE, PAGE_USED})"

lemma length_fill_range [simp]: "length (fill_range a b v t) = length t"
proof -
  have "length (fold (\<lambda>i t. t[i := v]) is t) = length t" for "is" :: "nat list"
    by (induction "is" arbitrary: t) auto
  then show ?thesis by (simp add: fill_range_def)
qed

lemma nth_fill_range:
  "i < length t \<Longrightarrow> fill_range a b v t ! i = (if a \<le> i \<and> i < b then v else t ! i)"
proof (induction b)
  case 0
  then show ?case by (simp add: fill_range_def)
next
  case (Suc b)
  show ?case
  proof (cases "a \<le> b")
    case True
    then have "fill_range a (Suc b) v t = (fill_range a b v t)[b := v]"
      by (simp add: fill_range_def)
    with Suc True show ?thesis by (cases "i = b") auto
  next
    case False
    then have "fill_range a (Suc b) v t = t" by (simp add: fill_range_def)
    with False show ?thesis by auto
  qed
qed

lemma memory_init_table:
  assumes "memory_init pages m = Some (0, m')" "length (page_table m) = PAGES_MAX"
  shows "num_pages m' = pages" "0 \<le> pages" "pages \<le> int PAGES_MAX"
    "page_table m' = replicate (nat pages) PAGE_FREE @ replicate (PAGES_MAX - nat pages) PAGE_DISABLED"
  using assms
  by (auto simp: memory_init_def nth_fill_range nth_append intro!: nth_equalityI split: if_splits)

lemma memory_init_wf:
  "memory_init pages m = Some (0, m') \<Longrightarrow> length (page_table m) = PAGES_MAX \<Longrightarrow> mem_wf m'"
  using memory_init_table [of pages m m'] by (simp add: mem_wf_def nth_append)

interpretation pages: slot_finder
  free_page
  "\<lambda>m i. page_table m ! i = PAGE_FREE"
  "\<lambda>m. length (take (nat (num_pages m)) (page_table m))"
  by unfold_locales (auto simp: free_page_def c_index_first_idx)

lemma memory_allocate_cases:
  obtains (full) "fst (memory_allocate m) = E_NOPAGES" "snd (memory_allocate m) = m"
      "\<forall>i < min (nat (num_pages m)) (length (page_table m)). page_table m ! i \<noteq> PAGE_FREE"
    | (page) i where "memory_allocate m = (int i, m\<lparr>page_table := (page_table m)[i := PAGE_USED]\<rparr>)"
      "i < nat (num_pages m)" "i < length (page_table m)" "page_table m ! i = PAGE_FREE"
      "\<forall>j < i. page_table m ! j \<noteq> PAGE_FREE"
proof (cases "free_page m < 0")
  case True
  with pages.find_none [of m] show ?thesis
    by (intro full) (auto simp: memory_allocate_def)
next
  case False
  then obtain i where i: "free_page m = int i" by (metis nonneg_int_cases not_less)
  with pages.find_free [OF i] pages.find_least [OF i] show ?thesis
    by (intro page [of i]) (auto simp: memory_allocate_def)
qed

lemma memory_allocate_lowest:
  assumes "int i < num_pages m" "i < length (page_table m)" "page_table m ! i = PAGE_FREE"
    and "\<forall>j < i. page_table m ! j \<noteq> PAGE_FREE"
  shows "memory_allocate m = (int i, m\<lparr>page_table := (page_table m)[i := PAGE_USED]\<rparr>)"
proof (cases m rule: memory_allocate_cases)
  case full
  with assms(1-3) show ?thesis by (auto simp: zless_nat_eq_int_zless)
next
  case (page k)
  with assms(3,4) have "k = i" by (metis nat_neq_iff)
  with page(1) show ?thesis by simp
qed

lemma memory_allocate_wf: "mem_wf m \<Longrightarrow> mem_wf (snd (memory_allocate m))"
  by (cases m rule: memory_allocate_cases) (auto simp: mem_wf_def nth_list_update)

lemma memory_free_wf: "mem_wf m \<Longrightarrow> memory_free page m = Some m' \<Longrightarrow> mem_wf m'"
  by (auto simp: mem_wf_def memory_free_def nth_list_update split: if_splits)

lemma num_pages_memory_allocate [simp]: "num_pages (snd (memory_allocate m)) = num_pages m"
  by (auto simp: memory_allocate_def Let_def)

section \<open>Sequences of calls\<close>

text \<open>\<open>n\<close> calls of \<open>memory_allocate\<close> in a row, with their results.\<close>

fun allocate_many :: "nat \<Rightarrow> mem \<Rightarrow> int list \<times> mem" where
  "allocate_many 0 m = ([], m)"
| "allocate_many (Suc n) m =
     (let (p, m1) = memory_allocate m; (ps, m2) = allocate_many n m1 in (p # ps, m2))"

text \<open>A client's history: it allocates, or frees a page it holds.\<close>

datatype mem_op = Allocate | Free int

fun mem_run :: "mem_op list \<Rightarrow> int set \<Rightarrow> mem \<Rightarrow> (int set \<times> mem) option" where
  "mem_run [] held m = Some (held, m)"
| "mem_run (Allocate # ops) held m =
     (let (p, m') = memory_allocate m in
      mem_run ops (if p < 0 then held else insert p held) m')"
| "mem_run (Free p # ops) held m =
     (if p \<in> held then (case memory_free p m of None \<Rightarrow> None | Some m' \<Rightarrow> mem_run ops (held - {p}) m')
      else None)"

definition pages_used :: "mem \<Rightarrow> int set" where
  "pages_used m = {p. 0 \<le> p \<and> nat p < nat (num_pages m) \<and> page_table m ! nat p = PAGE_USED}"

lemma pages_used_allocate:
  assumes "mem_wf m" "memory_allocate m = (p, m')"
  shows "pages_used m' = (if p < 0 then pages_used m else insert p (pages_used m))"
    and "0 \<le> p \<Longrightarrow> p \<notin> pages_used m"
  by (use assms in \<open>cases m rule: memory_allocate_cases;
        auto simp: pages_used_def mem_wf_def nth_list_update split: if_splits\<close>)+

lemma pages_used_free:
  assumes "mem_wf m" "memory_free p m = Some m'"
  shows "pages_used m' = pages_used m - {p}"
  using assms by (auto simp: pages_used_def memory_free_def mem_wf_def nth_list_update split: if_splits)

lemma mem_run_used:
  "mem_wf m \<Longrightarrow> held = pages_used m \<Longrightarrow> mem_run ops held m = Some (held', m')
   \<Longrightarrow> mem_wf m' \<and> held' = pages_used m'"
proof (induction ops held m rule: mem_run.induct)
  case (2 ops held m)
  obtain p m1 where p: "memory_allocate m = (p, m1)" by force
  have "mem_wf m1" using memory_allocate_wf [OF 2(2)] by (simp add: p)
  with 2 p pages_used_allocate [OF 2(2) p] show ?case by simp
next
  case (3 p ops held m)
  then show ?case
    by (auto split: if_splits option.splits simp: pages_used_free memory_free_wf)
qed simp_all

lemma card_pages_used:
  assumes "mem_wf m"
  shows "finite (pages_used m)"
    and "fst (memory_allocate m) = E_NOPAGES \<longleftrightarrow> card (pages_used m) = nat (num_pages m)"
proof -
  let ?all = "int ` {..<nat (num_pages m)}"
  have sub: "pages_used m \<subseteq> ?all"
  proof
    fix p assume "p \<in> pages_used m"
    then have "p = int (nat p)" "nat p \<in> {..<nat (num_pages m)}" by (simp_all add: pages_used_def)
    then show "p \<in> ?all" by (rule image_eqI)
  qed
  then show fin: "finite (pages_used m)" by (rule finite_subset) simp
  have "card (pages_used m) = nat (num_pages m) \<longleftrightarrow> pages_used m = ?all"
  proof
    assume "card (pages_used m) = nat (num_pages m)"
    then show "pages_used m = ?all" by (intro card_subset_eq sub) (simp_all add: card_image)
  qed (simp add: card_image)
  also have "\<dots> \<longleftrightarrow> (\<forall>i \<in> {..<nat (num_pages m)}. int i \<in> pages_used m)"
    using sub by blast
  also have "\<dots> \<longleftrightarrow> (\<forall>i < nat (num_pages m). page_table m ! i = PAGE_USED)"
    by (auto simp: pages_used_def)
  also have "\<dots> \<longleftrightarrow> (\<forall>i < nat (num_pages m). page_table m ! i \<noteq> PAGE_FREE)"
    using assms by (auto simp: mem_wf_def)
  also have "\<dots> \<longleftrightarrow> fst (memory_allocate m) = E_NOPAGES"
    using assms by (cases m rule: memory_allocate_cases) (auto simp: mem_wf_def)
  finally show "fst (memory_allocate m) = E_NOPAGES \<longleftrightarrow> card (pages_used m) = nat (num_pages m)"
    by simp
qed

section \<open>Properties\<close>

text \<open>C23. A page is never given to two holders. After \<open>memory_init\<close> with \<open>pages\<close> banks and any
  history of allocations and of frees of held pages, the next \<open>memory_allocate\<close> returns a page
  below \<open>pages\<close> that nobody holds, and it reports \<open>E_NOPAGES\<close> exactly when all \<open>pages\<close> pages
  are held.\<close>

theorem memory_allocate_exclusive:
  assumes init: "memory_init pages m = Some (0, m0)" and len: "length (page_table m) = PAGES_MAX"
    and run: "mem_run ops {} m0 = Some (held, m')" and alloc: "memory_allocate m' = (p, m'')"
  shows "(p = E_NOPAGES \<or> (0 \<le> p \<and> p < pages \<and> p \<notin> held))
    \<and> (p = E_NOPAGES \<longleftrightarrow> card held = nat pages)"
proof (rule conjI)
  note tab = memory_init_table [OF init len]
  have wf0: "mem_wf m0" using init len by (rule memory_init_wf)
  have "pages_used m0 = {}" using tab by (auto simp: pages_used_def nth_append)
  then have m': "mem_wf m'" "held = pages_used m'"
    using mem_run_used [OF wf0 _ run] by simp_all
  have num: "num_pages m' = pages"
  proof -
    have "mem_run ops h s = Some (h', s') \<Longrightarrow> num_pages s' = num_pages s" for h s h' s'
      by (induction ops h s rule: mem_run.induct)
        (auto simp: memory_free_def memory_allocate_def Let_def split: if_splits option.splits prod.splits)
    from this [OF run] tab(1) show ?thesis by simp
  qed
  show "p = E_NOPAGES \<or> (0 \<le> p \<and> p < pages \<and> p \<notin> held)"
    using alloc num pages_used_allocate(2) [OF m'(1) alloc] m'(2)
    by (cases m' rule: memory_allocate_cases) auto
  show "p = E_NOPAGES \<longleftrightarrow> card held = nat pages"
    using card_pages_used(2) [OF m'(1)] alloc num m'(2) by simp
qed

lemma memory_allocate_exclusive_witness:
  "\<exists>m0 held m' m''. memory_init 2 \<lparr>num_pages = 0, page_table = replicate 256 0\<rparr> = Some (0, m0)
     \<and> mem_run [Allocate, Allocate, Free 0] {} m0 = Some (held, m')
     \<and> memory_allocate m' = (0, m'') \<and> 0 \<notin> held"
  proof -
  define m where "m = \<lparr>num_pages = 0, page_table = replicate 256 (0::u8)\<rparr>"
  obtain m0 where m0: "memory_init 2 m = Some (0, m0)" by (auto simp: memory_init_def)
  obtain held m' where run: "mem_run [Allocate, Allocate, Free 0] {} m0 = Some (held, m')"
      and tab: "num_pages m' = 2" "take 2 (page_table m') = [PAGE_FREE, PAGE_USED]"
  using memory_init_table [OF m0] 
    by (simp add: m_def memory_allocate_def free_page_def Let_def memory_free_def numeral_eq_Suc)
  obtain p m'' where alloc: "memory_allocate m' = (p, m'')" by force
  have "p = 0" using alloc tab by (auto simp: memory_allocate_def free_page_def)
  with memory_allocate_exclusive [OF m0 _ run alloc] show ?thesis
     using m0 run alloc by (auto simp: m_def)
qed

text \<open>\<open>memory_free\<close> undoes \<open>memory_allocate\<close>: freeing the page just obtained restores the table,
  and the next allocation returns the same page.\<close>

theorem memory_free_allocate:
  assumes "mem_wf m" "memory_allocate m = (p, m')" "0 \<le> p"
  shows "memory_free p m' = Some m"
proof (cases m rule: memory_allocate_cases)
  case full
  with assms(2,3) show ?thesis by simp
next
  case (page i)
  have "(page_table m)[i := PAGE_FREE] = page_table m"
    using page(4) by (metis list_update_id)
  with page assms(2) show ?thesis by (auto simp: memory_free_def)
qed

lemma memory_free_allocate_witness:
  "\<exists>m m'. memory_allocate m = (3, m') \<and> memory_free 3 m' = Some m"
proof -
  define m where "m = \<lparr>num_pages = 4, page_table = replicate 3 PAGE_USED @ replicate 253 PAGE_FREE\<rparr>"
  have wf: "mem_wf m" by (auto simp: mem_wf_def m_def nth_append)
  obtain m' where m': "memory_allocate m = (3, m')"
    by (simp add: m_def memory_allocate_def free_page_def numeral_eq_Suc)
  with memory_free_allocate [OF wf m'] show ?thesis by auto
qed

end
