(* ===== verification/Disk_Cache.thy ===== *)
theory Disk_Cache
  imports C_Prelude
begin

unbundle bit_operations_syntax

text \<open>
  The bottom of the file system of \<open>kernel/file.c\<close>: the CF card behind \<open>disk_read\<close> and
  \<open>disk_write\<close> (\<open>kernel/disk.asm\<close>), the one-sector cache \<open>temp_sector\<close>, the geometry read from the
  boot sector by \<open>filesystem_init\<close>, and the data structures of the file system. The disk maps a
  28-bit logical block address to 512 bytes. The theory shows that the cache is coherent and
  that the sector computed for a cluster is the right one as long as 16 bits are enough.
\<close>

abbreviation (input) CLUSTER_EOF :: u16 where "CLUSTER_EOF \<equiv> 0xffff"
abbreviation (input) CLUSTER_FREE :: u16 where "CLUSTER_FREE \<equiv> 0"
abbreviation (input) FILE_LIMIT :: nat where "FILE_LIMIT \<equiv> 1"
abbreviation (input) SECTOR_SIZE :: nat where "SECTOR_SIZE \<equiv> 512"

record DiskInfo_T =
  fat_region :: u32
  root_region :: u32
  data_region :: u32
  bytes_per_sector :: u16
  sectors_per_cluster :: u8
  bytes_per_cluster :: u16
  num_sectors :: u32

record DirectoryEntry_T =
  de_name :: bytes
  de_ext :: bytes
  attributes :: u8
  reserved_for_windows_nt :: u8
  creation_milliseconds :: u8
  creation_time :: u16
  creation_date :: u16
  last_access_date :: u16
  reserved_for_fat32 :: u16
  last_write_time :: u16
  last_write_date :: u16
  starting_cluster :: u16
  de_size :: u32

record FileDescriptor_T =
  fd_name :: bytes
  flags :: u8
  mode :: u8
  fsize :: u32
  fpos :: u32
  start_cluster :: u16
  current_cluster :: u16
  sector :: u8
  fpos_within_sector :: u16

text \<open>The globals of \<open>kernel/file.c\<close>; \<open>close_entry\<close> is the static local of \<open>file_close\<close>. The other
  static locals are assigned before each use and are no state.\<close>

record fs =
  disk :: "u32 \<Rightarrow> bytes"
  disk_info :: DiskInfo_T
  temp_sector :: bytes
  current_cache_sector :: u32
  fdtable :: "FileDescriptor_T list"
  close_entry :: DirectoryEntry_T

section \<open>Disk and cache\<close>

text \<open>\<open>_disk_set_lba\<close> drops the top four bits of the sector number.\<close>

definition lba :: "u32 \<Rightarrow> u32" where "lba sec = sec AND 0x0fffffff"

definition disk_read :: "u32 \<Rightarrow> fs \<Rightarrow> bytes" where
  "disk_read sec s = disk s (lba sec)"

definition disk_write :: "bytes \<Rightarrow> u32 \<Rightarrow> fs \<Rightarrow> fs" where
  "disk_write buf sec s = s\<lparr>disk := (disk s)(lba sec := buf)\<rparr>"

text \<open>\<open>read_sector_cached(temp_sector, sector, force_load)\<close>; every call passes \<open>temp_sector\<close>.\<close>

definition read_sector_cached :: "u32 \<Rightarrow> bool \<Rightarrow> fs \<Rightarrow> fs" where
  "read_sector_cached sec force_load s =
     (if force_load \<or> current_cache_sector s \<noteq> sec
      then s\<lparr>temp_sector := disk_read sec s, current_cache_sector := sec\<rparr> else s)"

section \<open>Initialisation\<close>

definition fdtable_init :: "fs \<Rightarrow> fs" where
  "fdtable_init s = s\<lparr>fdtable := map (\<lambda>f. f\<lparr>flags := 0\<rparr>) (fdtable s)\<rparr>"

definition filesystem_calc_fat_region :: "fs \<Rightarrow> fs" where
  "filesystem_calc_fat_region s =
     s\<lparr>disk_info := (disk_info s)\<lparr>fat_region := ucast (le16 (temp_sector s) 0x0e)\<rparr>\<rparr>"

definition filesystem_calc_root_region :: "fs \<Rightarrow> fs" where
  "filesystem_calc_root_region s =
     (let sectors_per_fat = le16 (temp_sector s) 0x16;
          number_of_fats = ucast (temp_sector s ! 0x10) :: u16 in
      s\<lparr>disk_info := (disk_info s)
          \<lparr>root_region := fat_region (disk_info s) + ucast (sectors_per_fat * number_of_fats)\<rparr>\<rparr>)"

definition filesystem_calc_data_region :: "fs \<Rightarrow> fs" where
  "filesystem_calc_data_region s =
     (let root_directory_size = le16 (temp_sector s) 0x11 div 16 in
      s\<lparr>disk_info := (disk_info s)
          \<lparr>data_region := root_region (disk_info s) + ucast root_directory_size\<rparr>\<rparr>)"

definition filesystem_calc_num_sectors :: "fs \<Rightarrow> fs" where
  "filesystem_calc_num_sectors s =
     (let small = ucast (le16 (temp_sector s) 0x13);
          n = (if small = 0 then le32 (temp_sector s) 0x20 else small) in
      s\<lparr>disk_info := (disk_info s)\<lparr>num_sectors := n\<rparr>\<rparr>)"

definition filesystem_init :: "fs \<Rightarrow> int \<times> fs" where
  "filesystem_init s0 =
     (let s1 = s0\<lparr>temp_sector := disk_read 0 s0\<rparr>;
          bps = le16 (temp_sector s1) 0x0b;
          spc = temp_sector s1 ! 0x0d;
          s2 = s1\<lparr>disk_info := (disk_info s1)
                   \<lparr>bytes_per_sector := bps, sectors_per_cluster := spc,
                    bytes_per_cluster := bps * ucast spc\<rparr>\<rparr>;
          s3 = filesystem_calc_num_sectors (filesystem_calc_data_region
                 (filesystem_calc_root_region (filesystem_calc_fat_region s2)))
      in (0, fdtable_init (s3\<lparr>current_cache_sector := 0\<rparr>)))"

text \<open>\<open>(cluster - 2) * disk_info.sectors_per_cluster\<close> is computed in 16 bits.\<close>

definition file_start_sector :: "u16 \<Rightarrow> fs \<Rightarrow> u32" where
  "file_start_sector cluster s =
     data_region (disk_info s) + ucast ((cluster - 2) * ucast (sectors_per_cluster (disk_info s)) :: u16)"

section \<open>The block device\<close>

text \<open>What the file system relies on: a sector reads back as it was last written, and a write
  changes no sector with another address.\<close>

locale block_device =
  fixes dread :: "u32 \<Rightarrow> 'd \<Rightarrow> bytes"
    and dwrite :: "bytes \<Rightarrow> u32 \<Rightarrow> 'd \<Rightarrow> 'd"
    and addr :: "u32 \<Rightarrow> u32"
  assumes read_same: "addr t = addr sec \<Longrightarrow> dread t (dwrite b sec d) = b"
    and read_other: "addr t \<noteq> addr sec \<Longrightarrow> dread t (dwrite b sec d) = dread t d"
begin

lemma read_write: "dread t (dwrite b sec d) = (if addr t = addr sec then b else dread t d)"
  by (simp add: read_same read_other)

text \<open>Read-modify-write: the sector read is the only one that changes, by \<open>f\<close>.\<close>

lemma read_modify_write:
  "dread t (dwrite (f (dread sec d)) sec d) = (if addr t = addr sec then f (dread sec d) else dread t d)"
  by (rule read_write)

end

interpretation cfcard: block_device disk_read disk_write lba
  by unfold_locales (simp_all add: disk_read_def disk_write_def)

lemma lba_small: "unat sec < 2 ^ 28 \<Longrightarrow> lba sec = sec"
proof -
  assume "unat sec < 2 ^ 28"
  then have "take_bit 28 sec = sec"
    by (simp add: word_unat_eq_iff unsigned_take_bit_eq take_bit_nat_eq_self)
  moreover have "(0x0fffffff :: u32) = mask 28" by (simp add: mask_numeral)
  ultimately show ?thesis by (simp add: lba_def take_bit_eq_mask)
qed

lemma lba_inject: "unat a < 2 ^ 28 \<Longrightarrow> unat b < 2 ^ 28 \<Longrightarrow> lba a = lba b \<longleftrightarrow> a = b"
  by (simp add: lba_small)

section \<open>Cache coherence\<close>

definition fs_wf :: "fs \<Rightarrow> bool" where
  "fs_wf s \<longleftrightarrow> (\<forall>k. length (disk s k) = SECTOR_SIZE)
     \<and> temp_sector s = disk_read (current_cache_sector s) s"

lemma fs_wf_temp_length: "fs_wf s \<Longrightarrow> length (temp_sector s) = SECTOR_SIZE"
  by (simp add: fs_wf_def disk_read_def)

lemma fs_wf_read_length: "fs_wf s \<Longrightarrow> length (disk_read sec s) = SECTOR_SIZE"
  by (simp add: fs_wf_def disk_read_def)

lemma read_sector_cached_fields [simp]:
  "disk (read_sector_cached sec b s) = disk s"
  "disk_info (read_sector_cached sec b s) = disk_info s"
  "fdtable (read_sector_cached sec b s) = fdtable s"
  "close_entry (read_sector_cached sec b s) = close_entry s"
  "current_cache_sector (read_sector_cached sec b s) = sec"
  by (auto simp: read_sector_cached_def)

lemma disk_read_fields [simp]:
  "disk_read sec (read_sector_cached t b s) = disk_read sec s"
  "disk_read sec (s\<lparr>temp_sector := x\<rparr>) = disk_read sec s"
  "disk_read sec (s\<lparr>current_cache_sector := t\<rparr>) = disk_read sec s"
  "disk_read sec (s\<lparr>fdtable := f\<rparr>) = disk_read sec s"
  "disk_read sec (s\<lparr>disk_info := i\<rparr>) = disk_read sec s"
  "disk_read sec (s\<lparr>close_entry := e\<rparr>) = disk_read sec s"
  by (simp_all add: disk_read_def)

lemma disk_write_fields [simp]:
  "disk_info (disk_write b sec s) = disk_info s"
  "fdtable (disk_write b sec s) = fdtable s"
  "close_entry (disk_write b sec s) = close_entry s"
  "temp_sector (disk_write b sec s) = temp_sector s"
  "current_cache_sector (disk_write b sec s) = current_cache_sector s"
  by (simp_all add: disk_write_def)

text \<open>A cached read brings the sector's current content into \<open>temp_sector\<close>.\<close>

lemma read_sector_cached_temp:
  "fs_wf s \<Longrightarrow> temp_sector (read_sector_cached sec force s) = disk_read sec s"
  by (auto simp: read_sector_cached_def fs_wf_def disk_read_def)

lemma read_sector_cached_wf: "fs_wf s \<Longrightarrow> fs_wf (read_sector_cached sec force s)"
  by (auto simp: read_sector_cached_def fs_wf_def disk_read_def)

text \<open>A change of \<open>temp_sector\<close> followed by a write-back to the sector it was read from.\<close>

lemma write_back_wf:
  assumes "fs_wf s" "length b = SECTOR_SIZE"
  shows "fs_wf (disk_write b sec (read_sector_cached sec force s\<lparr>temp_sector := b\<rparr>))"
  using assms by (simp add: fs_wf_def disk_write_def disk_read_def)

lemma fs_wf_fields [simp]:
  "fs_wf (s\<lparr>fdtable := f\<rparr>) = fs_wf s"
  "fs_wf (s\<lparr>close_entry := e\<rparr>) = fs_wf s"
  "fs_wf (s\<lparr>disk_info := i\<rparr>) = fs_wf s"
  by (simp_all add: fs_wf_def disk_read_def)

section \<open>Geometry\<close>

text \<open>512-byte sectors, the three regions in order, and all sector numbers far below \<open>2\<^sup>2\<^sup>8\<close>.\<close>

definition geometry :: "fs \<Rightarrow> bool" where
  "geometry s \<longleftrightarrow> bytes_per_sector (disk_info s) = of_nat SECTOR_SIZE
     \<and> 0 < sectors_per_cluster (disk_info s)
     \<and> unat (fat_region (disk_info s)) < unat (root_region (disk_info s))
     \<and> unat (root_region (disk_info s)) < unat (data_region (disk_info s))
     \<and> unat (data_region (disk_info s)) < 2 ^ 18"

lemma geometryD:
  assumes "geometry s"
  shows "bytes_per_sector (disk_info s) = 512" "0 < sectors_per_cluster (disk_info s)"
    "unat (fat_region (disk_info s)) < unat (root_region (disk_info s))"
    "unat (root_region (disk_info s)) < unat (data_region (disk_info s))"
    "unat (data_region (disk_info s)) < 262144"
  using assms by (simp_all add: geometry_def)

lemma geometry_cong: "disk_info s' = disk_info s \<Longrightarrow> geometry s' = geometry s"
  by (simp add: geometry_def)

text \<open>The regions as the boot sector describes them, in natural numbers.\<close>

definition boot_ok :: "bytes \<Rightarrow> bool" where
  "boot_ok b \<longleftrightarrow> le16 b 0x0b = 512 \<and> 0 < b ! 0x0d \<and> 0 < le16 b 0x16 \<and> 0 < b ! 0x10
     \<and> unat (le16 b 0x16) * unat (b ! 0x10) < 2 ^ 16 \<and> 16 \<le> le16 b 0x11"

text \<open>C29. Mounting: from a boot sector whose FAT and root directory are not empty and whose FATs take
  fewer than 65536 sectors, \<open>filesystem_init\<close> returns 0 with the FAT after the reserved sectors,
  the root directory after all the copies of the FAT, the data region after the root directory
  (16 entries to a sector), a valid geometry, and a coherent cache.\<close>

theorem filesystem_init_mounts:
  assumes "\<forall>k. length (disk s k) = SECTOR_SIZE" "boot_ok (disk s 0)" "filesystem_init s = (r, s')"
  shows "r = 0 \<and> disk s' = disk s \<and> fs_wf s' \<and> geometry s'
    \<and> unat (fat_region (disk_info s')) = unat (le16 (disk s 0) 0x0e)
    \<and> unat (root_region (disk_info s')) =
        unat (le16 (disk s 0) 0x0e) + unat (le16 (disk s 0) 0x16) * unat (disk s 0 ! 0x10)
    \<and> unat (data_region (disk_info s')) = unat (root_region (disk_info s')) + unat (le16 (disk s 0) 0x11) div 16
    \<and> num_sectors (disk_info s') =
        (if le16 (disk s 0) 0x13 = 0 then le32 (disk s 0) 0x20 else ucast (le16 (disk s 0) 0x13))"
proof -
  let ?b = "disk s 0"
  note b = assms(2) [unfolded boot_ok_def]
  have r0: "disk_read 0 s = ?b" by (simp add: disk_read_def lba_def)
  let ?fat = "ucast (le16 ?b 0x0e) :: u32"
  let ?size = "le16 ?b 0x16 * ucast (?b ! 0x10)"
  let ?dirs = "le16 ?b 0x11 div 16"
  have fat: "unat ?fat = unat (le16 ?b 0x0e)" "unat ?fat < 65536"
    using unat_u16_less by (simp_all add: word_nat del: unat_le16)
  have "unat ?size = unat (le16 ?b 0x16) * unat (?b ! 0x10)"
    using b by (subst unat_mult_lt) (simp_all add: word_nat del: unat_le16)
  then have size: "unat (ucast ?size :: u32) = unat (le16 ?b 0x16) * unat (?b ! 0x10)"
      "unat (ucast ?size :: u32) < 65536" "0 < unat (ucast ?size :: u32)"
    using b unat_u16_less by (simp_all add: unat_u16_u32 word_less_nat_alt del: unat_le16)
  have "0 < unat (le16 ?b 0x11) div 16" "unat (le16 ?b 0x11) < 65536"
    using b by (auto simp: word_le_nat_alt div_greater_zero_iff unat_u16_less simp del: unat_le16)
  then have dirs: "unat (ucast ?dirs :: u32) = unat (le16 ?b 0x11) div 16"
      "0 < unat (ucast ?dirs :: u32)" "unat (ucast ?dirs :: u32) < 65536"
    by (simp_all add: unat_u16_u32 unat_div del: unat_le16)
  have root: "unat (?fat + ucast ?size) = unat ?fat + unat (ucast ?size :: u32)"
    using fat size by (intro unat_add_lt) simp
  have data: "unat (?fat + ucast ?size + ucast ?dirs) = unat (?fat + ucast ?size) + unat (ucast ?dirs :: u32)"
    using fat size dirs root by (intro unat_add_lt) simp
  have zero: "(ucast w :: u32) = 0 \<longleftrightarrow> w = 0" for w :: u16
    by (simp add: word_unat_eq_iff unat_u16_u32)
  note s' = assms(3) [symmetric, simplified filesystem_init_def Let_def r0 prod.inject]
  have info: "fat_region (disk_info s') = ?fat" "root_region (disk_info s') = ?fat + ucast ?size"
    "data_region (disk_info s') = ?fat + ucast ?size + ucast ?dirs"
    "bytes_per_sector (disk_info s') = le16 ?b 0x0b" "sectors_per_cluster (disk_info s') = ?b ! 0x0d"
    "num_sectors (disk_info s') = (if le16 ?b 0x13 = 0 then le32 ?b 0x20 else ucast (le16 ?b 0x13))"
    "disk s' = disk s" "temp_sector s' = ?b" "current_cache_sector s' = 0" "r = 0"
    using s'
    by (simp_all add: filesystem_calc_fat_region_def filesystem_calc_root_region_def
      filesystem_calc_data_region_def filesystem_calc_num_sectors_def fdtable_init_def Let_def zero)
  have "fs_wf s'" using assms(1) info by (simp add: fs_wf_def disk_read_def lba_def)
  moreover have "geometry s'"
    using b info(4,5) fat size dirs root data by (simp add: geometry_def info(1-3) del: unat_le16)
  ultimately show ?thesis
    using info fat(1) size(1) dirs(1) root data by simp
qed

text \<open>Small disks for the examples: every byte of the disk is \<open>b\<close>; one FAT sector, one directory
  sector, one sector per cluster.\<close>

definition flat_fs :: "u8 \<Rightarrow> fs" where
  "flat_fs b =
     \<lparr>disk = (\<lambda>_. replicate 512 b),
      disk_info = \<lparr>fat_region = 1, root_region = 2, data_region = 3, bytes_per_sector = 512,
                   sectors_per_cluster = 1, bytes_per_cluster = 512, num_sectors = 100\<rparr>,
      temp_sector = replicate 512 b, current_cache_sector = 0,
      fdtable = [\<lparr>fd_name = replicate 13 0, flags = 0, mode = 0, fsize = 0, fpos = 0,
                  start_cluster = 0, current_cluster = 0, sector = 0, fpos_within_sector = 0\<rparr>],
      close_entry = \<lparr>de_name = replicate 8 0, de_ext = replicate 3 0, attributes = 0,
        reserved_for_windows_nt = 0, creation_milliseconds = 0, creation_time = 0, creation_date = 0,
        last_access_date = 0, reserved_for_fat32 = 0, last_write_time = 0, last_write_date = 0,
        starting_cluster = 0, de_size = 0\<rparr>\<rparr>"

definition boot_fs :: fs where
  "boot_fs = (flat_fs 0)
     \<lparr>disk := (\<lambda>_. (replicate 512 0)[12 := 2, 13 := 1, 14 := 1, 16 := 2, 17 := 32, 22 := 4])\<rparr>"

lemma filesystem_init_mounts_witness:
  "fst (filesystem_init boot_fs) = 0 \<and> geometry (snd (filesystem_init boot_fs))
   \<and> unat (data_region (disk_info (snd (filesystem_init boot_fs)))) = 11"
proof -
  let ?b = "(replicate 512 0)[12 := 2, 13 := 1, 14 := 1, 16 := 2, 17 := 32, 22 := 4] :: bytes"
  have b: "disk boot_fs k = ?b" for k by (simp add: boot_fs_def)
  have "boot_ok ?b" by (simp add: boot_ok_def le16_def)
  then have "boot_ok (disk boot_fs 0)" by (simp only: b)
  with filesystem_init_mounts [of boot_fs] show ?thesis
    by (cases "filesystem_init boot_fs") (simp add: b le16_def)
qed

end
