(* ===== verification/File_Allocation.thy ===== *)
theory File_Allocation
  imports Disk_Cache
begin

text \<open>
  The file allocation table of \<open>kernel/file.c\<close>: reading and writing the entry of a cluster, the
  search for a free cluster, allocation and release. The table is abstracted to the function
  \<open>fat_at s\<close> from clusters to their successors, and files to chains in it; \<open>fat_map\<close> is the
  interface the file operations use. Entries are 16-bit, so one 512-byte sector holds 256.
\<close>

declare upt_rec_numeral [simp del]

section \<open>Operations\<close>

text \<open>The sector of the FAT that holds the entry of a cluster, and the byte offset of the entry in
  it: the statements that \<open>fat_next_cluster\<close> and \<open>fat_set_cluster\<close> share. \<open>cluster * 2\<close> has 16 bits;
  a division by a zero \<open>bytes_per_sector\<close> has no defined result.\<close>

definition fat_locate :: "u16 \<Rightarrow> fs \<Rightarrow> (u32 \<times> nat) option" where
  "fat_locate cluster s =
     (let cluster_bytes = cluster * 2; bps = bytes_per_sector (disk_info s) in
      if bps = 0 then None
      else Some (fat_region (disk_info s) + ucast (cluster_bytes div bps), unat (cluster_bytes mod bps)))"

definition fat_next_cluster :: "u16 \<Rightarrow> fs \<Rightarrow> (u16 \<times> fs) option" where
  "fat_next_cluster cluster s =
     do {
       (fat_sector, entry) \<leftarrow> fat_locate cluster s;
       let s1 = read_sector_cached fat_sector False s;
       next \<leftarrow> rd16 (temp_sector s1) entry;
       Some (next, s1)
     }"

definition fat_set_cluster :: "u16 \<Rightarrow> u16 \<Rightarrow> fs \<Rightarrow> fs option" where
  "fat_set_cluster cluster next_cluster s =
     do {
       (fat_sector, entry) \<leftarrow> fat_locate cluster s;
       let s1 = read_sector_cached fat_sector False s;
       buf \<leftarrow> memcpy (temp_sector s1) entry (put16 next_cluster);
       Some (disk_write buf fat_sector (s1\<lparr>temp_sector := buf\<rparr>))
     }"

text \<open>The loop of \<open>fat_find_free_cluster\<close>. A read at entry 256 leaves the 512-byte buffer.\<close>

partial_function (option) fat_scan :: "u32 \<Rightarrow> u16 \<Rightarrow> u16 \<Rightarrow> fs \<Rightarrow> (u16 \<times> fs) option" where
  "fat_scan fat_sector entry_within_sector allocated_cluster s =
     do {
       let s1 = read_sector_cached fat_sector False s;
       entry \<leftarrow> rd16 (temp_sector s1) (unat (entry_within_sector * 2));
       if entry = CLUSTER_FREE then Some (allocated_cluster, s1)
       else
         (let past = entry_within_sector + 1 > bytes_per_sector (disk_info s1) div 2;
              entry' = (if past then 0 else entry_within_sector + 1);
              sector' = (if past then fat_sector + 1 else fat_sector) in
          if sector' = root_region (disk_info s1) then Some (0, s1)
          else fat_scan sector' entry' (allocated_cluster + 1) s1)
     }"

definition fat_find_free_cluster :: "fs \<Rightarrow> (u16 \<times> fs) option" where
  "fat_find_free_cluster s = fat_scan (fat_region (disk_info s)) 2 2 s"

definition fat_allocate_start_cluster :: "fs \<Rightarrow> (u16 \<times> fs) option" where
  "fat_allocate_start_cluster s =
     do {
       (free_cluster, s1) \<leftarrow> fat_find_free_cluster s;
       if free_cluster = 0 then Some (0, s1)
       else do {
         s2 \<leftarrow> fat_set_cluster free_cluster CLUSTER_EOF s1;
         Some (free_cluster, s2)
       }
     }"

definition fat_allocate_cluster :: "u16 \<Rightarrow> fs \<Rightarrow> (u16 \<times> fs) option" where
  "fat_allocate_cluster cluster s =
     do {
       (next_cluster, s1) \<leftarrow> fat_find_free_cluster s;
       if next_cluster = 0 then Some (0, s1)
       else do {
         s2 \<leftarrow> fat_set_cluster cluster next_cluster s1;
         s3 \<leftarrow> fat_set_cluster next_cluster CLUSTER_EOF s2;
         Some (next_cluster, s3)
       }
     }"

definition fat_deallocate_cluster :: "u16 \<Rightarrow> fs \<Rightarrow> fs option" where
  "fat_deallocate_cluster cluster s = fat_set_cluster cluster CLUSTER_FREE s"

text \<open>The loop of \<open>file_delete\<close> that releases the clusters of a file.\<close>

partial_function (option) free_clusters :: "u16 \<Rightarrow> fs \<Rightarrow> fs option" where
  "free_clusters cluster s =
     (if cluster = CLUSTER_EOF then Some s
      else do {
        (next_cluster, s1) \<leftarrow> fat_next_cluster cluster s;
        s2 \<leftarrow> fat_deallocate_cluster cluster s1;
        free_clusters next_cluster s2
      })"

section \<open>The table as a function\<close>

definition fat_at :: "fs \<Rightarrow> u16 \<Rightarrow> u16" where
  "fat_at s cluster =
     le16 (disk_read (fat_region (disk_info s) + ucast (cluster * 2 div 512)) s) (unat (cluster * 2 mod 512))"

text \<open>The entry of a valid cluster lies in the (first) FAT.\<close>

definition fat_valid :: "fs \<Rightarrow> u16 \<Rightarrow> bool" where
  "fat_valid s cluster \<longleftrightarrow> unat cluster < 2 ^ 15
     \<and> unat cluster div 256 < unat (root_region (disk_info s)) - unat (fat_region (disk_info s))"

definition fat_ok :: "fs \<Rightarrow> bool" where
  "fat_ok s \<longleftrightarrow> fs_wf s \<and> geometry s"

text \<open>What operations on the FAT do not touch: everything outside it.\<close>

definition fat_frame :: "fs \<Rightarrow> fs \<Rightarrow> bool" where
  "fat_frame s s' \<longleftrightarrow> disk_info s' = disk_info s \<and> fdtable s' = fdtable s \<and> close_entry s' = close_entry s
     \<and> (\<forall>k. \<not> (fat_region (disk_info s) \<le> k \<and> k < root_region (disk_info s)) \<longrightarrow> disk s' k = disk s k)"

lemma fat_frame_refl: "fat_frame s s"
  by (simp add: fat_frame_def)

lemma fat_frame_trans: "fat_frame s s' \<Longrightarrow> fat_frame s' s'' \<Longrightarrow> fat_frame s s''"
  by (simp add: fat_frame_def)

lemma fat_frame_valid: "fat_frame s s' \<Longrightarrow> fat_valid s' c = fat_valid s c"
  by (simp add: fat_frame_def fat_valid_def)

fun is_chain :: "(u16 \<Rightarrow> u16) \<Rightarrow> u16 \<Rightarrow> u16 list \<Rightarrow> bool" where
  "is_chain nxt c [] = (c = CLUSTER_EOF)"
| "is_chain nxt c (d # ds) = (c = d \<and> c \<noteq> CLUSTER_EOF \<and> is_chain nxt (nxt c) ds)"

lemma is_chain_cong:
  "(\<And>d. d \<in> set cs \<Longrightarrow> f d = g d) \<Longrightarrow> is_chain f c cs = is_chain g c cs"
  by (induction cs arbitrary: c) auto

section \<open>The interface of the table\<close>

locale fat_map =
  fixes nxt :: "u16 \<Rightarrow> 's \<Rightarrow> (u16 \<times> 's) option"
    and upd :: "u16 \<Rightarrow> u16 \<Rightarrow> 's \<Rightarrow> 's option"
    and look :: "'s \<Rightarrow> u16 \<Rightarrow> u16"
    and valid :: "'s \<Rightarrow> u16 \<Rightarrow> bool"
    and ok :: "'s \<Rightarrow> bool"
    and keeps :: "'s \<Rightarrow> 's \<Rightarrow> bool"
  assumes nxt_ok: "ok s \<Longrightarrow> \<exists>s'. nxt c s = Some (look s c, s') \<and> ok s' \<and> look s' = look s \<and> keeps s s'"
    and upd_ok: "ok s \<Longrightarrow> valid s c \<Longrightarrow> \<exists>s'. upd c v s = Some s' \<and> ok s' \<and> keeps s s'
      \<and> (\<forall>d. valid s d \<longrightarrow> look s' d = (if d = c then v else look s d))"
    and keeps_refl: "keeps s s"
    and keeps_trans: "keeps s s' \<Longrightarrow> keeps s' s'' \<Longrightarrow> keeps s s''"
    and keeps_valid: "keeps s s' \<Longrightarrow> valid s' c = valid s c"
begin

text \<open>A loop that reads the successor of a cluster, frees the cluster and goes on frees exactly the
  chain it starts on.\<close>

lemma free_chain:
  assumes loop: "\<And>c s. loop c s = (if c = CLUSTER_EOF then Some s
      else do { (n, s1) \<leftarrow> nxt c s; s2 \<leftarrow> upd c CLUSTER_FREE s1; loop n s2 })"
    and "ok s" "is_chain (look s) c cs" "distinct cs" "\<forall>d \<in> set cs. valid s d"
  shows "\<exists>s'. loop c s = Some s' \<and> ok s' \<and> keeps s s'
    \<and> (\<forall>d. valid s d \<longrightarrow> look s' d = (if d \<in> set cs then CLUSTER_FREE else look s d))"
  using assms(2-)
proof (induction cs arbitrary: c s)
  case Nil
  then show ?case by (subst loop) (auto simp: keeps_refl)
next
  case (Cons d ds)
  then have c: "c = d" "c \<noteq> CLUSTER_EOF" and chain: "is_chain (look s) (look s c) ds" by auto
  obtain s1 where s1: "nxt c s = Some (look s c, s1)" "ok s1" "look s1 = look s" "keeps s s1"
    using nxt_ok [OF Cons.prems(1)] by blast
  have "valid s1 c" using Cons.prems(4) c keeps_valid [OF s1(4)] by simp
  then obtain s2 where s2: "upd c CLUSTER_FREE s1 = Some s2" "ok s2" "keeps s1 s2"
      "\<forall>d. valid s1 d \<longrightarrow> look s2 d = (if d = c then CLUSTER_FREE else look s1 d)"
    using upd_ok [OF s1(2)] by blast
  have v: "valid s2 d = valid s d" for d using keeps_valid [OF s1(4)] keeps_valid [OF s2(3)] by simp
  have look2: "look s2 d = (if d = c then CLUSTER_FREE else look s d)" if "valid s d" for d
    using that s2(4) s1(3) keeps_valid [OF s1(4)] by simp
  have "is_chain (look s2) (look s c) ds"
    using chain Cons.prems(3,4) c look2 by (subst is_chain_cong [of ds _ "look s"]) auto
  from Cons.IH [OF s2(2) this] Cons.prems(3,4) obtain s' where s': "loop (look s c) s2 = Some s'" "ok s'" "keeps s2 s'"
      "\<forall>d. valid s d \<longrightarrow> look s' d = (if d \<in> set ds then CLUSTER_FREE else look s2 d)"
    by (auto simp: v)
  have "loop c s = Some s'" using c s1(1) s2(1) s'(1) by (subst loop) simp
  then show ?case
    using s' look2 c keeps_trans [OF keeps_trans [OF s1(4) s2(3)] s'(3)] by auto
qed

text \<open>Linking a free cluster behind the last cluster of a chain extends that chain.\<close>

lemma link_chain:
  assumes "ok s" "is_chain (look s) h (cs @ [c])" "distinct (cs @ [c])" "\<forall>d \<in> set (cs @ [c]). valid s d"
    and "valid s n" "n \<notin> set (cs @ [c])" "n \<noteq> CLUSTER_EOF"
  shows "\<exists>s2 s3. upd c n s = Some s2 \<and> upd n CLUSTER_EOF s2 = Some s3 \<and> ok s3 \<and> keeps s s3
    \<and> is_chain (look s3) h (cs @ [c, n])
    \<and> (\<forall>d. valid s d \<and> d \<noteq> c \<and> d \<noteq> n \<longrightarrow> look s3 d = look s d)"
proof -
  obtain s2 where s2: "upd c n s = Some s2" "ok s2" "keeps s s2"
      "\<forall>d. valid s d \<longrightarrow> look s2 d = (if d = c then n else look s d)"
    using upd_ok [OF assms(1)] assms(4) by fastforce
  have v2: "valid s2 d = valid s d" for d using keeps_valid [OF s2(3)] by simp
  obtain s3 where s3: "upd n CLUSTER_EOF s2 = Some s3" "ok s3" "keeps s2 s3"
      "\<forall>d. valid s d \<longrightarrow> look s3 d = (if d = n then CLUSTER_EOF else look s2 d)"
    using upd_ok [OF s2(2)] assms(5) v2 by metis
  have look3: "look s3 d = (if d = n then CLUSTER_EOF else if d = c then n else look s d)" if "valid s d" for d
    using that s2(4) s3(4) by simp
  have "is_chain (look s) h (xs @ [c]) \<Longrightarrow> distinct (xs @ [c]) \<Longrightarrow> \<forall>d \<in> set (xs @ [c]). valid s d
      \<Longrightarrow> n \<notin> set (xs @ [c]) \<Longrightarrow> is_chain (look s3) h (xs @ [c, n])" for xs h
    by (induction xs arbitrary: h) (use look3 assms(5,7) in auto)
  with assms show ?thesis
    using s2(1) s3(1,2) keeps_trans [OF s2(3) s3(3)] look3 by auto
qed

end

section \<open>The code provides the interface\<close>

lemma fat_offset:
  "unat ((c :: u16) * 2 mod 512) = 2 * (unat c mod 256)"
  "unat c < 2 ^ 15 \<Longrightarrow> unat (c * 2 div 512) = unat c div 256"
proof -
  have "unat c * 2 mod 65536 mod 512 = unat c * 2 mod 512" by (rule mod_mod_cancel) simp
  also have "\<dots> = 2 * (unat c mod 256)" using mod_mult_mult2 [of "unat c" 2 256] by simp
  finally show "unat (c * 2 mod 512) = 2 * (unat c mod 256)"
    by (simp add: unat_mod unat_word_ariths)
  show "unat (c * 2 div 512) = unat c div 256" if "unat c < 2 ^ 15"
    using that by (simp add: unat_div unat_word_ariths)
qed

lemma fat_offset_bound: "unat ((c :: u16) * 2 mod 512) + 1 < SECTOR_SIZE"
  unfolding fat_offset using mod_less_divisor [of 256 "unat c"] by linarith

definition fat_sector_of :: "fs \<Rightarrow> u16 \<Rightarrow> u32" where
  "fat_sector_of s c = fat_region (disk_info s) + ucast (c * 2 div 512)"

lemma fat_sector_of_cong: "disk_info s' = disk_info s \<Longrightarrow> fat_sector_of s' = fat_sector_of s"
  by (simp add: fun_eq_iff fat_sector_of_def)

lemma fat_locate_eq:
  "geometry s \<Longrightarrow> fat_locate c s = Some (fat_sector_of s c, unat (c * 2 mod 512))"
  using geometryD(1) [of s] by (simp add: fat_locate_def fat_sector_of_def Let_def)

lemma fat_sector_of_valid:
  assumes "geometry s" "fat_valid s c"
  shows "unat (fat_sector_of s c) = unat (fat_region (disk_info s)) + unat c div 256"
    and "fat_region (disk_info s) \<le> fat_sector_of s c" "fat_sector_of s c < root_region (disk_info s)"
    and "lba (fat_sector_of s c) = fat_sector_of s c"
proof -
  note g = geometryD [OF assms(1)] and v = assms(2) [unfolded fat_valid_def]
  have off: "unat (ucast (c * 2 div 512) :: u32) = unat c div 256"
    using v fat_offset(2) [of c] by (simp add: unat_u16_u32)
  then show n: "unat (fat_sector_of s c) = unat (fat_region (disk_info s)) + unat c div 256"
    using g v unfolding fat_sector_of_def by (subst unat_add_lt) auto
  then show "fat_region (disk_info s) \<le> fat_sector_of s c" "fat_sector_of s c < root_region (disk_info s)"
    using v by (auto simp: word_le_nat_alt word_less_nat_alt)
  show "lba (fat_sector_of s c) = fat_sector_of s c"
    using n g v by (intro lba_small) auto
qed

lemma fat_at_eq: "fat_at s c = le16 (disk_read (fat_sector_of s c) s) (unat (c * 2 mod 512))"
  by (simp add: fat_at_def fat_sector_of_def)

lemma fat_next_cluster_eq:
  assumes "fat_ok s"
  shows "fat_next_cluster c s = Some (fat_at s c, read_sector_cached (fat_sector_of s c) False s)"
proof -
  have "fs_wf s" "geometry s" using assms by (simp_all add: fat_ok_def)
  then show ?thesis
    using fat_offset_bound [of c] fs_wf_read_length [of s "fat_sector_of s c"]
    by (simp add: fat_next_cluster_def fat_locate_eq fat_at_eq read_sector_cached_temp rd16_def)
qed

lemma fat_at_read_cached [simp]: "fat_at (read_sector_cached sec force s) = fat_at s"
  by (rule ext) (simp add: fat_at_def)

lemma fat_ok_read_cached: "fat_ok s \<Longrightarrow> fat_ok (read_sector_cached sec force s)"
  by (simp add: fat_ok_def read_sector_cached_wf geometry_def)

lemma fat_frame_read_cached: "fat_frame s (read_sector_cached sec force s)"
  by (simp add: fat_frame_def)

text \<open>\<open>fat_put s c v\<close>: the sector of the entry with the entry replaced.\<close>

definition fat_put :: "fs \<Rightarrow> u16 \<Rightarrow> u16 \<Rightarrow> bytes" where
  "fat_put s c v =
     (let i = unat (c * 2 mod 512); b = disk_read (fat_sector_of s c) s in
      take i b @ put16 v @ drop (i + 2) b)"

lemma fat_set_cluster_eq:
  assumes "fat_ok s"
  shows "fat_set_cluster c v s = Some (disk_write (fat_put s c v) (fat_sector_of s c)
      (read_sector_cached (fat_sector_of s c) False s\<lparr>temp_sector := fat_put s c v\<rparr>))"
    and "memcpy (disk_read (fat_sector_of s c) s) (unat (c * 2 mod 512)) (put16 v) = Some (fat_put s c v)"
proof -
  have wf: "fs_wf s" "geometry s" using assms by (simp_all add: fat_ok_def)
  show put: "memcpy (disk_read (fat_sector_of s c) s) (unat (c * 2 mod 512)) (put16 v) = Some (fat_put s c v)"
    using fat_offset_bound [of c] fs_wf_read_length [OF wf(1), of "fat_sector_of s c"]
    by (simp add: memcpy_def fat_put_def Let_def)
  then show "fat_set_cluster c v s = Some (disk_write (fat_put s c v) (fat_sector_of s c)
      (read_sector_cached (fat_sector_of s c) False s\<lparr>temp_sector := fat_put s c v\<rparr>))"
    using wf by (simp add: fat_set_cluster_def fat_locate_eq read_sector_cached_temp)
qed

lemma fat_set_cluster_ok:
  assumes "fat_ok s" "fat_valid s c"
  shows "\<exists>s'. fat_set_cluster c v s = Some s' \<and> fat_ok s' \<and> fat_frame s s'
    \<and> (\<forall>d. fat_valid s d \<longrightarrow> fat_at s' d = (if d = c then v else fat_at s d))"
proof -
  have wf: "fs_wf s" "geometry s" using assms(1) by (simp_all add: fat_ok_def)
  note put = fat_set_cluster_eq(2) [OF assms(1), of c v]
  let ?s = "disk_write (fat_put s c v) (fat_sector_of s c)
      (read_sector_cached (fat_sector_of s c) False s\<lparr>temp_sector := fat_put s c v\<rparr>)"
  have len: "length (fat_put s c v) = SECTOR_SIZE"
    using memcpy_length [OF put] fs_wf_read_length [OF wf(1)] by simp
  have "fat_ok ?s"
    using write_back_wf [OF wf(1) len] wf(2) by (simp add: fat_ok_def geometry_def)
  moreover have "fat_frame s ?s"
    using fat_sector_of_valid [OF wf(2) assms(2)] by (auto simp: fat_frame_def disk_write_def)
  moreover have "fat_at ?s d = (if d = c then v else fat_at s d)" if d: "fat_valid s d" for d
  proof -
    note sc = fat_sector_of_valid [OF wf(2) assms(2)] and sd = fat_sector_of_valid [OF wf(2) d]
    have read: "disk_read (fat_sector_of s d) ?s =
        (if fat_sector_of s d = fat_sector_of s c then fat_put s c v else disk_read (fat_sector_of s d) s)"
      by (simp add: cfcard.read_write sc(4) sd(4))
    have sec: "fat_sector_of ?s d = fat_sector_of s d" by (simp add: fat_sector_of_def)
    show ?thesis
    proof (cases "fat_sector_of s d = fat_sector_of s c")
      case False
      then show ?thesis by (auto simp: fat_at_eq sec read)
    next
      case True
      then have q: "unat d div 256 = unat c div 256" using sc(1) sd(1) by simp
      show ?thesis
      proof (cases "d = c")
        case True
        with le16_memcpy_same [OF put] show ?thesis unfolding fat_at_eq sec read by simp
      next
        case False
        have "unat d mod 256 \<noteq> unat c mod 256"
          using False q by (metis div_mult_mod_eq word_unat_eq_iff)
        then have "2 * (unat d mod 256) + 1 < 2 * (unat c mod 256) \<or> 2 * (unat c mod 256) + 1 < 2 * (unat d mod 256)"
          by linarith
        with le16_memcpy_other [OF put, of "unat (d * 2 mod 512)"] fat_offset_bound [of d]
        show ?thesis
          using False True fs_wf_read_length [OF wf(1)] unfolding fat_at_eq sec read
          by (simp add: fat_offset)
      qed
    qed
  qed
  ultimately show ?thesis using fat_set_cluster_eq(1) [OF assms(1), of c v] by blast
qed

interpretation fat: fat_map fat_next_cluster fat_set_cluster fat_at fat_valid fat_ok fat_frame
proof unfold_locales
  fix s c
  assume "fat_ok s"
  then show "\<exists>s'. fat_next_cluster c s = Some (fat_at s c, s') \<and> fat_ok s' \<and> fat_at s' = fat_at s \<and> fat_frame s s'"
    by (simp add: fat_next_cluster_eq fat_ok_read_cached fat_frame_read_cached)
qed (use fat_set_cluster_ok fat_frame_refl fat_frame_trans fat_frame_valid in blast)+

section \<open>Finding a free cluster\<close>

lemma fat_scan_step:
  assumes "fat_ok s" "n < 256" "s1 = read_sector_cached (fat_region (disk_info s)) False s"
  shows "fat_scan (fat_region (disk_info s)) (of_nat n) (of_nat n) s =
    (if fat_at s (of_nat n) = CLUSTER_FREE then Some (of_nat n, s1)
     else fat_scan (fat_region (disk_info s)) (of_nat (Suc n)) (of_nat (Suc n)) s1)"
proof -
  have wf: "fs_wf s" and g: "geometry s" using assms(1) by (simp_all add: fat_ok_def)
  note g = geometryD [OF g]
  have n: "unat (of_nat n :: u16) = n" using assms(2) by (simp add: unat_of_nat)
  have n2: "unat (of_nat n * 2 :: u16) = 2 * n" using n assms(2) by (subst unat_mult_lt) auto
  have "(of_nat n * 2 :: u16) div 512 = 0" using n2 assms(2) by (simp add: word_unat_eq_iff unat_div)
  moreover have "unat ((of_nat n * 2 :: u16) mod 512) = 2 * n" using n2 assms(2) by (simp add: unat_mod)
  ultimately have entry: "rd16 (temp_sector s1) (unat (of_nat n * 2 :: u16)) = Some (fat_at s (of_nat n))"
    using assms fs_wf_read_length [OF wf] by (simp add: rd16_def n2 read_sector_cached_temp [OF wf] fat_at_def)
  have past: "\<not> (of_nat n + 1 > bytes_per_sector (disk_info s1) div 2)"
  proof -
    have "unat (of_nat n + 1 :: u16) = n + 1" using n assms(2) by (subst unat_Suc_word) auto
    moreover have "unat (512 div 2 :: u16) = 256" by simp
    ultimately show ?thesis using g(1) assms(2,3) by (simp add: word_less_nat_alt)
  qed
  have "fat_region (disk_info s1) \<noteq> root_region (disk_info s1)"
    using g(3) assms(3) by auto
  then show ?thesis
    using entry past assms(3)
    by (subst fat_scan.simps) (simp add: Let_def add.commute)
qed

lemma fat_scan_find:
  assumes "fat_ok s" "n \<le> k" "k < 256" "fat_at s (of_nat k) = CLUSTER_FREE"
    and "\<And>j. n \<le> j \<Longrightarrow> j < k \<Longrightarrow> fat_at s (of_nat j) \<noteq> CLUSTER_FREE"
  shows "fat_scan (fat_region (disk_info s)) (of_nat n) (of_nat n) s
    = Some (of_nat k, read_sector_cached (fat_region (disk_info s)) False s)"
  using assms
proof (induction "k - n" arbitrary: n s)
  case 0
  then show ?case using fat_scan_step [OF 0(2), of n] by simp
next
  case (Suc m)
  let ?s = "read_sector_cached (fat_region (disk_info s)) False s"
  have idem: "read_sector_cached (fat_region (disk_info s)) False ?s = ?s"
    by (simp add: read_sector_cached_def)
  have "fat_scan (fat_region (disk_info ?s)) (of_nat (Suc n)) (of_nat (Suc n)) ?s
      = Some (of_nat k, read_sector_cached (fat_region (disk_info ?s)) False ?s)"
    by (rule Suc(1)) (use Suc in \<open>auto simp: fat_ok_read_cached\<close>)
  moreover have "n < k" "fat_at s (of_nat n) \<noteq> CLUSTER_FREE" using Suc by auto
  ultimately show ?case
    using fat_scan_step [OF Suc(3), of n] Suc(5) idem by simp
qed

lemma fat_scan_overrun:
  assumes "fat_ok s" "n \<le> 256" "\<And>j. n \<le> j \<Longrightarrow> j < 256 \<Longrightarrow> fat_at s (of_nat j) \<noteq> CLUSTER_FREE"
  shows "fat_scan (fat_region (disk_info s)) (of_nat n) (of_nat n) s = None"
  using assms
proof (induction "256 - n" arbitrary: n s)
  case 0
  then have "n = 256" by simp
  moreover have "length (temp_sector (read_sector_cached (fat_region (disk_info s)) False s)) = 512"
    using 0 by (auto simp: fat_ok_def intro!: fs_wf_temp_length read_sector_cached_wf)
  ultimately show ?case by (subst fat_scan.simps) (simp add: rd16_def)
next
  case (Suc m)
  let ?s = "read_sector_cached (fat_region (disk_info s)) False s"
  have "fat_scan (fat_region (disk_info ?s)) (of_nat (Suc n)) (of_nat (Suc n)) ?s = None"
    by (rule Suc(1)) (use Suc in \<open>auto simp: fat_ok_read_cached\<close>)
  moreover have "n < 256" "fat_at s (of_nat n) \<noteq> CLUSTER_FREE" using Suc by auto
  ultimately show ?case using fat_scan_step [OF Suc(3), of n] by simp
qed

text \<open>The least free cluster among those the search can see: clusters 2 to 255. With none of them free the search
  leaves its buffer (\<open>fat_search_overruns_sector\<close>), so that properties with \<open>first_free\<close> say nothing of clusters above.\<close>

definition first_free :: "fs \<Rightarrow> nat option" where
  "first_free s = List.find (\<lambda>k. fat_at s (of_nat k) = CLUSTER_FREE) [2..<256]"

lemma first_free_Some:
  "first_free s = Some k \<Longrightarrow> 2 \<le> k \<and> k < 256 \<and> fat_at s (of_nat k) = CLUSTER_FREE
    \<and> (\<forall>j. 2 \<le> j \<and> j < k \<longrightarrow> fat_at s (of_nat j) \<noteq> CLUSTER_FREE)"
proof -
  assume "first_free s = Some k"
  then obtain i where i: "i < 254" "[2..<256] ! i = k" "fat_at s (of_nat k) = CLUSTER_FREE"
      "\<forall>j < i. fat_at s (of_nat ([2..<256] ! j)) \<noteq> CLUSTER_FREE"
    by (auto simp: first_free_def find_Some_iff)
  then have k: "k = i + 2" by simp
  have "fat_at s (of_nat j) \<noteq> CLUSTER_FREE" if "2 \<le> j" "j < k" for j
    using i(4) [rule_format, of "j - 2"] that i(1) k by simp
  with i k show ?thesis by simp
qed

lemma first_free_None: "first_free s = None \<Longrightarrow> \<forall>k \<in> {2..<256}. fat_at s (of_nat k) \<noteq> CLUSTER_FREE"
  by (auto simp: first_free_def find_None_iff)

lemma fat_find_free_cluster_eq:
  assumes "fat_ok s"
  shows "fat_find_free_cluster s = (case first_free s of None \<Rightarrow> None
    | Some k \<Rightarrow> Some (of_nat k, read_sector_cached (fat_region (disk_info s)) False s))"
proof (cases "first_free s")
  case None
  note first_free_None [OF this]
  then have "fat_scan (fat_region (disk_info s)) (of_nat 2) (of_nat 2) s = None"
    by (intro fat_scan_overrun [OF assms]) auto
  with None show ?thesis by (simp add: fat_find_free_cluster_def)
next
  case (Some k)
  note k = first_free_Some [OF this]
  then have "fat_scan (fat_region (disk_info s)) (of_nat 2) (of_nat 2) s
      = Some (of_nat k, read_sector_cached (fat_region (disk_info s)) False s)"
    by (intro fat_scan_find [OF assms]) auto
  with Some show ?thesis by (simp add: fat_find_free_cluster_def)
qed

lemma first_free_valid:
  assumes "first_free s = Some k" "geometry s"
  shows "fat_valid s (of_nat k)" "(of_nat k :: u16) \<noteq> 0" "(of_nat k :: u16) \<noteq> CLUSTER_EOF"
    "unat (of_nat k :: u16) = k"
proof -
  note k = first_free_Some [OF assms(1)]
  then show u: "unat (of_nat k :: u16) = k" by (simp add: unat_of_nat)
  then show "fat_valid s (of_nat k)" using k geometryD(3) [OF assms(2)] by (simp add: fat_valid_def)
  show "(of_nat k :: u16) \<noteq> 0" "(of_nat k :: u16) \<noteq> CLUSTER_EOF"
    using u k by (auto simp: word_unat_eq_iff)
qed

lemma free_clusters_chain:
  assumes "fat_ok s" "is_chain (fat_at s) c cs" "distinct cs" "\<forall>d \<in> set cs. fat_valid s d"
  shows "\<exists>s'. free_clusters c s = Some s' \<and> fat_ok s' \<and> fat_frame s s'
    \<and> (\<forall>d. fat_valid s d \<longrightarrow> fat_at s' d = (if d \<in> set cs then CLUSTER_FREE else fat_at s d))"
  by (rule fat.free_chain [OF _ assms])
    (subst free_clusters.simps, simp add: fat_deallocate_cluster_def)

text \<open>Linking the least free cluster behind the last cluster of a chain.\<close>

lemma fat_allocate_link:
  assumes "fat_ok s" "first_free s = Some k"
    and "is_chain (fat_at s) h (cs @ [c])" "distinct (cs @ [c])"
    and "\<forall>d \<in> set (cs @ [c]). fat_valid s d \<and> fat_at s d \<noteq> CLUSTER_FREE"
  shows "\<exists>s'. fat_allocate_cluster c s = Some (of_nat k, s') \<and> fat_ok s' \<and> fat_frame s s'
    \<and> is_chain (fat_at s') h (cs @ [c, of_nat k])
    \<and> (\<forall>d. fat_valid s d \<and> d \<noteq> c \<and> d \<noteq> of_nat k \<longrightarrow> fat_at s' d = fat_at s d)"
proof -
  have g: "geometry s" using assms(1) by (simp add: fat_ok_def)
  note k = first_free_valid [OF assms(2) g]
  let ?s = "read_sector_cached (fat_region (disk_info s)) False s"
  have ok: "fat_ok ?s" and valid: "fat_valid ?s c = fat_valid s c" and frame: "fat_frame s ?s" for c
    using assms(1) by (simp_all add: fat_ok_read_cached fat_valid_def fat_frame_read_cached)
  have new: "of_nat k \<notin> set (cs @ [c])" using assms(5) first_free_Some [OF assms(2)] by auto
  obtain s2 s3 where s: "fat_set_cluster c (of_nat k) ?s = Some s2"
      "fat_set_cluster (of_nat k) CLUSTER_EOF s2 = Some s3" "fat_ok s3" "fat_frame ?s s3"
      "is_chain (fat_at s3) h (cs @ [c, of_nat k])"
      "\<forall>d. fat_valid s d \<and> d \<noteq> c \<and> d \<noteq> of_nat k \<longrightarrow> fat_at s3 d = fat_at s d"
    using fat.link_chain [OF ok, of h cs c "of_nat k"] assms(3-5) k new by (auto simp: valid)
  then have "fat_allocate_cluster c s = Some (of_nat k, s3)"
    using k(2) by (simp add: fat_allocate_cluster_def fat_find_free_cluster_eq [OF assms(1)] assms(2))
  with s fat_frame_trans [OF frame s(4)] show ?thesis by auto
qed

section \<open>Properties\<close>

lemma flat_fs_ok: "fat_ok (flat_fs b)"
  by (simp add: fat_ok_def fs_wf_def geometry_def flat_fs_def disk_read_def)

lemma flat_fs_fat: "fat_at (flat_fs b) c = ucast b + 256 * ucast b"
  using fat_offset_bound [of c]
  by (simp add: fat_at_def flat_fs_def disk_read_def le16_def)

lemma flat_fs_valid: "fat_valid (flat_fs b) c \<longleftrightarrow> unat c < 256"
  using unat_u16_less [of c] by (auto simp: fat_valid_def flat_fs_def)

lemma blank_first_free: "first_free (flat_fs 0) = Some 2"
  by (simp add: first_free_def upt_rec_numeral flat_fs_fat)

text \<open>Allocating the first cluster of a file: the least free cluster among 2 to 255 is returned
  and becomes a chain of its own; no other entry of the FAT changes and nothing outside the FAT
  is written.\<close>

theorem fat_allocate_start_cluster_correct:
  assumes "fat_ok s" "first_free s = Some k"
  shows "\<exists>s'. fat_allocate_start_cluster s = Some (of_nat k, s') \<and> fat_ok s' \<and> fat_frame s s'
    \<and> is_chain (fat_at s') (of_nat k) [of_nat k]
    \<and> (\<forall>d. fat_valid s d \<and> d \<noteq> of_nat k \<longrightarrow> fat_at s' d = fat_at s d)"
proof -
  have g: "geometry s" using assms(1) by (simp add: fat_ok_def)
  note k = first_free_valid [OF assms(2) g]
  let ?s = "read_sector_cached (fat_region (disk_info s)) False s"
  have ok: "fat_ok ?s" and valid: "fat_valid ?s c = fat_valid s c" and frame: "fat_frame s ?s" for c
    using assms(1) by (simp_all add: fat_ok_read_cached fat_valid_def fat_frame_read_cached)
  obtain s' where s': "fat_set_cluster (of_nat k) CLUSTER_EOF ?s = Some s'" "fat_ok s'" "fat_frame ?s s'"
      "\<forall>d. fat_valid s d \<longrightarrow> fat_at s' d = (if d = of_nat k then CLUSTER_EOF else fat_at s d)"
    using fat.upd_ok [OF ok, of "of_nat k" CLUSTER_EOF] k(1) by (auto simp: valid)
  then have "fat_allocate_start_cluster s = Some (of_nat k, s')"
    using k(2) by (simp add: fat_allocate_start_cluster_def fat_find_free_cluster_eq [OF assms(1)] assms(2))
  with s' k(1,3) fat_frame_trans [OF frame s'(3)] show ?thesis by auto
qed

lemma fat_allocate_start_cluster_correct_witness:
  "\<exists>s'. fat_allocate_start_cluster (flat_fs 0) = Some (2, s') \<and> is_chain (fat_at s') 2 [2]"
  using fat_allocate_start_cluster_correct [OF flat_fs_ok blank_first_free] by auto

text \<open>The blank disk after a file with one cluster has been made.\<close>

definition one_file_fs :: fs where
  "one_file_fs = the (fat_set_cluster 2 CLUSTER_EOF (flat_fs 0))"

lemma one_file_fs:
  "fat_ok one_file_fs" "fat_at one_file_fs 2 = CLUSTER_EOF" "fat_valid one_file_fs c = fat_valid (flat_fs 0) c"
  "first_free one_file_fs = Some 3" "fat_frame (flat_fs 0) one_file_fs"
proof -
  obtain s where s: "fat_set_cluster 2 CLUSTER_EOF (flat_fs 0) = Some s" "fat_ok s" "fat_frame (flat_fs 0) s"
      "\<forall>d. fat_valid (flat_fs 0) d \<longrightarrow> fat_at s d = (if d = 2 then CLUSTER_EOF else fat_at (flat_fs 0) d)"
    using fat_set_cluster_ok [OF flat_fs_ok, of 0 2 CLUSTER_EOF] by (auto simp: flat_fs_valid)
  then have "s = one_file_fs" by (simp add: one_file_fs_def)
  with s show "fat_ok one_file_fs" "fat_at one_file_fs 2 = CLUSTER_EOF"
    "fat_valid one_file_fs c = fat_valid (flat_fs 0) c" "first_free one_file_fs = Some 3"
    "fat_frame (flat_fs 0) one_file_fs"
    by (auto simp: fat_frame_valid flat_fs_valid first_free_def upt_rec_numeral flat_fs_fat)
qed

text \<open>C22. Extending a file: \<open>fat_allocate_cluster\<close> on the last cluster of a chain links the least
  free cluster behind it, when there is one among 2..255, so the file's chain is one longer; every entry
  other than the old last and the new cluster keeps its value, and nothing outside the FAT is written. With
  no free cluster in this range the search reads past the end of its buffer and the call is undefined
  (\<open>fat_search_overruns_sector\<close>).\<close>

theorem fat_allocate_cluster_extends:
  assumes "fat_ok s" "first_free s = Some k"
    and "is_chain (fat_at s) h (cs @ [c])" "distinct (cs @ [c])"
    and "\<forall>d \<in> set (cs @ [c]). fat_valid s d \<and> fat_at s d \<noteq> CLUSTER_FREE"
  shows "\<exists>s'. fat_allocate_cluster c s = Some (of_nat k, s') \<and> fat_ok s' \<and> fat_frame s s'
    \<and> is_chain (fat_at s') h (cs @ [c, of_nat k])
    \<and> (\<forall>d. fat_valid s d \<and> d \<noteq> c \<and> d \<noteq> of_nat k \<longrightarrow> fat_at s' d = fat_at s d)"
  using assms by (rule fat_allocate_link)

lemma fat_allocate_cluster_extends_witness:
  "\<exists>s'. fat_allocate_cluster 2 one_file_fs = Some (3, s') \<and> is_chain (fat_at s') 2 [2, 3]"
  using fat_allocate_cluster_extends [OF one_file_fs(1,4), of 2 "[]" 2]
  by (auto simp: one_file_fs flat_fs_valid)

text \<open>C21. Releasing a file: started on the first cluster of a chain of valid clusters, the loop of
  \<open>file_delete\<close> ends, frees exactly the clusters of that chain, and leaves every other entry of
  the FAT and every sector outside it unchanged.\<close>

theorem free_clusters_frees_chain:
  assumes "fat_ok s" "is_chain (fat_at s) c cs" "distinct cs" "\<forall>d \<in> set cs. fat_valid s d"
  shows "\<exists>s'. free_clusters c s = Some s' \<and> fat_ok s' \<and> fat_frame s s'
    \<and> (\<forall>d. fat_valid s d \<longrightarrow> fat_at s' d = (if d \<in> set cs then CLUSTER_FREE else fat_at s d))"
  by (rule free_clusters_chain [OF assms])

lemma free_clusters_frees_chain_witness:
  "\<exists>s'. free_clusters 2 one_file_fs = Some s' \<and> fat_at s' 2 = CLUSTER_FREE"
  using free_clusters_frees_chain [OF one_file_fs(1), of 2 "[2]"]
  by (auto simp: one_file_fs flat_fs_valid)

text \<open>The search never reports a full disk: when clusters 2 to 255 are all in use, whatever the
  size of the FAT, the comparison \<open>entry_within_sector > bytes_per_sector / 2\<close> lets the loop read
  entry 256 of a 256-entry sector, outside \<open>temp_sector\<close>; the call has no defined result.\<close>

theorem fat_search_overruns_sector:
  assumes "fat_ok s" "\<forall>k. 2 \<le> k \<and> k < 256 \<longrightarrow> fat_at s (of_nat k) \<noteq> CLUSTER_FREE"
  shows "fat_find_free_cluster s = None \<and> fat_allocate_start_cluster s = None \<and> fat_allocate_cluster c s = None"
proof -
  have "first_free s = None" using assms(2) by (auto simp: first_free_def find_None_iff)
  then have "fat_find_free_cluster s = None" using assms(1) by (simp add: fat_find_free_cluster_eq)
  then show ?thesis by (simp add: fat_allocate_start_cluster_def fat_allocate_cluster_def)
qed

lemma fat_search_overruns_sector_witness: "fat_find_free_cluster (flat_fs 1) = None"
  using fat_search_overruns_sector [OF flat_fs_ok, of 1] by (simp add: flat_fs_fat)

text \<open>Cluster numbers are used modulo 32768: \<open>cluster * 2\<close> is computed in 16 bits, so the FAT
  entry of cluster \<open>c + 32768\<close> is that of cluster \<open>c\<close>, for reads and for writes.\<close>

theorem fat_entries_alias:
  "fat_next_cluster (c + 0x8000) s = fat_next_cluster c s
   \<and> fat_set_cluster (c + 0x8000) v s = fat_set_cluster c v s"
proof -
  have eq: "(c + 0x8000) * 2 = c * 2" by (simp add: distrib_right)
  have "fat_locate (c + 0x8000) s = fat_locate c s" unfolding fat_locate_def eq ..
  then show ?thesis by (simp add: fat_next_cluster_def fat_set_cluster_def)
qed

end
