(* ===== verification/Directory.thy ===== *)
theory Directory
  imports Disk_Cache
begin

text \<open>
  The root directory of \<open>kernel/file.c\<close>: file names, the 32-byte directory entries and their
  layout, the linear search shared by the functions that read, replace and free an entry, the
  search for an unused entry, and the enumeration of the files. The directory is abstracted to
  the list of its slots (\<open>dir_slots\<close>), 16 to a sector.
\<close>

abbreviation (input) E_FILENOTFOUND :: int where "E_FILENOTFOUND \<equiv> -1"
abbreviation (input) E_FILELIMIT :: int where "E_FILELIMIT \<equiv> -2"
abbreviation (input) E_INVALIDFILENAME :: int where "E_INVALIDFILENAME \<equiv> -4"
abbreviation (input) E_DISKFULL :: int where "E_DISKFULL \<equiv> -6"
abbreviation (input) E_FILEEXIST :: int where "E_FILEEXIST \<equiv> -7"
abbreviation (input) E_DIRFULL :: int where "E_DIRFULL \<equiv> -8"
abbreviation (input) E_INVALIDMODE :: int where "E_INVALIDMODE \<equiv> -9"

section \<open>Names\<close>

definition upper :: "u8 \<Rightarrow> u8" where
  "upper c = (if 0x61 \<le> c \<and> c \<le> 0x7a then c - 0x20 else c)"

text \<open>\<open>string_toupper\<close> works in place on the memory at \<open>s\<close>; without a NUL it leaves the buffer.\<close>

fun string_toupper :: "bytes \<Rightarrow> bytes option" where
  "string_toupper [] = None"
| "string_toupper (c # cs) =
     (if c = 0 then Some (c # cs)
      else map_option ((#) (upper c)) (string_toupper cs))"

text \<open>\<open>strcmp(a, b) == 0\<close>.\<close>

fun strcmp_eq :: "bytes \<Rightarrow> bytes \<Rightarrow> bool option" where
  "strcmp_eq (a # as) (b # bs) =
     (if a \<noteq> b then Some False else if a = 0 then Some True else strcmp_eq as bs)"
| "strcmp_eq _ _ = None"

text \<open>The first statements of \<open>file_open\<close>, \<open>file_new\<close>, \<open>file_delete\<close> and \<open>file_info\<close>: 12 bytes are
  copied from the argument, whatever its length, and upper-cased.\<close>

definition filename_upper :: "bytes \<Rightarrow> bytes option" where
  "filename_upper filename =
     (if 12 \<le> length filename then string_toupper (take 12 filename @ [0]) else None)"

text \<open>\<open>filesystem_filename(buf, dir_entry)\<close>: \<open>NAME.EXT\<close> from the space-padded fields. The result is
  the new content of \<open>buf\<close>.\<close>

definition filesystem_filename :: "bytes \<Rightarrow> bytes \<Rightarrow> bytes option" where
  "filesystem_filename buf dir_entry =
     do {
       b1 \<leftarrow> memcpy buf 0 (take 8 dir_entry);
       let i = (case first_idx (\<lambda>c. c = 0x20) (take 8 b1) of None \<Rightarrow> 8 | Some i \<Rightarrow> i);
       b2 \<leftarrow> memcpy b1 i [0x2e];
       b3 \<leftarrow> memcpy b2 (i + 1) (take 3 (drop 8 dir_entry));
       let ext_start = i + 1;
       let j = (case first_idx (\<lambda>c. c = 0x20) (take 3 (drop ext_start b3)) of None \<Rightarrow> ext_start + 3 | Some j \<Rightarrow> ext_start + j);
       memcpy b3 j [0]
     }"

section \<open>Entries\<close>

text \<open>\<open>(char *) dir_entry\<close>: the bytes of the struct, which the compiler lays out without gaps.\<close>

definition entry_bytes :: "DirectoryEntry_T \<Rightarrow> bytes" where
  "entry_bytes e =
     de_name e @ de_ext e @ [attributes e, reserved_for_windows_nt e, creation_milliseconds e]
     @ put16 (creation_time e) @ put16 (creation_date e) @ put16 (last_access_date e)
     @ put16 (reserved_for_fat32 e) @ put16 (last_write_time e) @ put16 (last_write_date e)
     @ put16 (starting_cluster e) @ put32 (de_size e)"

definition bytes_entry :: "bytes \<Rightarrow> DirectoryEntry_T" where
  "bytes_entry b =
     \<lparr>de_name = take 8 b, de_ext = take 3 (drop 8 b), attributes = b ! 11,
      reserved_for_windows_nt = b ! 12, creation_milliseconds = b ! 13, creation_time = le16 b 14,
      creation_date = le16 b 16, last_access_date = le16 b 18, reserved_for_fat32 = le16 b 20,
      last_write_time = le16 b 22, last_write_date = le16 b 24, starting_cluster = le16 b 26,
      de_size = le32 b 28\<rparr>"

text \<open>The offsets \<open>f\<close> of \<open>for (f = 0; f < 512; f += 32)\<close>.\<close>

definition offsets :: "nat list" where "offsets = map (\<lambda>i. 32 * i) [0..<16]"

datatype scan = Found nat | Missing | More

text \<open>The inner loop of the directory search over one sector: the offset of the entry with the name
  \<open>filename\<close>, the end of the directory, or neither. \<open>buf\<close> is written before it is read.\<close>

fun scan_entries :: "bytes \<Rightarrow> bytes \<Rightarrow> nat list \<Rightarrow> scan option" where
  "scan_entries filename sec [] = Some More"
| "scan_entries filename sec (f # fs) =
     do {
       c \<leftarrow> rd sec f;
       if c = 0 then Some Missing
       else if c = 0xe5 then scan_entries filename sec fs
       else do {
         attr \<leftarrow> rd sec (f + 11);
         if attr AND 0x18 \<noteq> 0 then scan_entries filename sec fs
         else do {
           buf \<leftarrow> filesystem_filename (replicate 13 0) (drop f sec);
           same \<leftarrow> strcmp_eq buf filename;
           if same then Some (Found f) else scan_entries filename sec fs
         }
       }
     }"

partial_function (option) directory_find :: "bytes \<Rightarrow> u32 \<Rightarrow> fs \<Rightarrow> ((u32 \<times> nat) option \<times> fs) option" where
  "directory_find filename sec s =
     do {
       let s1 = read_sector_cached sec True s;
       r \<leftarrow> scan_entries filename (temp_sector s1) offsets;
       case r of
         Missing \<Rightarrow> Some (None, s1)
       | Found f \<Rightarrow> Some (Some (sec, f), s1)
       | More \<Rightarrow> directory_find filename (sec + 1) s1
     }"

definition filesystem_get_directory_entry :: "bytes \<Rightarrow> fs \<Rightarrow> ((int + DirectoryEntry_T) \<times> fs) option" where
  "filesystem_get_directory_entry filename s =
     do {
       (r, s1) \<leftarrow> directory_find filename (root_region (disk_info s)) s;
       case r of
         None \<Rightarrow> Some (Inl E_FILENOTFOUND, s1)
       | Some (sec, f) \<Rightarrow> Some (Inr (bytes_entry (take 32 (drop f (temp_sector s1)))), s1)
     }"

definition filesystem_set_directory_entry :: "DirectoryEntry_T \<Rightarrow> bytes \<Rightarrow> fs \<Rightarrow> (int \<times> fs) option" where
  "filesystem_set_directory_entry dir_entry filename s =
     do {
       (r, s1) \<leftarrow> directory_find filename (root_region (disk_info s)) s;
       case r of
         None \<Rightarrow> Some (E_FILENOTFOUND, s1)
       | Some (sec, f) \<Rightarrow> do {
           buf \<leftarrow> memcpy (temp_sector s1) f (entry_bytes dir_entry);
           Some (0, disk_write buf sec (s1\<lparr>temp_sector := buf\<rparr>))
         }
     }"

definition filesystem_mark_directory_entry_free :: "bytes \<Rightarrow> fs \<Rightarrow> (int \<times> fs) option" where
  "filesystem_mark_directory_entry_free filename s =
     do {
       (r, s1) \<leftarrow> directory_find filename (root_region (disk_info s)) s;
       case r of
         None \<Rightarrow> Some (E_FILENOTFOUND, s1)
       | Some (sec, f) \<Rightarrow> do {
           buf \<leftarrow> memcpy (temp_sector s1) f [0xe5];
           Some (0, disk_write buf sec (s1\<lparr>temp_sector := buf\<rparr>))
         }
     }"

text \<open>\<open>file_create\<close>: the first unused slot; 1 when the directory is full.\<close>

definition free_offset :: "bytes \<Rightarrow> nat option" where
  "free_offset sec = List.find (\<lambda>f. sec ! f = 0 \<or> sec ! f = 0xe5) offsets"

partial_function (option) file_create_from :: "DirectoryEntry_T \<Rightarrow> u32 \<Rightarrow> fs \<Rightarrow> (int \<times> fs) option" where
  "file_create_from entry sec s =
     do {
       let s1 = read_sector_cached sec False s;
       case free_offset (temp_sector s1) of
         Some f \<Rightarrow> do {
           buf \<leftarrow> memcpy (temp_sector s1) f (entry_bytes entry);
           Some (0, disk_write buf sec (s1\<lparr>temp_sector := buf\<rparr>))
         }
       | None \<Rightarrow>
           if sec + 1 = data_region (disk_info s1) then Some (1, s1)
           else file_create_from entry (sec + 1) s1
     }"

definition file_create :: "DirectoryEntry_T \<Rightarrow> fs \<Rightarrow> (int \<times> fs) option" where
  "file_create entry s = file_create_from entry (root_region (disk_info s)) s"

section \<open>Enumeration\<close>

text \<open>The inner loop of \<open>file_entries\<close>: the count so far, and whether the end was reached.\<close>

fun count_entries :: "bytes \<Rightarrow> nat list \<Rightarrow> u16 \<Rightarrow> bool \<times> u16" where
  "count_entries sec [] n = (False, n)"
| "count_entries sec (f # fs) n =
     (if sec ! f = 0 then (True, n)
      else if sec ! f = 0xe5 then count_entries sec fs n
      else if sec ! (f + 11) AND 0x18 \<noteq> 0 then count_entries sec fs n
      else count_entries sec fs (n + 1))"

partial_function (option) file_entries_from :: "u32 \<Rightarrow> u16 \<Rightarrow> fs \<Rightarrow> (u16 \<times> fs) option" where
  "file_entries_from sec entries s =
     (if sec = data_region (disk_info s) then Some (entries, s)
      else
        let s1 = read_sector_cached sec True s;
            (ended, entries') = count_entries (temp_sector s1) offsets entries in
        if ended then Some (entries', s1) else file_entries_from (sec + 1) entries' s1)"

definition file_entries :: "fs \<Rightarrow> (u16 \<times> fs) option" where
  "file_entries s = file_entries_from (root_region (disk_info s)) 0 s"

text \<open>The inner loop of \<open>file_entry\<close>: the offset of file number \<open>entry\<close>, the end, or the count.\<close>

fun nth_entry :: "bytes \<Rightarrow> u16 \<Rightarrow> nat list \<Rightarrow> u16 \<Rightarrow> scan \<times> u16" where
  "nth_entry sec entry [] n = (More, n)"
| "nth_entry sec entry (f # fs) n =
     (if sec ! f = 0 then (Missing, n)
      else if sec ! f = 0xe5 then nth_entry sec entry fs n
      else if sec ! (f + 11) AND 0x18 \<noteq> 0 then nth_entry sec entry fs n
      else if n = entry then (Found f, n)
      else nth_entry sec entry fs (n + 1))"

text \<open>The name goes to the caller's buffer \<open>buf\<close>, unchanged on failure.\<close>

partial_function (option) file_entry_from :: "bytes \<Rightarrow> u16 \<Rightarrow> u32 \<Rightarrow> u16 \<Rightarrow> fs \<Rightarrow> (int \<times> bytes \<times> fs) option" where
  "file_entry_from buf entry sec n s =
     (if sec = data_region (disk_info s) then Some (E_FILENOTFOUND, buf, s)
      else
        let s1 = read_sector_cached sec True s; r = nth_entry (temp_sector s1) entry offsets n in
        case fst r of
          Missing \<Rightarrow> Some (E_FILENOTFOUND, buf, s1)
        | Found f \<Rightarrow> do { name \<leftarrow> filesystem_filename buf (drop f (temp_sector s1)); Some (0, name, s1) }
        | More \<Rightarrow> file_entry_from buf entry (sec + 1) (snd r) s1)"

definition file_entry :: "bytes \<Rightarrow> u16 \<Rightarrow> fs \<Rightarrow> (int \<times> bytes \<times> fs) option" where
  "file_entry buf entry s = file_entry_from buf entry (root_region (disk_info s)) 0 s"

section \<open>Names: lemmas\<close>

lemma string_toupper_eq:
  "0 \<in> set s \<Longrightarrow> string_toupper s = Some (map upper (cstr s) @ dropWhile (\<lambda>c. c \<noteq> 0) s)"
  by (induction s) (auto simp: cstr_def)

lemma strcmp_eq_cstr:
  "0 \<in> set a \<Longrightarrow> 0 \<in> set b \<Longrightarrow> strcmp_eq a b = Some (cstr a = cstr b)"
  by (induction a b rule: strcmp_eq.induct) (auto simp: cstr_def)

lemma upper_nz: "c \<noteq> 0 \<Longrightarrow> upper c \<noteq> 0"
proof -
  assume c: "c \<noteq> 0"
  show ?thesis
  proof (cases "0x61 \<le> c")
    case True
    then have "c \<noteq> 0x20" by auto
    with c show ?thesis by (simp add: upper_def)
  qed (simp add: upper_def c)
qed

lemma takeWhile_first_idx:
  "takeWhile (\<lambda>c. \<not> P c) xs = take (case first_idx P xs of None \<Rightarrow> length xs | Some i \<Rightarrow> i) xs"
  by (induction xs) (auto split: option.splits simp del: first_idx_None)

text \<open>The name of an entry as a string: both fields up to the first space.\<close>

definition slot_string :: "bytes \<Rightarrow> bytes" where
  "slot_string slot = cstr (takeWhile (\<lambda>c. c \<noteq> 0x20) (take 8 slot) @ 0x2e # takeWhile (\<lambda>c. c \<noteq> 0x20) (take 3 (drop 8 slot)))"

lemma first_space_bound: "length xs = n \<Longrightarrow> (case first_idx P xs of None \<Rightarrow> n | Some i \<Rightarrow> i) \<le> n"
  by (auto split: option.splits dest!: first_idxD)

lemma filesystem_filename_eq:
  assumes "length buf = 13" "11 \<le> length de"
  shows "\<exists>buf'. filesystem_filename buf de = Some buf' \<and> length buf' = 13 \<and> 0 \<in> set buf'
    \<and> cstr buf' = slot_string de"
proof -
  let ?name = "take 8 de" and ?ext = "take 3 (drop 8 de)"
  define i where "i = (case first_idx (\<lambda>c. c = 0x20) ?name of None \<Rightarrow> 8 | Some i \<Rightarrow> i)"
  define k where "k = (case first_idx (\<lambda>c. c = 0x20) ?ext of None \<Rightarrow> 3 | Some i \<Rightarrow> i)"
  have len: "length ?name = 8" "length ?ext = 3" using assms(2) by simp_all
  have i8: "i \<le> 8" unfolding i_def by (rule first_space_bound [OF len(1)])
  have k3: "k \<le> 3" unfolding k_def by (rule first_space_bound [OF len(2)])
  have name: "takeWhile (\<lambda>c. c \<noteq> 0x20) ?name = take i ?name"
    using takeWhile_first_idx [of "\<lambda>c. c = 0x20" ?name] unfolding len(1) i_def .
  have ext: "takeWhile (\<lambda>c. c \<noteq> 0x20) ?ext = take k ?ext"
    using takeWhile_first_idx [of "\<lambda>c. c = 0x20" ?ext] unfolding len(2) k_def .
  define b1 where "b1 = ?name @ drop 8 buf"
  define b2 where "b2 = take i b1 @ 0x2e # drop (i + 1) b1"
  define b3 where "b3 = take (i + 1) b2 @ ?ext @ drop (i + 4) b2"
  define b4 where "b4 = take (i + 1 + k) b3 @ 0 # drop (i + 2 + k) b3"
  have m1: "memcpy buf 0 ?name = Some b1" using assms(1) len by (simp add: memcpy_def b1_def)
  have l1: "length b1 = 13" using memcpy_length [OF m1] assms(1) by simp
  have m2: "memcpy b1 i [0x2e] = Some b2" using l1 i8 by (simp add: memcpy_def b2_def)
  have l2: "length b2 = 13" using memcpy_length [OF m2] l1 by simp
  have m3: "memcpy b2 (i + 1) ?ext = Some b3"
    using l2 i8 len by (simp add: memcpy_def b3_def eval_nat_numeral)
  have l3: "length b3 = 13" using memcpy_length [OF m3] l2 by simp
  have m4: "memcpy b3 (i + 1 + k) [0] = Some b4"
    using l3 i8 k3 by (simp add: memcpy_def b4_def)
  have l4: "length b4 = 13" using memcpy_length [OF m4] l3 by simp
  note l = l1 l2 l3 l4
  have t1: "take 8 b1 = ?name" using len by (simp add: b1_def)
  have t2: "take 3 (drop (i + 1) b3) = ?ext"
  proof -
    have "length (take (i + 1) b2) = i + 1" using l i8 by simp
    then show ?thesis using len unfolding b3_def by simp
  qed
  have t3: "take (i + 1) b3 = take i ?name @ [0x2e]"
  proof -
    have "take (i + 1) b3 = take (i + 1) b2" using l i8 by (simp add: b3_def)
    also have "\<dots> = take i b1 @ [0x2e]" using l i8 by (simp add: b2_def)
    finally show ?thesis using i8 len by (simp add: b1_def)
  qed
  have "take (i + 1 + k) b3 = take i ?name @ 0x2e # take k ?ext"
  proof -
    have "take (i + 1 + k) b3 = take (i + 1) b3 @ take k (take 3 (drop (i + 1) b3))"
      unfolding take_add [of "i + 1" k] using k3 by (simp add: min_absorb1)
    then show ?thesis by (simp only: t2 t3) simp
  qed
  then have b4: "b4 = (take i ?name @ 0x2e # take k ?ext) @ 0 # drop (i + 2 + k) b3" by (simp add: b4_def)
  have j: "(case first_idx (\<lambda>c. c = 0x20) ?ext of None \<Rightarrow> i + 1 + 3 | Some j \<Rightarrow> i + 1 + j) = i + 1 + k"
    unfolding k_def by (cases "first_idx (\<lambda>c. c = 0x20) ?ext") (simp_all del: first_idx_None)
  have "filesystem_filename buf de = Some b4"
    by (simp only: filesystem_filename_def m1 Option.bind.bind_lunit Let_def t1 i_def [symmetric] m2 m3 t2 j m4)
  moreover have "cstr b4 = slot_string de"
  proof -
    have cut: "cstr (xs @ 0 # ys) = cstr xs" for xs ys :: bytes
      by (induction xs) (simp_all add: cstr_def)
    show ?thesis unfolding b4 cut slot_string_def name ext ..
  qed
  ultimately show ?thesis using l(4) b4 by simp
qed

section \<open>Entries: lemmas\<close>

lemma put16_cases: "put16 v = [ucast v, ucast (drop_bit 8 v)]"
  by (simp add: put16_def)

lemma le16_two: "le16 [ucast v, ucast (drop_bit 8 v)] 0 = v"
  using le16_put16 [of v] by (simp add: put16_def)

definition entry_wf :: "DirectoryEntry_T \<Rightarrow> bool" where
  "entry_wf e \<longleftrightarrow> length (de_name e) = 8 \<and> length (de_ext e) = 3"

lemma entry_bytes_length [simp]: "entry_wf e \<Longrightarrow> length (entry_bytes e) = 32"
  by (simp add: entry_wf_def entry_bytes_def)

lemma entry_bytes_nth:
  assumes "entry_wf e"
  shows "i < 8 \<Longrightarrow> entry_bytes e ! i = de_name e ! i"
    and "entry_bytes e ! 11 = attributes e"
    and "take 11 (entry_bytes e) = de_name e @ de_ext e"
  using assms by (simp_all add: entry_bytes_def entry_wf_def nth_append)

lemma list_of_length: "length xs = Suc n \<Longrightarrow> \<exists>y ys. xs = y # ys \<and> length ys = n"
  by (cases xs) auto

lemma entry_roundtrip: 
  assumes "entry_wf e"
  shows "bytes_entry (entry_bytes e) = e"
proof -
  note len = assms [unfolded entry_wf_def]
  let ?b = "entry_bytes e"
  let ?t = "[attributes e, reserved_for_windows_nt e, creation_milliseconds e]
     @ put16 (creation_time e) @ put16 (creation_date e) @ put16 (last_access_date e)
     @ put16 (reserved_for_fat32 e) @ put16 (last_write_time e) @ put16 (last_write_date e)
     @ put16 (starting_cluster e) @ put32 (de_size e)"
  have tail: "?b ! (11 + i) = ?t ! i" for i
    using len by (simp add: entry_bytes_def nth_append)
  note at = tail [of 0] tail [of 1] tail [of 2] tail [of 3] tail [of 4] tail [of 5] tail [of 6] tail [of 7]
    tail [of 8] tail [of 9] tail [of 10] tail [of 11] tail [of 12] tail [of 13] tail [of 14] tail [of 15]
    tail [of 16] tail [of 17] tail [of 18] tail [of 19] tail [of 20]
  note at' = at [simplified put16_def put32_def, simplified]
  have "le16 ?b 14 = creation_time e" "le16 ?b 16 = creation_date e" "le16 ?b 18 = last_access_date e"
    "le16 ?b 20 = reserved_for_fat32 e" "le16 ?b 22 = last_write_time e" "le16 ?b 24 = last_write_date e"
    "le16 ?b 26 = starting_cluster e"
    by (rule le16_put16_at; simp add: at' put16_def)+
  moreover have "le32 ?b 28 = de_size e"
    by (rule le32_put32_at) (simp_all add: at' put32_def)
  moreover have "take 8 ?b = de_name e" "take 3 (drop 8 ?b) = de_ext e"
    using len by (simp_all add: entry_bytes_def)
  ultimately show ?thesis by (simp add: bytes_entry_def at')
qed

section \<open>The directory as a list of slots\<close>

definition sector_slots :: "bytes \<Rightarrow> bytes list" where
  "sector_slots b = map (\<lambda>f. take 32 (drop f b)) offsets"

text \<open>The slots of \<open>n\<close> sectors from \<open>sec\<close>, and of the root directory.\<close>

definition slots_from :: "fs \<Rightarrow> u32 \<Rightarrow> nat \<Rightarrow> bytes list" where
  "slots_from s sec n = concat (map (\<lambda>i. sector_slots (disk_read (sec + of_nat i) s)) [0..<n])"

definition root_sectors :: "fs \<Rightarrow> nat" where
  "root_sectors s = unat (data_region (disk_info s)) - unat (root_region (disk_info s))"

definition dir_slots :: "fs \<Rightarrow> bytes list" where
  "dir_slots s = slots_from s (root_region (disk_info s)) (root_sectors s)"

definition is_file :: "bytes \<Rightarrow> bool" where
  "is_file slot \<longleftrightarrow> slot ! 0 \<noteq> 0 \<and> slot ! 0 \<noteq> 0xe5 \<and> slot ! 11 AND 0x18 = 0"

text \<open>The search on slots: the first file with the name, before the first slot that starts with 0.\<close>

fun dir_scan :: "bytes \<Rightarrow> bytes list \<Rightarrow> scan" where
  "dir_scan name [] = More"
| "dir_scan name (slot # slots) =
     (if slot ! 0 = 0 then Missing
      else if is_file slot \<and> slot_string slot = name then Found 0
      else (case dir_scan name slots of Found k \<Rightarrow> Found (Suc k) | r \<Rightarrow> r))"

definition shift :: "nat \<Rightarrow> scan \<Rightarrow> scan" where
  "shift n r = (case r of Found k \<Rightarrow> Found (n + k) | _ \<Rightarrow> r)"

lemma shift_simps [simp]: "shift n (Found k) = Found (n + k)" "shift n Missing = Missing" "shift n More = More"
  by (simp_all add: shift_def)

lemma shift_inject: "shift n r = More \<longleftrightarrow> r = More" "shift n r = Missing \<longleftrightarrow> r = Missing"
  by (cases r; simp)+

lemma dir_scan_append:
  "dir_scan name (xs @ ys) =
    (case dir_scan name xs of More \<Rightarrow> shift (length xs) (dir_scan name ys) | r \<Rightarrow> r)"
  by (induction xs) (auto simp: shift_def split: scan.split)

lemma dir_scan_Found:
  "dir_scan name slots = Found k \<longleftrightarrow> k < length slots \<and> is_file (slots ! k) \<and> slot_string (slots ! k) = name
    \<and> (\<forall>j < k. slots ! j ! 0 \<noteq> 0 \<and> \<not> (is_file (slots ! j) \<and> slot_string (slots ! j) = name))"
proof (induction slots arbitrary: k)
  case (Cons slot slots)
  show ?case
  proof (cases k)
    case 0
    then show ?thesis by (auto simp: is_file_def split: scan.split)
  next
    case (Suc i)
    then show ?thesis
      using Cons.IH [of i] by (auto simp: is_file_def less_Suc_eq_0_disj split: scan.split)
  qed
qed simp

lemma dir_scan_Missing:
  "dir_scan name slots = Missing \<longleftrightarrow> (\<exists>slot \<in> set slots. slot ! 0 = 0)
    \<and> (\<forall>slot \<in> set (takeWhile (\<lambda>slot. slot ! 0 \<noteq> 0) slots). \<not> (is_file slot \<and> slot_string slot = name))"
  by (induction slots) (auto simp: is_file_def split: scan.split)

lemma offsets_length [simp]: "length offsets = 16"
  by (simp add: offsets_def)

lemma offsets_nth: "i < 16 \<Longrightarrow> offsets ! i = 32 * i"
  by (simp add: offsets_def)

lemma offsets_bound: "f \<in> set offsets \<Longrightarrow> f + 32 \<le> 512"
  by (auto simp: offsets_def)

lemma sector_slots_length [simp]: "length (sector_slots b) = 16"
  by (simp add: sector_slots_def)

lemma sector_slots_nth: "i < 16 \<Longrightarrow> sector_slots b ! i = take 32 (drop (32 * i) b)"
  by (simp add: sector_slots_def offsets_nth)

lemma slot_nth: "f + 32 \<le> length b \<Longrightarrow> i < 32 \<Longrightarrow> take 32 (drop f b) ! i = b ! (f + i)"
  by simp

lemma slot_string_take: "slot_string (take 32 b) = slot_string b"
  by (simp add: slot_string_def min_def take_drop)

text \<open>The inner loop of the search computes \<open>dir_scan\<close> on the slots of the sector.\<close>

lemma scan_entries_slots:
  assumes "length sec = 512" "0 \<in> set filename" "\<forall>f \<in> set fs. f + 32 \<le> 512"
  shows "scan_entries filename sec fs = Some
    (case dir_scan (cstr filename) (map (\<lambda>f. take 32 (drop f sec)) fs) of Found k \<Rightarrow> Found (fs ! k) | r \<Rightarrow> r)"
  using assms(3)
proof (induction fs)
  case (Cons f fs)
  let ?slot = "take 32 (drop f sec)"
  have f: "f + 32 \<le> length sec" using Cons.prems assms(1) by simp
  have r0: "rd sec f = Some (?slot ! 0)" and r11: "rd sec (f + 11) = Some (?slot ! 11)"
    using f by (simp_all add: rd_def)
  have "11 \<le> length (drop f sec)" using f by simp
  then obtain buf where buf: "filesystem_filename (replicate 13 0) (drop f sec) = Some buf" "0 \<in> set buf"
      "cstr buf = slot_string ?slot"
    using filesystem_filename_eq [of "replicate 13 0" "drop f sec"] by (auto simp: slot_string_take)
  have IH: "scan_entries filename sec fs = Some
    (case dir_scan (cstr filename) (map (\<lambda>f. take 32 (drop f sec)) fs) of Found k \<Rightarrow> Found (fs ! k) | r \<Rightarrow> r)"
    using Cons by simp
  have "strcmp_eq buf filename = Some (slot_string ?slot = cstr filename)"
    using strcmp_eq_cstr [OF buf(2) assms(2)] buf(3) by simp
  then show ?case
    unfolding scan_entries.simps r0 r11 buf(1) IH Option.bind.bind_lunit list.map dir_scan.simps is_file_def
    by (cases "dir_scan (cstr filename) (map (\<lambda>f. take 32 (drop f sec)) fs)") auto
qed simp

text \<open>Only the cache changes.\<close>

definition cache_only :: "fs \<Rightarrow> fs \<Rightarrow> bool" where
  "cache_only s s' \<longleftrightarrow> disk s' = disk s \<and> disk_info s' = disk_info s \<and> fdtable s' = fdtable s
     \<and> close_entry s' = close_entry s"

lemma cache_only_refl [simp]: "cache_only s s"
  by (simp add: cache_only_def)

lemma cache_only_trans: "cache_only s s' \<Longrightarrow> cache_only s' s'' \<Longrightarrow> cache_only s s''"
  by (simp add: cache_only_def)

lemma cache_only_read_cached [simp]: "cache_only s (read_sector_cached sec force s)"
  by (simp add: cache_only_def)

lemma cache_onlyD:
  assumes "cache_only s s'"
  shows "disk_read sec s' = disk_read sec s" "slots_from s' sec n = slots_from s sec n"
    "dir_slots s' = dir_slots s" "disk_info s' = disk_info s" "geometry s' = geometry s"
  using assms
  by (simp_all add: cache_only_def disk_read_def slots_from_def dir_slots_def root_sectors_def geometry_def)

lemma slots_from_Suc: "slots_from s sec (Suc n) = sector_slots (disk_read sec s) @ slots_from s (sec + 1) n"
proof -
  have "[0..<Suc n] = 0 # map Suc [0..<n]" by (simp add: upt_conv_Cons map_Suc_upt del: upt_Suc)
  then show ?thesis by (simp add: slots_from_def comp_def add.assoc del: upt_Suc)
qed

lemma slots_from_length [simp]: "length (slots_from s sec n) = 16 * n"
  by (induction n arbitrary: sec) (simp_all add: slots_from_Suc, simp add: slots_from_def)

text \<open>The outer loop: over \<open>n\<close> sectors it computes \<open>dir_scan\<close> on their slots, and it goes on with the
  next sector when none of them has the name or the end.\<close>

lemma directory_find_slots:
  assumes "fs_wf s" "0 \<in> set filename"
  shows "\<exists>s'. cache_only s s' \<and> fs_wf s' \<and> directory_find filename sec s =
    (case dir_scan (cstr filename) (slots_from s sec n) of
       Found k \<Rightarrow> Some (Some (sec + of_nat (k div 16), 32 * (k mod 16)), s')
     | Missing \<Rightarrow> Some (None, s')
     | More \<Rightarrow> directory_find filename (sec + of_nat n) s')
    \<and> (\<forall>k. dir_scan (cstr filename) (slots_from s sec n) = Found k
         \<longrightarrow> temp_sector s' = disk_read (sec + of_nat (k div 16)) s
             \<and> current_cache_sector s' = sec + of_nat (k div 16))"
  using assms(1)
proof (induction n arbitrary: sec s)
  case 0
  then show ?case by (intro exI [of _ s]) (simp add: slots_from_def)
next
  case (Suc n)
  let ?s = "read_sector_cached sec True s" and ?b = "disk_read sec s"
  let ?r = "dir_scan (cstr filename) (sector_slots ?b)"
  have scan: "scan_entries filename (temp_sector ?s) offsets
      = Some (case ?r of Found k \<Rightarrow> Found (offsets ! k) | r \<Rightarrow> r)"
    using scan_entries_slots [of ?b filename offsets] assms(2) offsets_bound fs_wf_read_length [OF Suc.prems]
    by (simp add: read_sector_cached_temp [OF Suc.prems] sector_slots_def)
  show ?case
  proof (cases ?r)
    case (Found k)
    then have k: "k < 16" using dir_scan_Found [of "cstr filename" "sector_slots ?b" k] by simp
    have "directory_find filename sec s = Some (Some (sec, 32 * k), ?s)"
      using scan Found k by (subst directory_find.simps) (simp add: Let_def offsets_nth)
    with Found k Suc.prems show ?thesis
      by (intro exI [of _ ?s]) (simp add: slots_from_Suc dir_scan_append read_sector_cached_wf read_sector_cached_temp)
  next
    case Missing
    have "directory_find filename sec s = Some (None, ?s)"
      using scan Missing by (subst directory_find.simps) (simp add: Let_def)
    with Missing Suc.prems show ?thesis
      by (intro exI [of _ ?s]) (simp add: slots_from_Suc dir_scan_append read_sector_cached_wf)
  next
    case More
    have onward: "directory_find filename sec s = directory_find filename (sec + 1) ?s"
      using scan More by (subst directory_find.simps) (simp add: Let_def)
    have slots: "slots_from ?s t m = slots_from s t m" for t m by (simp add: slots_from_def)
    obtain s' where s': "cache_only ?s s'" "fs_wf s'"
      "directory_find filename (sec + 1) ?s =
        (case dir_scan (cstr filename) (slots_from s (sec + 1) n) of
           Found k \<Rightarrow> Some (Some (sec + 1 + of_nat (k div 16), 32 * (k mod 16)), s')
         | Missing \<Rightarrow> Some (None, s')
         | More \<Rightarrow> directory_find filename (sec + 1 + of_nat n) s')"
      "\<forall>k. dir_scan (cstr filename) (slots_from s (sec + 1) n) = Found k
         \<longrightarrow> temp_sector s' = disk_read (sec + 1 + of_nat (k div 16)) s
             \<and> current_cache_sector s' = sec + 1 + of_nat (k div 16)"
      using Suc.IH [of ?s "sec + 1"] read_sector_cached_wf [OF Suc.prems, of sec True]
      by (auto simp: slots)
    have "dir_scan (cstr filename) (slots_from s sec (Suc n)) = shift 16 (dir_scan (cstr filename) (slots_from s (sec + 1) n))"
      using More by (simp add: slots_from_Suc dir_scan_append)
    moreover have "of_nat ((16 + k) div 16) = (1 + of_nat (k div 16) :: u32)" for k
    proof -
      have "(16 + k) div 16 = Suc (k div 16)" by simp
      then show ?thesis by (simp only: of_nat_Suc)
    qed
    ultimately show ?thesis
      using s' cache_only_trans [OF cache_only_read_cached s'(1)] unfolding onward
      by (intro exI [of _ s']) (cases "dir_scan (cstr filename) (slots_from s (sec + 1) n)"; simp add: add.assoc)
  qed
qed

text \<open>The sector of slot \<open>k\<close> of the root directory.\<close>

definition slot_sector :: "fs \<Rightarrow> nat \<Rightarrow> u32" where
  "slot_sector s k = root_region (disk_info s) + of_nat (k div 16)"

lemma dir_slots_length [simp]: "length (dir_slots s) = 16 * root_sectors s"
  by (simp add: dir_slots_def)

lemma slots_from_nth:
  "k < 16 * n \<Longrightarrow> slots_from s sec n ! k = take 32 (drop (32 * (k mod 16)) (disk_read (sec + of_nat (k div 16)) s))"
proof (induction n arbitrary: sec k)
  case (Suc n)
  show ?case
  proof (cases "k < 16")
    case True
    then show ?thesis by (simp add: slots_from_Suc nth_append sector_slots_nth)
  next
    case False
    then have k: "k - 16 < 16 * n" "(k - 16) mod 16 = k mod 16" "k div 16 = Suc ((k - 16) div 16)"
      using Suc.prems by (simp_all add: le_mod_geq le_div_geq)
    have "of_nat (k div 16) = (1 + of_nat ((k - 16) div 16) :: u32)" unfolding k(3) by simp
    with Suc.IH [OF k(1), of "sec + 1"] k(2) False show ?thesis
      by (simp add: slots_from_Suc nth_append add.assoc)
  qed
qed simp

lemmas dir_slots_nth = slots_from_nth [of _ "root_sectors s" s "root_region (disk_info s)" for s, folded dir_slots_def slot_sector_def]

lemma slot_sector_unat:
  assumes "geometry s" "k < 16 * root_sectors s"
  shows "unat (slot_sector s k) = unat (root_region (disk_info s)) + k div 16"
    and "unat (slot_sector s k) < unat (data_region (disk_info s))"
    and "lba (slot_sector s k) = slot_sector s k"
proof -
  note g = geometryD [OF assms(1)]
  have k: "k div 16 < unat (data_region (disk_info s)) - unat (root_region (disk_info s))"
    using assms(2) by (simp add: root_sectors_def less_mult_imp_div_less mult.commute)
  then have "unat (of_nat (k div 16) :: u32) = k div 16"
    using g(5) by (simp add: unat_of_nat)
  then show n: "unat (slot_sector s k) = unat (root_region (disk_info s)) + k div 16"
    using k g unfolding slot_sector_def by (subst unat_add_lt) auto
  then show "unat (slot_sector s k) < unat (data_region (disk_info s))" using k by simp
  then show "lba (slot_sector s k) = slot_sector s k" using g by (intro lba_small) simp
qed

lemma root_plus_sectors:
  assumes "geometry s"
  shows "root_region (disk_info s) + of_nat (root_sectors s) = data_region (disk_info s)"
proof -
  note g = geometryD [OF assms]
  have "unat (of_nat (root_sectors s) :: u32) = root_sectors s"
    using g(5) by (simp add: root_sectors_def unat_of_nat)
  then show ?thesis
    using g by (intro word_unat_eq_iff [THEN iffD2]) (subst unat_add_lt, auto simp: root_sectors_def)
qed

definition dir_frame :: "fs \<Rightarrow> fs \<Rightarrow> bool" where
  "dir_frame s s' \<longleftrightarrow> disk_info s' = disk_info s \<and> fdtable s' = fdtable s \<and> close_entry s' = close_entry s
     \<and> (\<forall>k. \<not> (root_region (disk_info s) \<le> k \<and> k < data_region (disk_info s)) \<longrightarrow> disk s' k = disk s k)"

lemma dir_frame_cache_only: "cache_only s s' \<Longrightarrow> dir_frame s s'"
  by (simp add: cache_only_def dir_frame_def)

lemma div_mod_eq_cong: "(j::nat) div 16 = k div 16 \<Longrightarrow> j mod 16 = k mod 16 \<Longrightarrow> j = k"
  by (metis div_mult_mod_eq)

lemma slot_memcpy:
  assumes "length b = 512" "j < 16" "length bs \<le> 32" "memcpy b (32 * m) bs = Some buf"
  shows "take 32 (drop (32 * j) buf) =
    (if j = m then bs @ drop (length bs) (take 32 (drop (32 * m) b)) else take 32 (drop (32 * j) b))"
proof (rule nth_equalityI)
  have len: "length buf = 512" using memcpy_length [OF assms(4)] assms(1) by simp
  have j: "32 * j + 32 \<le> 512" using assms(2) by simp
  then show "length (take 32 (drop (32 * j) buf)) =
      length (if j = m then bs @ drop (length bs) (take 32 (drop (32 * m) b)) else take 32 (drop (32 * j) b))"
    using assms(1,3) len by auto
  fix i assume "i < length (take 32 (drop (32 * j) buf))"
  then have i: "i < 32" by simp
  have c: "buf ! (32 * j + i) = (if 32 * m \<le> 32 * j + i \<and> 32 * j + i < 32 * m + length bs
      then bs ! (32 * j + i - 32 * m) else b ! (32 * j + i))"
    using j i assms(1) by (intro memcpy_nth [OF assms(4)]) simp
  have "take 32 (drop (32 * j) buf) ! i = buf ! (32 * j + i)" using i j len by simp
  moreover have "\<not> (32 * m \<le> 32 * j + i \<and> 32 * j + i < 32 * m + length bs)" if "j \<noteq> m"
    using that i assms(3) by (cases "j < m") simp_all
  ultimately show "take 32 (drop (32 * j) buf) ! i =
      (if j = m then bs @ drop (length bs) (take 32 (drop (32 * m) b)) else take 32 (drop (32 * j) b)) ! i"
    using c i j assms(1) by (auto simp: nth_append)
qed

text \<open>Overwriting the first bytes of a slot in \<open>temp_sector\<close> and writing the sector back.\<close>

lemma write_slot:
  assumes "fs_wf s" "geometry s" "k < 16 * root_sectors s" "length bs \<le> 32"
    and "cache_only s s1" "current_cache_sector s1 = slot_sector s k"
    and "memcpy (disk_read (slot_sector s k) s) (32 * (k mod 16)) bs = Some buf"
    and "s' = disk_write buf (slot_sector s k) (s1\<lparr>temp_sector := buf\<rparr>)"
  shows "fs_wf s'" "geometry s'" "dir_frame s s'"
    "dir_slots s' = (dir_slots s)[k := bs @ drop (length bs) (dir_slots s ! k)]"
proof -
  note sec = slot_sector_unat [OF assms(2,3)]
  note co = cache_onlyD [OF assms(5)]
  have len: "length buf = 512"
    using memcpy_length [OF assms(7)] fs_wf_read_length [OF assms(1)] by simp
  show "fs_wf s'"
    using assms(1,5,6) len by (simp add: assms(8) fs_wf_def disk_write_def disk_read_def cache_only_def)
  show "geometry s'" using assms(2) co(4) by (simp add: assms(8) geometry_def)
  have info: "disk_info s' = disk_info s" using co(4) by (simp add: assms(8))
  show "dir_frame s s'"
    using assms(5) sec slot_sector_unat(1) [OF assms(2,3)]
    by (auto simp: dir_frame_def assms(8) cache_only_def disk_write_def word_le_nat_alt word_less_nat_alt)
  have read: "disk_read t s' = (if lba t = slot_sector s k then buf else disk_read t s)" for t
    by (simp add: assms(8) cfcard.read_write sec(3) co(1))
  show "dir_slots s' = (dir_slots s)[k := bs @ drop (length bs) (dir_slots s ! k)]"
  proof (rule nth_equalityI)
    have rs: "root_sectors s' = root_sectors s" by (simp add: root_sectors_def info)
    then show "length (dir_slots s') = length ((dir_slots s)[k := bs @ drop (length bs) (dir_slots s ! k)])" by simp
    fix j assume "j < length (dir_slots s')"
    then have j: "j < 16 * root_sectors s" by (simp add: rs)
    note secj = slot_sector_unat [OF assms(2) j]
    have sj: "slot_sector s' j = slot_sector s j" by (simp add: slot_sector_def info)
    have slot_j: "dir_slots s' ! j = take 32 (drop (32 * (j mod 16)) (disk_read (slot_sector s j) s'))"
      using dir_slots_nth [of j s'] j by (simp add: rs sj)
    have same: "slot_sector s j = slot_sector s k \<longleftrightarrow> j div 16 = k div 16"
      using sec(1) secj(1) by (simp add: word_unat_eq_iff)
    show "dir_slots s' ! j = (dir_slots s)[k := bs @ drop (length bs) (dir_slots s ! k)] ! j"
    proof (cases "j div 16 = k div 16")
      case False
      then have "j \<noteq> k" by auto
      with False show ?thesis using dir_slots_nth [OF j] by (simp add: slot_j read secj(3) same)
    next
      case True
      then have sec_eq: "slot_sector s j = slot_sector s k" and eq: "j mod 16 = k mod 16 \<longleftrightarrow> j = k"
        using same by (auto intro: div_mod_eq_cong)
      have "dir_slots s' ! j = take 32 (drop (32 * (j mod 16)) buf)"
        by (simp add: slot_j read sec_eq sec(3))
      also have "\<dots> = (if j = k then bs @ drop (length bs) (dir_slots s ! k) else dir_slots s ! j)"
        using slot_memcpy [OF fs_wf_read_length [OF assms(1)] _ assms(4,7), of "j mod 16"]
          dir_slots_nth [OF j] dir_slots_nth [OF assms(3)] eq sec_eq by simp
      finally show ?thesis using j by (simp add: nth_list_update)
    qed
  qed
qed

end
