(* ===== verification/Directory_Properties.thy ===== *)
theory Directory_Properties
  imports Directory
begin

text \<open>
  What the directory operations do to the list of slots: lookup, replacement and release of an
  entry, creation in the first unused slot, enumeration of the files, and where the search leaves
  the directory.
\<close>

section \<open>The search from the start of the root directory\<close>

lemma root_find_Found:
  assumes "fs_wf s" "0 \<in> set filename" "dir_scan (cstr filename) (dir_slots s) = Found k"
  obtains s' where "directory_find filename (root_region (disk_info s)) s = Some (Some (slot_sector s k, 32 * (k mod 16)), s')"
    "cache_only s s'" "fs_wf s'" "temp_sector s' = disk_read (slot_sector s k) s"
    "current_cache_sector s' = slot_sector s k" "k < 16 * root_sectors s"
  using directory_find_slots [OF assms(1,2), of "root_region (disk_info s)" "root_sectors s"] assms(3)
    dir_scan_Found [of "cstr filename" "dir_slots s" k]
  by (auto simp: dir_slots_def slot_sector_def)

lemma root_find_Missing:
  assumes "fs_wf s" "0 \<in> set filename" "dir_scan (cstr filename) (dir_slots s) = Missing"
  obtains s' where "directory_find filename (root_region (disk_info s)) s = Some (None, s')"
    "cache_only s s'" "fs_wf s'"
  using directory_find_slots [OF assms(1,2), of "root_region (disk_info s)" "root_sectors s"] assms(3)
  by (auto simp: dir_slots_def)

lemma slot_length: "fs_wf s \<Longrightarrow> k < 16 * root_sectors s \<Longrightarrow> length (dir_slots s ! k) = 32"
  using dir_slots_nth [of k s] fs_wf_read_length [of s "slot_sector s k"] by (simp add: Suc_leI)

lemma memcpy_slot:
  assumes "fs_wf s" "length bs \<le> 32"
  obtains buf where "memcpy (disk_read sec s) (32 * (k mod 16)) bs = Some buf"
proof -
  have "32 * (k mod 16) + 32 \<le> 512" using mod_less_divisor [of 16 k] by linarith
  with assms show thesis using that fs_wf_read_length [OF assms(1), of sec] by (simp add: memcpy_def)
qed

lemma get_entry_cases:
  assumes "fs_wf s" "0 \<in> set filename" "dir_scan (cstr filename) (dir_slots s) \<noteq> More"
  obtains s' where "filesystem_get_directory_entry filename s =
      Some (case dir_scan (cstr filename) (dir_slots s) of
              Found k \<Rightarrow> Inr (bytes_entry (dir_slots s ! k)) | _ \<Rightarrow> Inl E_FILENOTFOUND, s')"
    "cache_only s s'" "fs_wf s'"
proof (cases "dir_scan (cstr filename) (dir_slots s)")
  case (Found k)
  obtain s1 where s1: "directory_find filename (root_region (disk_info s)) s = Some (Some (slot_sector s k, 32 * (k mod 16)), s1)"
    "cache_only s s1" "fs_wf s1" "temp_sector s1 = disk_read (slot_sector s k) s" "k < 16 * root_sectors s"
    using root_find_Found [OF assms(1,2) Found] by metis
  then have "filesystem_get_directory_entry filename s = Some (Inr (bytes_entry (dir_slots s ! k)), s1)"
    by (simp add: filesystem_get_directory_entry_def dir_slots_nth)
  with that [of s1] Found s1(2,3) show thesis by simp
next
  case Missing
  obtain s1 where s1: "directory_find filename (root_region (disk_info s)) s = Some (None, s1)"
    "cache_only s s1" "fs_wf s1"
    using root_find_Missing [OF assms(1,2) Missing] by metis
  then have "filesystem_get_directory_entry filename s = Some (Inl E_FILENOTFOUND, s1)"
    by (simp add: filesystem_get_directory_entry_def)
  with that [of s1] Missing s1(2,3) show thesis by simp
qed (use assms(3) in simp)

lemma set_entry_Found:
  assumes "fs_wf s" "geometry s" "0 \<in> set filename" "dir_scan (cstr filename) (dir_slots s) = Found k" "entry_wf e"
  obtains s' where "filesystem_set_directory_entry e filename s = Some (0, s')" "fs_wf s'" "geometry s'"
    "dir_frame s s'" "dir_slots s' = (dir_slots s)[k := entry_bytes e]"
proof -
  obtain s1 where s1: "directory_find filename (root_region (disk_info s)) s = Some (Some (slot_sector s k, 32 * (k mod 16)), s1)"
    "cache_only s s1" "temp_sector s1 = disk_read (slot_sector s k) s"
    "current_cache_sector s1 = slot_sector s k" "k < 16 * root_sectors s"
    using root_find_Found [OF assms(1,3,4)] by metis
  have len: "length (entry_bytes e) \<le> 32" "drop (length (entry_bytes e)) (dir_slots s ! k) = []"
    using assms(5) slot_length [OF assms(1) s1(5)] by simp_all
  obtain buf where buf: "memcpy (disk_read (slot_sector s k) s) (32 * (k mod 16)) (entry_bytes e) = Some buf"
    using memcpy_slot [OF assms(1) len(1)] by metis
  have "filesystem_set_directory_entry e filename s =
      Some (0, disk_write buf (slot_sector s k) (s1\<lparr>temp_sector := buf\<rparr>))"
    using s1 buf by (simp add: filesystem_set_directory_entry_def)
  with write_slot [OF assms(1,2) s1(5) len(1) s1(2,4) buf refl] len(2) show thesis
    using that by simp
qed

lemma mark_free_Found:
  assumes "fs_wf s" "geometry s" "0 \<in> set filename" "dir_scan (cstr filename) (dir_slots s) = Found k"
  obtains s' where "filesystem_mark_directory_entry_free filename s = Some (0, s')" "fs_wf s'" "geometry s'"
    "dir_frame s s'" "dir_slots s' = (dir_slots s)[k := 0xe5 # tl (dir_slots s ! k)]"
proof -
  obtain s1 where s1: "directory_find filename (root_region (disk_info s)) s = Some (Some (slot_sector s k, 32 * (k mod 16)), s1)"
    "cache_only s s1" "temp_sector s1 = disk_read (slot_sector s k) s"
    "current_cache_sector s1 = slot_sector s k" "k < 16 * root_sectors s"
    using root_find_Found [OF assms(1,3,4)] by metis
  have len: "length [0xe5 :: u8] \<le> 32" by simp
  obtain buf where buf: "memcpy (disk_read (slot_sector s k) s) (32 * (k mod 16)) [0xe5] = Some buf"
    using memcpy_slot [OF assms(1) len] by metis
  have "filesystem_mark_directory_entry_free filename s =
      Some (0, disk_write buf (slot_sector s k) (s1\<lparr>temp_sector := buf\<rparr>))"
    using s1 buf by (simp add: filesystem_mark_directory_entry_free_def)
  with write_slot [OF assms(1,2) s1(5) len s1(2,4) buf refl] show thesis
    using that by (simp add: drop_Suc)
qed

section \<open>Creating an entry\<close>

definition slot_free :: "bytes \<Rightarrow> bool" where
  "slot_free slot \<longleftrightarrow> slot ! 0 = 0 \<or> slot ! 0 = 0xe5"

lemma first_idx_append:
  "first_idx P (xs @ ys) =
    (case first_idx P xs of Some i \<Rightarrow> Some i | None \<Rightarrow> map_option ((+) (length xs)) (first_idx P ys))"
  by (induction xs; cases "first_idx P ys") (auto split: option.splits simp del: first_idx_None)

lemma find_first_idx: "List.find P xs = map_option (nth xs) (first_idx P xs)"
  by (induction xs) (auto simp: option.map_comp comp_def)

lemma first_idx_map: "first_idx P (map f xs) = first_idx (\<lambda>x. P (f x)) xs"
  by (induction xs) auto

lemma first_idx_cong: "(\<And>x. x \<in> set xs \<Longrightarrow> P x = Q x) \<Longrightarrow> first_idx P xs = first_idx Q xs"
  by (induction xs) auto

lemma free_offset_slots:
  assumes "length b = 512"
  shows "free_offset b = map_option (\<lambda>k. 32 * k) (first_idx slot_free (sector_slots b))"
proof -
  have "first_idx slot_free (sector_slots b) = first_idx (\<lambda>f. b ! f = 0 \<or> b ! f = 0xe5) offsets"
    unfolding sector_slots_def first_idx_map
    using assms by (intro first_idx_cong) (auto simp: slot_free_def dest!: offsets_bound)
  moreover have "first_idx P offsets = Some k \<Longrightarrow> offsets ! k = 32 * k" for P k
    using first_idxD [of P offsets k] by (simp add: offsets_nth)
  ultimately show ?thesis
    by (cases "first_idx (\<lambda>f. b ! f = 0 \<or> b ! f = 0xe5) offsets")
      (simp_all add: free_offset_def find_first_idx del: first_idx_None)
qed

text \<open>The files of a list of slots: what stands before the first slot that starts with 0.\<close>

definition live :: "bytes list \<Rightarrow> bytes list" where
  "live slots = filter is_file (takeWhile (\<lambda>slot. slot ! 0 \<noteq> 0) slots)"

definition ends :: "bytes list \<Rightarrow> bool" where
  "ends slots \<longleftrightarrow> (\<exists>slot \<in> set slots. slot ! 0 = 0)"

text \<open>An entry put in the first unused slot is the first with its name if there was none.\<close>

lemma dir_scan_created:
  assumes "first_idx slot_free slots = Some k" "\<forall>k. dir_scan name slots \<noteq> Found k"
    and "is_file slot" "slot_string slot = name"
  shows "dir_scan name (slots[k := slot]) = Found k"
proof -
  have k: "k < length slots" "\<forall>j < k. \<not> slot_free (slots ! j)"
    using first_idxD [OF assms(1)] by simp_all
  have none: "\<not> (is_file (slots ! j) \<and> slot_string (slots ! j) = name)" if j: "j < k" for j
    using j
  proof (induction j rule: less_induct)
    case (less j)
    then have "\<forall>i < j. slots ! i ! 0 \<noteq> 0 \<and> \<not> (is_file (slots ! i) \<and> slot_string (slots ! i) = name)"
      using k(2) by (auto simp: slot_free_def)
    then show ?case using assms(2) dir_scan_Found [of name slots j] less(2) k(1) by auto
  qed
  then show ?thesis using k assms(3,4) by (auto simp: dir_scan_Found slot_free_def)
qed

text \<open>Marking the only file with a name as free.\<close>

lemma dir_scan_marked:
  assumes "dir_scan name slots = Found k" "ends slots"
    and "\<forall>j < length slots. j \<noteq> k \<longrightarrow> \<not> (is_file (slots ! j) \<and> slot_string (slots ! j) = name)"
  shows "dir_scan name (slots[k := 0xe5 # xs]) = Missing"
proof -
  have k: "k < length slots" "slots ! k ! 0 \<noteq> 0" using assms(1) by (auto simp: dir_scan_Found is_file_def)
  from assms(2) obtain i where i: "i < length slots" "slots ! i ! 0 = 0" by (auto simp: ends_def in_set_conv_nth)
  then have "(slots[k := 0xe5 # xs]) ! i = slots ! i" using k by (metis nth_list_update_neq)
  then have "\<exists>slot \<in> set (slots[k := 0xe5 # xs]). slot ! 0 = 0" using i by (metis length_list_update nth_mem)
  moreover have "\<not> (is_file slot \<and> slot_string slot = name)" if "slot \<in> set (slots[k := 0xe5 # xs])" for slot
  proof -
    from that obtain i where i: "i < length slots" "slot = (slots[k := 0xe5 # xs]) ! i"
      by (auto simp: in_set_conv_nth)
    show ?thesis
    proof (cases "i = k")
      case True
      then show ?thesis using i by (simp add: is_file_def)
    next
      case False
      then show ?thesis using i assms(3) by simp
    qed
  qed
  ultimately show ?thesis unfolding dir_scan_Missing by (meson set_takeWhileD)
qed

lemma file_create_from_slots:
  assumes "fs_wf s" "entry_wf e" "0 < n" "n < 2 ^ 32" "sec + of_nat n = data_region (disk_info s)"
  shows "\<exists>s1. cache_only s s1 \<and> fs_wf s1 \<and>
    (case first_idx slot_free (slots_from s sec n) of
       None \<Rightarrow> file_create_from e sec s = Some (1, s1)
     | Some k \<Rightarrow> current_cache_sector s1 = sec + of_nat (k div 16) \<and>
         (\<exists>buf. memcpy (disk_read (sec + of_nat (k div 16)) s) (32 * (k mod 16)) (entry_bytes e) = Some buf
          \<and> file_create_from e sec s =
              Some (0, disk_write buf (sec + of_nat (k div 16)) (s1\<lparr>temp_sector := buf\<rparr>))))"
  using assms(1,3-)
proof (induction n arbitrary: sec s)
  case (Suc n)
  let ?s = "read_sector_cached sec False s" and ?b = "disk_read sec s"
  have wf': "fs_wf ?s" using Suc.prems(1) by (rule read_sector_cached_wf)
  have temp: "temp_sector ?s = ?b" using Suc.prems(1) by (rule read_sector_cached_temp)
  have len: "length ?b = 512" using Suc.prems(1) by (rule fs_wf_read_length)
  note free = free_offset_slots [OF len]
  show ?case
  proof (cases "first_idx slot_free (sector_slots ?b)")
    case (Some k)
    then have k: "k < 16" using first_idxD [OF Some] by simp
    then have "32 * k + length (entry_bytes e) \<le> length ?b" using assms(2) len by simp
    then obtain buf where buf: "memcpy ?b (32 * k) (entry_bytes e) = Some buf" by (simp add: memcpy_def)
    have "file_create_from e sec s = Some (0, disk_write buf sec (?s\<lparr>temp_sector := buf\<rparr>))"
      using Some buf by (subst file_create_from.simps) (simp add: temp free Let_def)
    with Some k buf wf' show ?thesis
      by (intro exI [of _ ?s]) (simp add: slots_from_Suc first_idx_append)
  next
    case None
    have slots: "slots_from ?s t m = slots_from s t m" for t m by (simp add: slots_from_def)
    have one: "sec + 1 = data_region (disk_info s) \<longleftrightarrow> n = 0"
    proof -
      have "sec + 1 + of_nat n = data_region (disk_info s)" using Suc.prems(4) by (simp add: add.assoc)
      then have "sec + 1 = data_region (disk_info s) \<longleftrightarrow> (of_nat n :: u32) = 0"
        by (metis add.right_neutral add_left_cancel)
      also have "\<dots> \<longleftrightarrow> n = 0"
      proof -
        have "unat (of_nat n :: u32) = n" using Suc.prems(3) by (simp add: unat_of_nat)
        then show ?thesis by (metis unat_eq_zero)
      qed
      finally show ?thesis .
    qed
    have idx: "first_idx slot_free (slots_from s sec (Suc n)) = map_option ((+) 16) (first_idx slot_free (slots_from s (sec + 1) n))"
      using None by (simp add: slots_from_Suc first_idx_append del: first_idx_None)
    show ?thesis
    proof (cases "n = 0")
      case True
      have "file_create_from e sec s = Some (1, ?s)"
        using None one True by (subst file_create_from.simps) (simp add: temp free Let_def del: first_idx_None)
      moreover have "first_idx slot_free (slots_from s sec (Suc n)) = None"
        using idx True by (simp add: slots_from_def)
      ultimately show ?thesis using wf' by (intro exI [of _ ?s]) (simp del: first_idx_None)
    next
      case False
      have onward: "file_create_from e sec s = file_create_from e (sec + 1) ?s"
        using None one False by (subst file_create_from.simps) (simp add: temp free Let_def del: first_idx_None)
      have div: "of_nat ((16 + k) div 16) = (1 + of_nat (k div 16) :: u32)" for k
      proof -
        have "(16 + k) div 16 = Suc (k div 16)" by simp
        then show ?thesis by (simp only: of_nat_Suc)
      qed
      have prems: "0 < n" "n < 2 ^ 32" "sec + 1 + of_nat n = data_region (disk_info s)"
        using False Suc.prems(3,4) by (simp_all add: add.assoc)
      obtain s1 where s1: "cache_only ?s s1" "fs_wf s1"
        "case first_idx slot_free (slots_from s (sec + 1) n) of
           None \<Rightarrow> file_create_from e (sec + 1) ?s = Some (1, s1)
         | Some k \<Rightarrow> current_cache_sector s1 = sec + 1 + of_nat (k div 16) \<and>
             (\<exists>buf. memcpy (disk_read (sec + 1 + of_nat (k div 16)) s) (32 * (k mod 16)) (entry_bytes e) = Some buf
              \<and> file_create_from e (sec + 1) ?s =
                  Some (0, disk_write buf (sec + 1 + of_nat (k div 16)) (s1\<lparr>temp_sector := buf\<rparr>)))"
        using Suc.IH [of ?s "sec + 1", unfolded slots disk_read_fields(1) read_sector_cached_fields, OF wf' prems] by blast
      then show ?thesis
        unfolding onward idx using cache_only_trans [OF cache_only_read_cached s1(1)]
        by (intro exI [of _ s1]) (cases "first_idx slot_free (slots_from s (sec + 1) n)"; simp add: div add.assoc del: first_idx_None)
    qed
  qed
qed simp

lemma file_create_slots:
  assumes "fs_wf s" "geometry s" "entry_wf e"
  obtains (full) s' where "first_idx slot_free (dir_slots s) = None" "file_create e s = Some (1, s')"
      "cache_only s s'" "fs_wf s'"
    | (created) k s' where "first_idx slot_free (dir_slots s) = Some k" "k < 16 * root_sectors s" "file_create e s = Some (0, s')" "fs_wf s'" "geometry s'"
      "dir_frame s s'" "dir_slots s' = (dir_slots s)[k := entry_bytes e]"
proof -
  let ?root = "root_region (disk_info s)"
  note g = geometryD [OF assms(2)]
  have n: "0 < root_sectors s" "root_sectors s < 2 ^ 32" using g(4,5) by (simp_all add: root_sectors_def)
  obtain s1 where s1: "cache_only s s1" "fs_wf s1"
    "case first_idx slot_free (dir_slots s) of
       None \<Rightarrow> file_create e s = Some (1, s1)
     | Some k \<Rightarrow> current_cache_sector s1 = slot_sector s k \<and>
         (\<exists>buf. memcpy (disk_read (slot_sector s k) s) (32 * (k mod 16)) (entry_bytes e) = Some buf
          \<and> file_create e s = Some (0, disk_write buf (slot_sector s k) (s1\<lparr>temp_sector := buf\<rparr>)))"
    using file_create_from_slots [OF assms(1,3) n root_plus_sectors [OF assms(2)]]
    unfolding file_create_def dir_slots_def slot_sector_def by blast
  show thesis
  proof (cases "first_idx slot_free (dir_slots s)")
    case None
    with s1 show ?thesis using full by simp
  next
    case (Some k)
    then have k: "k < 16 * root_sectors s" using first_idxD [OF Some] by simp
    from s1(3) Some obtain buf where buf: "current_cache_sector s1 = slot_sector s k"
        "memcpy (disk_read (slot_sector s k) s) (32 * (k mod 16)) (entry_bytes e) = Some buf"
        "file_create e s = Some (0, disk_write buf (slot_sector s k) (s1\<lparr>temp_sector := buf\<rparr>))"
      by auto
    have len: "length (entry_bytes e) \<le> 32" "drop (length (entry_bytes e)) (dir_slots s ! k) = []"
      using assms(3) slot_length [OF assms(1) k] by simp_all
    from write_slot [OF assms(1,2) k len(1) s1(1) buf(1,2) refl] len(2) buf(3) Some k
    show ?thesis using created by simp
  qed
qed

section \<open>Enumeration\<close>

lemma live_Cons: "live (slot # slots) = (if slot ! 0 = 0 then [] else if is_file slot then slot # live slots else live slots)"
  by (simp add: live_def)

lemma live_append: "live (xs @ ys) = (if ends xs then live xs else live xs @ live ys)"
  by (induction xs) (auto simp: live_Cons ends_def, simp add: live_def)

lemma ends_simps [simp]: "ends [] = False" "ends (slot # slots) = (slot ! 0 = 0 \<or> ends slots)"
    "ends (xs @ ys) = (ends xs \<or> ends ys)" "live [] = []"
  by (auto simp: ends_def live_def)

lemma count_entries_slots:
  assumes "\<forall>f \<in> set fs. f + 32 \<le> length sec"
  shows "count_entries sec fs n = (ends (map (\<lambda>f. take 32 (drop f sec)) fs),
    n + of_nat (length (live (map (\<lambda>f. take 32 (drop f sec)) fs))))"
  using assms by (induction fs arbitrary: n) (auto simp: live_Cons is_file_def)

lemma sector_before_end:
  assumes "Suc n < 2 ^ 32" "sec + of_nat (Suc n) = (d :: u32)"
  shows "sec \<noteq> d"
proof
  assume "sec = d"
  then have "(of_nat (Suc n) :: u32) = 0" using assms(2) by simp
  moreover have "unat (of_nat (Suc n) :: u32) = Suc n" using assms(1) by (simp add: unat_of_nat del: of_nat_Suc)
  ultimately show False by simp
qed

lemma file_entries_from_slots:
  assumes "fs_wf s" "n < 2 ^ 32" "sec + of_nat n = data_region (disk_info s)"
  shows "\<exists>s'. cache_only s s' \<and> fs_wf s' \<and>
    file_entries_from sec c s = Some (c + of_nat (length (live (slots_from s sec n))), s')"
  using assms
proof (induction n arbitrary: sec c s)
  case 0
  then show ?case
    by (subst file_entries_from.simps, intro exI [of _ s]) (simp add: slots_from_def)
next
  case (Suc n)
  let ?s = "read_sector_cached sec True s" and ?sl = "sector_slots (disk_read sec s)"
  have wf': "fs_wf ?s" using Suc.prems(1) by (rule read_sector_cached_wf)
  have count: "count_entries (temp_sector ?s) offsets c = (ends ?sl, c + of_nat (length (live ?sl)))"
    using count_entries_slots [of offsets "disk_read sec s" c] offsets_bound fs_wf_read_length [OF Suc.prems(1)]
    by (simp add: read_sector_cached_temp [OF Suc.prems(1)] sector_slots_def)
  have ne: "sec \<noteq> data_region (disk_info s)" using Suc.prems(2,3) by (rule sector_before_end)
  have slots: "slots_from ?s t m = slots_from s t m" for t m by (simp add: slots_from_def)
  have prems: "n < 2 ^ 32" "sec + 1 + of_nat n = data_region (disk_info s)"
    using Suc.prems(2,3) by (simp_all add: add.assoc)
  obtain s' where s': "cache_only ?s s'" "fs_wf s'"
    "file_entries_from (sec + 1) (c + of_nat (length (live ?sl))) ?s =
       Some (c + of_nat (length (live ?sl)) + of_nat (length (live (slots_from s (sec + 1) n))), s')"
    using Suc.IH [of ?s "sec + 1" "c + of_nat (length (live ?sl))", unfolded slots read_sector_cached_fields, OF wf' prems] by blast
  show ?case
  proof (cases "ends ?sl")
    case True
    have "file_entries_from sec c s = Some (c + of_nat (length (live ?sl)), ?s)"
      using True ne count by (subst file_entries_from.simps) simp
    with True wf' show ?thesis by (intro exI [of _ ?s]) (simp add: slots_from_Suc live_append)
  next
    case False
    have "file_entries_from sec c s = file_entries_from (sec + 1) (c + of_nat (length (live ?sl))) ?s"
      using False ne count by (subst file_entries_from.simps) simp
    with False s' cache_only_trans [OF cache_only_read_cached s'(1)] show ?thesis
      by (intro exI [of _ s']) (simp add: slots_from_Suc live_append)
  qed
qed

lemma nth_entry_slots:
  assumes "\<forall>f \<in> set fs. f + 32 \<le> length sec" "m \<le> e" "e < 2 ^ 16"
    and "m + length (live (map (\<lambda>f. take 32 (drop f sec)) fs)) < 2 ^ 16"
  shows "if e - m < length (live (map (\<lambda>f. take 32 (drop f sec)) fs))
    then \<exists>f \<in> set fs. fst (nth_entry sec (of_nat e) fs (of_nat m)) = Found f
      \<and> take 32 (drop f sec) = live (map (\<lambda>f. take 32 (drop f sec)) fs) ! (e - m)
    else nth_entry sec (of_nat e) fs (of_nat m) =
      (if ends (map (\<lambda>f. take 32 (drop f sec)) fs) then Missing else More,
       of_nat (m + length (live (map (\<lambda>f. take 32 (drop f sec)) fs))))"
  using assms
proof (induction fs arbitrary: m)
  case (Cons f fs)
  let ?slot = "take 32 (drop f sec)" and ?rest = "map (\<lambda>f. take 32 (drop f sec)) fs"
  have bytes: "sec ! f = ?slot ! 0" "sec ! (f + 11) = ?slot ! 11" using Cons.prems(1) by simp_all
  have bound: "\<forall>f \<in> set fs. f + 32 \<le> length sec" using Cons.prems(1) by simp
  consider (zero) "?slot ! 0 = 0" | (skip) "?slot ! 0 \<noteq> 0" "\<not> is_file ?slot"
    | (here) "is_file ?slot" "e = m" | (later) "is_file ?slot" "e \<noteq> m" by blast
  then show ?case
  proof cases
    case zero
    then show ?thesis by (simp add: bytes live_Cons)
  next
    case skip
    then have step: "nth_entry sec (of_nat e) (f # fs) (of_nat m) = nth_entry sec (of_nat e) fs (of_nat m)"
      by (auto simp: bytes is_file_def)
    have lv: "live (map (\<lambda>f. take 32 (drop f sec)) (f # fs)) = live ?rest"
      and en: "ends (map (\<lambda>f. take 32 (drop f sec)) (f # fs)) = ends ?rest"
      using skip by (simp_all add: live_Cons)
    show ?thesis unfolding step lv en
      using Cons.IH [OF bound Cons.prems(2,3)] Cons.prems(4) unfolding lv by (auto split: if_splits)
  next
    case here
    then show ?thesis by (simp add: bytes is_file_def live_Cons)
  next
    case later
    have ne: "(of_nat m :: u16) \<noteq> of_nat e"
    proof
      assume "(of_nat m :: u16) = of_nat e"
      then have "unat (of_nat m :: u16) = unat (of_nat e :: u16)" by simp
      with Cons.prems(2,3) later(2) show False by (simp add: unat_of_nat)
    qed
    with later have step: "nth_entry sec (of_nat e) (f # fs) (of_nat m) = nth_entry sec (of_nat e) fs (of_nat (Suc m))"
      by (simp add: bytes is_file_def add.commute)
    have lv: "live (map (\<lambda>f. take 32 (drop f sec)) (f # fs)) = ?slot # live ?rest"
      and en: "ends (map (\<lambda>f. take 32 (drop f sec)) (f # fs)) = ends ?rest"
      using later by (simp_all add: live_Cons is_file_def)
    have em: "e - m = Suc (e - Suc m)" "Suc m \<le> e" using Cons.prems(2) later(2) by simp_all
    have "Suc m + length (live ?rest) < 2 ^ 16" using Cons.prems(4) unfolding lv by simp
    from Cons.IH [OF bound em(2) Cons.prems(3) this] show ?thesis
      unfolding step lv en em(1) by (auto split: if_splits)
  qed
qed simp

lemma file_entry_from_slots:
  assumes "fs_wf s" "n < 2 ^ 32" "sec + of_nat n = data_region (disk_info s)" "length buf = 13"
    and "m \<le> e" "e < 2 ^ 16" "m + length (live (slots_from s sec n)) < 2 ^ 16"
  shows "\<exists>s'. cache_only s s' \<and> fs_wf s' \<and>
    (if e - m < length (live (slots_from s sec n))
     then \<exists>buf'. file_entry_from buf (of_nat e) sec (of_nat m) s = Some (0, buf', s') \<and> length buf' = 13 \<and> 0 \<in> set buf'
       \<and> cstr buf' = slot_string (live (slots_from s sec n) ! (e - m))
     else file_entry_from buf (of_nat e) sec (of_nat m) s = Some (E_FILENOTFOUND, buf, s'))"
  using assms(1-3,5-)
proof (induction n arbitrary: sec m s)
  case 0
  then show ?case
    by (subst (1 2) file_entry_from.simps, intro exI [of _ s]) (simp add: slots_from_def)
next
  case (Suc n)
  let ?s = "read_sector_cached sec True s" and ?sl = "sector_slots (disk_read sec s)"
  have wf': "fs_wf ?s" using Suc.prems(1) by (rule read_sector_cached_wf)
  have len: "length (disk_read sec s) = 512" using Suc.prems(1) by (rule fs_wf_read_length)
  have temp: "temp_sector ?s = disk_read sec s" using Suc.prems(1) by (rule read_sector_cached_temp)
  have ne: "sec \<noteq> data_region (disk_info s)" using Suc.prems(2,3) by (rule sector_before_end)
  have lv: "live (slots_from s sec (Suc n)) = (if ends ?sl then live ?sl else live ?sl @ live (slots_from s (sec + 1) n))"
    by (simp add: slots_from_Suc live_append)
  have "m + length (live ?sl) < 2 ^ 16" using Suc.prems(6) by (simp add: lv split: if_splits)
  then have nth: "if e - m < length (live ?sl)
    then \<exists>f \<in> set offsets. fst (nth_entry (disk_read sec s) (of_nat e) offsets (of_nat m)) = Found f
      \<and> take 32 (drop f (disk_read sec s)) = live ?sl ! (e - m)
    else nth_entry (disk_read sec s) (of_nat e) offsets (of_nat m) =
      (if ends ?sl then Missing else More, of_nat (m + length (live ?sl)))"
    using nth_entry_slots [of offsets "disk_read sec s" m e] offsets_bound Suc.prems(4,5) len
    by (simp add: sector_slots_def)
  show ?case
  proof (cases "e - m < length (live ?sl)")
    case True
    then obtain f where f: "f \<in> set offsets" "fst (nth_entry (disk_read sec s) (of_nat e) offsets (of_nat m)) = Found f"
        "take 32 (drop f (disk_read sec s)) = live ?sl ! (e - m)"
      using nth by auto
    have "11 \<le> length (drop f (disk_read sec s))" using offsets_bound [OF f(1)] len by simp
    then obtain buf' where buf': "filesystem_filename buf (drop f (disk_read sec s)) = Some buf'" "length buf' = 13" "0 \<in> set buf'"
        "cstr buf' = slot_string (live ?sl ! (e - m))"
      using filesystem_filename_eq [OF assms(4), of "drop f (disk_read sec s)"] f(3)
        slot_string_take [of "drop f (disk_read sec s)"] by auto
    have "file_entry_from buf (of_nat e) sec (of_nat m) s = Some (0, buf', ?s)"
      using ne f(2) buf'(1) by (subst file_entry_from.simps) (simp add: temp Let_def)
    with True buf' wf' show ?thesis by (intro exI [of _ ?s]) (auto simp: lv nth_append)
  next
    case False
    with nth have r: "nth_entry (disk_read sec s) (of_nat e) offsets (of_nat m) =
      (if ends ?sl then Missing else More, of_nat (m + length (live ?sl)))" by simp
    show ?thesis
    proof (cases "ends ?sl")
      case True
      have "file_entry_from buf (of_nat e) sec (of_nat m) s = Some (E_FILENOTFOUND, buf, ?s)"
        using ne r True by (subst file_entry_from.simps) (simp add: temp Let_def)
      with True False wf' show ?thesis by (intro exI [of _ ?s]) (simp add: lv)
    next
      case more: False
      let ?m = "m + length (live ?sl)"
      have slots: "slots_from ?s t k = slots_from s t k" for t k by (simp add: slots_from_def)
      have onward: "file_entry_from buf (of_nat e) sec (of_nat m) s = file_entry_from buf (of_nat e) (sec + 1) (of_nat ?m) ?s"
        using ne r more by (subst file_entry_from.simps) (simp add: temp Let_def)
      have idx: "(live ?sl @ ys) ! (e - m) = ys ! (e - ?m)" "e - m < length (live ?sl @ ys) \<longleftrightarrow> e - ?m < length ys" for ys
        using False Suc.prems(4) by (auto simp: nth_append)
      have prems: "n < 2 ^ 32" "sec + 1 + of_nat n = data_region (disk_info s)" "?m \<le> e"
        "?m + length (live (slots_from s (sec + 1) n)) < 2 ^ 16"
        using Suc.prems(2,3,4,6) False more by (simp_all add: add.assoc lv)
      obtain s' where s': "cache_only ?s s'" "fs_wf s'"
        "if e - ?m < length (live (slots_from s (sec + 1) n))
         then \<exists>buf'. file_entry_from buf (of_nat e) (sec + 1) (of_nat ?m) ?s = Some (0, buf', s') \<and> length buf' = 13 \<and> 0 \<in> set buf'
           \<and> cstr buf' = slot_string (live (slots_from s (sec + 1) n) ! (e - ?m))
         else file_entry_from buf (of_nat e) (sec + 1) (of_nat ?m) ?s = Some (E_FILENOTFOUND, buf, s')"
        using Suc.IH [of ?s "sec + 1" ?m, unfolded slots read_sector_cached_fields, OF wf' prems(1-3) Suc.prems(5) prems(4)]
        by blast
      with more cache_only_trans [OF cache_only_read_cached s'(1)] show ?thesis
        unfolding onward lv by (intro exI [of _ s']) (simp only: idx if_False simp_thms)
    qed
  qed
qed

text \<open>Both calls on the directory.\<close>

lemma file_entries_ok:
  assumes "fs_wf s" "geometry s"
  obtains s' where "file_entries s = Some (of_nat (length (live (dir_slots s))), s')" "cache_only s s'" "fs_wf s'"
proof -
  have n: "root_sectors s < 2 ^ 32" using geometryD(5) [OF assms(2)] by (simp add: root_sectors_def)
  show thesis
    using file_entries_from_slots [OF assms(1) n root_plus_sectors [OF assms(2)], of 0] that
    unfolding file_entries_def dir_slots_def by auto
qed

lemma file_entry_ok:
  assumes "fs_wf s" "geometry s" "length (live (dir_slots s)) < 2 ^ 16" "length buf = 13" "e < 2 ^ 16"
  shows "\<exists>s'. cache_only s s' \<and> fs_wf s' \<and>
    (if e < length (live (dir_slots s))
     then \<exists>buf'. file_entry buf (of_nat e) s = Some (0, buf', s') \<and> length buf' = 13 \<and> 0 \<in> set buf'
       \<and> cstr buf' = slot_string (live (dir_slots s) ! e)
     else file_entry buf (of_nat e) s = Some (E_FILENOTFOUND, buf, s'))"
proof -
  have n: "root_sectors s < 2 ^ 32" using geometryD(5) [OF assms(2)] by (simp add: root_sectors_def)
  show ?thesis
    using file_entry_from_slots [OF assms(1) n root_plus_sectors [OF assms(2)] assms(4) le0 assms(5)] assms(3)
    unfolding file_entry_def dir_slots_def by (simp only: add_0 minus_nat.diff_0 semiring_1_class.of_nat_0 simp_thms)
qed

text \<open>When no two files have the same name, the search for the name of a file finds that file.\<close>

lemma dir_scan_live:
  assumes "slot \<in> set (live slots)" "inj_on slot_string (set (live slots))"
  shows "\<exists>k. dir_scan (slot_string slot) slots = Found k \<and> slots ! k = slot"
  using assms
proof (induction slots)
  case (Cons a slots)
  then have a: "a ! 0 \<noteq> 0" by (auto simp: live_Cons)
  show ?case
  proof (cases "is_file a \<and> slot_string a = slot_string slot")
    case True
    then have "a = slot" using a Cons.prems by (auto simp: live_Cons dest: inj_onD)
    with True a show ?thesis by (intro exI [of _ 0]) simp
  next
    case False
    then have "slot \<in> set (live slots)" "inj_on slot_string (set (live slots))"
      using a Cons.prems by (auto simp: live_Cons inj_on_def split: if_splits)
    with Cons.IH obtain k where "dir_scan (slot_string slot) slots = Found k" "slots ! k = slot" by blast
    with a False show ?thesis by (intro exI [of _ "Suc k"]) simp
  qed
qed simp

section \<open>An example\<close>

definition hello_entry :: DirectoryEntry_T where
  "hello_entry = \<lparr>de_name = [0x48, 0x45, 0x4c, 0x4c, 0x4f, 0x20, 0x20, 0x20], de_ext = [0x43, 0x20, 0x20],
     attributes = 0, reserved_for_windows_nt = 0, creation_milliseconds = 0, creation_time = 0,
     creation_date = 0x21, last_access_date = 0, reserved_for_fat32 = 0, last_write_time = 0,
     last_write_date = 0, starting_cluster = 2, de_size = 5\<rparr>"

text \<open>\<open>HELLO.C\<close>, NUL-terminated.\<close>

definition hello_name :: bytes where
  "hello_name = [0x48, 0x45, 0x4c, 0x4c, 0x4f, 0x2e, 0x43, 0]"

lemma hello_entry:
  "entry_wf hello_entry" "is_file (entry_bytes hello_entry)" "slot_string (entry_bytes hello_entry) = cstr hello_name"
  "0 \<in> set hello_name"
  by (simp_all add: entry_wf_def hello_entry_def is_file_def entry_bytes_def slot_string_def hello_name_def cstr_def
      put16_def put32_def)

lemma flat_fs_dir: "dir_slots (flat_fs b) = replicate 16 (replicate 32 b)"
proof -
  have "sector_slots (replicate 512 b) = replicate 16 (replicate 32 b)"
  proof (rule nth_equalityI)
    fix i assume "i < length (sector_slots (replicate 512 b))"
    then show "sector_slots (replicate 512 b) ! i = replicate 16 (replicate 32 b) ! i"
      by (simp add: sector_slots_nth)
  qed simp
  then show ?thesis by (simp add: dir_slots_def slots_from_def root_sectors_def flat_fs_def disk_read_def)
qed

lemma flat_fs_wf: "fs_wf (flat_fs b)" "geometry (flat_fs b)"
  by (simp_all add: fs_wf_def geometry_def flat_fs_def disk_read_def)

lemma blank_dir:
  "dir_scan name (dir_slots (flat_fs 0)) = Missing" "first_idx slot_free (dir_slots (flat_fs 0)) = Some 0"
  by (simp_all add: flat_fs_dir replicate_Suc [of 15, simplified] slot_free_def)

text \<open>The blank disk with the file \<open>HELLO.C\<close>.\<close>

lemma hello_fs:
  obtains s where "fs_wf s" "geometry s" "dir_slots s = entry_bytes hello_entry # replicate 15 (replicate 32 0)"
    "dir_scan (cstr hello_name) (dir_slots s) = Found 0" "file_create hello_entry (flat_fs 0) = Some (0, s)"
proof -
  from flat_fs_wf [of 0] hello_entry(1) show thesis
  proof (cases rule: file_create_slots)
    case (full s')
    then show ?thesis using blank_dir(2) by simp
  next
    case (created k s')
    then have "k = 0" using blank_dir(2) by simp
    then have "dir_slots s' = entry_bytes hello_entry # replicate 15 (replicate 32 0)"
      using created(7) by (simp add: flat_fs_dir replicate_Suc [of 15, simplified])
    with created(3-5) show ?thesis using that [of s'] hello_entry(2,3) by (simp add: is_file_def)
  qed
qed

section \<open>Properties\<close>

text \<open>A directory entry survives its encoding: the 32 bytes of an entry decode to the entry.\<close>

theorem directory_entry_roundtrip:
  assumes "entry_wf e"
  shows "length (entry_bytes e) = 32 \<and> bytes_entry (entry_bytes e) = e"
  using assms by (simp add: entry_roundtrip)

lemma directory_entry_roundtrip_witness: "bytes_entry (entry_bytes hello_entry) = hello_entry"
  using directory_entry_roundtrip [OF hello_entry(1)] by simp

text \<open>C26. Looking a file up: if the first file slot with the name before the end of the directory is
  slot \<open>k\<close>, \<open>filesystem_get_directory_entry\<close> returns its entry, and if the end comes first it
  returns \<open>E_FILENOTFOUND\<close>; the disk and the open files do not change.\<close>

theorem get_directory_entry_correct:
  assumes "fs_wf s" "0 \<in> set filename" "dir_scan (cstr filename) (dir_slots s) \<noteq> More"
  shows "\<exists>s'. filesystem_get_directory_entry filename s =
      Some (case dir_scan (cstr filename) (dir_slots s) of
              Found k \<Rightarrow> Inr (bytes_entry (dir_slots s ! k)) | _ \<Rightarrow> Inl E_FILENOTFOUND, s')
    \<and> cache_only s s' \<and> fs_wf s'"
  using get_entry_cases [OF assms] by metis

lemma get_directory_entry_correct_witness:
  "\<exists>s'. filesystem_get_directory_entry hello_name (flat_fs 0) = Some (Inl E_FILENOTFOUND, s')"
  using get_directory_entry_correct [OF flat_fs_wf(1) hello_entry(4), of 0] by (auto simp: blank_dir)

text \<open>What \<open>filesystem_set_directory_entry\<close> writes under a name is what
  \<open>filesystem_get_directory_entry\<close> then reads under it, as long as the new entry is a file with
  that name; the other slots, the FAT and the data region are unchanged.\<close>

theorem set_directory_entry_get:
  assumes "fs_wf s" "geometry s" "0 \<in> set filename" "dir_scan (cstr filename) (dir_slots s) = Found k"
    and "entry_wf e" "is_file (entry_bytes e)" "slot_string (entry_bytes e) = cstr filename"
  shows "\<exists>s1 s2. filesystem_set_directory_entry e filename s = Some (0, s1)
    \<and> filesystem_get_directory_entry filename s1 = Some (Inr e, s2)
    \<and> dir_frame s s1 \<and> dir_slots s1 = (dir_slots s)[k := entry_bytes e]"
proof -
  obtain s1 where s1: "filesystem_set_directory_entry e filename s = Some (0, s1)" "fs_wf s1"
      "dir_frame s s1" "dir_slots s1 = (dir_slots s)[k := entry_bytes e]"
    using set_entry_Found [OF assms(1-5)] by metis
  have k: "k < length (dir_slots s)" "\<forall>j < k. dir_slots s ! j ! 0 \<noteq> 0
      \<and> \<not> (is_file (dir_slots s ! j) \<and> slot_string (dir_slots s ! j) = cstr filename)"
    using assms(4) by (simp_all add: dir_scan_Found)
  then have "dir_scan (cstr filename) (dir_slots s1) = Found k"
    using assms(6,7) by (simp add: dir_scan_Found s1(4))
  then obtain s2 where "filesystem_get_directory_entry filename s1 = Some (Inr (bytes_entry (dir_slots s1 ! k)), s2)"
    using get_entry_cases [OF s1(2) assms(3)] by (metis scan.distinct(3) scan.simps(8))
  moreover have "bytes_entry (dir_slots s1 ! k) = e"
    using k(1) entry_roundtrip [OF assms(5)] by (simp add: s1(4) del: dir_slots_length)
  ultimately show ?thesis using s1 by auto
qed

lemma set_directory_entry_get_witness:
  "\<exists>s s1 s2. filesystem_set_directory_entry hello_entry hello_name s = Some (0, s1)
     \<and> filesystem_get_directory_entry hello_name s1 = Some (Inr hello_entry, s2)"
proof -
  obtain s where s: "fs_wf s" "geometry s" "dir_scan (cstr hello_name) (dir_slots s) = Found 0"
    using hello_fs by metis
  show ?thesis
    using set_directory_entry_get [OF s(1,2) hello_entry(4) s(3) hello_entry(1-3)] by blast
qed

text \<open>C27. A file can be found once its entry has been created: for a name that the directory does not have yet,
  \<open>file_create\<close> takes the first unused
  slot of the directory and changes no other; a lookup by the name of the new entry then finds it.
  When every slot is in use it returns 1 and writes nothing.\<close>

theorem file_create_get:
  assumes "fs_wf s" "geometry s" "0 \<in> set filename" "\<forall>k. dir_scan (cstr filename) (dir_slots s) \<noteq> Found k"
    and "entry_wf e" "is_file (entry_bytes e)" "slot_string (entry_bytes e) = cstr filename"
  shows "case first_idx slot_free (dir_slots s) of
      None \<Rightarrow> \<exists>s1. file_create e s = Some (1, s1) \<and> disk s1 = disk s
    | Some k \<Rightarrow> \<exists>s1 s2. file_create e s = Some (0, s1) \<and> dir_frame s s1
        \<and> dir_slots s1 = (dir_slots s)[k := entry_bytes e]
        \<and> filesystem_get_directory_entry filename s1 = Some (Inr e, s2)"
  using assms(1,2,5)
proof (cases rule: file_create_slots)
  case (full s')
  then show ?thesis by (auto simp: cache_only_def simp del: first_idx_None)
next
  case (created k s')
  have k: "k < length (dir_slots s)" using first_idxD [OF created(1)] by simp
  have "dir_scan (cstr filename) (dir_slots s') = Found k"
    unfolding created(7) by (rule dir_scan_created [OF created(1) assms(4,6,7)])
  then obtain s2 where "filesystem_get_directory_entry filename s' = Some (Inr (bytes_entry (dir_slots s' ! k)), s2)"
    using get_entry_cases [OF created(4) assms(3)] by (metis scan.distinct(3) scan.simps(8))
  moreover have "bytes_entry (dir_slots s' ! k) = e"
    using k(1) entry_roundtrip [OF assms(5)] by (simp add: created(7) del: dir_slots_length)
  ultimately show ?thesis using created by auto
qed

lemma file_create_get_witness:
  "\<exists>s1 s2. file_create hello_entry (flat_fs 0) = Some (0, s1)
     \<and> filesystem_get_directory_entry hello_name s1 = Some (Inr hello_entry, s2)"
  using file_create_get [OF flat_fs_wf [of 0] hello_entry(4) _ hello_entry(1-3)] by (auto simp: blank_dir)

text \<open>C28. Listing the directory: \<open>file_entries\<close> returns the number of files before the end of the
  directory, and \<open>file_entry\<close> number \<open>e\<close> gives the name of the \<open>e\<close>-th of them, or
  \<open>E_FILENOTFOUND\<close> with the caller's buffer unchanged when there are not that many.\<close>

theorem directory_listing:
  assumes "fs_wf s" "geometry s" "length (live (dir_slots s)) < 2 ^ 16" "length buf = 13"
  shows "(\<exists>s'. file_entries s = Some (of_nat (length (live (dir_slots s))), s') \<and> cache_only s s')
    \<and> (\<forall>e < 2 ^ 16. \<exists>buf' s'. cache_only s s' \<and>
        (if e < length (live (dir_slots s))
         then file_entry buf (of_nat e) s = Some (0, buf', s') \<and> cstr buf' = slot_string (live (dir_slots s) ! e)
         else file_entry buf (of_nat e) s = Some (E_FILENOTFOUND, buf, s')))"
proof -
  obtain s' where "file_entries s = Some (of_nat (length (live (dir_slots s))), s')" "cache_only s s'"
    using file_entries_ok [OF assms(1,2)] .
  moreover have "\<exists>buf' s'. cache_only s s' \<and>
        (if e < length (live (dir_slots s))
         then file_entry buf (of_nat e) s = Some (0, buf', s') \<and> cstr buf' = slot_string (live (dir_slots s) ! e)
         else file_entry buf (of_nat e) s = Some (E_FILENOTFOUND, buf, s'))" if e: "e < 2 ^ 16" for e
    using file_entry_ok [OF assms e] by (auto split: if_splits)
  ultimately show ?thesis by blast
qed

lemma directory_listing_witness:
  "\<exists>s buf'. fst (the (file_entries s)) = 1 \<and> fst (the (file_entry (replicate 13 0) 0 s)) = 0
     \<and> fst (snd (the (file_entry (replicate 13 0) 0 s))) = buf' \<and> cstr buf' = cstr hello_name"
proof -
  obtain s where s: "fs_wf s" "geometry s" "dir_slots s = entry_bytes hello_entry # replicate 15 (replicate 32 0)"
    using hello_fs by metis
  have "live (dir_slots s) = [entry_bytes hello_entry]"
    using hello_entry(2) by (simp add: s(3) live_def is_file_def replicate_Suc [of 14, simplified])
  with directory_listing [OF s(1,2), of "replicate 13 0"] hello_entry(3) show ?thesis
    by (intro exI [of _ s]) (auto dest!: spec [of _ 0])
qed

text \<open>The search does not stop at the end of the directory region: when all the root directory's
  slots are in use and none has the name, it goes on through the sectors of the data region as if
  they held directory entries (\<open>file_create\<close>, \<open>file_entries\<close> and \<open>file_entry\<close> do stop there).\<close>

theorem directory_search_leaves_directory:
  assumes "fs_wf s" "geometry s" "0 \<in> set filename" "dir_scan (cstr filename) (dir_slots s) = More"
  shows "\<exists>s'. cache_only s s' \<and> directory_find filename (root_region (disk_info s)) s =
    directory_find filename (data_region (disk_info s)) s'"
  using directory_find_slots [OF assms(1,3), of "root_region (disk_info s)" "root_sectors s"] assms(4)
    root_plus_sectors [OF assms(2)] by (auto simp: dir_slots_def)

lemma directory_search_leaves_directory_witness:
  "\<exists>s'. directory_find hello_name 2 (flat_fs 1) = directory_find hello_name 3 s'"
proof -
  have "slot_string (replicate 32 1) = replicate 8 1 @ 0x2e # replicate 3 1"
    by (simp add: slot_string_def cstr_def takeWhile_append)
  then have "hd (slot_string (replicate 32 1)) = 1" by simp
  moreover have "hd (cstr hello_name) = 0x48" by (simp add: hello_name_def cstr_def)
  ultimately have "slot_string (replicate 32 1) \<noteq> cstr hello_name" by force
  then have "dir_scan (cstr hello_name) (replicate n (replicate 32 1)) = More" for n
    by (induction n) simp_all
  then have "dir_scan (cstr hello_name) (dir_slots (flat_fs 1)) = More" by (simp only: flat_fs_dir)
  from directory_search_leaves_directory [OF flat_fs_wf hello_entry(4) this] show ?thesis
    by (auto simp: flat_fs_def)
qed

end
