(* ===== verification/File_Operations.thy ===== *)
theory File_Operations
  imports File_Allocation Directory_Properties
begin

text \<open>
  The file operations of \<open>kernel/file.c\<close>: opening, creating, closing and deleting a file, reading
  and writing it, and the information system call. A \<open>FileDescriptor_T *\<close> is an index into
  \<open>fdtable\<close>. Functions that fill a caller's buffer return the bytes they store; functions that
  take one get its bytes as an argument.
\<close>

abbreviation (input) KERNEL_EOF :: int where "KERNEL_EOF \<equiv> -1"
abbreviation (input) FD_FLAGS_CLAIMED :: u8 where "FD_FLAGS_CLAIMED \<equiv> 1"
abbreviation (input) FMODE_READ :: u8 where "FMODE_READ \<equiv> 1"
abbreviation (input) FMODE_WRITE :: u8 where "FMODE_WRITE \<equiv> 2"

record FINFO =
  fi_attr :: u8
  fi_size :: u32
  created_year :: u16
  created_month :: u8
  created_day :: u8

section \<open>Descriptors\<close>

definition fd_at :: "int \<Rightarrow> fs \<Rightarrow> FileDescriptor_T option" where
  "fd_at fd s = (if 0 \<le> fd then rd (fdtable s) (nat fd) else None)"

definition fd_update :: "int \<Rightarrow> (FileDescriptor_T \<Rightarrow> FileDescriptor_T) \<Rightarrow> fs \<Rightarrow> fs option" where
  "fd_update fd g s =
     (case fd_at fd s of None \<Rightarrow> None | Some f \<Rightarrow> Some (s\<lparr>fdtable := (fdtable s)[nat fd := g f]\<rparr>))"

definition filesystem_assign_fd :: "fs \<Rightarrow> int" where
  "filesystem_assign_fd s = c_index E_FILELIMIT (first_idx (\<lambda>f. flags f AND FD_FLAGS_CLAIMED = 0) (fdtable s))"

definition unclaim :: "FileDescriptor_T \<Rightarrow> FileDescriptor_T" where
  "unclaim f = f\<lparr>flags := flags f AND NOT FD_FLAGS_CLAIMED\<rparr>"

definition strcpy :: "bytes \<Rightarrow> bytes \<Rightarrow> bytes option" where
  "strcpy dst src = (if 0 \<in> set src then memcpy dst 0 (cstr src @ [0]) else None)"

section \<open>Opening, creating, closing, deleting\<close>

text \<open>The assignments at the end of \<open>file_open_read\<close> and of \<open>file_open_write\<close>.\<close>

definition fd_start :: "DirectoryEntry_T \<Rightarrow> u8 \<Rightarrow> FileDescriptor_T \<Rightarrow> FileDescriptor_T" where
  "fd_start entry m f =
     f\<lparr>fsize := de_size entry, start_cluster := starting_cluster entry,
       current_cluster := starting_cluster entry, sector := 0, fpos_within_sector := 0, fpos := 0, mode := m\<rparr>"

definition file_open_read :: "int \<Rightarrow> fs \<Rightarrow> (int \<times> fs) option" where
  "file_open_read file s =
     do {
       f \<leftarrow> fd_at file s;
       (r, s1) \<leftarrow> filesystem_get_directory_entry (fd_name f) s;
       case r of
         Inl error \<Rightarrow> Some (error, s1)
       | Inr entry \<Rightarrow> do { s2 \<leftarrow> fd_update file (fd_start entry FMODE_READ) s1; Some (0, s2) }
     }"

text \<open>The directory entry \<open>file_open_write\<close> builds for the string \<open>name\<close>, \<open>None\<close> when there is no
  dot. A name field longer than 8 characters spills into the extension, which is then overwritten,
  and a long extension into fields that are assigned afterwards.\<close>

definition new_entry :: "bytes \<Rightarrow> u16 \<Rightarrow> DirectoryEntry_T option" where
  "new_entry name cluster =
     (case first_idx (\<lambda>c. c = 0x2e) name of
        None \<Rightarrow> None
      | Some i \<Rightarrow> Some
          \<lparr>de_name = take 8 (take i name @ replicate 8 0x20),
           de_ext = take 3 (drop (i + 1) name @ replicate 3 0x20),
           attributes = 0, reserved_for_windows_nt = 0, creation_milliseconds = 0, creation_time = 0,
           creation_date = 0x21, last_access_date = 0, reserved_for_fat32 = 0, last_write_time = 0,
           last_write_date = 0, starting_cluster = cluster, de_size = 0\<rparr>)"

definition file_open_write :: "int \<Rightarrow> fs \<Rightarrow> (int \<times> fs) option" where
  "file_open_write file s =
     do {
       f \<leftarrow> fd_at file s;
       (r, s1) \<leftarrow> filesystem_get_directory_entry (fd_name f) s;
       if r \<noteq> Inl E_FILENOTFOUND then Some (E_FILEEXIST, s1)
       else do {
         (cluster, s2) \<leftarrow> fat_allocate_start_cluster s1;
         if cluster = 0 then Some (E_DISKFULL, s2)
         else case new_entry (cstr (fd_name f)) cluster of
           None \<Rightarrow> Some (E_INVALIDFILENAME, s2)
         | Some entry \<Rightarrow> do {
             (full, s3) \<leftarrow> file_create entry s2;
             if full \<noteq> 0 then Some (E_DIRFULL, s3)
             else do { s4 \<leftarrow> fd_update file (fd_start entry FMODE_WRITE) s3; Some (0, s4) }
           }
       }
     }"

definition file_open :: "bytes \<Rightarrow> u8 \<Rightarrow> fs \<Rightarrow> (int \<times> fs) option" where
  "file_open filename m s =
     do {
       upper_name \<leftarrow> filename_upper filename;
       let fd = filesystem_assign_fd s;
       if fd < 0 then Some (fd, s)
       else do {
         f \<leftarrow> fd_at fd s;
         name \<leftarrow> strcpy (fd_name f) upper_name;
         s1 \<leftarrow> fd_update fd (\<lambda>f. f\<lparr>fd_name := name\<rparr>) s;
         if m \<noteq> FMODE_READ \<and> m \<noteq> FMODE_WRITE then Some (E_INVALIDMODE, s1)
         else do {
           (error, s2) \<leftarrow> (if m = FMODE_READ then file_open_read fd s1 else file_open_write fd s1);
           if error < 0 then do { s3 \<leftarrow> fd_update fd unclaim s2; Some (error, s3) }
           else Some (fd, s2)
         }
       }
     }"

definition file_close :: "int \<Rightarrow> fs \<Rightarrow> fs option" where
  "file_close fd s =
     do {
       f \<leftarrow> fd_at fd s;
       s3 \<leftarrow> (if mode f = FMODE_WRITE then do {
                (r, s1) \<leftarrow> filesystem_get_directory_entry (fd_name f) s;
                let found = (case r of Inl e \<Rightarrow> close_entry s1 | Inr entry \<Rightarrow> entry);
                let entry = found\<lparr>de_size := fsize f\<rparr>;
                (e, s2) \<leftarrow> filesystem_set_directory_entry entry (fd_name f) (s1\<lparr>close_entry := entry\<rparr>);
                Some s2
              } else Some s);
       fd_update fd unclaim s3
     }"

definition file_new :: "bytes \<Rightarrow> fs \<Rightarrow> (int \<times> fs) option" where
  "file_new filename s =
     do {
       upper_name \<leftarrow> filename_upper filename;
       let fd = filesystem_assign_fd s;
       if fd < 0 then Some (fd, s)
       else do {
         f \<leftarrow> fd_at fd s;
         name \<leftarrow> strcpy (fd_name f) upper_name;
         s1 \<leftarrow> fd_update fd (\<lambda>f. f\<lparr>fd_name := name\<rparr>) s;
         (error, s2) \<leftarrow> file_open_write fd s1;
         s3 \<leftarrow> fd_update fd unclaim s2;
         Some (error, s3)
       }
     }"

definition file_delete :: "bytes \<Rightarrow> fs \<Rightarrow> (int \<times> fs) option" where
  "file_delete filename s =
     do {
       upper_name \<leftarrow> filename_upper filename;
       (r, s1) \<leftarrow> filesystem_get_directory_entry upper_name s;
       case r of
         Inl error \<Rightarrow> Some (error, s1)
       | Inr direntry \<Rightarrow> do {
           s2 \<leftarrow> free_clusters (starting_cluster direntry) s1;
           filesystem_mark_directory_entry_free upper_name s2
         }
     }"

definition file_info :: "bytes \<Rightarrow> fs \<Rightarrow> ((int + FINFO) \<times> fs) option" where
  "file_info filename s =
     do {
       upper_name \<leftarrow> filename_upper filename;
       (r, s1) \<leftarrow> filesystem_get_directory_entry upper_name s;
       case r of
         Inl error \<Rightarrow> Some (Inl error, s1)
       | Inr direntry \<Rightarrow> Some (Inr
           \<lparr>fi_attr = attributes direntry, fi_size = de_size direntry,
            created_year = 1980 + drop_bit 9 (creation_date direntry),
            created_month = ucast (drop_bit 5 (creation_date direntry) AND 0x000f),
            created_day = ucast (creation_date direntry AND 0x001f)\<rparr>, s1)
     }"

section \<open>Reading\<close>

text \<open>The current sector of an open file.\<close>

definition file_sector :: "FileDescriptor_T \<Rightarrow> fs \<Rightarrow> u32" where
  "file_sector f s = file_start_sector (current_cluster f) s + ucast (sector f)"

text \<open>\<open>file->sector++\<close> at the end of a sector, going on to the next cluster after the last sector.\<close>

definition next_sector :: "int \<Rightarrow> fs \<Rightarrow> fs option" where
  "next_sector fd s =
     do {
       s1 \<leftarrow> fd_update fd (\<lambda>f. f\<lparr>sector := sector f + 1\<rparr>) s;
       f \<leftarrow> fd_at fd s1;
       if sector f = sectors_per_cluster (disk_info s1) then do {
         (c, s2) \<leftarrow> fat_next_cluster (current_cluster f) s1;
         fd_update fd (\<lambda>f. f\<lparr>current_cluster := c, sector := 0\<rparr>) s2
       } else Some s1
     }"

definition file_readbyte :: "int \<Rightarrow> fs \<Rightarrow> (int \<times> fs) option" where
  "file_readbyte fd s =
     do {
       f \<leftarrow> fd_at fd s;
       if fpos f = fsize f then Some (KERNEL_EOF, s)
       else if current_cluster f = CLUSTER_EOF then Some (KERNEL_EOF, s)
       else do {
         let s1 = read_sector_cached (file_sector f s) False s;
         byte \<leftarrow> rd (temp_sector s1) (unat (fpos_within_sector f));
         s2 \<leftarrow> fd_update fd (\<lambda>f. f\<lparr>fpos := fpos f + 1, fpos_within_sector := fpos_within_sector f + 1\<rparr>) s1;
         s4 \<leftarrow> (if fpos_within_sector f + 1 = bytes_per_sector (disk_info s2) then do {
                  s3 \<leftarrow> fd_update fd (\<lambda>f. f\<lparr>fpos_within_sector := 0\<rparr>) s2;
                  next_sector fd s3
                } else Some s2);
         Some (int (unat byte), s4)
       }
     }"

text \<open>\<open>file_readsector(ptr, fd)\<close>: 0 and the 512 bytes stored at \<open>ptr\<close>, or EOF.\<close>

definition file_readsector :: "int \<Rightarrow> fs \<Rightarrow> (int \<times> bytes \<times> fs) option" where
  "file_readsector fd s =
     do {
       f \<leftarrow> fd_at fd s;
       if fpos f = fsize f then Some (KERNEL_EOF, [], s)
       else if current_cluster f = CLUSTER_EOF then Some (KERNEL_EOF, [], s)
       else do {
         let buf = disk_read (file_sector f s) s;
         s1 \<leftarrow> fd_update fd (\<lambda>f. f\<lparr>fpos := fpos f + ucast (bytes_per_sector (disk_info s))\<rparr>) s;
         s2 \<leftarrow> next_sector fd s1;
         Some (0, buf, s2)
       }
     }"

text \<open>The three loops of \<open>file_read\<close>: bytes up to the sector boundary, whole sectors, and the last
  bytes. The first component of the result says that the function returns.\<close>

partial_function (option) read_head :: "int \<Rightarrow> u16 \<Rightarrow> bytes \<Rightarrow> fs \<Rightarrow> (bool \<times> u16 \<times> bytes \<times> fs) option" where
  "read_head fd n acc s =
     do {
       f \<leftarrow> fd_at fd s;
       if fpos_within_sector f = 0 then Some (False, n, acc, s)
       else do {
         (c, s1) \<leftarrow> file_readbyte fd s;
         if c = KERNEL_EOF then Some (True, n, acc, s1)
         else if n - 1 = 0 then Some (True, n - 1, acc @ [of_int c], s1)
         else read_head fd (n - 1) (acc @ [of_int c]) s1
       }
     }"

fun read_sectors :: "nat \<Rightarrow> int \<Rightarrow> u16 \<Rightarrow> bytes \<Rightarrow> fs \<Rightarrow> (bool \<times> u16 \<times> bytes \<times> fs) option" where
  "read_sectors 0 fd n acc s = Some (False, n, acc, s)"
| "read_sectors (Suc k) fd n acc s =
     do {
       (c, buf, s1) \<leftarrow> file_readsector fd s;
       if c = KERNEL_EOF then Some (True, n, acc, s1)
       else read_sectors k fd (n - bytes_per_sector (disk_info s1)) (acc @ take (unat (bytes_per_sector (disk_info s1))) buf) s1
     }"

fun read_tail :: "nat \<Rightarrow> int \<Rightarrow> bytes \<Rightarrow> fs \<Rightarrow> (bytes \<times> fs) option" where
  "read_tail 0 fd acc s = Some (acc, s)"
| "read_tail (Suc k) fd acc s =
     do {
       (c, s1) \<leftarrow> file_readbyte fd s;
       if c = KERNEL_EOF then Some (acc, s1) else read_tail k fd (acc @ [of_int c]) s1
     }"

definition read_loops :: "int \<Rightarrow> u16 \<Rightarrow> bytes \<Rightarrow> fs \<Rightarrow> (bytes \<times> fs) option" where
  "read_loops fd n acc s =
     do {
       (done1, n1, acc1, s1) \<leftarrow> read_head fd n acc s;
       if done1 then Some (acc1, s1)
       else if bytes_per_sector (disk_info s1) = 0 then None
       else do {
         (done2, n2, acc2, s2) \<leftarrow> read_sectors (unat (n1 div bytes_per_sector (disk_info s1))) fd n1 acc1 s1;
         if done2 then Some (acc2, s2)
         else if n2 = 0 then Some (acc2, s2)
         else read_tail (unat n2) fd acc2 s2
       }
     }"

text \<open>\<open>file_read(ptr, n, fd)\<close>: the bytes stored from \<open>ptr\<close> on; the C function returns their number.\<close>

definition file_read :: "u16 \<Rightarrow> u16 \<Rightarrow> int \<Rightarrow> fs \<Rightarrow> (bytes \<times> fs) option" where
  "file_read ptr n fd s =
     (if ptr < 0x6000 then Some ([], s)
      else if fd < 0 \<or> fd \<ge> int FILE_LIMIT then Some ([], s)
      else do {
        f \<leftarrow> fd_at fd s;
        if mode f \<noteq> FMODE_READ then Some ([], s)
        else read_loops fd (if fsize f - fpos f < ucast n then ucast (fsize f - fpos f) else n) [] s
      })"

section \<open>Writing\<close>

text \<open>\<open>file_writesector(ptr, offset, n, fd)\<close> with the \<open>n\<close> bytes at \<open>ptr\<close>; 16-bit \<open>offset + n\<close>.\<close>

definition file_writesector :: "bytes \<Rightarrow> u16 \<Rightarrow> int \<Rightarrow> fs \<Rightarrow> (int \<times> fs) option" where
  "file_writesector data offset fd s =
     (let n = of_nat (length data) :: u16; bps = bytes_per_sector (disk_info s) in
      if offset + n > bps then Some (1, s)
      else do {
        f \<leftarrow> fd_at fd s;
        let sec = file_sector f s;
        let s1 = read_sector_cached sec False s;
        buf \<leftarrow> memcpy (temp_sector s1) (unat offset) data;
        let s2 = disk_write buf sec (s1\<lparr>temp_sector := buf\<rparr>);
        s3 \<leftarrow> fd_update fd (\<lambda>f. f\<lparr>fpos := fpos f + ucast n, fsize := fsize f + ucast n,
                                fpos_within_sector := fpos_within_sector f + n\<rparr>) s2;
        if fpos_within_sector f + n \<noteq> bps then Some (0, s3)
        else do {
          s4 \<leftarrow> fd_update fd (\<lambda>f. f\<lparr>fpos_within_sector := 0, sector := sector f + 1\<rparr>) s3;
          if sector f + 1 \<noteq> sectors_per_cluster (disk_info s4) then Some (0, s4)
          else do {
            (next, s5) \<leftarrow> fat_next_cluster (current_cluster f) s4;
            (next_cluster, s6) \<leftarrow>
              (if next = CLUSTER_EOF then fat_allocate_cluster (current_cluster f) s5 else Some (next, s5));
            if next = CLUSTER_EOF \<and> next_cluster = 0 then Some (E_DISKFULL, s6)
            else do {
              s7 \<leftarrow> fd_update fd (\<lambda>f. f\<lparr>current_cluster := next_cluster, sector := 0\<rparr>) s6;
              Some (0, s7)
            }
          }
        }
      })"

text \<open>The whole sectors of \<open>file_write\<close>; \<open>None\<close> in the first component when one fails.\<close>

fun write_sectors :: "nat \<Rightarrow> bytes \<Rightarrow> int \<Rightarrow> fs \<Rightarrow> (bytes option \<times> fs) option" where
  "write_sectors 0 data fd s = Some (Some data, s)"
| "write_sectors (Suc k) data fd s =
     (let bps = unat (bytes_per_sector (disk_info s)) in
      do {
        (e, s1) \<leftarrow> file_writesector (take bps data) 0 fd s;
        if e \<noteq> 0 then Some (None, s1) else write_sectors k (drop bps data) fd s1
      })"

definition file_write :: "bytes \<Rightarrow> int \<Rightarrow> fs \<Rightarrow> (u16 \<times> fs) option" where
  "file_write data fd s =
     (if fd < 0 \<or> fd \<ge> int FILE_LIMIT then Some (0, s)
      else do {
        f \<leftarrow> fd_at fd s;
        if mode f \<noteq> FMODE_WRITE then Some (0, s)
        else do {
          let bps = bytes_per_sector (disk_info s);
          let limit = bps - fpos_within_sector f;
          let partial = (if fpos_within_sector f = 0 then 0
                         else if (of_nat (length data) :: u16) < limit then of_nat (length data) else limit);
          (e, s1) \<leftarrow> (if fpos_within_sector f = 0 then Some (0, s)
                      else file_writesector (take (unat partial) data) (fpos_within_sector f) fd s);
          let rest = drop (unat partial) data;
          if e \<noteq> 0 then Some (0, s1)
          else if rest = [] then Some (partial, s1)
          else if bps = 0 then None
          else do {
            (r, s2) \<leftarrow> write_sectors (unat ((of_nat (length rest) :: u16) div bps)) rest fd s1;
            case r of
              None \<Rightarrow> Some (0, s2)
            | Some final \<Rightarrow>
                if final = [] then Some (of_nat (length data), s2)
                else do {
                  (e', s3) \<leftarrow> file_writesector final 0 fd s2;
                  Some (of_nat (length data), s3)
                }
          }
        }
      })"

end
