(* ===== verification/File_Reading.thy ===== *)
theory File_Reading
  imports File_Operations
begin

text \<open>
  Reading a file returns its contents. The contents are the sectors of the clusters of its chain,
  one after the other; \<open>open_at\<close> says that a descriptor stands at a byte position of such a chain.
  Every reading function is shown to return the bytes at the position and to move it, across
  sector and cluster boundaries.
\<close>

section \<open>Descriptors\<close>

definition set_fd :: "int \<Rightarrow> FileDescriptor_T \<Rightarrow> fs \<Rightarrow> fs" where
  "set_fd fd f s = s\<lparr>fdtable := (fdtable s)[nat fd := f]\<rparr>"

lemma fd_update_eq: "fd_at fd s = Some f \<Longrightarrow> fd_update fd g s = Some (set_fd fd (g f) s)"
  by (simp add: fd_update_def set_fd_def)

lemma fd_at_set_fd: "fd_at fd s = Some f \<Longrightarrow> fd_at fd (set_fd fd f' s) = Some f'"
  by (auto simp: fd_at_def set_fd_def rd_def split: if_splits)

lemma set_fd_fields [simp]:
  "disk (set_fd fd f s) = disk s" "disk_info (set_fd fd f s) = disk_info s"
  "temp_sector (set_fd fd f s) = temp_sector s" "close_entry (set_fd fd f s) = close_entry s"
  "current_cache_sector (set_fd fd f s) = current_cache_sector s"
  "disk_read sec (set_fd fd f s) = disk_read sec s"
  "fs_wf (set_fd fd f s) = fs_wf s"
  "fat_at (set_fd fd f s) = fat_at s"
  "fat_ok (set_fd fd f s) = fat_ok s"
  "geometry (set_fd fd f s) = geometry s"
  "dir_slots (set_fd fd f s) = dir_slots s"
  by (simp_all add: set_fd_def fun_eq_iff fat_at_def fat_ok_def geometry_def dir_slots_def slots_from_def root_sectors_def)

lemma fd_at_read_cached [simp]: "fd_at fd (read_sector_cached sec force s) = fd_at fd s"
  by (simp add: fd_at_def)

lemma fd_at_cong: "fdtable s' = fdtable s \<Longrightarrow> fd_at fd s' = fd_at fd s"
  by (simp add: fd_at_def)

text \<open>Only descriptors and the cache change.\<close>

definition same_disk :: "fs \<Rightarrow> fs \<Rightarrow> bool" where
  "same_disk s s' \<longleftrightarrow> disk s' = disk s \<and> disk_info s' = disk_info s"

lemma same_disk_refl: "same_disk s s" and same_disk_trans: "same_disk s s' \<Longrightarrow> same_disk s' s'' \<Longrightarrow> same_disk s s''"
  by (simp_all add: same_disk_def)

lemma same_diskD:
  assumes "same_disk s s'"
  shows "disk_read sec s' = disk_read sec s" "fat_at s' = fat_at s" "disk_info s' = disk_info s"
    "file_start_sector c s' = file_start_sector c s"
  using assms by (simp_all add: same_disk_def disk_read_def fat_at_def fun_eq_iff file_start_sector_def)

section \<open>The contents of a chain\<close>

definition spc :: "fs \<Rightarrow> nat" where "spc s = unat (sectors_per_cluster (disk_info s))"

definition sectors_of :: "fs \<Rightarrow> u16 list \<Rightarrow> u32 list" where
  "sectors_of s cs = concat (map (\<lambda>c. map (\<lambda>j. file_start_sector c s + of_nat j) [0..<spc s]) cs)"

definition file_data :: "fs \<Rightarrow> u16 list \<Rightarrow> bytes" where
  "file_data s cs = concat (map (\<lambda>sec. disk_read sec s) (sectors_of s cs))"

lemma sectors_of_length [simp]: "length (sectors_of s cs) = spc s * length cs"
  unfolding sectors_of_def by (subst length_concat_uniform [where m = "spc s"]) auto

lemma sectors_of_nth:
  assumes "q < spc s * length cs"
  shows "sectors_of s cs ! q = file_start_sector (cs ! (q div spc s)) s + of_nat (q mod spc s)"
proof -
  have pos: "0 < spc s" using assms by (auto intro: gr0I)
  have "q div spc s < length cs" using assms by (simp add: less_mult_imp_div_less mult.commute)
  with pos assms show ?thesis
    unfolding sectors_of_def by (subst nth_concat_uniform [where m = "spc s"]) auto
qed

lemma file_data_length: "fs_wf s \<Longrightarrow> length (file_data s cs) = 512 * (spc s * length cs)"
  unfolding file_data_def
  by (subst length_concat_uniform [where m = 512]) (auto simp: fs_wf_read_length)

lemma file_data_nth:
  assumes "fs_wf s" "p < 512 * (spc s * length cs)"
  shows "file_data s cs ! p = disk_read (sectors_of s cs ! (p div 512)) s ! (p mod 512)"
proof -
  have "p div 512 < spc s * length cs" using assms(2) by (simp add: less_mult_imp_div_less mult.commute)
  then show ?thesis
    unfolding file_data_def using assms
    by (subst nth_concat_uniform [where m = 512]) (auto simp: fs_wf_read_length)
qed

lemma file_data_block:
  assumes "fs_wf s" "q < spc s * length cs"
  shows "take 512 (drop (512 * q) (file_data s cs)) = disk_read (sectors_of s cs ! q) s"
proof (rule nth_equalityI)
  have "512 * q + 512 \<le> length (file_data s cs)" using assms by (simp add: file_data_length)
  then show "length (take 512 (drop (512 * q) (file_data s cs))) = length (disk_read (sectors_of s cs ! q) s)"
    by (simp add: fs_wf_read_length [OF assms(1)])
  fix i assume "i < length (take 512 (drop (512 * q) (file_data s cs)))"
  then have i: "i < 512" "512 * q + i < 512 * (spc s * length cs)"
    using assms by (simp_all add: file_data_length)
  then show "take 512 (drop (512 * q) (file_data s cs)) ! i = disk_read (sectors_of s cs ! q) s ! i"
    using file_data_nth [OF assms(1) i(2)] by (simp add: file_data_length [OF assms(1)])
qed

lemma same_disk_data:
  "same_disk s s' \<Longrightarrow> spc s' = spc s"
  "same_disk s s' \<Longrightarrow> sectors_of s' cs = sectors_of s cs"
  "same_disk s s' \<Longrightarrow> file_data s' cs = file_data s cs"
proof -
  assume *: "same_disk s s'"
  then show spc: "spc s' = spc s" by (simp add: spc_def same_disk_def)
  show sec: "sectors_of s' cs = sectors_of s cs" by (simp add: sectors_of_def spc same_diskD(4) [OF *])
  show "file_data s' cs = file_data s cs" by (simp add: file_data_def sec same_diskD(1) [OF *])
qed

lemma is_chain_nth:
  "is_chain nxt c cs \<Longrightarrow> i < length cs \<Longrightarrow> nxt (cs ! i) = (cs @ [CLUSTER_EOF]) ! Suc i \<and> cs ! i \<noteq> CLUSTER_EOF"
proof (induction cs arbitrary: c i)
  case (Cons d ds)
  then show ?case by (cases i; cases ds) (auto simp: nth_append)
qed simp

section \<open>Positions\<close>

text \<open>The descriptor of a file of size \<open>z\<close> at byte \<open>p\<close> of the chain \<open>cs\<close>.\<close>

definition pos_ok :: "fs \<Rightarrow> u16 list \<Rightarrow> nat \<Rightarrow> FileDescriptor_T \<Rightarrow> bool" where
  "pos_ok s cs p f \<longleftrightarrow> p \<le> 512 * (spc s * length cs)
     \<and> unat (fpos_within_sector f) = p mod 512 \<and> unat (sector f) = p div 512 mod spc s
     \<and> current_cluster f = (cs @ [CLUSTER_EOF]) ! (p div 512 div spc s)"

definition open_at :: "fs \<Rightarrow> int \<Rightarrow> u8 \<Rightarrow> u32 \<Rightarrow> u16 list \<Rightarrow> nat \<Rightarrow> bool" where
  "open_at s fd m z cs p \<longleftrightarrow>
     (\<exists>f. fd_at fd s = Some f \<and> mode f = m \<and> fsize f = z \<and> unat (fpos f) = p \<and> pos_ok s cs p f)"

definition chain_of :: "fs \<Rightarrow> u16 list \<Rightarrow> bool" where
  "chain_of s cs \<longleftrightarrow> (\<exists>c. is_chain (fat_at s) c cs)"

lemma chain_of_same_disk: "same_disk s s' \<Longrightarrow> chain_of s' cs = chain_of s cs"
  by (simp add: chain_of_def same_diskD)

lemma spc_bounds: "fat_ok s \<Longrightarrow> 0 < spc s \<and> spc s < 256"
  using geometryD(2) [of s] unat_u8_less [of "sectors_per_cluster (disk_info s)"]
  by (simp add: fat_ok_def spc_def unat_gt_0)

text \<open>The sector the code reads at a position is the sector of the position.\<close>

lemma file_sector_pos:
  assumes "pos_ok s cs p f" "p < 512 * (spc s * length cs)"
  shows "file_sector f s = sectors_of s cs ! (p div 512)"
    and "current_cluster f = cs ! (p div 512 div spc s)" "p div 512 div spc s < length cs"
proof -
  have q: "p div 512 < spc s * length cs" using assms(2) by (simp add: less_mult_imp_div_less mult.commute)
  then show i: "p div 512 div spc s < length cs" by (simp add: less_mult_imp_div_less mult.commute)
  then show c: "current_cluster f = cs ! (p div 512 div spc s)" using assms(1) by (simp add: pos_ok_def nth_append)
  have "(ucast (sector f) :: u32) = of_nat (p div 512 mod spc s)"
  proof -
    have "(ucast (sector f) :: u32) = of_nat (unat (ucast (sector f) :: u32))" by simp
    also have "unat (ucast (sector f) :: u32) = p div 512 mod spc s"
      using assms(1) by (simp only: unat_u8_u32 pos_ok_def)
    finally show ?thesis .
  qed
  then show "file_sector f s = sectors_of s cs ! (p div 512)"
    using c q by (simp add: file_sector_def sectors_of_nth)
qed

lemma mod_div_Suc:
  assumes "0 < (m::nat)"
  shows "Suc (q mod m) = m \<Longrightarrow> Suc q mod m = 0 \<and> Suc q div m = Suc (q div m)"
    and "Suc (q mod m) \<noteq> m \<Longrightarrow> Suc q mod m = Suc (q mod m) \<and> Suc q div m = q div m"
  using assms by (simp_all add: mod_Suc div_Suc)

text \<open>Going on to the next sector.\<close>

lemma next_sector_pos:
  assumes "fat_ok s" "chain_of s cs" "fd_at fd s = Some f" "q < spc s * length cs"
    and "unat (sector f) = q mod spc s" "current_cluster f = cs ! (q div spc s)"
  obtains s' f' where "next_sector fd s = Some s'" "fat_ok s'" "same_disk s s'" "fd_at fd s' = Some f'"
    "unat (sector f') = Suc q mod spc s" "current_cluster f' = (cs @ [CLUSTER_EOF]) ! (Suc q div spc s)"
    "fpos_within_sector f' = fpos_within_sector f" "fpos f' = fpos f" "fsize f' = fsize f" "mode f' = mode f"
proof -
  note spc = spc_bounds [OF assms(1)]
  have i: "q div spc s < length cs" using assms(4) by (simp add: less_mult_imp_div_less mult.commute)
  have lt: "q mod spc s < spc s" using spc by simp
  have u: "unat (sector f + 1) = Suc (q mod spc s)"
    using assms(5) spc lt by (subst unat_Suc_word) auto
  define f1 where "f1 = f\<lparr>sector := sector f + 1\<rparr>"
  define s1 where "s1 = set_fd fd f1 s"
  have at1: "fd_at fd s1 = Some f1" unfolding s1_def using assms(3) by (rule fd_at_set_fd)
  have upd1: "fd_update fd (\<lambda>f. f\<lparr>sector := sector f + 1\<rparr>) s = Some s1"
    unfolding s1_def f1_def using assms(3) by (rule fd_update_eq)
  have f1: "sector f1 = sector f + 1" "current_cluster f1 = cs ! (q div spc s)" "fpos_within_sector f1 = fpos_within_sector f"
    "fpos f1 = fpos f" "fsize f1 = fsize f" "mode f1 = mode f"
    using assms(6) by (simp_all add: f1_def)
  have s1: "disk_info s1 = disk_info s" "fat_ok s1" "fat_at s1 = fat_at s" "same_disk s s1"
    using assms(1) by (simp_all add: s1_def same_disk_def)
  have full: "sector f + 1 = sectors_per_cluster (disk_info s) \<longleftrightarrow> Suc (q mod spc s) = spc s"
    using u by (simp add: word_unat_eq_iff spc_def)
  have next_c: "fat_at s (cs ! (q div spc s)) = (cs @ [CLUSTER_EOF]) ! Suc (q div spc s)"
    using assms(2) is_chain_nth i by (auto simp: chain_of_def)
  show thesis
  proof (cases "Suc (q mod spc s) = spc s")
    case False
    then have "next_sector fd s = Some s1" using full by (simp add: next_sector_def upd1 at1 f1 s1)
    moreover have "current_cluster f1 = (cs @ [CLUSTER_EOF]) ! (Suc q div spc s)"
      using mod_div_Suc(2) [OF spc [THEN conjunct1] False] i by (simp add: nth_append f1)
    ultimately show thesis
      using that [of s1 f1] s1 at1 u mod_div_Suc(2) [OF spc [THEN conjunct1] False] f1
      by simp
  next
    case True
    define s2 where "s2 = read_sector_cached (fat_sector_of s1 (cs ! (q div spc s))) False s1"
    have fat: "fat_next_cluster (cs ! (q div spc s)) s1 = Some ((cs @ [CLUSTER_EOF]) ! Suc (q div spc s), s2)"
      using fat_next_cluster_eq [OF s1(2)] next_c by (simp add: s1(3) s2_def)
    have s2: "fat_ok s2" "same_disk s1 s2" and at2: "fd_at fd s2 = Some f1"
      using s1(2) at1 by (simp_all add: s2_def fat_ok_read_cached same_disk_def)
    define f3 where "f3 = f1\<lparr>current_cluster := (cs @ [CLUSTER_EOF]) ! Suc (q div spc s), sector := 0\<rparr>"
    have "next_sector fd s = Some (set_fd fd f3 s2)"
      using full [THEN iffD2, OF True]
      by (simp add: next_sector_def upd1 at1 f1(1,2) s1(1) fat fd_update_eq [OF at2] f3_def)
    moreover have "same_disk s (set_fd fd f3 s2)"
      using same_disk_trans [OF s1(4) s2(2)] by (simp add: same_disk_def)
    ultimately show thesis
      using that [of "set_fd fd f3 s2" f3] fd_at_set_fd [OF at2] mod_div_Suc(1) [OF spc [THEN conjunct1] True] s2(1) f1
      by (simp add: f3_def)
  qed
qed

section \<open>One byte, one sector\<close>

lemma open_atE:
  assumes "open_at s fd m z cs p"
  obtains f where "fd_at fd s = Some f" "mode f = m" "fsize f = z" "unat (fpos f) = p" "pos_ok s cs p f"
  using assms by (auto simp: open_at_def)

lemma file_readbyte_eof:
  "open_at s fd m z cs p \<Longrightarrow> p = unat z \<Longrightarrow> file_readbyte fd s = Some (KERNEL_EOF, s)"
  by (auto simp: open_at_def file_readbyte_def word_unat_eq_iff)

lemma pos_cluster:
  assumes "chain_of s cs" "pos_ok s cs p f" "p < 512 * (spc s * length cs)"
  shows "current_cluster f \<noteq> CLUSTER_EOF"
  using assms(1) is_chain_nth file_sector_pos(2,3) [OF assms(2,3)] by (auto simp: chain_of_def)

lemma unat_fpos_Suc:
  assumes "unat (x :: u32) < unat (z :: u32)"
  shows "unat (x + 1) = Suc (unat x)"
  using assms unat_u32_less [of z] by (subst unat_Suc_word) auto

lemma file_readbyte_pos:
  assumes "fat_ok s" "chain_of s cs" "open_at s fd m z cs p" "p < unat z" "p < 512 * (spc s * length cs)"
  obtains s' where "file_readbyte fd s = Some (int (unat (file_data s cs ! p)), s')" "fat_ok s'" "same_disk s s'"
    "open_at s' fd m z cs (Suc p)"
proof -
  have wf: "fs_wf s" and g: "geometry s" using assms(1) by (simp_all add: fat_ok_def)
  from assms(3) obtain f where f: "fd_at fd s = Some f" "mode f = m" "fsize f = z" "unat (fpos f) = p" "pos_ok s cs p f"
    by (rule open_atE)
  note sec = file_sector_pos [OF f(5) assms(5)]
  have neof: "current_cluster f \<noteq> CLUSTER_EOF" by (rule pos_cluster [OF assms(2) f(5) assms(5)])
  have nz: "fpos f \<noteq> fsize f" using f(3,4) assms(4) by auto
  have within: "unat (fpos_within_sector f) = p mod 512" using f(5) by (simp add: pos_ok_def)
  have pm: "p mod 512 < 512" by simp
  have within1: "unat (fpos_within_sector f + 1) = Suc (p mod 512)"
    using within pm by (subst unat_Suc_word) auto
  have fpos1: "unat (fpos f + 1) = Suc p" using f(4) unat_fpos_Suc [of "fpos f" z] assms(4) by simp
  define s1 where "s1 = read_sector_cached (file_sector f s) False s"
  have s1: "fat_ok s1" "same_disk s s1" "fd_at fd s1 = Some f"
    using assms(1) f(1) by (simp_all add: s1_def fat_ok_read_cached same_disk_def)
  have byte: "rd (temp_sector s1) (unat (fpos_within_sector f)) = Some (file_data s cs ! p)"
    using fs_wf_read_length [OF wf] pm
    by (simp add: s1_def read_sector_cached_temp [OF wf] sec(1) rd_def within file_data_nth [OF wf assms(5)])
  define f2 where "f2 = f\<lparr>fpos := fpos f + 1, fpos_within_sector := fpos_within_sector f + 1\<rparr>"
  define s2 where "s2 = set_fd fd f2 s1"
  have upd2: "fd_update fd (\<lambda>f. f\<lparr>fpos := fpos f + 1, fpos_within_sector := fpos_within_sector f + 1\<rparr>) s1 = Some s2"
    unfolding s2_def f2_def using s1(3) by (rule fd_update_eq)
  have s2: "fat_ok s2" "same_disk s s2" and at2: "fd_at fd s2 = Some f2"
    using s1 fd_at_set_fd [OF s1(3)] by (simp_all add: s2_def same_disk_def)
  have bps: "bytes_per_sector (disk_info s2) = 512" using geometryD(1) [OF g] same_diskD(3) [OF s2(2)] by simp
  have full: "fpos_within_sector f + 1 = 512 \<longleftrightarrow> Suc (p mod 512) = 512"
    using within1 by (simp add: word_unat_eq_iff)
  show thesis
  proof (cases "Suc (p mod 512) = 512")
    case False
    note md = mod_div_Suc(2) [of 512 p, OF _ False]
    have "open_at s2 fd m z cs (Suc p)"
      using at2 f fpos1 within1 md assms(5) same_disk_data(1) [OF s2(2)]
      by (auto simp: open_at_def f2_def pos_ok_def)
    moreover have "file_readbyte fd s = Some (int (unat (file_data s cs ! p)), s2)"
      using False full bps
      by (simp add: file_readbyte_def f(1) nz neof s1_def [symmetric] byte upd2)
    ultimately show thesis using that s2 by blast
  next
    case True
    note md = mod_div_Suc(1) [of 512 p, OF _ True]
    define f3 where "f3 = f2\<lparr>fpos_within_sector := 0\<rparr>"
    define s3 where "s3 = set_fd fd f3 s2"
    have upd3: "fd_update fd (\<lambda>f. f\<lparr>fpos_within_sector := 0\<rparr>) s2 = Some s3"
      unfolding s3_def f3_def using at2 by (rule fd_update_eq)
    have s3: "fat_ok s3" "same_disk s s3" and at3: "fd_at fd s3 = Some f3"
      using s2 fd_at_set_fd [OF at2] by (simp_all add: s3_def same_disk_def)
    have q: "p div 512 < spc s3 * length cs"
      using assms(5) same_disk_data(1) [OF s3(2)] by (simp add: less_mult_imp_div_less mult.commute)
    have pos3: "unat (sector f3) = p div 512 mod spc s3" "current_cluster f3 = cs ! (p div 512 div spc s3)"
      using f(5) sec(2) same_disk_data(1) [OF s3(2)] by (simp_all add: f3_def f2_def pos_ok_def)
    have chain3: "chain_of s3 cs" using assms(2) chain_of_same_disk [OF s3(2)] by simp
    obtain s4 f4 where s4: "next_sector fd s3 = Some s4" "fat_ok s4" "same_disk s3 s4" "fd_at fd s4 = Some f4"
      "unat (sector f4) = Suc (p div 512) mod spc s3" "current_cluster f4 = (cs @ [CLUSTER_EOF]) ! (Suc (p div 512) div spc s3)"
      "fpos_within_sector f4 = fpos_within_sector f3" "fpos f4 = fpos f3" "fsize f4 = fsize f3" "mode f4 = mode f3"
      by (rule next_sector_pos [OF s3(1) chain3 at3 q pos3])
    have same: "same_disk s s4" using s3(2) s4(3) by (rule same_disk_trans)
    have "open_at s4 fd m z cs (Suc p)"
      using s4(4-10) f fpos1 md assms(5) same_disk_data(1) [OF same] same_disk_data(1) [OF s3(2)]
      by (auto simp: open_at_def pos_ok_def f3_def f2_def)
    moreover have "file_readbyte fd s = Some (int (unat (file_data s cs ! p)), s4)"
      using full [THEN iffD2, OF True] bps byte
      by (simp add: file_readbyte_def f(1) nz neof s1_def [symmetric] upd2 upd3 s4(1))
    ultimately show thesis using that s4(2) same by blast
  qed
qed

lemma file_readsector_pos:
  assumes "fat_ok s" "chain_of s cs" "open_at s fd m z cs p" "p mod 512 = 0" "p + 512 \<le> unat z" "p < 512 * (spc s * length cs)"
  obtains s' where "file_readsector fd s = Some (0, take 512 (drop p (file_data s cs)), s')" "fat_ok s'" "same_disk s s'"
    "open_at s' fd m z cs (p + 512)"
proof -
  have wf: "fs_wf s" and g: "geometry s" using assms(1) by (simp_all add: fat_ok_def)
  from assms(3) obtain f where f: "fd_at fd s = Some f" "mode f = m" "fsize f = z" "unat (fpos f) = p" "pos_ok s cs p f"
    by (rule open_atE)
  note sec = file_sector_pos [OF f(5) assms(6)]
  have neof: "current_cluster f \<noteq> CLUSTER_EOF" by (rule pos_cluster [OF assms(2) f(5) assms(6)])
  have nz: "fpos f \<noteq> fsize f" using f(3,4) assms(5) by auto
  obtain q where p: "p = 512 * q" using assms(4) by (auto simp: mod_eq_0_iff_dvd elim: dvdE)
  have q: "q < spc s * length cs" using assms(6) p by simp
  have buf: "disk_read (file_sector f s) s = take 512 (drop p (file_data s cs))"
    using file_data_block [OF wf q] sec(1) p by simp
  have fpos1: "unat (fpos f + 512) = p + 512"
    using f(4) assms(5) unat_u32_less [of z] by (subst unat_add_lt) auto
  define f1 where "f1 = f\<lparr>fpos := fpos f + 512\<rparr>"
  define s1 where "s1 = set_fd fd f1 s"
  have bps: "bytes_per_sector (disk_info s) = 512" by (rule geometryD(1) [OF g])
  have upd1: "fd_update fd (\<lambda>f. f\<lparr>fpos := fpos f + 512\<rparr>) s = Some s1"
    unfolding s1_def f1_def using f(1) by (rule fd_update_eq)
  have s1: "fat_ok s1" "same_disk s s1" and at1: "fd_at fd s1 = Some f1"
    using assms(1) fd_at_set_fd [OF f(1)] by (simp_all add: s1_def same_disk_def)
  have q1: "q < spc s1 * length cs" using q same_disk_data(1) [OF s1(2)] by simp
  have pos1: "unat (sector f1) = q mod spc s1" "current_cluster f1 = cs ! (q div spc s1)"
    using f(5) sec(2) same_disk_data(1) [OF s1(2)] p by (simp_all add: f1_def pos_ok_def)
  have chain1: "chain_of s1 cs" using assms(2) chain_of_same_disk [OF s1(2)] by simp
  obtain s2 f2 where s2: "next_sector fd s1 = Some s2" "fat_ok s2" "same_disk s1 s2" "fd_at fd s2 = Some f2"
    "unat (sector f2) = Suc q mod spc s1" "current_cluster f2 = (cs @ [CLUSTER_EOF]) ! (Suc q div spc s1)"
    "fpos_within_sector f2 = fpos_within_sector f1" "fpos f2 = fpos f1" "fsize f2 = fsize f1" "mode f2 = mode f1"
    by (rule next_sector_pos [OF s1(1) chain1 at1 q1 pos1])
  have same: "same_disk s s2" using s1(2) s2(3) by (rule same_disk_trans)
  have "(p + 512) div 512 = Suc q" "(p + 512) mod 512 = 0" "p + 512 \<le> 512 * (spc s * length cs)" using p q by simp_all
  then have "open_at s2 fd m z cs (p + 512)"
    using s2(4-10) f fpos1 p same_disk_data(1) [OF same] same_disk_data(1) [OF s1(2)]
    by (auto simp: open_at_def pos_ok_def f1_def)
  moreover have "file_readsector fd s = Some (0, take 512 (drop p (file_data s cs)), s2)"
    using buf by (simp add: file_readsector_def f(1) nz neof bps upd1 s2(1))
  ultimately show thesis using that s2(2) same by blast
qed

section \<open>The loops of \<open>file_read\<close>\<close>

lemma take_Suc_drop: "p < length xs \<Longrightarrow> take (Suc k) (drop p xs) = xs ! p # take k (drop (Suc p) xs)"
  by (simp add: Cons_nth_drop_Suc [symmetric])

lemma of_nat_u16_pred: "0 < n \<Longrightarrow> (of_nat n :: u16) - 1 = of_nat (n - 1)"
  by (simp add: of_nat_diff)

lemma of_nat_u16_eq0: "n < 2 ^ 16 \<Longrightarrow> (of_nat n :: u16) = 0 \<longleftrightarrow> n = 0"
  using unat_of_nat [of n, where 'a = 16] by (auto simp: word_unat_eq_iff)

lemma uint_not_eof [simp]: "uint (b :: u8) \<noteq> -1"
proof -
  have "0 \<le> uint b" by simp
  then show ?thesis by linarith
qed

text \<open>\<open>k\<close> is what is left of the current sector, at most \<open>n\<close>, and 0 on a sector boundary.\<close>

lemma read_head_pos:
  assumes "fat_ok s" "chain_of s cs" "open_at s fd m z cs p" "0 < n" "n < 2 ^ 16" "p + n \<le> unat z"
    "unat z \<le> 512 * (spc s * length cs)" "k = min n ((512 - p mod 512) mod 512)"
  shows "\<exists>s'. read_head fd (of_nat n) acc s =
      Some (p mod 512 \<noteq> 0 \<and> k = n, of_nat (n - k), acc @ take k (drop p (file_data s cs)), s')
    \<and> fat_ok s' \<and> same_disk s s' \<and> open_at s' fd m z cs (p + k)"
  using assms
proof (induction n arbitrary: p acc s k)
  case (Suc n)
  from Suc.prems(3) obtain f where f: "fd_at fd s = Some f" "pos_ok s cs p f" by (rule open_atE)
  have within: "fpos_within_sector f = 0 \<longleftrightarrow> p mod 512 = 0"
    using f(2) by (simp add: pos_ok_def word_unat_eq_iff)
  show ?case
  proof (cases "p mod 512 = 0")
    case True
    then show ?thesis
      using Suc.prems(1,3,8) f(1) within
      by (subst read_head.simps) (auto simp: same_disk_refl)
  next
    case False
    have p: "p < unat z" "p < 512 * (spc s * length cs)" using Suc.prems by simp_all
    obtain s1 where s1: "file_readbyte fd s = Some (int (unat (file_data s cs ! p)), s1)" "fat_ok s1" "same_disk s s1"
      "open_at s1 fd m z cs (Suc p)"
      by (rule file_readbyte_pos [OF Suc.prems(1-3) p])
    have len: "p < length (file_data s cs)"
      using p(2) Suc.prems(1) by (simp add: fat_ok_def file_data_length)
    have step: "read_head fd (of_nat (Suc n)) acc s =
       (if n = 0 then Some (True, 0, acc @ [file_data s cs ! p], s1)
        else read_head fd (of_nat n) (acc @ [file_data s cs ! p]) s1)"
      using False within f(1) s1(1) of_nat_u16_eq0 [of n] Suc.prems(5)
      by (subst read_head.simps) simp
    show ?thesis
    proof (cases "n = 0")
      case True
      have "0 < (512 - p mod 512) mod 512" using False by simp
      then have "k = 1" using Suc.prems(8) True by simp
      with True step s1 False len show ?thesis by (simp add: take_Suc_drop [of _ _ 0, simplified])
    next
      case more: False
      define k' where "k' = min n ((512 - Suc p mod 512) mod 512)"
      have k: "k = Suc k'"
      proof (cases "Suc (p mod 512) = 512")
        case True
        then show ?thesis using mod_div_Suc(1) [of 512 p] Suc.prems(8) more by (simp add: k'_def)
      next
        case neq: False
        define r where "r = p mod 512"
        have r: "r < 511" "0 < r" using neq False mod_less_divisor [of 512 p] unfolding r_def by linarith+
        then have "min (Suc n) (512 - r) = Suc (min n (511 - r))" by (simp add: min_def) linarith
        then show ?thesis
          using mod_div_Suc(2) [of 512 p] neq r Suc.prems(8) by (simp add: k'_def flip: r_def)
      qed
      obtain s' where s': "read_head fd (of_nat n) (acc @ [file_data s cs ! p]) s1 =
          Some (Suc p mod 512 \<noteq> 0 \<and> k' = n, of_nat (n - k'), (acc @ [file_data s cs ! p]) @ take k' (drop (Suc p) (file_data s1 cs)), s')"
        "fat_ok s'" "same_disk s1 s'" "open_at s' fd m z cs (Suc p + k')"
        using Suc.IH [OF s1(2) _ s1(4) _ _ _ _ k'_def, of "acc @ [file_data s cs ! p]"] Suc.prems more
          chain_of_same_disk [OF s1(3)] same_disk_data(1) [OF s1(3)] by auto
      have d: "Suc p mod 512 \<noteq> 0 \<and> k' = n \<longleftrightarrow> k = Suc n"
        using k more by (cases "Suc p mod 512 = 0") (simp_all add: k'_def)
      have data: "file_data s1 cs = file_data s cs" by (rule same_disk_data(3) [OF s1(3)])
      show ?thesis
        using s' step more False same_disk_trans [OF s1(3) s'(3)] d
        by (intro exI [of _ s']) (simp add: k data take_Suc_drop [OF len])
    qed
  qed
qed simp

lemma read_sectors_pos:
  assumes "fat_ok s" "chain_of s cs" "open_at s fd m z cs p" "p mod 512 = 0" "512 * k \<le> n" "n < 2 ^ 16"
    "p + 512 * k \<le> unat z" "unat z \<le> 512 * (spc s * length cs)"
  shows "\<exists>s'. read_sectors k fd (of_nat n) acc s =
      Some (False, of_nat (n - 512 * k), acc @ take (512 * k) (drop p (file_data s cs)), s')
    \<and> fat_ok s' \<and> same_disk s s' \<and> open_at s' fd m z cs (p + 512 * k)"
  using assms
proof (induction k arbitrary: p n acc s)
  case 0
  then show ?case by (simp add: same_disk_refl)
next
  case (Suc k)
  have p: "p + 512 \<le> unat z" "p < 512 * (spc s * length cs)" using Suc.prems by simp_all
  obtain s1 where s1: "file_readsector fd s = Some (0, take 512 (drop p (file_data s cs)), s1)" "fat_ok s1" "same_disk s s1"
    "open_at s1 fd m z cs (p + 512)"
    by (rule file_readsector_pos [OF Suc.prems(1-4) p])
  have bps: "bytes_per_sector (disk_info s1) = 512"
    using s1(2) geometryD(1) by (simp add: fat_ok_def)
  have n: "(of_nat n :: u16) - 512 = of_nat (n - 512)"
    using Suc.prems(5) of_nat_diff [of 512 n, where 'a = u16] by simp
  have chain1: "chain_of s1 cs" using Suc.prems(2) chain_of_same_disk [OF s1(3)] by simp
  have prems: "(p + 512) mod 512 = 0" "512 * k \<le> n - 512" "n - 512 < 2 ^ 16" "p + 512 + 512 * k \<le> unat z"
      "unat z \<le> 512 * (spc s1 * length cs)"
    using Suc.prems(4-8) same_disk_data(1) [OF s1(3)] by simp_all
  obtain s' where s': "read_sectors k fd (of_nat (n - 512)) (acc @ take 512 (drop p (file_data s cs))) s1 =
      Some (False, of_nat (n - 512 - 512 * k),
        (acc @ take 512 (drop p (file_data s cs))) @ take (512 * k) (drop (p + 512) (file_data s1 cs)), s')"
    "fat_ok s'" "same_disk s1 s'" "open_at s' fd m z cs (p + 512 + 512 * k)"
    using Suc.IH [OF s1(2) chain1 s1(4) prems, of "acc @ take 512 (drop p (file_data s cs))"] by blast
  have "take (512 * Suc k) (drop p xs) = take 512 (drop p xs) @ take (512 * k) (drop (p + 512) xs)" for xs :: bytes
    using take_add [of 512 "512 * k" "drop p xs"] by (simp add: add.commute)
  then show ?case
    using s1(1) s' bps n same_disk_data(3) [OF s1(3)] same_disk_trans [OF s1(3) s'(3)]
    by (intro exI [of _ s']) (simp add: add.assoc)
qed

lemma read_tail_pos:
  assumes "fat_ok s" "chain_of s cs" "open_at s fd m z cs p" "p + k \<le> unat z" "unat z \<le> 512 * (spc s * length cs)"
  shows "\<exists>s'. read_tail k fd acc s = Some (acc @ take k (drop p (file_data s cs)), s')
    \<and> fat_ok s' \<and> same_disk s s' \<and> open_at s' fd m z cs (p + k)"
  using assms
proof (induction k arbitrary: p acc s)
  case 0
  then show ?case by (simp add: same_disk_refl)
next
  case (Suc k)
  have p: "p < unat z" "p < 512 * (spc s * length cs)" using Suc.prems by simp_all
  obtain s1 where s1: "file_readbyte fd s = Some (int (unat (file_data s cs ! p)), s1)" "fat_ok s1" "same_disk s s1"
    "open_at s1 fd m z cs (Suc p)"
    by (rule file_readbyte_pos [OF Suc.prems(1-3) p])
  have len: "p < length (file_data s cs)"
    using p(2) Suc.prems(1) by (simp add: fat_ok_def file_data_length)
  obtain s' where s': "read_tail k fd (acc @ [file_data s cs ! p]) s1 =
      Some ((acc @ [file_data s cs ! p]) @ take k (drop (Suc p) (file_data s1 cs)), s')"
    "fat_ok s'" "same_disk s1 s'" "open_at s' fd m z cs (Suc p + k)"
    using Suc.IH [OF s1(2) _ s1(4), of "acc @ [file_data s cs ! p]"] Suc.prems
      chain_of_same_disk [OF s1(3)] same_disk_data(1) [OF s1(3)] by auto
  then show ?case
    using s1(1) same_disk_data(3) [OF s1(3)] same_disk_trans [OF s1(3) s'(3)]
    by (intro exI [of _ s']) (simp add: take_Suc_drop [OF len])
qed

lemma take_three:
  "take (a + b + c) (drop p xs) = take a (drop p xs) @ take b (drop (p + a) xs) @ take c (drop (p + a + b) xs)"
  unfolding take_add drop_drop append_assoc by (simp only: ac_simps)

text \<open>Together they read \<open>n > 0\<close> bytes.\<close>

lemma read_loops_pos:
  assumes "fat_ok s" "chain_of s cs" "open_at s fd m z cs p" "0 < n" "n < 2 ^ 16" "p + n \<le> unat z"
    "unat z \<le> 512 * (spc s * length cs)"
  shows "\<exists>s'. read_loops fd (of_nat n) acc s = Some (acc @ take n (drop p (file_data s cs)), s')
    \<and> fat_ok s' \<and> same_disk s s' \<and> open_at s' fd m z cs (p + n)"
proof -
  define k where "k = min n ((512 - p mod 512) mod 512)"
  obtain s1 where s1: "read_head fd (of_nat n) acc s =
      Some (p mod 512 \<noteq> 0 \<and> k = n, of_nat (n - k), acc @ take k (drop p (file_data s cs)), s1)"
    "fat_ok s1" "same_disk s s1" "open_at s1 fd m z cs (p + k)"
    using read_head_pos [OF assms k_def] by blast
  have data1: "file_data s1 cs = file_data s cs" by (rule same_disk_data(3) [OF s1(3)])
  show ?thesis
  proof (cases "p mod 512 \<noteq> 0 \<and> k = n")
    case True
    then show ?thesis using s1 by (intro exI [of _ s1]) (simp add: read_loops_def)
  next
    case False
    have kn: "k \<le> n" by (simp add: k_def)
    have aligned: "(p + k) mod 512 = 0"
    proof (cases "p mod 512 = 0")
      case True
      then show ?thesis by (simp add: k_def)
    next
      case neq: False
      then have "k = 512 - p mod 512" using False by (auto simp: k_def min_def split: if_splits)
      then show ?thesis by (metis le_add_diff_inverse mod_add_left_eq mod_less_divisor mod_self nat_less_le zero_less_numeral)
    qed
    define q where "q = (n - k) div 512"
    have q: "512 * q \<le> n - k" "n - k < 2 ^ 16" using assms(5) by (simp_all add: q_def)
    have bps: "bytes_per_sector (disk_info s1) = 512" using s1(2) geometryD(1) by (simp add: fat_ok_def)
    have uq: "unat ((of_nat (n - k) :: u16) div 512) = q"
      using q(2) unat_of_nat [of "n - k", where 'a = 16] by (simp add: unat_div q_def del: of_nat_diff)
    have chain1: "chain_of s1 cs" using assms(2) chain_of_same_disk [OF s1(3)] by simp
    have cap1: "unat z \<le> 512 * (spc s1 * length cs)" using assms(7) same_disk_data(1) [OF s1(3)] by simp
    have fits: "p + k + 512 * q \<le> unat z" using q(1) kn assms(6) by linarith
    obtain s2 where s2: "read_sectors q fd (of_nat (n - k)) (acc @ take k (drop p (file_data s cs))) s1 =
        Some (False, of_nat (n - k - 512 * q), (acc @ take k (drop p (file_data s cs))) @ take (512 * q) (drop (p + k) (file_data s1 cs)), s2)"
      "fat_ok s2" "same_disk s1 s2" "open_at s2 fd m z cs (p + k + 512 * q)"
      using read_sectors_pos [OF s1(2) chain1 s1(4) aligned q fits cap1] by blast
    define r where "r = n - k - 512 * q"
    have chain2: "chain_of s2 cs" using chain1 chain_of_same_disk [OF s2(3)] by simp
    have cap2: "unat z \<le> 512 * (spc s2 * length cs)" using cap1 same_disk_data(1) [OF s2(3)] by simp
    have nr: "n = k + 512 * q + r" using kn q(1) by (simp add: r_def)
    have fits2: "p + k + 512 * q + r \<le> unat z" using nr assms(6) by simp
    define got where "got = (acc @ take k (drop p (file_data s cs))) @ take (512 * q) (drop (p + k) (file_data s1 cs))"
    obtain s3 where s3: "read_tail r fd got s2 = Some (got @ take r (drop (p + k + 512 * q) (file_data s2 cs)), s3)"
      "fat_ok s3" "same_disk s2 s3" "open_at s3 fd m z cs (p + k + 512 * q + r)"
      using read_tail_pos [OF s2(2) chain2 s2(4) fits2 cap2] by blast
    have data2: "file_data s2 cs = file_data s cs" using same_disk_data(3) [OF s2(3)] data1 by simp
    have all: "got @ take r (drop (p + k + 512 * q) (file_data s2 cs)) = acc @ take n (drop p (file_data s cs))"
      unfolding got_def data1 data2 nr take_three by simp
    have ur: "unat (of_nat r :: u16) = r" "(of_nat r :: u16) = 0 \<longleftrightarrow> r = 0"
      using assms(5) nr of_nat_u16_eq0 [of r] unat_of_nat [of r, where 'a = 16] by simp_all
    have nd: "(p mod 512 \<noteq> 0 \<and> k = n) = False" using False by blast
    have "read_loops fd (of_nat n) acc s = (if r = 0 then Some (got, s2) else read_tail r fd got s2)"
      unfolding read_loops_def s1(1) nd Option.bind.bind_lunit prod.case bps uq s2(1) r_def [symmetric] got_def [symmetric]
      using ur by simp
    also have "\<dots> = read_tail r fd got s2" by simp
    finally have "read_loops fd (of_nat n) acc s = Some (acc @ take n (drop p (file_data s cs)), s3)"
      using s3(1) all by simp
    then show ?thesis
      using s3 same_disk_trans [OF same_disk_trans [OF s1(3) s2(3)] s3(3)] nr
      by (intro exI [of _ s3]) (simp add: add.assoc)
  qed
qed

text \<open>A read of at most \<open>n\<close> bytes, as \<open>file_read\<close> does it.\<close>

lemma file_read_pos:
  assumes "fat_ok s" "chain_of s cs" "open_at s 0 FMODE_READ z cs p" "unat z \<le> 512 * (spc s * length cs)"
    "p \<le> unat z" "0x6000 \<le> ptr" "n < 2 ^ 16" "0 < n \<or> p mod 512 = 0"
  shows "\<exists>s'. file_read ptr (of_nat n) 0 s = Some (take (min n (unat z - p)) (drop p (file_data s cs)), s')
    \<and> fat_ok s' \<and> same_disk s s' \<and> open_at s' 0 FMODE_READ z cs (p + min n (unat z - p))"
proof -
  from assms(3) obtain f where f: "fd_at 0 s = Some f" "mode f = FMODE_READ" "fsize f = z" "unat (fpos f) = p" "pos_ok s cs p f"
    by (rule open_atE)
  define k where "k = min n (unat z - p)"
  have left: "unat (fsize f - fpos f) = unat z - p"
    using f(3,4) assms(5) by (simp add: unat_sub word_le_nat_alt)
  have n: "unat (of_nat n :: u16) = n" using assms(7) by (simp add: unat_of_nat)
  have "(if fsize f - fpos f < ucast (of_nat n :: u16) then ucast (fsize f - fpos f) else (of_nat n :: u16)) = of_nat k"
  proof (cases "unat z - p < n")
    case True
    then have "fsize f - fpos f < ucast (of_nat n :: u16)"
      unfolding word_less_nat_alt left unat_u16_u32 n .
    moreover have "(ucast (fsize f - fpos f) :: u16) = of_nat (unat z - p)"
      using True assms(7) by (simp add: word_unat_eq_iff unat_u32_u16 left unat_of_nat)
    ultimately show ?thesis using True by (simp add: k_def)
  next
    case False
    then have "\<not> fsize f - fpos f < ucast (of_nat n :: u16)"
      unfolding word_less_nat_alt left unat_u16_u32 n .
    with False show ?thesis by (simp add: k_def)
  qed
  then have read: "file_read ptr (of_nat n) 0 s = read_loops 0 (of_nat k) [] s"
    using assms(6) f(1,2) by (simp add: file_read_def linorder_not_less [symmetric])
  have k16: "k < 2 ^ 16" "p + k \<le> unat z" using assms(5,7) by (simp_all add: k_def)
  show ?thesis
  proof (cases "k = 0")
    case False
    then show ?thesis
      using read_loops_pos [OF assms(1-3) _ k16 assms(4), of "[]"] unfolding read k_def [symmetric] by simp
  next
    case True
    then have zero: "p mod 512 = 0 \<or> p = unat z" using assms(5,8) by (auto simp: k_def)
    have within: "fpos_within_sector f = 0 \<longleftrightarrow> p mod 512 = 0"
      using f(5) by (simp add: pos_ok_def word_unat_eq_iff)
    have bps: "bytes_per_sector (disk_info s) = 512" using assms(1) geometryD(1) by (simp add: fat_ok_def)
    have "read_loops 0 0 [] s = Some ([], s)"
    proof (cases "p mod 512 = 0")
      case True
      then have "read_head 0 0 [] s = Some (False, 0, [], s)"
        using f(1) within by (subst read_head.simps) simp
      then show ?thesis using bps by (simp add: read_loops_def)
    next
      case False
      then have "read_head 0 0 [] s = Some (True, 0, [], s)"
        using f(1) within zero file_readbyte_eof [OF assms(3)] by (subst read_head.simps) simp
      then show ?thesis by (simp add: read_loops_def)
    qed
    with True assms(1,3) show ?thesis unfolding read k_def [symmetric] by (simp add: same_disk_refl)
  qed
qed

end
