(* ===== verification/File_Properties.thy ===== *)
theory File_Properties
  imports File_Reading
begin

text \<open>
  The properties of the file system calls from end to end: what reading an opened file returns,
  what creating and deleting a file do to the directory and to the FAT, and the places where the
  code goes wrong.
\<close>

section \<open>Names\<close>

text \<open>The name under which a file is looked up: the first 12 characters in upper case.\<close>

definition canon :: "bytes \<Rightarrow> bytes" where
  "canon filename = map upper (cstr (take 12 filename @ [0]))"

lemma string_toupper_upper:
  "0 \<in> set s \<Longrightarrow> \<exists>u. string_toupper s = Some u \<and> length u = length s \<and> 0 \<in> set u \<and> cstr u = map upper (cstr s)"
proof (induction s)
  case (Cons c s)
  show ?case
  proof (cases "c = 0")
    case True
    then show ?thesis by (simp add: cstr_def)
  next
    case False
    with Cons obtain u where "string_toupper s = Some u" "length u = length s" "0 \<in> set u" "cstr u = map upper (cstr s)"
      by auto
    with False upper_nz [OF False] show ?thesis by (simp add: cstr_def)
  qed
qed simp

lemma filename_upper_canon:
  assumes "12 \<le> length filename"
  obtains u where "filename_upper filename = Some u" "length u = 13" "0 \<in> set u" "cstr u = canon filename"
  using string_toupper_upper [of "take 12 filename @ [0]"] assms that
  by (auto simp: filename_upper_def canon_def)

lemma cstr_less: "0 \<in> set s \<Longrightarrow> length (cstr s) < length s"
  by (induction s) (auto simp: cstr_def)

lemma strcpy_name:
  assumes "length dst = 13" "length src = 13" "0 \<in> set src"
  obtains dst' where "strcpy dst src = Some dst'" "length dst' = 13" "0 \<in> set dst'" "cstr dst' = cstr src"
proof -
  have "length (cstr src) < length src" by (rule cstr_less [OF assms(3)])
  then have "strcpy dst src = Some (cstr src @ 0 # drop (length (cstr src) + 1) dst)"
    using assms by (simp add: strcpy_def memcpy_def)
  moreover have "cstr (cstr src @ 0 # drop (length (cstr src) + 1) dst) = cstr src"
    by (rule cstr_append_nul [OF cstr_no_nul])
  ultimately show thesis
    using that \<open>length (cstr src) < length src\<close> assms by simp
qed

section \<open>Opening\<close>

text \<open>One descriptor, not claimed.\<close>

definition fd_ready :: "fs \<Rightarrow> bool" where
  "fd_ready s \<longleftrightarrow> length (fdtable s) = 1 \<and> length (fd_name (fdtable s ! 0)) = 13
     \<and> flags (fdtable s ! 0) AND FD_FLAGS_CLAIMED = 0"

lemma fd_ready_assign: "fd_ready s \<Longrightarrow> filesystem_assign_fd s = 0 \<and> fd_at 0 s = Some (fdtable s ! 0)"
  by (cases "fdtable s") (auto simp: fd_ready_def filesystem_assign_fd_def fd_at_def rd_def)

lemma open_prefix:
  assumes "fd_ready s" "12 \<le> length filename"
  obtains u f where "filename_upper filename = Some u" "length u = 13" "0 \<in> set u" "cstr u = canon filename"
    "strcpy (fd_name (fdtable s ! 0)) u = Some (fd_name f)" "0 \<in> set (fd_name f)" "cstr (fd_name f) = canon filename"
    "f = (fdtable s ! 0)\<lparr>fd_name := fd_name f\<rparr>" "fd_at 0 (set_fd 0 f s) = Some f"
    "fd_update 0 (\<lambda>f'. f'\<lparr>fd_name := fd_name f\<rparr>) s = Some (set_fd 0 f s)"
proof -
  obtain u where u: "filename_upper filename = Some u" "length u = 13" "0 \<in> set u" "cstr u = canon filename"
    using filename_upper_canon [OF assms(2)] .
  obtain name where name: "strcpy (fd_name (fdtable s ! 0)) u = Some name" "length name = 13" "0 \<in> set name" "cstr name = cstr u"
    using strcpy_name [of "fd_name (fdtable s ! 0)" u] assms(1) u by (auto simp: fd_ready_def)
  note at = fd_ready_assign [OF assms(1), THEN conjunct2]
  show thesis
    by (rule that [of u "(fdtable s ! 0)\<lparr>fd_name := name\<rparr>"])
      (use u name at in \<open>simp_all add: fd_update_eq fd_at_set_fd\<close>)
qed

lemma root_sectors_set_fd [simp]: "root_sectors (set_fd fd f s) = root_sectors s"
  by (simp add: root_sectors_def)

lemma cache_only_fd: "cache_only s s' \<Longrightarrow> fd_at fd s' = fd_at fd s"
  by (simp add: cache_only_def fd_at_def)

lemma cache_only_same_disk: "cache_only s s' \<Longrightarrow> same_disk s s'"
  by (simp add: cache_only_def same_disk_def)

lemma is_chain_hd: "is_chain g c cs \<Longrightarrow> c = (cs @ [CLUSTER_EOF]) ! 0"
  by (cases cs) simp_all

lemma open_at_start:
  assumes "fd_at fd s = Some f" "is_chain (fat_at s) (starting_cluster e) cs" "same_disk s s'"
    "fdtable s' = fdtable s" "s'' = set_fd fd (fd_start e m f) s'"
  shows "open_at s'' fd m (de_size e) cs 0" "chain_of s'' cs"
proof -
  have at': "fd_at fd s' = Some f" using assms(1) fd_at_cong [OF assms(4)] by simp
  note hd = is_chain_hd [OF assms(2)]
  then show "open_at s'' fd m (de_size e) cs 0"
    using fd_at_set_fd [OF at'] hd by (simp add: assms(5) open_at_def pos_ok_def fd_start_def)
  have "fat_at s'' = fat_at s" using assms(3) by (simp add: assms(5) same_diskD)
  with assms(2) show "chain_of s'' cs" by (auto simp: chain_of_def)
qed

lemma file_open_read_cases:
  assumes "fat_ok s" "fd_ready s" "12 \<le> length filename" "dir_scan (canon filename) (dir_slots s) \<noteq> More"
  obtains (found) k s' f where "dir_scan (canon filename) (dir_slots s) = Found k"
      "file_open filename FMODE_READ s = Some (0, set_fd 0 (fd_start (bytes_entry (dir_slots s ! k)) FMODE_READ f) s')"
      "same_disk s s'" "fat_ok s'" "fd_at 0 s' = Some f" "flags f = flags (fdtable s ! 0)" "length (fdtable s') = 1"
    | (missing) s' where "dir_scan (canon filename) (dir_slots s) = Missing"
      "file_open filename FMODE_READ s = Some (E_FILENOTFOUND, s')" "same_disk s s'"
proof -
  obtain u f where f: "filename_upper filename = Some u" 
    "strcpy (fd_name (fdtable s ! 0)) u = Some (fd_name f)" "0 \<in> set (fd_name f)" "cstr (fd_name f) = canon filename"
    "f = (fdtable s ! 0)\<lparr>fd_name := fd_name f\<rparr>" "fd_at 0 (set_fd 0 f s) = Some f"
    "fd_update 0 (\<lambda>f'. f'\<lparr>fd_name := fd_name f\<rparr>) s = Some (set_fd 0 f s)"
    using open_prefix [OF assms(2,3)] by metis
  note at = fd_ready_assign [OF assms(2)]
  define s1 where "s1 = set_fd 0 f s"
  have wf1: "fs_wf s1" and ok1: "fat_ok s1" using assms(1) by (simp_all add: s1_def fat_ok_def geometry_def)
  have dir1: "dir_slots s1 = dir_slots s" by (simp add: s1_def)
  obtain s2 where s2: "filesystem_get_directory_entry (fd_name f) s1 =
      Some (case dir_scan (canon filename) (dir_slots s) of
              Found k \<Rightarrow> Inr (bytes_entry (dir_slots s ! k)) | _ \<Rightarrow> Inl E_FILENOTFOUND, s2)"
    "cache_only s1 s2" "fs_wf s2"
    using get_entry_cases [OF wf1 f(3)] assms(4) unfolding f(4) dir1 by metis
  have same: "same_disk s s2" using s2(2) by (simp add: s1_def cache_only_def same_disk_def)
  have at2: "fd_at 0 s2 = Some f" using cache_only_fd [OF s2(2)] f(6) by (simp add: s1_def)
  have len: "length (fdtable s2) = 1" using assms(2) s2(2) by (simp add: s1_def cache_only_def fd_ready_def set_fd_def)
  have ok2: "fat_ok s2" using s2(3) ok1 cache_onlyD(5) [OF s2(2)] by (simp add: fat_ok_def)
  note start = f(1,2,7) at f(6) s1_def [symmetric]
  show thesis
  proof (cases "dir_scan (canon filename) (dir_slots s)")
    case (Found k)
    have "file_open filename FMODE_READ s = Some (0, set_fd 0 (fd_start (bytes_entry (dir_slots s ! k)) FMODE_READ f) s2)"
      using Found s2(1) at2 f(6)
      by (simp add: file_open_def file_open_read_def f(1,2,7) at s1_def [symmetric] fd_update_eq [OF at2])
    moreover have "flags f = flags (fdtable s ! 0)" by (subst f(5)) simp
    ultimately show ?thesis using found Found same ok2 at2 len by blast
  next
    case Missing
    have "file_open filename FMODE_READ s = Some (E_FILENOTFOUND, set_fd 0 (unclaim f) s2)"
      using Missing s2(1) at2 f(6)
      by (simp add: file_open_def file_open_read_def f(1,2,7) at s1_def [symmetric] fd_update_eq [OF at2])
    moreover have "same_disk s (set_fd 0 (unclaim f) s2)" using same by (simp add: same_disk_def)
    ultimately show ?thesis using missing Missing by blast
  qed (use assms(4) in simp)
qed

text \<open>An existing file, opened for reading, is at its start.\<close>

lemma open_read_start:
  assumes "fat_ok s" "fd_ready s" "12 \<le> length filename" "dir_scan (canon filename) (dir_slots s) = Found k"
    and "e = bytes_entry (dir_slots s ! k)" "is_chain (fat_at s) (starting_cluster e) cs"
  obtains s1 where "file_open filename FMODE_READ s = Some (0, s1)" "fat_ok s1" "same_disk s s1"
    "open_at s1 0 FMODE_READ (de_size e) cs 0" "chain_of s1 cs"
proof -
  have "dir_scan (canon filename) (dir_slots s) \<noteq> More" using assms(4) by simp
  from assms(1-3) this show thesis
  proof (cases rule: file_open_read_cases)
    case (found k' s' f)
    then have k: "k' = k" using assms(4) by simp
    define s1 where "s1 = set_fd 0 (fd_start e FMODE_READ f) s'"
    have "is_chain (fat_at s') (starting_cluster e) cs" using assms(6) same_diskD(2) [OF found(3)] by simp
    from open_at_start [OF found(5) this same_disk_refl refl s1_def] show thesis
      using that [of s1] found(2-4) by (simp add: k s1_def assms(5) same_disk_def)
  next
    case (missing s')
    then show ?thesis using assms(4) by simp
  qed
qed

section \<open>The directory and the FAT do not overlap\<close>

lemma fat_frame_dir:
  assumes "geometry s" "fat_frame s s'"
  shows "dir_slots s' = dir_slots s"
proof (rule nth_equalityI)
  have info: "disk_info s' = disk_info s" using assms(2) by (simp add: fat_frame_def)
  then have rs: "root_sectors s' = root_sectors s" by (simp add: root_sectors_def)
  then show "length (dir_slots s') = length (dir_slots s)" by simp
  fix k assume "k < length (dir_slots s')"
  then have k: "k < 16 * root_sectors s" "k < 16 * root_sectors s'" by (simp_all add: rs)
  note sec = slot_sector_unat [OF assms(1) k(1)]
  have "\<not> slot_sector s k < root_region (disk_info s)"
    using sec(1) by (simp add: word_less_nat_alt)
  then have "disk s' (slot_sector s k) = disk s (slot_sector s k)"
    using assms(2) by (simp add: fat_frame_def)
  moreover have "slot_sector s' k = slot_sector s k" by (simp add: slot_sector_def info)
  ultimately show "dir_slots s' ! k = dir_slots s ! k"
    using dir_slots_nth [OF k(1)] dir_slots_nth [OF k(2)] sec(3) by (simp add: disk_read_def)
qed

lemma dir_frame_fat:
  assumes "geometry s" "dir_frame s s'" "fat_valid s c"
  shows "fat_at s' c = fat_at s c"
proof -
  note sec = fat_sector_of_valid [OF assms(1,3)]
  have info: "disk_info s' = disk_info s" using assms(2) by (simp add: dir_frame_def)
  have "\<not> root_region (disk_info s) \<le> fat_sector_of s c" using sec(3) by simp
  then have "disk s' (fat_sector_of s c) = disk s (fat_sector_of s c)"
    using assms(2) by (simp add: dir_frame_def)
  then show ?thesis
    using sec(4) by (simp add: fat_at_eq disk_read_def fat_sector_of_def info)
qed

lemma fat_valid_info: "disk_info s' = disk_info s \<Longrightarrow> fat_valid s' c = fat_valid s c"
  by (simp add: fat_valid_def)

section \<open>An example\<close>

text \<open>The argument \<open>hello.c\<close> in 12 bytes of memory.\<close>

definition hello_arg :: bytes where
  "hello_arg = [0x68, 0x65, 0x6c, 0x6c, 0x6f, 0x2e, 0x63, 0, 0, 0, 0, 0]"

lemma hello_arg: "canon hello_arg = cstr hello_name" "12 \<le> length hello_arg"
  by (simp_all add: canon_def hello_arg_def hello_name_def cstr_def upper_def)

lemma flat_fs_ready: "fd_ready (flat_fs b)"
  by (simp add: fd_ready_def flat_fs_def)

text \<open>A blank disk with the file \<open>HELLO.C\<close> of 5 bytes in cluster 2.\<close>

lemma demo_fs:
  obtains s where "fat_ok s" "fd_ready s" "dir_slots s = entry_bytes hello_entry # replicate 15 (replicate 32 0)"
    "fat_at s 2 = CLUSTER_EOF" "fat_valid s 2" "file_data s [2] = replicate 512 0" "spc s = 1"
proof -
  have ok: "fs_wf one_file_fs" "geometry one_file_fs" using one_file_fs(1) by (simp_all add: fat_ok_def)
  have dir: "dir_slots one_file_fs = replicate 16 (replicate 32 0)"
    using fat_frame_dir [OF flat_fs_wf(2) one_file_fs(5)] by (simp add: flat_fs_dir)
  from ok hello_entry(1) obtain s where s: "fs_wf s" "geometry s" "dir_frame one_file_fs s"
      "dir_slots s = entry_bytes hello_entry # replicate 15 (replicate 32 0)"
    by (rule file_create_slots) (auto simp: dir replicate_Suc [of 15, simplified] slot_free_def)
  have info: "disk_info s = disk_info (flat_fs 0)" "fdtable s = fdtable (flat_fs 0)"
    using s(3) one_file_fs(5) by (simp_all add: dir_frame_def fat_frame_def)
  have v: "fat_valid one_file_fs 2" by (simp add: one_file_fs(3) flat_fs_valid)
  have "disk s 3 = disk one_file_fs 3" "disk one_file_fs 3 = disk (flat_fs 0) 3"
    using s(3) one_file_fs(5) by (simp_all add: dir_frame_def fat_frame_def flat_fs_def)
  then have "disk_read (file_start_sector 2 s) s = replicate 512 0"
    using info(1) by (simp add: file_start_sector_def disk_read_def lba_def flat_fs_def)
  then have "file_data s [2] = replicate 512 0" 
    using info(1) by (simp add: file_data_def sectors_of_def spc_def flat_fs_def)
  moreover have "fat_at s 2 = CLUSTER_EOF" using dir_frame_fat [OF ok(2) s(3) v] one_file_fs(2) by simp
  moreover have "fat_valid s 2" using info(1) by (simp add: fat_valid_def flat_fs_def)
  ultimately show thesis
    using that [of s] s info flat_fs_ready by (simp add: fat_ok_def fd_ready_def spc_def flat_fs_def)
qed

section \<open>Properties of reading\<close>

text \<open>C9. \<open>file_read\<close> on a descriptor at position \<open>p\<close> of a file of \<open>z\<close> bytes stores the next
  \<open>min(n, z - p)\<close> bytes of the file's contents, across sector and cluster boundaries, and moves the
  descriptor on by as many; the disk is only read. This holds when \<open>n > 0\<close> or \<open>p\<close> is on a sector
  boundary: a read of no bytes inside a sector goes on for 65536 bytes (\<open>file_read_zero_overruns\<close>).\<close>

theorem file_read_correct:
  assumes "fat_ok s" "chain_of s cs" "open_at s 0 FMODE_READ z cs p" "unat z \<le> 512 * (spc s * length cs)"
    "p \<le> unat z" "0x6000 \<le> ptr" "n < 2 ^ 16" "0 < n \<or> p mod 512 = 0"
  shows "\<exists>s'. file_read ptr (of_nat n) 0 s = Some (take (min n (unat z - p)) (drop p (file_data s cs)), s')
    \<and> same_disk s s' \<and> open_at s' 0 FMODE_READ z cs (p + min n (unat z - p))"
  using file_read_pos [OF assms] by blast

text \<open>The demonstration file opened, at position 2, and the state in which the file has 65537 bytes
  in clusters of 255 sectors.\<close>

definition demo_fd :: "u32 \<Rightarrow> nat \<Rightarrow> FileDescriptor_T" where
  "demo_fd z p = \<lparr>fd_name = replicate 13 0, flags = 0, mode = FMODE_READ, fsize = z, fpos = of_nat p,
     start_cluster = 2, current_cluster = 2, sector = 0, fpos_within_sector = of_nat p\<rparr>"

lemma demo_open:
  assumes "fat_at s 2 = CLUSTER_EOF" "length (fdtable s) = 1" "p < 512" "0 < spc s"
  shows "open_at (set_fd 0 (demo_fd z p) s) 0 FMODE_READ z [2] p" "chain_of (set_fd 0 (demo_fd z p) s) [2]"
proof -
  obtain f where "fd_at 0 s = Some f" using assms(2) by (cases "fdtable s") (auto simp: fd_at_def rd_def)
  from fd_at_set_fd [OF this] show "open_at (set_fd 0 (demo_fd z p) s) 0 FMODE_READ z [2] p"
    using assms(3,4) by (simp add: open_at_def pos_ok_def demo_fd_def unat_of_nat spc_def)
  show "chain_of (set_fd 0 (demo_fd z p) s) [2]" using assms(1) by (auto simp: chain_of_def)
qed

lemma file_read_correct_witness:
  "\<exists>s s'. file_read 0x8000 10 0 s = Some (replicate 3 0, s')"
proof -
  obtain s where s: "fat_ok s" "fd_ready s" "fat_at s 2 = CLUSTER_EOF" "file_data s [2] = replicate 512 0" "spc s = 1"
    using demo_fs by metis
  let ?s = "set_fd 0 (demo_fd 5 2) s"
  have o: "open_at ?s 0 FMODE_READ 5 [2] 2" "chain_of ?s [2]"
    using demo_open [OF s(3), of 2 5] s(2,5) by (simp_all add: fd_ready_def)
  have same: "same_disk s ?s" by (simp add: same_disk_def)
  have ok: "fat_ok ?s" and spc: "spc ?s = 1" using s(1,5) by (simp_all add: spc_def)
  have cap: "unat (5 :: u32) \<le> 512 * (spc ?s * length [2 :: u16])" using spc by simp
  obtain s' where "file_read 0x8000 (of_nat 10) 0 ?s = Some (take (min 10 (unat (5 :: u32) - 2)) (drop 2 (file_data ?s [2])), s')"
    using file_read_correct [where ptr = "0x8000" and n = 10, OF ok o(2,1) cap] by auto
  then have "file_read 0x8000 10 0 ?s = Some (replicate 3 0, s')"
    using s(4) same_disk_data(3) [OF same] by simp
  then show ?thesis by blast
qed

text \<open>C10. From a name to the contents: opening an existing file for reading and reading \<open>n\<close> bytes gives
  the first \<open>n\<close> bytes (all of them, if there are fewer) of the sectors of the cluster chain that
  starts in the file's directory entry.\<close>

theorem open_then_read:
  assumes "fat_ok s" "fd_ready s" "12 \<le> length filename" "dir_scan (canon filename) (dir_slots s) = Found k"
    and "e = bytes_entry (dir_slots s ! k)" "is_chain (fat_at s) (starting_cluster e) cs"
    and "unat (de_size e) \<le> 512 * (spc s * length cs)" "0x6000 \<le> ptr" "n < 2 ^ 16"
  shows "\<exists>s1 s2. file_open filename FMODE_READ s = Some (0, s1)
    \<and> file_read ptr (of_nat n) 0 s1 = Some (take (min n (unat (de_size e))) (file_data s cs), s2)
    \<and> disk s2 = disk s"
proof -
  obtain s1 where s1: "file_open filename FMODE_READ s = Some (0, s1)" "fat_ok s1" "same_disk s s1"
    "open_at s1 0 FMODE_READ (de_size e) cs 0" "chain_of s1 cs"
    using open_read_start [OF assms(1-6)] .
  have cap: "unat (de_size e) \<le> 512 * (spc s1 * length cs)"
    using assms(7) same_disk_data(1) [OF s1(3)] by simp
  obtain s2 where "file_read ptr (of_nat n) 0 s1 = Some (take (min n (unat (de_size e) - 0)) (drop 0 (file_data s1 cs)), s2)"
      "same_disk s1 s2"
    using file_read_pos [OF s1(2,5,4) cap _ assms(8,9)] by auto
  moreover have "disk s2 = disk s" using s1(3) \<open>same_disk s1 s2\<close> by (simp add: same_disk_def)
  ultimately show ?thesis using s1(1) same_disk_data(3) [OF s1(3)] by (intro exI [of _ s1] exI [of _ s2]) simp
qed

lemma open_then_read_witness:
  "\<exists>s s1 s2. file_open hello_arg FMODE_READ s = Some (0, s1) \<and> file_read 0x8000 100 0 s1 = Some (replicate 5 0, s2)"
proof -
  obtain s where s: "fat_ok s" "fd_ready s" "dir_slots s = entry_bytes hello_entry # replicate 15 (replicate 32 0)"
    "fat_at s 2 = CLUSTER_EOF" "file_data s [2] = replicate 512 0" "spc s = 1"
    using demo_fs by metis
  have found: "dir_scan (canon hello_arg) (dir_slots s) = Found 0"
    using hello_entry(2,3) by (simp add: s(3) hello_arg is_file_def)
  have e: "hello_entry = bytes_entry (dir_slots s ! 0)"
    using entry_roundtrip [OF hello_entry(1)] by (simp add: s(3))
  have h: "starting_cluster hello_entry = 2" "de_size hello_entry = 5" by (simp_all add: hello_entry_def)
  from open_then_read [where cs = "[2]" and ptr = "0x8000" and n = 100, OF s(1,2) hello_arg(2) found e] s(4-6)
  show ?thesis by (auto simp: h)
qed

text \<open>A read of zero bytes inside a sector is not harmless: \<open>n--\<close> wraps to 65535 before it is
  compared with 0, so if the file goes on, 65536 bytes are stored at \<open>ptr\<close>.\<close>

theorem file_read_zero_overruns:
  assumes "fat_ok s" "chain_of s cs" "open_at s 0 FMODE_READ z cs p" "unat z \<le> 512 * (spc s * length cs)"
    "p mod 512 \<noteq> 0" "p + 2 ^ 16 \<le> unat z" "0x6000 \<le> ptr"
  shows "\<exists>s'. file_read ptr 0 0 s = Some (take (2 ^ 16) (drop p (file_data s cs)), s')"
proof -
  from assms(3) obtain f where f: "fd_at 0 s = Some f" "mode f = FMODE_READ" "pos_ok s cs p f"
    by (rule open_atE)
  have within: "fpos_within_sector f \<noteq> 0" using f(3) assms(5) by (auto simp: pos_ok_def)
  have p: "p < unat z" "p < 512 * (spc s * length cs)" using assms(4,6) by simp_all
  obtain s1 where s1: "file_readbyte 0 s = Some (int (unat (file_data s cs ! p)), s1)" "fat_ok s1" "same_disk s s1"
    "open_at s1 0 FMODE_READ z cs (Suc p)"
    by (rule file_readbyte_pos [OF assms(1-3) p])
  have m1: "(-1 :: u16) = 65535" by simp
  have head: "read_head 0 0 [] s = read_head 0 (of_nat 65535) [file_data s cs ! p] s1"
    using f(1) within s1(1) by (subst read_head.simps) (simp add: m1)
  have chain1: "chain_of s1 cs" using assms(2) chain_of_same_disk [OF s1(3)] by simp
  have fits: "Suc p + 65535 \<le> unat z" "unat z \<le> 512 * (spc s1 * length cs)"
    using assms(4,6) same_disk_data(1) [OF s1(3)] by simp_all
  obtain s' where "read_loops 0 (of_nat 65535) [file_data s cs ! p] s1 =
      Some ([file_data s cs ! p] @ take 65535 (drop (Suc p) (file_data s1 cs)), s')"
    using read_loops_pos [OF s1(2) chain1 s1(4) _ _ fits] by fastforce
  moreover have "file_read ptr 0 0 s = read_loops 0 0 [] s"
    using assms(7) f(1,2) by (simp add: file_read_def linorder_not_less [symmetric] word_less_nat_alt [of _ 0])
  moreover have "read_loops 0 0 [] s = read_loops 0 (of_nat 65535) [file_data s cs ! p] s1"
    by (simp only: read_loops_def head)
  moreover have "p < length (file_data s cs)" using p(2) assms(1) by (simp add: fat_ok_def file_data_length)
  ultimately show ?thesis
    using take_Suc_drop [of p "file_data s cs" 65535] same_disk_data(3) [OF s1(3)] by simp
qed

lemma file_read_zero_overruns_witness:
  "\<exists>s bs s'. file_read 0x8000 0 0 s = Some (bs, s') \<and> length bs = 65536"
proof -
  obtain s where s: "fat_ok s" "fd_ready s" "fat_at s 2 = CLUSTER_EOF"
    using demo_fs by metis
  define big where "big = s\<lparr>disk_info := (disk_info s)\<lparr>sectors_per_cluster := 255\<rparr>\<rparr>"
  have b: "fat_ok big" "fat_at big 2 = CLUSTER_EOF" "length (fdtable big) = 1" "spc big = 255"
    using s by (simp_all add: big_def fat_ok_def fs_wf_def geometry_def disk_read_def fat_at_def fd_ready_def spc_def)
  let ?s = "set_fd 0 (demo_fd 65537 1) big"
  have o: "open_at ?s 0 FMODE_READ 65537 [2] 1" "chain_of ?s [2]"
    using demo_open [OF b(2,3), of 1 65537] b(4) by simp_all
  have ok: "fat_ok ?s" and spc: "spc ?s = 255" using b(1,4) by (simp_all add: spc_def)
  have "length (file_data ?s [2]) = 130560" using ok spc by (simp add: file_data_length fat_ok_def)
  with file_read_zero_overruns [where ptr = "0x8000", OF ok o(2,1)] spc show ?thesis
    by (intro exI [of _ ?s]) auto
qed

text \<open>The sector of a cluster wraps: with 8 sectors to a cluster, clusters \<open>c\<close> and \<open>c + 8192\<close>
  have the same sectors, since \<open>(cluster - 2) * sectors_per_cluster\<close> is computed in 16 bits; below
  that it is \<open>data_region + (c - 2) * sectors_per_cluster\<close>.\<close>

theorem file_start_sector_wraps:
  assumes "sectors_per_cluster (disk_info s) = 8" "unat (data_region (disk_info s)) < 2 ^ 18"
  shows "file_start_sector (c + 8192) s = file_start_sector c s
    \<and> (2 \<le> unat c \<and> unat c < 8194 \<longrightarrow>
        unat (file_start_sector c s) = unat (data_region (disk_info s)) + (unat c - 2) * 8)"
proof (rule conjI)
  have "c + 8192 - 2 = (c - 2) + (8192 :: u16)" by simp
  then have "(c + 8192 - 2) * 8 = (c - 2) * 8 + 8192 * (8 :: u16)" by (simp only: distrib_right)
  also have "8192 * (8 :: u16) = 0" by simp
  finally have "(c + 8192 - 2) * 8 = (c - 2) * (8 :: u16)" by simp
  then show "file_start_sector (c + 8192) s = file_start_sector c s"
    by (simp add: file_start_sector_def assms(1) del: distrib_right_numeral)
  show "2 \<le> unat c \<and> unat c < 8194 \<longrightarrow>
        unat (file_start_sector c s) = unat (data_region (disk_info s)) + (unat c - 2) * 8"
  proof
    assume c: "2 \<le> unat c \<and> unat c < 8194"
    then have "unat (c - 2) = unat c - 2" by (simp add: unat_sub word_le_nat_alt)
    moreover have lt: "unat c - 2 < 8192" using c by linarith
    ultimately have m: "unat ((c - 2) * 8) = (unat c - 2) * 8" by (subst unat_mult_lt) simp_all
    then have u: "unat (ucast ((c - 2) * 8) :: u32) = (unat c - 2) * 8" by (simp only: unat_u16_u32)
    have "(ucast (8 :: u8) :: u16) = 8" by simp
    then have fs: "file_start_sector c s = data_region (disk_info s) + ucast ((c - 2) * 8)"
      by (simp only: file_start_sector_def assms(1))
    have "(unat c - 2) * 8 < 65536" using lt by simp
    then have "unat (data_region (disk_info s)) + unat (ucast ((c - 2) * 8) :: u32) < 2 ^ 32"
      unfolding u using assms(2) by simp
    then show "unat (file_start_sector c s) = unat (data_region (disk_info s)) + (unat c - 2) * 8"
      unfolding fs by (subst unat_add_lt) (simp_all only: u len_num1 len_bit0 len_bit1 mult_1_right numeral_times_numeral semiring_norm)
  qed
qed

lemma file_start_sector_wraps_witness:
  "file_start_sector 8194 ((flat_fs 0)\<lparr>disk_info := (disk_info (flat_fs 0))\<lparr>sectors_per_cluster := 8\<rparr>\<rparr>)
   = file_start_sector 2 ((flat_fs 0)\<lparr>disk_info := (disk_info (flat_fs 0))\<lparr>sectors_per_cluster := 8\<rparr>\<rparr>)"
  using file_start_sector_wraps [of "(flat_fs 0)\<lparr>disk_info := (disk_info (flat_fs 0))\<lparr>sectors_per_cluster := 8\<rparr>\<rparr>" 2]
  by (simp add: flat_fs_def)

end
