(* ===== verification/File_Effects.thy ===== *)
theory File_Effects
  imports File_Properties
begin

text \<open>
  What creating and deleting a file do: the effect on the directory and on the FAT together, the
  cluster that a failed creation leaves allocated, and the one descriptor that is never claimed.
\<close>

section \<open>Names that survive the 8.3 fields\<close>

definition valid_name :: "bytes \<Rightarrow> bool" where
  "valid_name n \<longleftrightarrow> (\<exists>b e. n = b @ 0x2e # e \<and> length b \<le> 8 \<and> length e \<le> 3
     \<and> {0, 0x20, 0x2e} \<inter> set b = {} \<and> {0, 0x20} \<inter> set e = {} \<and> b \<noteq> [] \<and> hd b \<noteq> 0xe5)"

lemma cstr_id: "0 \<notin> set s \<Longrightarrow> cstr s = s"
  by (induction s) (auto simp: cstr_def)

lemma takeWhile_pad: "x \<notin> set b \<Longrightarrow> takeWhile (\<lambda>c. c \<noteq> x) (b @ replicate n x) = b"
proof (induction b)
  case Nil
  show ?case by (cases n) auto
qed auto

lemma first_idx_mid: "\<not> Q \<Longrightarrow> (\<And>y. y \<in> set b \<Longrightarrow> \<not> P y) \<Longrightarrow> P x \<Longrightarrow> first_idx P (b @ x # e) = Some (length b)"
  by (induction b) auto

lemma new_entry_valid:
  assumes "valid_name n"
  obtains e where "new_entry n c = Some e" "entry_wf e" "is_file (entry_bytes e)" "slot_string (entry_bytes e) = n"
    "starting_cluster e = c" "de_size e = 0"
proof -
  from assms obtain b x where n: "n = b @ 0x2e # x" "length b \<le> 8" "length x \<le> 3" "0x2e \<notin> set b" "0x20 \<notin> set b" "0 \<notin> set b"
    "0x20 \<notin> set x" "0 \<notin> set x" "b \<noteq> []" "hd b \<noteq> 0xe5"
    by (auto simp: valid_name_def)
  have idx: "first_idx (\<lambda>c. c = 0x2e) n = Some (length b)"
    unfolding n(1) using n(4) by (intro first_idx_mid [of False]) auto
  have name: "take 8 (take (length b) n @ replicate 8 0x20) = b @ replicate (8 - length b) 0x20"
    and ext: "take 3 (drop (length b + 1) n @ replicate 3 0x20) = x @ replicate (3 - length x) 0x20"
    using n(2,3) by (simp_all add: n(1) min_def)
  obtain e where e: "new_entry n c = Some e" by (simp add: new_entry_def idx)
  then have fields: "de_name e = b @ replicate (8 - length b) 0x20" "de_ext e = x @ replicate (3 - length x) 0x20"
    "starting_cluster e = c" "de_size e = 0" "attributes e = 0"
    unfolding name [symmetric] ext [symmetric] by (auto simp: new_entry_def idx)
  have wf: "entry_wf e" using n(2,3) by (simp add: entry_wf_def fields)
  have "entry_bytes e ! 0 = hd b"
    using entry_bytes_nth(1) [OF wf, of 0] n(9) by (simp add: fields nth_append hd_conv_nth)
  moreover have "hd b \<noteq> 0" using n(6,9) by (metis hd_in_set)
  ultimately have isf: "is_file (entry_bytes e)"
    using n(10) entry_bytes_nth(2) [OF wf] by (simp add: is_file_def fields)
  have t: "take 8 (entry_bytes e) = de_name e" "take 3 (drop 8 (entry_bytes e)) = de_ext e"
    using wf by (simp_all add: entry_bytes_def entry_wf_def)
  have "slot_string (entry_bytes e) = cstr (b @ 0x2e # x)"
    unfolding slot_string_def t fields takeWhile_pad [OF n(5)] takeWhile_pad [OF n(7)] ..
  also have "\<dots> = n" unfolding n(1) using n(6,8) by (intro cstr_id) auto
  finally show thesis using that e wf isf fields by blast
qed

section \<open>Creating a file\<close>

lemma file_open_write_alloc:
  assumes "fat_ok s" "fd_at fd s = Some f" "0 \<in> set (fd_name f)"
    and "dir_scan (cstr (fd_name f)) (dir_slots s) = Missing" "first_free s = Some c"
  obtains s2 where "file_open_write fd s = (case new_entry (cstr (fd_name f)) (of_nat c) of
           None \<Rightarrow> Some (E_INVALIDFILENAME, s2)
         | Some entry \<Rightarrow> do {
             (full, s3) \<leftarrow> file_create entry s2;
             if full \<noteq> 0 then Some (E_DIRFULL, s3)
             else do { s4 \<leftarrow> fd_update fd (fd_start entry FMODE_WRITE) s3; Some (0, s4) }
           })"
    "fat_ok s2" "fat_frame s s2" "fd_at fd s2 = Some f" "dir_slots s2 = dir_slots s"
    "\<forall>d. fat_valid s d \<longrightarrow> fat_at s2 d = (if d = of_nat c then CLUSTER_EOF else fat_at s d)"
proof -
  have wf: "fs_wf s" and g: "geometry s" using assms(1) by (simp_all add: fat_ok_def)
  have "dir_scan (cstr (fd_name f)) (dir_slots s) \<noteq> More" using assms(4) by simp
  from get_entry_cases [OF wf assms(3) this] assms(4) obtain s1 where
    s1: "filesystem_get_directory_entry (fd_name f) s = Some (Inl E_FILENOTFOUND, s1)" "cache_only s s1" "fs_wf s1"
    by auto
  have ok1: "fat_ok s1" using s1(2,3) g cache_onlyD(5) [OF s1(2)] by (simp add: fat_ok_def)
  have same: "fat_at s1 = fat_at s" and valid: "fat_valid s1 d = fat_valid s d" and frame: "fat_frame s s1" for d
    using s1(2) cache_only_same_disk [OF s1(2)] by (simp_all add: same_diskD fat_valid_def fat_frame_def cache_only_def)
  have free: "first_free s1 = Some c" using assms(5) same by (simp add: first_free_def)
  have g1: "geometry s1" using ok1 by (simp add: fat_ok_def)
  note c = first_free_valid [OF free g1]
  let ?s1 = "read_sector_cached (fat_region (disk_info s1)) False s1"
  have ok1': "fat_ok ?s1" and valid1: "fat_valid ?s1 d = fat_valid s d" for d
    using ok1 valid by (simp_all add: fat_ok_read_cached fat_valid_def)
  obtain s2 where s2: "fat_set_cluster (of_nat c) CLUSTER_EOF ?s1 = Some s2" "fat_ok s2" "fat_frame ?s1 s2"
      "\<forall>d. fat_valid s d \<longrightarrow> fat_at s2 d = (if d = of_nat c then CLUSTER_EOF else fat_at s d)"
    using fat.upd_ok [OF ok1', of "of_nat c" CLUSTER_EOF] c(1) valid valid1 same by auto
  have alloc: "fat_allocate_start_cluster s1 = Some (of_nat c, s2)"
    using s2(1) c(2) by (simp add: fat_allocate_start_cluster_def fat_find_free_cluster_eq [OF ok1] free)
  have fr: "fat_frame s s2"
    using fat_frame_trans [OF fat_frame_trans [OF frame fat_frame_read_cached] s2(3)] .
  have at2: "fd_at fd s2 = Some f" using fr assms(2) fd_at_cong [of s2 s fd] by (simp add: fat_frame_def)
  show thesis
    using that [of s2] s1(1) alloc c(2) s2(2,4) fr at2 fat_frame_dir [OF g fr] assms(2)
    by (simp add: file_open_write_def)
qed

text \<open>The descriptor \<open>f\<close> of a new name is opened for writing: the effect on all regions.\<close>

lemma file_open_write_start:
  assumes "fat_ok s" "fd_at fd s = Some f" "0 \<in> set (fd_name f)" "valid_name (cstr (fd_name f))"
    and "dir_scan (cstr (fd_name f)) (dir_slots s) = Missing" "first_free s = Some c"
    and "first_idx slot_free (dir_slots s) = Some k"
  obtains e s' where "file_open_write fd s = Some (0, s')" "fat_ok s'" "fd_at fd s' = Some (fd_start e FMODE_WRITE f)"
    "entry_wf e" "is_file (entry_bytes e)" "slot_string (entry_bytes e) = cstr (fd_name f)"
    "starting_cluster e = of_nat c" "de_size e = 0" "dir_slots s' = (dir_slots s)[k := entry_bytes e]"
    "\<forall>d. fat_valid s d \<longrightarrow> fat_at s' d = (if d = of_nat c then CLUSTER_EOF else fat_at s d)"
    "disk_info s' = disk_info s" "length (fdtable s') = length (fdtable s)"
    "\<forall>a. data_region (disk_info s) \<le> a \<longrightarrow> disk s' a = disk s a"
proof -
  have g: "geometry s" using assms(1) by (simp add: fat_ok_def)
  obtain e where e: "new_entry (cstr (fd_name f)) (of_nat c) = Some e" "entry_wf e" "is_file (entry_bytes e)"
    "slot_string (entry_bytes e) = cstr (fd_name f)" "starting_cluster e = of_nat c" "de_size e = 0"
    using new_entry_valid [OF assms(4)] .
  obtain s2 where s2: "file_open_write fd s = do { (full, s3) \<leftarrow> file_create e s2;
             if full \<noteq> 0 then Some (E_DIRFULL, s3)
             else do { s4 \<leftarrow> fd_update fd (fd_start e FMODE_WRITE) s3; Some (0, s4) } }"
    "fat_ok s2" "fat_frame s s2" "fd_at fd s2 = Some f" "dir_slots s2 = dir_slots s"
    "\<forall>d. fat_valid s d \<longrightarrow> fat_at s2 d = (if d = of_nat c then CLUSTER_EOF else fat_at s d)"
    by (rule file_open_write_alloc [OF assms(1-3,5,6)]) (simp add: e(1))
  have wf2: "fs_wf s2" and g2: "geometry s2" using s2(2) by (simp_all add: fat_ok_def)
  from wf2 g2 e(2) obtain s3 where s3: "file_create e s2 = Some (0, s3)" "fs_wf s3" "geometry s3"
      "dir_frame s2 s3" "dir_slots s3 = (dir_slots s)[k := entry_bytes e]"
    by (rule file_create_slots) (use assms(7) s2(5) in auto)
  have at3: "fd_at fd s3 = Some f" using s2(4) s3(4) fd_at_cong [of s3 s2 fd] by (simp add: dir_frame_def)
  define s4 where "s4 = set_fd fd (fd_start e FMODE_WRITE f) s3"
  have at4: "fd_at fd s4 = Some (fd_start e FMODE_WRITE f)" unfolding s4_def by (rule fd_at_set_fd [OF at3])
  have new: "file_open_write fd s = Some (0, s4)"
    using s2(1) s3(1) by (simp add: fd_update_eq [OF at3] s4_def)
  have fat4: "fat_at s4 d = (if d = of_nat c then CLUSTER_EOF else fat_at s d)" if "fat_valid s d" for d
  proof -
    have "fat_valid s2 d" using that fat_frame_valid [OF s2(3)] by simp
    then show ?thesis using dir_frame_fat [OF g2 s3(4)] s2(6) that by (simp add: s4_def)
  qed
  have "disk s4 a = disk s a" if "data_region (disk_info s) \<le> a" for a
  proof -
    have "\<not> a < data_region (disk_info s)" "\<not> a < root_region (disk_info s)"
      using that geometryD(4) [OF g] by (simp_all add: word_le_nat_alt word_less_nat_alt)
    then show ?thesis using s2(3) s3(4) by (simp add: s4_def fat_frame_def dir_frame_def)
  qed
  with new at4 s3 e fat4 s2(3) show thesis
    by (intro that [of s4 e]) (simp_all add: s4_def fat_ok_def dir_frame_def fat_frame_def, simp add: set_fd_def)
qed

text \<open>C19. Creating a file: for a new name that fits the 8.3 fields, with an unused slot and a free cluster
  among 2..255 (with the first free one above them the search overruns its buffer and the call is undefined,
  \<open>fat_search_overruns_sector\<close>), \<open>file_new\<close> returns 0; the first unused slot of the directory now holds an entry with the name,
  size 0 and a start cluster that is a chain of its own in the FAT; a lookup finds that entry; no
  other slot and no other FAT entry has changed.\<close>

theorem file_new_creates:
  assumes "fat_ok s" "fd_ready s" "12 \<le> length filename" "valid_name (canon filename)"
    and "dir_scan (canon filename) (dir_slots s) = Missing" "first_free s = Some c"
    and "first_idx slot_free (dir_slots s) = Some k"
  shows "\<exists>s' e. file_new filename s = Some (0, s') \<and> fat_ok s'
    \<and> dir_slots s' = (dir_slots s)[k := entry_bytes e] \<and> dir_scan (canon filename) (dir_slots s') = Found k
    \<and> starting_cluster e = of_nat c \<and> de_size e = 0 \<and> is_chain (fat_at s') (of_nat c) [of_nat c]
    \<and> (\<forall>d. fat_valid s d \<and> d \<noteq> of_nat c \<longrightarrow> fat_at s' d = fat_at s d)"
proof -
  obtain u f where f: "filename_upper filename = Some u"
    "strcpy (fd_name (fdtable s ! 0)) u = Some (fd_name f)" "0 \<in> set (fd_name f)" "cstr (fd_name f) = canon filename"
    "fd_at 0 (set_fd 0 f s) = Some f"
    "fd_update 0 (\<lambda>f'. f'\<lparr>fd_name := fd_name f\<rparr>) s = Some (set_fd 0 f s)"
    using open_prefix [OF assms(2,3)] by metis
  note at = fd_ready_assign [OF assms(2)]
  define s1 where "s1 = set_fd 0 f s"
  have ok1: "fat_ok s1" and dir1: "dir_slots s1 = dir_slots s" and fat1: "fat_at s1 = fat_at s"
    and free1: "first_free s1 = Some c" and valid1: "fat_valid s1 d = fat_valid s d" for d
    using assms(1,6) by (simp_all add: s1_def first_free_def fat_valid_def)
  have at1: "fd_at 0 s1 = Some f" using f(5) by (simp add: s1_def)
  have missing: "dir_scan (cstr (fd_name f)) (dir_slots s1) = Missing" using assms(5) by (simp add: f(4) dir1)
  obtain e s2 where s2: "file_open_write 0 s1 = Some (0, s2)" "fat_ok s2" "fd_at 0 s2 = Some (fd_start e FMODE_WRITE f)"
    "is_file (entry_bytes e)" "slot_string (entry_bytes e) = canon filename"
    "starting_cluster e = of_nat c" "de_size e = 0" "dir_slots s2 = (dir_slots s)[k := entry_bytes e]"
    "\<forall>d. fat_valid s d \<longrightarrow> fat_at s2 d = (if d = of_nat c then CLUSTER_EOF else fat_at s d)"
    by (rule file_open_write_start [OF ok1 at1 f(3) _ missing free1, unfolded f(4) dir1 fat1 valid1, OF assms(4,7)])
  define s3 where "s3 = set_fd 0 (unclaim (fd_start e FMODE_WRITE f)) s2"
  have new: "file_new filename s = Some (0, s3)"
    using s2(1) by (simp add: file_new_def f(1,2,6) at s1_def [symmetric] fd_update_eq [OF s2(3)] s3_def)
  have g: "geometry s" using assms(1) by (simp add: fat_ok_def)
  note c = first_free_valid [OF assms(6) g]
  have "dir_scan (canon filename) (dir_slots s3) = Found k"
    unfolding s3_def set_fd_fields s2(8) using assms(5) by (intro dir_scan_created [OF assms(7) _ s2(4,5)]) simp
  with new s2 c show ?thesis
    by (intro exI [of _ s3] exI [of _ e]) (simp add: s3_def)
qed

lemma file_new_creates_witness:
  "\<exists>s'. file_new hello_arg (flat_fs 0) = Some (0, s') \<and> dir_scan (cstr hello_name) (dir_slots s') = Found 0"
proof -
  have "valid_name (canon hello_arg)"
    unfolding hello_arg valid_name_def
    by (intro exI [of _ "[0x48, 0x45, 0x4c, 0x4c, 0x4f]"] exI [of _ "[0x43]"]) (simp add: hello_name_def cstr_def)
  from file_new_creates [OF flat_fs_ok flat_fs_ready hello_arg(2) this _ blank_first_free blank_dir(2)]
  show ?thesis by (auto simp: hello_arg blank_dir(1))
qed

text \<open>A failed creation leaks: a name without a dot is rejected with \<open>E_INVALIDFILENAME\<close> only
  after a cluster has been allocated; the cluster stays marked as used in the FAT although no
  directory entry was written.\<close>

theorem file_new_invalid_leaks_cluster:
  assumes "fat_ok s" "fd_ready s" "12 \<le> length filename" "0x2e \<notin> set (canon filename)"
    and "dir_scan (canon filename) (dir_slots s) = Missing" "first_free s = Some c"
  shows "\<exists>s'. file_new filename s = Some (E_INVALIDFILENAME, s') \<and> dir_slots s' = dir_slots s
    \<and> fat_at s (of_nat c) = CLUSTER_FREE \<and> fat_at s' (of_nat c) = CLUSTER_EOF"
proof -
  obtain u f where f: "filename_upper filename = Some u"
    "strcpy (fd_name (fdtable s ! 0)) u = Some (fd_name f)" "0 \<in> set (fd_name f)" "cstr (fd_name f) = canon filename"
    "fd_at 0 (set_fd 0 f s) = Some f"
    "fd_update 0 (\<lambda>f'. f'\<lparr>fd_name := fd_name f\<rparr>) s = Some (set_fd 0 f s)"
    using open_prefix [OF assms(2,3)] by metis
  note at = fd_ready_assign [OF assms(2)]
  define s1 where "s1 = set_fd 0 f s"
  have ok1: "fat_ok s1" and dir1: "dir_slots s1 = dir_slots s" and fat1: "fat_at s1 = fat_at s"
    and free1: "first_free s1 = Some c" and valid1: "fat_valid s1 d = fat_valid s d" for d
    using assms(1,6) by (simp_all add: s1_def first_free_def fat_valid_def)
  have at1: "fd_at 0 s1 = Some f" using f(5) by (simp add: s1_def)
  have missing: "dir_scan (cstr (fd_name f)) (dir_slots s1) = Missing" using assms(5) by (simp add: f(4) dir1)
  have "\<forall>x \<in> set (canon filename). x \<noteq> 0x2e" using assms(4) by auto
  then have "first_idx (\<lambda>c. c = 0x2e) (canon filename) = None" by simp
  then have none: "new_entry (canon filename) (of_nat c) = None" by (simp add: new_entry_def del: first_idx_None)
  obtain s2 where s2: "file_open_write 0 s1 = Some (E_INVALIDFILENAME, s2)" "fd_at 0 s2 = Some f"
    "dir_slots s2 = dir_slots s" "\<forall>d. fat_valid s d \<longrightarrow> fat_at s2 d = (if d = of_nat c then CLUSTER_EOF else fat_at s d)"
    by (rule file_open_write_alloc [OF ok1 at1 f(3) missing free1]) (simp add: f(4) none dir1 fat1 valid1)
  define s3 where "s3 = set_fd 0 (unclaim f) s2"
  have "file_new filename s = Some (E_INVALIDFILENAME, s3)"
    using s2(1) by (simp add: file_new_def f(1,2,6) at s1_def [symmetric] fd_update_eq [OF s2(2)] s3_def)
  moreover have "geometry s" using assms(1) by (simp add: fat_ok_def)
  ultimately show ?thesis
    using s2(3,4) first_free_valid(1) [OF assms(6)] first_free_Some [OF assms(6)]
    by (intro exI [of _ s3]) (simp add: s3_def)
qed

lemma file_new_invalid_leaks_cluster_witness:
  "\<exists>s'. file_new (0x41 # replicate 11 0) (flat_fs 0) = Some (E_INVALIDFILENAME, s') \<and> fat_at s' 2 = CLUSTER_EOF"
proof -
  have "canon (0x41 # replicate 11 0) = [0x41]" by (simp add: canon_def cstr_def upper_def)
  with file_new_invalid_leaks_cluster [OF flat_fs_ok flat_fs_ready _ _ _ blank_first_free, of "0x41 # replicate 11 0"]
  show ?thesis by (auto simp: blank_dir(1))
qed

section \<open>Deleting a file\<close>

text \<open>C20. Deleting a file: \<open>file_delete\<close> returns 0, frees every cluster of the file's chain and no
  other, marks its directory slot as unused and changes no other slot, and the name is not found
  afterwards. (The file is the only one with its name and the directory has an end.)\<close>

theorem file_delete_frees:
  assumes "fat_ok s" "12 \<le> length filename" "dir_scan (canon filename) (dir_slots s) = Found k"
    and "is_chain (fat_at s) (starting_cluster (bytes_entry (dir_slots s ! k))) cs" "distinct cs"
    and "\<forall>d \<in> set cs. fat_valid s d" "ends (dir_slots s)"
    and "\<forall>j < length (dir_slots s). j \<noteq> k \<longrightarrow>
          \<not> (is_file (dir_slots s ! j) \<and> slot_string (dir_slots s ! j) = canon filename)"
  shows "\<exists>s'. file_delete filename s = Some (0, s') \<and> fat_ok s'
    \<and> (\<forall>d. fat_valid s d \<longrightarrow> fat_at s' d = (if d \<in> set cs then CLUSTER_FREE else fat_at s d))
    \<and> dir_slots s' = (dir_slots s)[k := 0xe5 # tl (dir_slots s ! k)]
    \<and> dir_scan (canon filename) (dir_slots s') = Missing"
proof -
  have wf: "fs_wf s" and g: "geometry s" using assms(1) by (simp_all add: fat_ok_def)
  obtain u where u: "filename_upper filename = Some u" "0 \<in> set u" "cstr u = canon filename"
    using filename_upper_canon [OF assms(2)] by metis
  have "dir_scan (cstr u) (dir_slots s) \<noteq> More" using assms(3) u(3) by simp
  from get_entry_cases [OF wf u(2) this] assms(3) u(3) obtain s1 where
    s1: "filesystem_get_directory_entry u s = Some (Inr (bytes_entry (dir_slots s ! k)), s1)" "cache_only s s1" "fs_wf s1"
    by auto
  note same = same_diskD [OF cache_only_same_disk [OF s1(2)]]
  have ok1: "fat_ok s1" using s1(3) g cache_onlyD(5) [OF s1(2)] by (simp add: fat_ok_def)
  have valid: "fat_valid s1 d = fat_valid s d" for d by (simp add: fat_valid_def same)
  have dir1: "dir_slots s1 = dir_slots s" by (rule cache_onlyD(3) [OF s1(2)])
  obtain s2 where s2: "free_clusters (starting_cluster (bytes_entry (dir_slots s ! k))) s1 = Some s2" "fat_ok s2" "fat_frame s1 s2"
      "\<forall>d. fat_valid s d \<longrightarrow> fat_at s2 d = (if d \<in> set cs then CLUSTER_FREE else fat_at s d)"
    using free_clusters_chain [OF ok1, of "starting_cluster (bytes_entry (dir_slots s ! k))" cs] assms(4-6)
    by (auto simp: valid same(2))
  have g1: "geometry s1" using ok1 by (simp add: fat_ok_def)
  have dir2: "dir_slots s2 = dir_slots s" using fat_frame_dir [OF g1 s2(3)] dir1 by simp
  have wf2: "fs_wf s2" and g2: "geometry s2" using s2(2) by (simp_all add: fat_ok_def)
  have found: "dir_scan (cstr u) (dir_slots s2) = Found k" using assms(3) by (simp add: dir2 u(3))
  from mark_free_Found [OF wf2 g2 u(2) found] obtain s3 where
    s3: "filesystem_mark_directory_entry_free u s2 = Some (0, s3)" "fs_wf s3" "geometry s3"
      "dir_frame s2 s3" "dir_slots s3 = (dir_slots s)[k := 0xe5 # tl (dir_slots s ! k)]"
    by (metis dir2)
  have "fat_at s3 d = (if d \<in> set cs then CLUSTER_FREE else fat_at s d)" if "fat_valid s d" for d
  proof -
    have "fat_valid s2 d" using that valid fat_frame_valid [OF s2(3)] by simp
    then show ?thesis using dir_frame_fat [OF g2 s3(4)] s2(4) that by simp
  qed
  moreover have "dir_scan (canon filename) (dir_slots s3) = Missing"
    unfolding s3(5) by (rule dir_scan_marked [OF assms(3,7,8)])
  moreover have "file_delete filename s = Some (0, s3)"
    using u(1) s1(1) s2(1) s3(1) by (simp add: file_delete_def)
  ultimately show ?thesis using s3 by (intro exI [of _ s3]) (simp add: fat_ok_def)
qed

lemma file_delete_frees_witness:
  "\<exists>s s'. file_delete hello_arg s = Some (0, s') \<and> fat_at s 2 = CLUSTER_EOF \<and> fat_at s' 2 = CLUSTER_FREE"
proof -
  obtain s where s: "fat_ok s" "dir_slots s = entry_bytes hello_entry # replicate 15 (replicate 32 0)"
    "fat_at s 2 = CLUSTER_EOF" "fat_valid s 2"
    using demo_fs by metis
  have found: "dir_scan (canon hello_arg) (dir_slots s) = Found 0"
    using hello_entry(2,3) by (simp add: s(2) hello_arg is_file_def)
  have start: "starting_cluster (bytes_entry (dir_slots s ! 0)) = 2"
    using entry_roundtrip [OF hello_entry(1)] by (simp add: s(2)) (simp add: hello_entry_def)
  have others: "\<forall>j < length (dir_slots s). j \<noteq> 0 \<longrightarrow>
      \<not> (is_file (dir_slots s ! j) \<and> slot_string (dir_slots s ! j) = canon hello_arg)"
    unfolding s(2) by (auto simp: nth_Cons is_file_def split: nat.splits)
  have "ends (dir_slots s)" by (simp add: s(2) ends_def replicate_Suc [of 14, simplified])
  then obtain s' where "file_delete hello_arg s = Some (0, s')"
      "\<forall>d. fat_valid s d \<longrightarrow> fat_at s' d = (if d \<in> set [2] then CLUSTER_FREE else fat_at s d)"
    using file_delete_frees [OF s(1) hello_arg(2) found, of "[2]"] others s(3,4) start by auto
  then show ?thesis using s(3,4) by (intro exI [of _ s] exI [of _ s']) simp
qed

section \<open>One descriptor\<close>

text \<open>\<open>file_open\<close> does not claim the descriptor it returns: after a successful open for reading the
  next call of \<open>filesystem_assign_fd\<close> returns descriptor 0 again, so \<open>E_FILELIMIT\<close> is never
  reported and a second open takes the first file's descriptor over.\<close>

theorem open_does_not_claim:
  assumes "fat_ok s" "fd_ready s" "12 \<le> length filename" "dir_scan (canon filename) (dir_slots s) \<noteq> More"
    and "file_open filename FMODE_READ s = Some (0, s')"
  shows "filesystem_assign_fd s' = 0"
  using assms(1-4)
proof (cases rule: file_open_read_cases)
  case (found k s1 f)
  have "s' = set_fd 0 (fd_start (bytes_entry (dir_slots s ! k)) FMODE_READ f) s1" using found(2) assms(5) by simp
  moreover have "flags f AND FD_FLAGS_CLAIMED = 0" using found(6) assms(2) by (simp add: fd_ready_def)
  ultimately show ?thesis
    using found(7) by (cases "fdtable s1") (auto simp: filesystem_assign_fd_def set_fd_def fd_start_def)
qed (use assms(5) in simp)

lemma open_does_not_claim_witness:
  "\<exists>s s'. file_open hello_arg FMODE_READ s = Some (0, s') \<and> filesystem_assign_fd s' = 0"
proof -
  obtain s where s: "fat_ok s" "fd_ready s" "dir_slots s = entry_bytes hello_entry # replicate 15 (replicate 32 0)"
    using demo_fs by metis
  have found: "dir_scan (canon hello_arg) (dir_slots s) = Found 0"
    using hello_entry(2,3) by (simp add: s(3) hello_arg is_file_def)
  then have more: "dir_scan (canon hello_arg) (dir_slots s) \<noteq> More" by simp
  from s(1,2) hello_arg(2) more obtain s' where "file_open hello_arg FMODE_READ s = Some (0, s')"
    by (cases rule: file_open_read_cases) (use found in auto)
  with open_does_not_claim [OF s(1,2) hello_arg(2) more this] show ?thesis by blast
qed

end
