(* ===== verification/Process_Loader.thy ===== *)
theory Process_Loader
  imports Scheduler_Properties Page_Memory File_Effects
begin

text \<open>
  Loading and starting programs: \<open>process_load\<close>, \<open>process_spawn\<close> and \<open>process_exit\<close> of
  \<open>kernel/process.c\<close>, the boot sequence of \<open>kernel/main.c\<close>, and the banked RAM of
  \<open>kernel/ram.asm\<close>. The kernel state joins the scheduler, the page table, the file system and the
  memory: addresses from 0x8000 on are banked, the others common to all banks.
\<close>

abbreviation (input) PROGRAM_KB_LIMIT :: u16 where "PROGRAM_KB_LIMIT \<equiv> 28672"
abbreviation (input) PHDR_ID_EXEC :: u8 where "PHDR_ID_EXEC \<equiv> 0x0a"
abbreviation (input) USER_RAM_START_PAGE :: u8 where "USER_RAM_START_PAGE \<equiv> 0x80"
abbreviation (input) E_INVALIDPAGE :: int where "E_INVALIDPAGE \<equiv> -10"
abbreviation (input) E_INVALIDHEADER :: int where "E_INVALIDHEADER \<equiv> -11"

record kernel = sched +
  kmem :: mem
  kfs :: fs
  banked :: "u8 \<Rightarrow> u16 \<Rightarrow> u8"
  common :: "u16 \<Rightarrow> u8"
  bank_current :: u8
  numbanks :: u16
  startup_flags :: u8

section \<open>Banked memory\<close>

definition ram_bank_set :: "u8 \<Rightarrow> kernel \<Rightarrow> kernel" where
  "ram_bank_set b k = k\<lparr>bank_current := b\<rparr>"

text \<open>A byte stored with bank \<open>b\<close> selected.\<close>

definition poke :: "u8 \<Rightarrow> u16 \<Rightarrow> u8 \<Rightarrow> kernel \<Rightarrow> kernel" where
  "poke b a v k =
     (if 0x8000 \<le> a then k\<lparr>banked := (banked k)(b := (banked k b)(a := v))\<rparr>
      else k\<lparr>common := (common k)(a := v)\<rparr>)"

text \<open>Bytes stored at increasing addresses, which wrap after 0xffff.\<close>

fun store_bytes :: "u8 \<Rightarrow> u16 \<Rightarrow> bytes \<Rightarrow> kernel \<Rightarrow> kernel" where
  "store_bytes b a [] k = k"
| "store_bytes b a (v # vs) k = store_bytes b (a + 1) vs (poke b a v k)"

text \<open>\<open>ram_copy\<close>: each byte is written with the destination bank selected, and the old bank is
  selected again at the end; \<open>n > 0\<close> in all its calls.\<close>

definition ram_copy :: "u16 \<Rightarrow> u8 \<Rightarrow> bytes \<Rightarrow> kernel \<Rightarrow> kernel" where
  "ram_copy dst bnk src k = store_bytes bnk dst src k"

section \<open>Processes\<close>

text \<open>The loop of \<open>process_spawn\<close> over the arguments: \<open>arg_buffer\<close>, the offset of
  \<open>arg_buffer_ptr\<close> in it, and \<open>argv_buffer\<close>. Each argument is the memory at \<open>argv[i]\<close>.\<close>

fun spawn_args :: "bytes list \<Rightarrow> nat \<Rightarrow> nat \<Rightarrow> bytes \<Rightarrow> u16 list \<Rightarrow> (bytes \<times> u16 list) option" where
  "spawn_args [] i off arg_buffer argv_buffer = Some (arg_buffer, argv_buffer)"
| "spawn_args (s1 # ss) i off arg_buffer argv_buffer =
     (if 0 \<in> set s1 then do {
        buf \<leftarrow> memcpy arg_buffer off (cstr s1 @ [0]);
        if i < length argv_buffer
        then spawn_args ss (Suc i) (off + length (cstr s1) + 1) buf (argv_buffer[i := 0xf820 + of_nat off])
        else None
      } else None)"

text \<open>\<open>arg0\<close> and \<open>argv0\<close> are the uninitialised contents of the two local arrays.\<close>

definition process_spawn :: "bytes \<Rightarrow> u16 list \<Rightarrow> int \<Rightarrow> bytes list \<Rightarrow> u16 \<Rightarrow> kernel \<Rightarrow> (int \<times> kernel) option" where
  "process_spawn arg0 argv0 pd argv argc k =
     (if length argv < unat argc then None
      else do {
        (arg_buffer, argv_buffer) \<leftarrow> spawn_args (take (unat argc) argv) 0 0 arg0 argv0;
        d \<leftarrow> process_info pd k;
        let k1 = ram_copy 0xf800 (bank d) (put16 argc) k;
        let k2 = ram_copy 0xf810 (bank d) (take 16 (concat (map put16 argv_buffer))) k1;
        let k3 = ram_copy 0xf820 (bank d) arg_buffer k2;
        Some (scheduler_add pd k3)
      })"

text \<open>The initial stack frame: saved stack pointer, register space, \<open>argv\<close>, \<open>argc\<close>, the return
  address of the program and its entry point.\<close>

definition initial_frame :: "u8 \<Rightarrow> u8 \<Rightarrow> kernel \<Rightarrow> kernel" where
  "initial_frame b base_page k =
     (let k1 = poke b 0xfffe 0xec (poke b 0xffff 0xf7 k);
          k2 = poke b 0xf7fc 0 (poke b 0xf7fd 0 (poke b 0xf7fe 0 (poke b 0xf7ff 0 k1)));
          k3 = poke b 0xf7fa 0 (poke b 0xf7fb 0 k2) in
      poke b 0xf7f8 0 (poke b 0xf7f9 base_page k3))"

text \<open>\<open>process_load\<close>; \<open>hp\<close> is the address of the local \<open>header\<close>. Two cases that the code does not check have no
  result here. When no page is left it goes on with the result -1 of \<open>memory_allocate\<close>, bank 255: \<open>ram_bank_test\<close>
  finds at most 255 banks, so that no RAM of its own answers there. And an image that passes 0xffff is
  stored from address 0 on over the kernel.\<close>

definition process_load :: "u16 \<Rightarrow> bytes \<Rightarrow> kernel \<Rightarrow> (int \<times> kernel) option" where
  "process_load hp filename k =
     do {
       (fd, fs1) \<leftarrow> file_open filename FMODE_READ (kfs k);
       if fd < 0 then Some (fd, k\<lparr>kfs := fs1\<rparr>)
       else do {
         (header, fs2) \<leftarrow> file_read hp 2 fd fs1;
         let k2 = k\<lparr>kfs := fs2\<rparr>;
         if length header \<noteq> 2 then Some (E_INVALIDHEADER, k2)
         else if header ! 0 \<noteq> PHDR_ID_EXEC then Some (E_INVALIDHEADER, k2)
         else if header ! 1 < USER_RAM_START_PAGE then Some (E_INVALIDPAGE, k2)
         else do {
           let base_addr = push_bit 8 (ucast (header ! 1) :: u16);
           let pd = process_allocate k2;
           let (page, mem') = memory_allocate (kmem k2);
           k3 \<leftarrow> process_update pd (\<lambda>d. d\<lparr>base_address := base_addr, bank := of_int page\<rparr>) (k2\<lparr>kmem := mem'\<rparr>);
           let old_bank = bank_current k3;
           d \<leftarrow> process_info pd k3;
           if page < 0 then None
           else do {
             let k4 = ram_bank_set (bank d) k3;
             (data, fs3) \<leftarrow> file_read base_addr PROGRAM_KB_LIMIT fd (kfs k4);
             if 0x10000 < unat base_addr + length data then None
             else do {
               let k5 = store_bytes (bank_current k4) base_addr data (k4\<lparr>kfs := fs3\<rparr>);
               let k6 = initial_frame (bank_current k5) (header ! 1) k5;
               let k7 = ram_bank_set old_bank k6;
               k8 \<leftarrow> process_update pd (\<lambda>d. d\<lparr>termstatus := 0, sigstatus := 0,
                        sighandlers := \<lparr>cancel = 0, brk = 0\<rparr>\<rparr>) k7;
               Some (pd, k8)
             }
           }
         }
       }
     }"

definition process_exit :: "int \<Rightarrow> kernel \<Rightarrow> kernel option" where
  "process_exit code k = scheduler_exit (scheduler_current_pid k) code k"

section \<open>Boot\<close>

definition COMMAND_EXE :: bytes where
  "COMMAND_EXE = [0x43, 0x4f, 0x4d, 0x4d, 0x41, 0x4e, 0x44, 0x2e, 0x45, 0x58, 0x45, 0]"

text \<open>\<open>main\<close> of the kernel, up to the endless loop at its end; \<open>banks\<close> is what \<open>ram_bank_test\<close> finds.
  The result is the value of \<open>pd\<close>, negative when the shell could not be loaded. Console output
  and the wait for a key leave this state alone.\<close>

definition kernel_main :: "bytes \<Rightarrow> u16 list \<Rightarrow> u16 \<Rightarrow> u8 \<Rightarrow> kernel \<Rightarrow> (int \<times> kernel) option" where
  "kernel_main arg0 argv0 hp banks k0 =
     do {
       let k1 = k0\<lparr>kfs := snd (filesystem_init (kfs k0))\<rparr>;
       let k2 = ram_bank_set (banks - 1) (k1\<lparr>numbanks := ucast banks\<rparr>);
       (e, mem') \<leftarrow> memory_init (int (unat banks)) (kmem k2);
       let k3 = terminal_init (scheduler_init (process_init (k2\<lparr>kmem := mem'\<rparr>)));
       let k4 = k3\<lparr>startup_flags := 0\<rparr>;
       (pd, k5) \<leftarrow> process_load hp COMMAND_EXE k4;
       if pd < 0 then Some (pd, k5)
       else do {
         (e2, k6) \<leftarrow> process_spawn arg0 argv0 pd [] 0 k5;
         Some (pd, k6)
       }
     }"

section \<open>Memory: lemmas\<close>

lemma poke_fields [simp]:
  "kmem (poke b a v k) = kmem k" "kfs (poke b a v k) = kfs k" "bank_current (poke b a v k) = bank_current k"
  "process_table (poke b a v k) = process_table k" "process_current_ptr (poke b a v k) = process_current_ptr k"
  "schedule_table (poke b a v k) = schedule_table k" "num_scheduled (poke b a v k) = num_scheduled k"
  "current_scheduled (poke b a v k) = current_scheduled k" "schedule_current_pid (poke b a v k) = schedule_current_pid k"
  by (simp_all add: poke_def)

lemma poke_banked:
  "banked (poke b a v k) b' a' = (if 0x8000 \<le> a \<and> b' = b \<and> a' = a then v else banked k b' a')"
  by (simp add: poke_def)

lemma poke_common: "0x8000 \<le> a \<Longrightarrow> common (poke b a v k) = common k"
  by (simp add: poke_def)

lemma store_bytes_fields [simp]:
  "kmem (store_bytes b a vs k) = kmem k" "kfs (store_bytes b a vs k) = kfs k"
  "bank_current (store_bytes b a vs k) = bank_current k"
  "process_table (store_bytes b a vs k) = process_table k" "process_current_ptr (store_bytes b a vs k) = process_current_ptr k"
  "schedule_table (store_bytes b a vs k) = schedule_table k" "num_scheduled (store_bytes b a vs k) = num_scheduled k"
  "current_scheduled (store_bytes b a vs k) = current_scheduled k"
  "schedule_current_pid (store_bytes b a vs k) = schedule_current_pid k"
  by (induction vs arbitrary: a k) simp_all

text \<open>A block that ends before the top of memory, in the banked half.\<close>

lemma store_bytes_banked:
  assumes "0x8000 \<le> unat a" "unat a + length vs \<le> 0x10000"
  shows "banked (store_bytes b a vs k) b' a' =
      (if b' = b \<and> unat a \<le> unat a' \<and> unat a' < unat a + length vs then vs ! (unat a' - unat a) else banked k b' a')"
    and "common (store_bytes b a vs k) = common k"
proof -
  have "banked (store_bytes b a vs k) b' a' =
      (if b' = b \<and> unat a \<le> unat a' \<and> unat a' < unat a + length vs then vs ! (unat a' - unat a) else banked k b' a')
    \<and> common (store_bytes b a vs k) = common k"
    using assms
  proof (induction vs arbitrary: a k)
    case (Cons v vs)
    have hi: "0x8000 \<le> a" using Cons.prems(1) by (simp add: word_le_nat_alt)
    show ?case
    proof (cases vs)
      case Nil
      then show ?thesis using hi by (auto simp: poke_banked poke_common word_unat_eq_iff)
    next
      case (Cons w ws)
      then have a1: "unat (a + 1) = unat a + 1" using Cons.prems(2) by (subst unat_Suc_word) auto
      from Cons.IH [of "a + 1" "poke b a v k"] Cons.prems a1
      have IH: "banked (store_bytes b (a + 1) vs (poke b a v k)) b' a' =
          (if b' = b \<and> unat a + 1 \<le> unat a' \<and> unat a' < unat a + 1 + length vs then vs ! (unat a' - (unat a + 1))
           else banked (poke b a v k) b' a')"
        "common (store_bytes b (a + 1) vs (poke b a v k)) = common (poke b a v k)" by simp_all
      show ?thesis
      proof (cases "unat a' = unat a")
        case True
        then show ?thesis using IH hi by (simp add: poke_banked poke_common word_unat_eq_iff)
      next
        case False
        then have "a' \<noteq> a" by auto
        moreover have "unat a' - unat a = Suc (unat a' - (unat a + 1))" if "unat a + 1 \<le> unat a'" using that by simp
        ultimately show ?thesis using False IH hi by (auto simp: poke_banked poke_common)
      qed
    qed
  qed auto
  then show "banked (store_bytes b a vs k) b' a' =
      (if b' = b \<and> unat a \<le> unat a' \<and> unat a' < unat a + length vs then vs ! (unat a' - unat a) else banked k b' a')"
    "common (store_bytes b a vs k) = common k" by blast+
qed

lemma ram_bank_set_fields [simp]:
  "kmem (ram_bank_set b k) = kmem k" "kfs (ram_bank_set b k) = kfs k" "banked (ram_bank_set b k) = banked k"
  "common (ram_bank_set b k) = common k" "bank_current (ram_bank_set b k) = b"
  "process_table (ram_bank_set b k) = process_table k" "schedule_table (ram_bank_set b k) = schedule_table k"
  "num_scheduled (ram_bank_set b k) = num_scheduled k" "current_scheduled (ram_bank_set b k) = current_scheduled k"
  by (simp_all add: ram_bank_set_def)

lemma base_addr_unat: "unat (push_bit 8 (ucast (g :: u8) :: u16)) = 256 * unat g"
proof -
  have "unat (ucast g :: u16) < 256" using unat_u8_less by (simp only: unat_u8_u16)
  then have "unat ((ucast g :: u16) * 256) = unat (ucast g :: u16) * 256" by (subst unat_mult_lt) simp_all
  then show ?thesis by (simp add: push_bit_eq_mult unat_u8_u16)
qed

end
