(* ===== verification/Process_Properties.thy ===== *)
theory Process_Properties
  imports Process_Loader
begin

text \<open>
  What loading, spawning and ending a process do to memory, to the process table and to the
  schedule, and where a full process table or a long argument list leads.
\<close>

section \<open>The initial stack frame\<close>

text \<open>A little-endian word in bank \<open>b\<close>.\<close>

definition peek16 :: "kernel \<Rightarrow> u8 \<Rightarrow> u16 \<Rightarrow> u16" where
  "peek16 k b a = le16 [banked k b a, banked k b (a + 1)] 0"

lemma initial_frame_fields [simp]:
  "kmem (initial_frame b g k) = kmem k" "kfs (initial_frame b g k) = kfs k"
  "bank_current (initial_frame b g k) = bank_current k" "process_table (initial_frame b g k) = process_table k"
  "schedule_table (initial_frame b g k) = schedule_table k" "num_scheduled (initial_frame b g k) = num_scheduled k"
  "current_scheduled (initial_frame b g k) = current_scheduled k" "common (initial_frame b g k) = common k"
  by (simp_all add: initial_frame_def Let_def poke_common)

lemma initial_frame_banked:
  "banked (initial_frame b g k) b' a =
    (if b' \<noteq> b then banked k b' a
     else if a = 0xffff then 0xf7 else if a = 0xfffe then 0xec
     else if a \<in> {0xf7f8, 0xf7fa, 0xf7fb, 0xf7fc, 0xf7fd, 0xf7fe, 0xf7ff} then 0
     else if a = 0xf7f9 then g else banked k b a)"
  by (simp add: initial_frame_def Let_def poke_banked)

lemma initial_frame_below:
  assumes "unat a < 0xf7f8"
  shows "banked (initial_frame b g k) b' a = banked k b' a"
proof -
  have "a \<noteq> 0xffff \<and> a \<noteq> 0xfffe \<and> a \<notin> {0xf7f8, 0xf7f9, 0xf7fa, 0xf7fb, 0xf7fc, 0xf7fd, 0xf7fe, 0xf7ff}"
    using assms by auto
  then show ?thesis by (simp add: initial_frame_banked)
qed

lemma entry_point_word: "le16 [0, g] 0 = push_bit 8 (ucast g :: u16)"
  by (simp add: word_unat_eq_iff unat_le16 base_addr_unat)

section \<open>Loading\<close>

text \<open>The image of a program: the bytes of its file.\<close>

definition image_of :: "fs \<Rightarrow> DirectoryEntry_T \<Rightarrow> u16 list \<Rightarrow> bytes" where
  "image_of s e cs = take (unat (de_size e)) (file_data s cs)"

text \<open>Opening a program and reading its header.\<close>

lemma load_header:
  assumes "fat_ok s" "fd_ready s" "12 \<le> length filename" "dir_scan (canon filename) (dir_slots s) = Found i"
    and "e = bytes_entry (dir_slots s ! i)" "is_chain (fat_at s) (starting_cluster e) cs"
    and "unat (de_size e) \<le> 512 * (spc s * length cs)" "img = image_of s e cs" "2 \<le> length img" "0x6000 \<le> hp"
  obtains s1 s2 where "file_open filename FMODE_READ s = Some (0, s1)" "file_read hp 2 0 s1 = Some ([img ! 0, img ! 1], s2)"
    "fat_ok s2" "same_disk s s2" "open_at s2 0 FMODE_READ (de_size e) cs 2" "chain_of s2 cs"
    "unat (de_size e) \<le> 512 * (spc s2 * length cs)" "length img = unat (de_size e)" "file_data s2 cs = file_data s cs"
proof -
  have len: "length img = unat (de_size e)"
    using assms(1,7) by (simp add: assms(8) image_of_def fat_ok_def file_data_length)
  obtain s1 where s1: "file_open filename FMODE_READ s = Some (0, s1)" "fat_ok s1" "same_disk s s1"
    "open_at s1 0 FMODE_READ (de_size e) cs 0" "chain_of s1 cs"
    using open_read_start [OF assms(1-6)] .
  have cap1: "unat (de_size e) \<le> 512 * (spc s1 * length cs)"
    using assms(7) same_disk_data(1) [OF s1(3)] by simp
  have m: "min 2 (unat (de_size e) - 0) = 2" using assms(9) len by simp
  obtain s2 where s2: "file_read hp (of_nat 2) 0 s1 = Some (take 2 (drop 0 (file_data s1 cs)), s2)" "fat_ok s2"
      "same_disk s1 s2" "open_at s2 0 FMODE_READ (de_size e) cs 2"
    using file_read_pos [OF s1(2,5,4) cap1 _ assms(10), of 2] unfolding m add_0 by auto
  have data: "file_data s1 cs = file_data s cs" by (rule same_disk_data(3) [OF s1(3)])
  have "take 2 (file_data s cs) = take 2 img" using assms(9) by (simp add: assms(8) image_of_def min_def split: if_splits)
  also have "\<dots> = [img ! 0, img ! 1]" using assms(9) by (cases img; cases "tl img") auto
  finally have read: "file_read hp 2 0 s1 = Some ([img ! 0, img ! 1], s2)" using s2(1) data by simp
  have same: "same_disk s s2" using s1(3) s2(3) by (rule same_disk_trans)
  show thesis
    using that [OF s1(1) read s2(2) same] s2(4) s1(5) chain_of_same_disk [OF s2(3)] cap1 same_disk_data(1) [OF s2(3)]
      same_disk_data(3) [OF same] len by simp
qed

lemma process_load_ok:
  assumes fs: "fat_ok (kfs k)" "fd_ready (kfs k)" "12 \<le> length filename"
      "dir_scan (canon filename) (dir_slots (kfs k)) = Found i"
      "e = bytes_entry (dir_slots (kfs k) ! i)" "is_chain (fat_at (kfs k)) (starting_cluster e) cs"
      "unat (de_size e) \<le> 512 * (spc (kfs k) * length cs)"
    and img: "img = image_of (kfs k) e cs" "2 \<le> length img" "img ! 0 = PHDR_ID_EXEC" "USER_RAM_START_PAGE \<le> img ! 1"
    and free: "process_allocate k = int pd" "memory_allocate (kmem k) = (int page, mem')"
    and fits: "256 * unat (img ! 1) + min 28672 (length img - 2) \<le> 0xf7ec" and hp: "0x6000 \<le> hp"
  shows "\<exists>k'. process_load hp filename k = Some (int pd, k')
    \<and> (\<forall>j < min 28672 (length img - 2). banked k' (of_nat page) (of_nat (256 * unat (img ! 1) + j)) = img ! (2 + j))
    \<and> peek16 k' (of_nat page) 0xfffe = 0xf7ec \<and> peek16 k' (of_nat page) (0xf7ec + 12) = of_nat (256 * unat (img ! 1))
    \<and> peek16 k' (of_nat page) 0xf7fa = 0 \<and> peek16 k' (of_nat page) 0xf7fc = 0 \<and> peek16 k' (of_nat page) 0xf7fe = 0
    \<and> process_info (int pd) k' = Some \<lparr>base_address = of_nat (256 * unat (img ! 1)), bank = of_nat page,
        termstatus = 0, sigstatus = 0, sighandlers = \<lparr>cancel = 0, brk = 0\<rparr>\<rparr>
    \<and> (\<forall>q. q \<noteq> int pd \<longrightarrow> process_info q k' = process_info q k)
    \<and> (\<forall>b a. b \<noteq> of_nat page \<longrightarrow> banked k' b a = banked k b a)
    \<and> common k' = common k \<and> bank_current k' = bank_current k \<and> kmem k' = mem' \<and> same_disk (kfs k) (kfs k')"
proof -
  obtain s1 s2 where s: "file_open filename FMODE_READ (kfs k) = Some (0, s1)" "file_read hp 2 0 s1 = Some ([img ! 0, img ! 1], s2)"
    "fat_ok s2" "same_disk (kfs k) s2" "open_at s2 0 FMODE_READ (de_size e) cs 2" "chain_of s2 cs"
    "unat (de_size e) \<le> 512 * (spc s2 * length cs)" "length img = unat (de_size e)" "file_data s2 cs = file_data (kfs k) cs"
    using load_header [OF fs img(1,2) hp] .
  define g where "g = img ! 1"
  let ?b = "of_nat page :: u8"
  define base where "base = push_bit 8 (ucast g :: u16)"
  have base: "unat base = 256 * unat g" unfolding base_def by (rule base_addr_unat)
  then have base_nat: "base = of_nat (256 * unat g)" by (metis of_nat_unat word_of_nat_eq_iff ucast_id unsigned_ucast_eq)
  have g: "0x80 \<le> unat g" using img(4) by (simp add: word_le_nat_alt g_def)
  then have hi: "0x8000 \<le> unat base" "0x6000 \<le> base" using base by (simp_all add: word_le_nat_alt)
  define data where "data = take (min 28672 (unat (de_size e) - 2)) (drop 2 (file_data s2 cs))"
  obtain s3 where s3: "file_read base (of_nat 28672) 0 s2 = Some (data, s3)" "same_disk s2 s3"
    using file_read_pos [OF s(3,6,5,7) _ hi(2), of 28672] s(8) img(2) unfolding data_def by auto
  have data: "data = take (min 28672 (length img - 2)) (drop 2 img)"
    unfolding s(8) unfolding data_def img(1) image_of_def s(9) by (simp add: drop_take)
  then have dlen: "length data = min 28672 (length img - 2)" by simp
  have alloc: "process_allocate (k\<lparr>kfs := s2\<rparr>) = int pd" using free(1) by (simp add: process_allocate_def)
  define d where "d = process_table k ! pd"
  have pd: "pd < length (process_table k)" using procslots.find_free [OF free(1)] by simp
  define d1 where "d1 = d\<lparr>base_address := base, bank := ?b\<rparr>"
  define k3 where "k3 = k\<lparr>kfs := s2, kmem := mem', process_table := (process_table k)[pd := d1]\<rparr>"
  have upd3: "process_update (int pd) (\<lambda>d. d\<lparr>base_address := base, bank := of_int (int page)\<rparr>) (k\<lparr>kfs := s2, kmem := mem'\<rparr>) = Some k3"
    using pd by (simp add: process_update_def process_info_def k3_def d1_def d_def)
  have info3: "process_info (int pd) k3 = Some d1" using pd by (simp add: process_info_def k3_def)
  define k5 where "k5 = store_bytes ?b base data (ram_bank_set ?b k3\<lparr>kfs := s3\<rparr>)"
  define k7 where "k7 = ram_bank_set (bank_current k) (initial_frame ?b g k5)"
  have k5: "process_table k5 = (process_table k)[pd := d1]" "kmem k5 = mem'" "kfs k5 = s3" "bank_current k5 = ?b"
    by (simp_all add: k5_def k3_def)
  define d2 where "d2 = d1\<lparr>termstatus := 0, sigstatus := 0, sighandlers := \<lparr>cancel = 0, brk = 0\<rparr>\<rparr>"
  define k8 where "k8 = k7\<lparr>process_table := (process_table k)[pd := d2]\<rparr>"
  have upd8: "process_update (int pd) (\<lambda>d. d\<lparr>termstatus := 0, sigstatus := 0, sighandlers := \<lparr>cancel = 0, brk = 0\<rparr>\<rparr>) k7 = Some k8"
    using pd by (simp add: process_update_def process_info_def k7_def k8_def k5(1) d2_def)
  have k3: "bank_current k3 = bank_current k" "kfs k3 = s2" "bank d1 = ?b"
    by (simp_all add: k3_def d1_def)
  have fits': "256 * unat g + length data \<le> 0xf7ec" using fits by (simp add: dlen g_def)
  have top: "unat base + length data \<le> 0x10000" using fits' base by simp
  have ng: "\<not> g < USER_RAM_START_PAGE" using img(4) by (simp add: g_def)
  have load: "process_load hp filename k = Some (int pd, k8)"
    by (simp add: process_load_def s(1) s(2) [folded g_def] img(3) ng base_def [symmetric] alloc free(2) upd3 [simplified]
        info3 k3 s3(1) [simplified] top [unfolded not_less [symmetric], simplified] k5_def [symmetric] k5(4) k7_def [symmetric] upd8 Let_def)
  have k8: "banked k8 = banked (initial_frame ?b g k5)" "common k8 = common k5" "bank_current k8 = bank_current k"
      "kmem k8 = mem'" "kfs k8 = s3" "process_table k8 = (process_table k)[pd := d2]"
    by (simp_all add: k8_def k7_def k5)
  note st = store_bytes_banked [OF hi(1) top, of ?b "ram_bank_set ?b k3\<lparr>kfs := s3\<rparr>", folded k5_def]
  have img_at: "banked k8 ?b (of_nat (256 * unat g + j)) = img ! (2 + j)" if j: "j < min 28672 (length img - 2)" for j
  proof -
    have jd: "j < length data" using j dlen by simp
    have lt: "256 * unat g + j < 65536" using fits' jd by linarith
    define aa :: u16 where "aa = of_nat (256 * unat g + j)"
    have a: "unat aa = 256 * unat g + j" using lt unfolding aa_def by (rule unat_of_nat_u16)
    have "banked k8 ?b aa = banked k5 ?b aa"
      unfolding k8(1) using fits' jd a by (intro initial_frame_below) linarith
    also have "\<dots> = data ! j" using jd base by (simp add: st(1) a)
    also have "\<dots> = img ! (2 + j)" using j img(2) by (simp add: data nth_drop [of 2 img j])
    finally show ?thesis unfolding aa_def .
  qed
  have frame: "peek16 k8 ?b 0xfffe = 0xf7ec" "peek16 k8 ?b (0xf7ec + 12) = base"
    by (simp_all add: peek16_def k8(1) initial_frame_banked entry_point_word base_def) (simp add: le16_def)
  have zeros: "peek16 k8 ?b 0xf7fa = 0" "peek16 k8 ?b 0xf7fc = 0" "peek16 k8 ?b 0xf7fe = 0"
    by (simp_all add: peek16_def k8(1) initial_frame_banked le16_def)
  have info: "process_info (int pd) k8 = Some \<lparr>base_address = base, bank = ?b, termstatus = 0, sigstatus = 0,
      sighandlers = \<lparr>cancel = 0, brk = 0\<rparr>\<rparr>"
    using pd by (simp add: process_info_def k8 d2_def d1_def)
  have others: "process_info q k8 = process_info q k" if "q \<noteq> int pd" for q
    using that by (auto simp: process_info_def k8 nth_list_update)
  have banks: "banked k8 b a = banked k b a" if "b \<noteq> ?b" for b a
    using that by (simp add: k8(1) initial_frame_banked st(1) k3_def)
  have "common k8 = common k" by (simp add: k8(2) st(2) k3_def)
  moreover have "same_disk (kfs k) (kfs k8)" using same_disk_trans [OF s(4) s3(2)] by (simp add: k8(5))
  ultimately show ?thesis
    using load img_at frame zeros info others banks k8(3,4) unfolding g_def base_nat by blast
qed

section \<open>Spawning\<close>

text \<open>The byte and the word at an address given as a number.\<close>

definition peek8 :: "kernel \<Rightarrow> u8 \<Rightarrow> nat \<Rightarrow> u8" where
  "peek8 k b n = banked k b (of_nat n)"

definition peek_word :: "kernel \<Rightarrow> u8 \<Rightarrow> nat \<Rightarrow> u16" where
  "peek_word k b n = le16 [peek8 k b n, peek8 k b (n + 1)] 0"

lemma peek8_store:
  assumes "0x8000 \<le> unat a" "unat a + length vs \<le> 0x10000" "n < 0x10000"
  shows "peek8 (store_bytes b a vs k) b' n =
    (if b' = b \<and> unat a \<le> n \<and> n < unat a + length vs then vs ! (n - unat a) else peek8 k b' n)"
  using unat_of_nat_u16 [of n] assms by (simp add: peek8_def store_bytes_banked)

text \<open>What \<open>process_spawn\<close> has to build: the strings one after the other, and where each starts.\<close>

definition args_block :: "bytes list \<Rightarrow> bytes" where
  "args_block argv = concat (map (\<lambda>s. cstr s @ [0]) argv)"

definition arg_offset :: "bytes list \<Rightarrow> nat \<Rightarrow> nat" where
  "arg_offset argv i = length (args_block (take i argv))"

lemma args_block_simps [simp]:
  "args_block [] = []" "args_block (s # ss) = cstr s @ 0 # args_block ss"
  by (simp_all add: args_block_def)

lemma arg_offset_simps [simp]:
  "arg_offset argv 0 = 0" "arg_offset (s # ss) (Suc i) = length (cstr s) + 1 + arg_offset ss i"
  by (simp_all add: arg_offset_def)

lemma spawn_args_correct:
  assumes "\<forall>s \<in> set ss. 0 \<in> set s" "off + length (args_block ss) \<le> length buf" "i + length ss \<le> length ptrs"
  shows "spawn_args ss i off buf ptrs =
    Some (take off buf @ args_block ss @ drop (off + length (args_block ss)) buf,
      take i ptrs @ map (\<lambda>j. 0xf820 + of_nat (off + arg_offset ss j)) [0..<length ss] @ drop (i + length ss) ptrs)"
  using assms
proof (induction ss arbitrary: i off buf ptrs)
  case (Cons s ss)
  define n where "n = length (cstr s) + 1"
  define buf' where "buf' = take off buf @ (cstr s @ [0]) @ drop (off + n) buf"
  have fits: "off + n + length (args_block ss) \<le> length buf" using Cons.prems(2) by (simp add: n_def)
  then have copy: "memcpy buf off (cstr s @ [0]) = Some buf'" by (simp add: memcpy_def buf'_def n_def)
  have len: "length buf' = length buf" using fits by (simp add: buf'_def n_def)
  have IH: "spawn_args ss (Suc i) (off + n) buf' (ptrs[i := 0xf820 + of_nat off]) =
    Some (take (off + n) buf' @ args_block ss @ drop (off + n + length (args_block ss)) buf',
      take (Suc i) (ptrs[i := 0xf820 + of_nat off])
        @ map (\<lambda>j. 0xf820 + of_nat (off + n + arg_offset ss j)) [0..<length ss]
        @ drop (Suc i + length ss) (ptrs[i := 0xf820 + of_nat off]))"
    using Cons.prems fits len by (intro Cons.IH) simp_all
  have start: "take (off + n) buf' = take off buf @ cstr s @ [0]" using fits by (simp add: buf'_def n_def)
  have rest: "drop (off + n + m) buf' = drop (off + n + m) buf" for m
    using fits by (simp add: buf'_def n_def add.commute add.left_commute)
  have ptr: "take (Suc i) (ptrs[i := p]) = take i ptrs @ [p]" for p
    using Cons.prems(3) by (simp add: take_Suc_conv_app_nth)
  have upt: "[0..<length (s # ss)] = 0 # map Suc [0..<length ss]" by (simp only: length_Cons map_Suc_upt upt_conv_Cons)
  have maps: "map (\<lambda>j. 0xf820 + of_nat (off + arg_offset (s # ss) j)) [0..<length (s # ss)] =
     (0xf820 + of_nat off :: u16) # map (\<lambda>j. 0xf820 + of_nat (off + n + arg_offset ss j)) [0..<length ss]"
    unfolding upt by (simp add: n_def comp_def add.assoc)
  have "spawn_args (s # ss) i off buf ptrs = spawn_args ss (Suc i) (off + n) buf' (ptrs[i := 0xf820 + of_nat off])"
    using Cons.prems by (simp add: copy [simplified] n_def)
  then show ?case
    unfolding IH maps start rest ptr by (simp add: n_def add.assoc)
qed simp

lemma arg_offset_block:
  assumes "i < length argv" "j \<le> length (cstr (argv ! i))"
  shows "arg_offset argv i + j < length (args_block argv)"
    and "args_block argv ! (arg_offset argv i + j) = (cstr (argv ! i) @ [0]) ! j"
proof -
  have "args_block argv = args_block (take i argv) @ (cstr (argv ! i) @ [0]) @ args_block (drop (Suc i) argv)"
    using assms(1) by (subst (1) id_take_nth_drop [OF assms(1)]) (simp add: args_block_def)
  then show "arg_offset argv i + j < length (args_block argv)"
      "args_block argv ! (arg_offset argv i + j) = (cstr (argv ! i) @ [0]) ! j"
    using assms(2) by (simp_all add: arg_offset_def nth_append)
qed

lemma words_nth:
  assumes "i < length ws"
  shows "concat (map put16 ws) ! (2 * i) = put16 (ws ! i) ! 0" "concat (map put16 ws) ! (2 * i + 1) = put16 (ws ! i) ! 1"
proof -
  have two: "length xs = 2" if "xs \<in> set (map put16 ws)" for xs using that by auto
  show "concat (map put16 ws) ! (2 * i) = put16 (ws ! i) ! 0" "concat (map put16 ws) ! (2 * i + 1) = put16 (ws ! i) ! 1"
    using assms nth_concat_uniform [where xss = "map put16 ws" and m = 2 and i = "2 * i", OF two]
      nth_concat_uniform [where xss = "map put16 ws" and m = 2 and i = "2 * i + 1", OF two] by simp_all
qed

text \<open>The state before the process is handed to the scheduler.\<close>

definition spawn_memory :: "u8 \<Rightarrow> u16 \<Rightarrow> u16 list \<Rightarrow> bytes \<Rightarrow> kernel \<Rightarrow> kernel" where
  "spawn_memory b argc ptrs block k =
     store_bytes b 0xf820 block (store_bytes b 0xf810 (take 16 (concat (map put16 ptrs))) (store_bytes b 0xf800 (put16 argc) k))"

lemma spawn_memory_peek:
  assumes "length ptrs = 16" "length block = 512" "n < 0x10000"
  shows "peek8 (spawn_memory b argc ptrs block k) b' n =
    (if b' = b \<and> 0xf800 \<le> n \<and> n < 0xf802 then put16 argc ! (n - 0xf800)
     else if b' = b \<and> 0xf810 \<le> n \<and> n < 0xf820 then concat (map put16 ptrs) ! (n - 0xf810)
     else if b' = b \<and> 0xf820 \<le> n \<and> n < 0xfa20 then block ! (n - 0xf820) else peek8 k b' n)"
proof -
  define w where "w = take 16 (concat (map put16 ptrs))"
  have "length (concat (map put16 ptrs)) = 32" using assms(1) by (subst length_concat_uniform [where m = 2]) auto
  then have w: "length w = 16" by (simp add: w_def)
  have nth: "w ! (n - 0xf810) = concat (map put16 ptrs) ! (n - 0xf810)" if "n < 0xf820" using that by (simp add: w_def)
  show ?thesis
    unfolding spawn_memory_def w_def [symmetric] using assms(2,3) w nth by (simp add: peek8_store)
qed

lemma spawn_memory_words:
  assumes "length ptrs = 16" "length block = 512"
  shows "peek_word (spawn_memory b argc ptrs block k) b 0xf800 = argc"
    and "i < 8 \<Longrightarrow> peek_word (spawn_memory b argc ptrs block k) b (0xf810 + 2 * i) = ptrs ! i"
    and "i < 256 \<Longrightarrow> peek_word (spawn_memory b argc ptrs block k) b (0xf820 + 2 * i) = le16 block (2 * i)"
proof -
  note pk = spawn_memory_peek [OF assms]
  show "peek_word (spawn_memory b argc ptrs block k) b 0xf800 = argc"
    using le16_put16 [of argc] by (simp add: peek_word_def pk le16_def)
  show "peek_word (spawn_memory b argc ptrs block k) b (0xf810 + 2 * i) = ptrs ! i" if "i < 8"
  proof -
    have "i < length ptrs" using that assms(1) by simp
    from words_nth [OF this] that show ?thesis
      using le16_put16 [of "ptrs ! i"] by (simp add: peek_word_def pk le16_def)
  qed
  show "peek_word (spawn_memory b argc ptrs block k) b (0xf820 + 2 * i) = le16 block (2 * i)" if "i < 256"
    using that by (simp add: peek_word_def pk le16_def)
qed

lemma process_spawn_builds:
  assumes "argc = of_nat (length argv)" "length argv \<le> 16" "\<forall>s \<in> set argv. 0 \<in> set s" "length (args_block argv) \<le> 512"
    and "length arg0 = 512" "length argv0 = 16" "process_info pd k = Some d"
  defines "block \<equiv> args_block argv @ drop (length (args_block argv)) arg0"
    and "ptrs \<equiv> map (\<lambda>j. 0xf820 + of_nat (arg_offset argv j)) [0..<length argv] @ drop (length argv) argv0"
  shows "process_spawn arg0 argv0 pd argv argc k = Some (scheduler_add pd (spawn_memory (bank d) argc ptrs block k))"
    and "length block = 512" "length ptrs = 16"
proof -
  have "unat argc = length argv" using assms(1,2) by (simp add: unat_of_nat_u16)
  then show "process_spawn arg0 argv0 pd argv argc k = Some (scheduler_add pd (spawn_memory (bank d) argc ptrs block k))"
    using spawn_args_correct [OF assms(3), of 0 arg0 0 argv0] assms(2,4-7)
    by (simp add: process_spawn_def ptrs_def block_def spawn_memory_def ram_copy_def)
  show "length block = 512" "length ptrs = 16" using assms(2,4-6) by (simp_all add: block_def ptrs_def)
qed

text \<open>C18. Spawning with up to 8 arguments: in the process's bank, \<open>argc\<close> stands at 0xf800, the
  pointers \<open>argv[i]\<close> from 0xf810 on, each pointing to a NUL-terminated copy of the \<open>i\<close>-th
  argument in the block at 0xf820; no other bank changes; and the process is handed to the scheduler,
  whose result is returned. (The strings must fit in the 512 bytes of the buffer.)\<close>

theorem process_spawn_arguments:
  assumes "length argv \<le> 8" "\<forall>s \<in> set argv. 0 \<in> set s" "length (args_block argv) \<le> 512"
    and "length arg0 = 512" "length argv0 = 16" "process_info pd k = Some d"
  shows "\<exists>k'. process_spawn arg0 argv0 pd argv (of_nat (length argv)) k = Some (scheduler_add pd k')
    \<and> peek_word k' (bank d) 0xf800 = of_nat (length argv)
    \<and> (\<forall>i < length argv. peek_word k' (bank d) (0xf810 + 2 * i) = of_nat (0xf820 + arg_offset argv i)
         \<and> (\<forall>j \<le> length (cstr (argv ! i)). peek8 k' (bank d) (0xf820 + arg_offset argv i + j) = (cstr (argv ! i) @ [0]) ! j))
    \<and> (\<forall>b n. b \<noteq> bank d \<and> n < 0x10000 \<longrightarrow> peek8 k' b n = peek8 k b n)"
proof -
  have le: "length argv \<le> 16" using assms(1) by simp
  define block where "block = args_block argv @ drop (length (args_block argv)) arg0"
  define ptrs :: "u16 list" where
    "ptrs = map (\<lambda>j. 0xf820 + of_nat (arg_offset argv j)) [0..<length argv] @ drop (length argv) argv0"
  note sp = process_spawn_builds [OF refl le assms(2-6), folded block_def ptrs_def]
  define k' where "k' = spawn_memory (bank d) (of_nat (length argv)) ptrs block k"
  note words = spawn_memory_words [OF sp(3,2), where b = "bank d" and argc = "of_nat (length argv)" and k = k, folded k'_def]
  note peek = spawn_memory_peek [OF sp(3,2), where b = "bank d" and argc = "of_nat (length argv)" and k = k, folded k'_def]
  have arg: "peek_word k' (bank d) (0xf810 + 2 * i) = of_nat (0xf820 + arg_offset argv i)" if "i < length argv" for i
    using that assms(1) by (simp add: words(2) ptrs_def nth_append)
  have str: "peek8 k' (bank d) (0xf820 + arg_offset argv i + j) = (cstr (argv ! i) @ [0]) ! j"
    if "i < length argv" "j \<le> length (cstr (argv ! i))" for i j
  proof -
    note at = arg_offset_block [OF that]
    with assms(3) have "arg_offset argv i + j < 512" by linarith
    then show ?thesis using at by (simp add: peek block_def nth_append)
  qed
  show ?thesis
    using sp(1) arg str words(1) by (intro exI [of _ k']) (simp add: peek flip: k'_def)
qed

text \<open>Beyond 8 arguments \<open>argv\<close> is broken: only 16 bytes of the pointer array are copied, so
  with 9 to 16 arguments \<open>argv[8]\<close> as the process reads it, at 0xf820, is made of the first two
  bytes of the argument strings.\<close>

theorem process_spawn_ninth_argument:
  assumes "8 < length argv" "length argv \<le> 16" "\<forall>s \<in> set argv. 0 \<in> set s" "length (args_block argv) \<le> 512"
    and "length arg0 = 512" "length argv0 = 16" "process_info pd k = Some d"
  shows "\<exists>k'. process_spawn arg0 argv0 pd argv (of_nat (length argv)) k = Some (scheduler_add pd k')
    \<and> peek_word k' (bank d) (0xf810 + 2 * 8) = le16 (args_block argv) 0"
proof -
  define block where "block = args_block argv @ drop (length (args_block argv)) arg0"
  define ptrs :: "u16 list" where
    "ptrs = map (\<lambda>j. 0xf820 + of_nat (arg_offset argv j)) [0..<length argv] @ drop (length argv) argv0"
  note sp = process_spawn_builds [OF refl assms(2-7), folded block_def ptrs_def]
  have "8 \<le> length (args_block argv)"
  proof -
    have "length ss \<le> length (args_block ss)" for ss by (induction ss) simp_all
    with assms(1) show ?thesis by (meson less_imp_le_nat order_trans)
  qed
  moreover from this have "args_block argv \<noteq> []" by auto
  ultimately have "le16 block 0 = le16 (args_block argv) 0" by (simp add: block_def le16_def nth_append)
  with sp(1) spawn_memory_words(3) [OF sp(3,2), of 0 "bank d" "of_nat (length argv)" k] show ?thesis by auto
qed


section \<open>The boot sequence\<close>

lemma process_load_keeps_schedule:
  assumes "process_load hp filename k = Some (pd, k')"
  shows "schedule_table k' = schedule_table k" "num_scheduled k' = num_scheduled k" "current_scheduled k' = current_scheduled k"
  using assms
  by (auto simp: process_load_def process_update_def Let_def split: prod.splits option.splits if_splits Option.bind_splits)

lemma boot_allocates:
  assumes "0 < banks" "length (page_table m) = PAGES_MAX"
  shows "\<exists>m1 m2. memory_init (int (unat (banks :: u8))) m = Some (0, m1) \<and> memory_allocate m1 = (0, m2)"
proof -
  define n where "n = unat banks"
  have b: "0 < n" "n \<le> 256" using assms(1) unat_u8_less [of banks] by (simp_all add: n_def word_less_nat_alt)
  then obtain m1 where m1: "memory_init (int n) m = Some (0, m1)" by (simp add: memory_init_def)
  note t = memory_init_table [OF m1 assms(2)]
  have "free_page m1 = int 0"
    using b(1) t by (intro pages.find_eq) (simp_all add: nth_append)
  then show ?thesis using m1 unfolding n_def [symmetric] by (simp add: memory_allocate_def)
qed

lemma boot_result:
  assumes disk: "fs1 = snd (filesystem_init (kfs k0))" "fat_ok fs1" "fd_ready fs1"
      "dir_scan (canon COMMAND_EXE) (dir_slots fs1) = Found i"
      "e = bytes_entry (dir_slots fs1 ! i)" "is_chain (fat_at fs1) (starting_cluster e) cs"
      "unat (de_size e) \<le> 512 * (spc fs1 * length cs)"
    and img: "img = image_of fs1 e cs" "2 \<le> length img" "img ! 0 = PHDR_ID_EXEC" "USER_RAM_START_PAGE \<le> img ! 1"
      "256 * unat (img ! 1) + min 28672 (length img - 2) \<le> 0xf7ec"
    and tables: "0 < banks" "length (page_table (kmem k0)) = PAGES_MAX" "length (process_table k0) = PROCS_MAX"
      "length (schedule_table k0) = MAX_SCHEDULED" "length arg0 = 512" "length argv0 = 16" and hp: "0x6000 \<le> hp"
  shows "\<exists>k. kernel_main arg0 argv0 hp banks k0 = Some (0, k)
    \<and> (\<forall>j < min 28672 (length img - 2). peek8 k 0 (256 * unat (img ! 1) + j) = img ! (2 + j))
    \<and> peek_word k 0 0xfffe = 0xf7ec \<and> peek_word k 0 0xf800 = 0
    \<and> map_option bank (process_info 0 k) = Some 0
    \<and> num_scheduled k = 1 \<and> current_scheduled k = -1
    \<and> state (schedule_table k ! 0) = TASK_READY \<and> pid (schedule_table k ! 0) = 0"
proof -
  obtain m1 m2 where mem: "memory_init (int (unat banks)) (kmem k0) = Some (0, m1)" "memory_allocate m1 = (0, m2)"
    using boot_allocates [OF tables(1,2)] by blast
  define k4 where "k4 = terminal_init (scheduler_init (process_init ((ram_bank_set (banks - 1)
    (k0\<lparr>kfs := fs1, numbanks := ucast banks\<rparr>))\<lparr>kmem := m1\<rparr>)))\<lparr>startup_flags := 0\<rparr>"
  have k4: "kfs k4 = fs1" "kmem k4 = m1" "current_scheduled k4 = -1" "num_scheduled k4 = 0"
      "schedule_table k4 = map (\<lambda>e. e\<lparr>state := TASK_FREE\<rparr>) (schedule_table k0)"
      "process_table k4 = map (\<lambda>p. p\<lparr>base_address := 0\<rparr>) (process_table k0)"
    by (simp_all add: k4_def terminal_init_def scheduler_init_def process_init_def)
  have len: "12 \<le> length COMMAND_EXE" by (simp add: COMMAND_EXE_def)
  have pd: "process_allocate k4 = int 0" using tables(3) by (intro procslots.find_eq) (simp_all add: k4(6))
  obtain k5 where k5: "process_load hp COMMAND_EXE k4 = Some (0, k5)"
    "\<forall>j < min 28672 (length img - 2). banked k5 0 (of_nat (256 * unat (img ! 1) + j)) = img ! (2 + j)"
    "peek16 k5 0 0xfffe = 0xf7ec" "\<exists>d. process_info 0 k5 = Some d \<and> bank d = 0"
    using process_load_ok [where k = k4 and filename = COMMAND_EXE and page = 0 and pd = 0 and mem' = m2 and hp = hp,
        unfolded k4(1,2), OF disk(2,3) len disk(4-7) img(1-4) pd _ img(5) hp] mem(2) by auto
  then obtain d where d: "process_info 0 k5 = Some d" "bank d = 0" by blast
  note sch5 = process_load_keeps_schedule [OF k5(1)]
  define k6 where "k6 = spawn_memory 0 0 argv0 arg0 k5"
  have spawn: "process_spawn arg0 argv0 0 [] 0 k5 = Some (scheduler_add 0 k6)"
    using process_spawn_builds(1) [of 0 "[]" arg0 argv0 0 k5 d] tables(5,6) d by (simp add: k6_def)
  have wf6: "sched_wf k6"
    using scheduler_init_wf [of k4] k4 tables(4) sch5
    by (simp add: k6_def spawn_memory_def sched_wf_def)
  define k7 where "k7 = snd (scheduler_add 0 k6)"
  have add: "scheduler_add 0 k6 = (0, k7)" "num_scheduled k7 = 1" "current_scheduled k7 = -1"
      "state (schedule_table k7 ! 0) = TASK_READY" "pid (schedule_table k7 ! 0) = 0" "banked k7 = banked k6" "process_table k7 = process_table k5"
    using scheduler_add_eq [OF wf6, of 0] sch5 k4 tables(4) by (simp_all add: k7_def k6_def spawn_memory_def)
  have main: "kernel_main arg0 argv0 hp banks k0 = Some (0, k7)"
    using k5(1) spawn add(1) by (simp add: kernel_main_def disk(1) [symmetric] mem(1) [simplified] k4_def [symmetric] Let_def)
  have peek7: "peek8 k7 0 n = peek8 k6 0 n" for n by (simp add: peek8_def add(6))
  note peek = spawn_memory_peek [OF tables(6,5), where b = 0 and argc = 0 and k = k5, folded k6_def]
  have "\<forall>j < min 28672 (length img - 2). peek8 k7 0 (256 * unat (img ! 1) + j) = img ! (2 + j)"
    unfolding peek7 using img(5) k5(2) by (auto simp: peek peek8_def [of k5])
  moreover have "peek_word k7 0 0xfffe = 0xf7ec"
    using k5(3) by (simp add: peek_word_def peek16_def peek7 peek) (simp add: peek8_def)
  moreover have "peek_word k7 0 0xf800 = 0"
    using spawn_memory_words(1) [OF tables(6,5), of 0 0 k5] by (simp add: peek_word_def peek7 k6_def)
  moreover have "map_option bank (process_info 0 k7) = Some 0"
    using d by (auto simp: process_info_def add(7) split: if_splits)
  ultimately show ?thesis using main add by blast
qed

text \<open>C1. Booting: on a disk that mounts and holds a valid COMMAND.EXE, with at least one bank of RAM,
  the kernel ends with process 0 loaded in bank 0, its \<open>argc\<close> 0, its image (of at most 28 KB, ending
  below the stack frame) at its base address, and a schedule whose single task, READY, is process 0.\<close>

theorem kernel_main_boots:
  assumes disk: "fs1 = snd (filesystem_init (kfs k0))" "fat_ok fs1" "fd_ready fs1"
      "dir_scan (canon COMMAND_EXE) (dir_slots fs1) = Found i"
      "e = bytes_entry (dir_slots fs1 ! i)" "is_chain (fat_at fs1) (starting_cluster e) cs"
      "unat (de_size e) \<le> 512 * (spc fs1 * length cs)"
    and img: "img = image_of fs1 e cs" "2 \<le> length img" "img ! 0 = PHDR_ID_EXEC" "USER_RAM_START_PAGE \<le> img ! 1"
      "256 * unat (img ! 1) + min 28672 (length img - 2) \<le> 0xf7ec"
    and tables: "0 < banks" "length (page_table (kmem k0)) = PAGES_MAX" "length (process_table k0) = PROCS_MAX"
      "length (schedule_table k0) = MAX_SCHEDULED" "length arg0 = 512" "length argv0 = 16" and hp: "0x6000 \<le> hp"
  shows "\<exists>k. kernel_main arg0 argv0 hp banks k0 = Some (0, k)
    \<and> (\<forall>j < min 28672 (length img - 2). peek8 k 0 (256 * unat (img ! 1) + j) = img ! (2 + j))
    \<and> peek_word k 0 0xfffe = 0xf7ec \<and> peek_word k 0 0xf800 = 0
    \<and> map_option bank (process_info 0 k) = Some 0
    \<and> num_scheduled k = 1 \<and> current_scheduled k = -1
    \<and> state (schedule_table k ! 0) = TASK_READY \<and> pid (schedule_table k ! 0) = 0"
  using assms by (rule boot_result)

section \<open>Nothing left to allocate\<close>

text \<open>With no descriptor free, \<open>process_load\<close> of a valid program writes outside the process
  table: the result -1 of \<open>process_allocate\<close> is used as an index, whatever memory is free.\<close>

theorem process_load_full_table:
  assumes "fat_ok (kfs k)" "fd_ready (kfs k)" "12 \<le> length filename"
      "dir_scan (canon filename) (dir_slots (kfs k)) = Found i"
      "e = bytes_entry (dir_slots (kfs k) ! i)" "is_chain (fat_at (kfs k)) (starting_cluster e) cs"
      "unat (de_size e) \<le> 512 * (spc (kfs k) * length cs)"
    and "img = image_of (kfs k) e cs" "2 \<le> length img" "img ! 0 = PHDR_ID_EXEC" "USER_RAM_START_PAGE \<le> img ! 1"
    and "\<forall>p \<in> set (process_table k). base_address p \<noteq> 0" and hp: "0x6000 \<le> hp"
  shows "process_load hp filename k = None"
proof -
  obtain s1 s2 where s: "file_open filename FMODE_READ (kfs k) = Some (0, s1)" "file_read hp 2 0 s1 = Some ([img ! 0, img ! 1], s2)"
    using load_header [OF assms(1-9) hp] by metis
  define g where "g = img ! 1"
  have g: "\<not> g < USER_RAM_START_PAGE" using assms(11) by (simp add: g_def)
  have none: "first_idx (\<lambda>p. base_address p = 0) (process_table k) = None" using assms(12) by simp
  have "process_allocate (k\<lparr>kfs := s2\<rparr>) = -1" by (simp add: process_allocate_def none)
  then show ?thesis
    using g by (simp add: process_load_def s(1) s(2) [folded g_def] assms(10) process_update_def process_info_def
        Let_def split: prod.splits)
qed

section \<open>A disk with a shell\<close>

definition shell_entry :: DirectoryEntry_T where
  "shell_entry = \<lparr>de_name = [0x43, 0x4f, 0x4d, 0x4d, 0x41, 0x4e, 0x44, 0x20], de_ext = [0x45, 0x58, 0x45],
     attributes = 0, reserved_for_windows_nt = 0, creation_milliseconds = 0, creation_time = 0,
     creation_date = 0x21, last_access_date = 0, reserved_for_fat32 = 0, last_write_time = 0,
     last_write_date = 0, starting_cluster = 2, de_size = 5\<rparr>"

text \<open>A FAT16 image: boot sector, table in sector 1, root directory in sectors 9 and 10, and the
  5 bytes of COMMAND.EXE in sector 11, cluster 2.\<close>

definition shell_disk :: "u32 \<Rightarrow> bytes" where
  "shell_disk k =
     (if k = 0 then (replicate 512 0)[12 := 2, 13 := 1, 14 := 1, 16 := 2, 17 := 32, 22 := 4]
      else if k = 1 then (replicate 512 0)[4 := 0xff, 5 := 0xff]
      else if k = 9 then entry_bytes shell_entry @ replicate 480 0
      else if k = 11 then [0x0a, 0x80, 0xc3, 0x00, 0x80] @ replicate 507 0
      else replicate 512 0)"

definition shell_fs :: fs where
  "shell_fs = snd (filesystem_init ((flat_fs 0)\<lparr>disk := shell_disk\<rparr>))"

definition shell_kernel :: kernel where
  "shell_kernel =
     \<lparr>process_table = replicate 16 \<lparr>base_address = 0, bank = 0, termstatus = 0, sigstatus = 0, sighandlers = \<lparr>cancel = 0, brk = 0\<rparr>\<rparr>,
      process_current_ptr = 0, term_data = [], term_head = 0, term_tail = 0, current_scheduled = 0, num_scheduled = 0,
      schedule_table = replicate 16 \<lparr>state = TASK_FREE, blocking_event = 0, pid = 0, exitcode = 0\<rparr>,
      schedule_current_pid = 0, kmem = \<lparr>num_pages = 4, page_table = replicate 4 1 @ replicate 252 0\<rparr>,
      kfs = (flat_fs 0)\<lparr>disk := shell_disk\<rparr>, banked = (\<lambda>_ _. 0), common = (\<lambda>_. 0), bank_current = 0, numbanks = 0,
      startup_flags = 0\<rparr>"

lemma shell_disk_length: "length (shell_disk k) = 512"
  by (simp add: shell_disk_def entry_bytes_def shell_entry_def)

lemma shell_boot:
  "le16 (shell_disk 0) 11 = 512" "shell_disk 0 ! 13 = 1" "le16 (shell_disk 0) 14 = 1" "shell_disk 0 ! 16 = 2"
  "le16 (shell_disk 0) 17 = 32" "le16 (shell_disk 0) 22 = 4" "disk_read 0 ((flat_fs 0)\<lparr>disk := shell_disk\<rparr>) = shell_disk 0"
  by (simp_all add: shell_disk_def le16_def disk_read_def lba_def)

lemma flat_fdtable:
  "fdtable (flat_fs b) = [\<lparr>fd_name = replicate 13 0, flags = 0, mode = 0, fsize = 0, fpos = 0,
     start_cluster = 0, current_cluster = 0, sector = 0, fpos_within_sector = 0\<rparr>]"
  by (simp add: flat_fs_def)

lemma shell_fs:
  "disk shell_fs = shell_disk" "fat_region (disk_info shell_fs) = 1" "root_region (disk_info shell_fs) = 9"
  "data_region (disk_info shell_fs) = 11" "bytes_per_sector (disk_info shell_fs) = 512" "spc shell_fs = 1"
  "sectors_per_cluster (disk_info shell_fs) = 1"
  "temp_sector shell_fs = shell_disk 0" "current_cache_sector shell_fs = 0" "fd_ready shell_fs"
  by (simp_all add: shell_fs_def filesystem_init_def Let_def filesystem_calc_fat_region_def filesystem_calc_root_region_def
      filesystem_calc_data_region_def filesystem_calc_num_sectors_def fdtable_init_def shell_boot spc_def fd_ready_def
      flat_fdtable)

lemma shell_fs_ok: "fat_ok shell_fs"
  by (simp add: fat_ok_def fs_wf_def geometry_def shell_fs shell_disk_length disk_read_def lba_def)

lemma shell_dir: "dir_slots shell_fs ! 0 = entry_bytes shell_entry" "0 < length (dir_slots shell_fs)"
proof -
  have s9: "disk_read 9 shell_fs = shell_disk 9" by (simp add: disk_read_def lba_def shell_fs)
  have two: "[0..<2] = [0, 1::nat]" by (simp add: numeral_2_eq_2)
  have "root_sectors shell_fs = 2" by (simp add: root_sectors_def shell_fs)
  then have "dir_slots shell_fs = sector_slots (shell_disk 9) @ sector_slots (disk_read 10 shell_fs)"
    by (simp add: dir_slots_def slots_from_def shell_fs s9 two)
  moreover have "0 < length (sector_slots (shell_disk 9))" by simp
  moreover have "sector_slots (shell_disk 9) ! 0 = entry_bytes shell_entry"
    by (simp add: sector_slots_nth) (simp add: shell_disk_def entry_bytes_def shell_entry_def)
  ultimately show "dir_slots shell_fs ! 0 = entry_bytes shell_entry" "0 < length (dir_slots shell_fs)"
    by (simp_all add: nth_append)
qed

lemma shell_found: "dir_scan (canon COMMAND_EXE) (dir_slots shell_fs) = Found 0"
proof -
  obtain rest where rest: "dir_slots shell_fs = entry_bytes shell_entry # rest"
    using shell_dir by (cases "dir_slots shell_fs") auto
  have "is_file (entry_bytes shell_entry)" "slot_string (entry_bytes shell_entry) = canon COMMAND_EXE"
    by (simp_all add: is_file_def slot_string_def canon_def COMMAND_EXE_def shell_entry_def entry_bytes_def cstr_def upper_def)
  moreover have "entry_bytes shell_entry ! 0 \<noteq> 0" by (simp add: entry_bytes_def shell_entry_def)
  ultimately show ?thesis by (simp add: rest)
qed

lemma shell_slot: "bytes_entry (dir_slots shell_fs ! 0) = shell_entry"
proof -
  have "entry_wf shell_entry" by (simp add: entry_wf_def shell_entry_def)
  then show ?thesis by (simp add: shell_dir entry_roundtrip)
qed

lemma shell_chain: "is_chain (fat_at shell_fs) 2 [2]"
  by (simp add: fat_at_def disk_read_def lba_def shell_fs) (simp add: shell_disk_def le16_def)

lemma shell_image: "image_of shell_fs shell_entry [2] = [0x0a, 0x80, 0xc3, 0x00, 0x80]"
proof -
  have "disk_read (file_start_sector 2 shell_fs) shell_fs = shell_disk 11"
    by (simp add: file_start_sector_def disk_read_def lba_def shell_fs)
  then have "file_data shell_fs [2] = shell_disk 11"
    by (simp add: file_data_def sectors_of_def shell_fs)
  then show ?thesis by (simp add: image_of_def shell_entry_def shell_disk_def)
qed

lemma shell_header:
  "unat (de_size shell_entry) = 5" "starting_cluster shell_entry = 2"
  by (simp_all add: shell_entry_def)

lemma shell_kernel_tables:
  "length (process_table shell_kernel) = PROCS_MAX" "length (schedule_table shell_kernel) = MAX_SCHEDULED"
  "length (page_table (kmem shell_kernel)) = PAGES_MAX" "fs1 = snd (filesystem_init (kfs shell_kernel)) \<longleftrightarrow> fs1 = shell_fs"
  by (simp_all add: shell_kernel_def shell_fs_def)

text \<open>C17. Loading a program: when the file exists, its header is valid, and \<open>pd\<close> is the lowest free process
  descriptor and \<open>page\<close> the lowest free page, \<open>process_load\<close> returns \<open>pd\<close> and marks that page used; the file's
  contents after the two header bytes (at most 28 KB) stand at the base address in that page; the
  stack pointer saved at 0xfffe points to a frame whose entry point is the base address, followed by a zero
  return address, \<open>argc\<close> and \<open>argv\<close>; the descriptor records base and page with all flags clear; no
  other bank, no common memory, no other descriptor, not the disk and not the selected bank has changed.
  This is for images that end below the frame, at most at 0xf7ec: the frame overwrites longer ones.\<close>

theorem process_load_correct:
  assumes fs: "fat_ok (kfs k)" "fd_ready (kfs k)" "12 \<le> length filename"
      "dir_scan (canon filename) (dir_slots (kfs k)) = Found i"
      "e = bytes_entry (dir_slots (kfs k) ! i)" "is_chain (fat_at (kfs k)) (starting_cluster e) cs"
      "unat (de_size e) \<le> 512 * (spc (kfs k) * length cs)"
    and img: "img = image_of (kfs k) e cs" "2 \<le> length img" "img ! 0 = PHDR_ID_EXEC" "USER_RAM_START_PAGE \<le> img ! 1"
    and descriptor: "pd < length (process_table k)" "base_address (process_table k ! pd) = 0"
      "\<forall>q < pd. base_address (process_table k ! q) \<noteq> 0"
    and bank: "int page < num_pages (kmem k)" "page < length (page_table (kmem k))"
      "page_table (kmem k) ! page = PAGE_FREE" "\<forall>q < page. page_table (kmem k) ! q \<noteq> PAGE_FREE"
    and fits: "256 * unat (img ! 1) + min 28672 (length img - 2) \<le> 0xf7ec" and hp: "0x6000 \<le> hp"
  shows "\<exists>k'. process_load hp filename k = Some (int pd, k')
    \<and> (\<forall>j < min 28672 (length img - 2). banked k' (of_nat page) (of_nat (256 * unat (img ! 1) + j)) = img ! (2 + j))
    \<and> peek16 k' (of_nat page) 0xfffe = 0xf7ec \<and> peek16 k' (of_nat page) (0xf7ec + 12) = of_nat (256 * unat (img ! 1))
    \<and> peek16 k' (of_nat page) 0xf7fa = 0 \<and> peek16 k' (of_nat page) 0xf7fc = 0 \<and> peek16 k' (of_nat page) 0xf7fe = 0
    \<and> process_info (int pd) k' = Some \<lparr>base_address = of_nat (256 * unat (img ! 1)), bank = of_nat page,
        termstatus = 0, sigstatus = 0, sighandlers = \<lparr>cancel = 0, brk = 0\<rparr>\<rparr>
    \<and> (\<forall>q. q \<noteq> int pd \<longrightarrow> process_info q k' = process_info q k)
    \<and> (\<forall>b a. b \<noteq> of_nat page \<longrightarrow> banked k' b a = banked k b a)
    \<and> common k' = common k \<and> bank_current k' = bank_current k
    \<and> kmem k' = (kmem k)\<lparr>page_table := (page_table (kmem k))[page := PAGE_USED]\<rparr> \<and> same_disk (kfs k) (kfs k')"
proof -
  have "process_allocate k = int pd" using descriptor by (intro procslots.find_eq) auto
  moreover have "memory_allocate (kmem k) = (int page, (kmem k)\<lparr>page_table := (page_table (kmem k))[page := PAGE_USED]\<rparr>)"
    using bank by (rule memory_allocate_lowest)
  ultimately show ?thesis using process_load_ok [OF fs img _ _ fits hp] by blast
qed

text \<open>Applied to the shell's disk.\<close>

lemma process_load_correct_witness:
  "\<exists>k'. process_load 0xf000 COMMAND_EXE (shell_kernel\<lparr>kfs := shell_fs\<rparr>) = Some (0, k')
     \<and> banked k' 0 0x8000 = 0xc3 \<and> banked k' 0 0x8002 = 0x80 \<and> peek16 k' 0 0xfffe = 0xf7ec"
proof -
  let ?k = "shell_kernel\<lparr>kfs := shell_fs\<rparr>"
  have free: "0 < length (process_table ?k)" "base_address (process_table ?k ! 0) = 0" "int 0 < num_pages (kmem ?k)"
      "0 < length (page_table (kmem ?k))" "page_table (kmem ?k) ! 0 = PAGE_FREE"
    by (simp_all add: shell_kernel_def nth_append)
  have fs: "kfs ?k = shell_fs" by simp
  have len: "12 \<le> length COMMAND_EXE" by (simp add: COMMAND_EXE_def)
  obtain k' where k': "process_load 0xf000 COMMAND_EXE ?k = Some (int 0, k')"
     "\<forall>j < 3. banked k' 0 (of_nat (0x8000 + j)) = [0x0a, 0x80, 0xc3, 0x00, 0x80] ! (2 + j)" "peek16 k' 0 0xfffe = 0xf7ec"
    using process_load_correct [where k = ?k and filename = COMMAND_EXE and page = 0 and pd = 0 and hp = "0xf000"
        and e = shell_entry and cs = "[2]" and i = 0 and img = "[0x0a, 0x80, 0xc3, 0x00, 0x80]", unfolded fs,
        OF shell_fs_ok shell_fs(10) len shell_found shell_slot [symmetric] _ _ shell_image [symmetric] _ _ _ free(1,2) _ free(3-5)]
      shell_chain shell_header shell_fs(6) by auto
  from k'(2) have "banked k' 0 0x8000 = 0xc3" "banked k' 0 0x8002 = 0x80"
    by (auto dest: spec [of _ "0::nat"] spec [of _ "2::nat"])
  with k' show ?thesis by (intro exI [of _ k']) simp
qed

lemma process_load_full_table_witness:
  "process_load 0xf000 COMMAND_EXE (shell_kernel\<lparr>kfs := shell_fs, process_table := []\<rparr>) = None"
proof -
  let ?k = "shell_kernel\<lparr>kfs := shell_fs, process_table := []\<rparr>"
  have fs: "kfs ?k = shell_fs" by simp
  have len: "12 \<le> length COMMAND_EXE" by (simp add: COMMAND_EXE_def)
  show ?thesis
    using process_load_full_table [where k = ?k and filename = COMMAND_EXE and hp = "0xf000"
        and e = shell_entry and cs = "[2]" and i = 0 and img = "[0x0a, 0x80, 0xc3, 0x00, 0x80]", unfolded fs,
        OF shell_fs_ok shell_fs(10) len shell_found shell_slot [symmetric] _ _ shell_image [symmetric]]
      shell_chain shell_header shell_fs(6) by simp
qed

lemma kernel_main_boots_witness:
  "\<exists>k. kernel_main (replicate 512 0) (replicate 16 0) 0xf000 4 shell_kernel = Some (0, k)
     \<and> peek8 k 0 0x8000 = 0xc3 \<and> num_scheduled k = 1"
proof -
  obtain k where "kernel_main (replicate 512 0) (replicate 16 0) 0xf000 4 shell_kernel = Some (0, k)"
     "\<forall>j < 3. peek8 k 0 (0x8000 + j) = [0x0a, 0x80, 0xc3, 0x00, 0x80] ! (2 + j)" "num_scheduled k = 1"
    using kernel_main_boots [where ?k0.0 = shell_kernel and banks = 4 and hp = "0xf000" and ?fs1.0 = shell_fs
        and ?arg0.0 = "replicate 512 0" and ?argv0.0 = "replicate 16 0"
        and e = shell_entry and cs = "[2]" and i = 0 and img = "[0x0a, 0x80, 0xc3, 0x00, 0x80]",
        OF _ shell_fs_ok shell_fs(10) shell_found shell_slot [symmetric] _ _ shell_image [symmetric]]
      shell_chain shell_header shell_fs(6) shell_kernel_tables by auto
  then show ?thesis by (auto dest: spec [of _ "0::nat"] intro!: exI [of _ k])
qed

text \<open>Two arguments for process 0, and nine.\<close>

definition nine_args :: "bytes list" where
  "nine_args = replicate 9 [0x61, 0]"

lemma shell_info:
  "process_info 0 shell_kernel = Some \<lparr>base_address = 0, bank = 0, termstatus = 0, sigstatus = 0, sighandlers = \<lparr>cancel = 0, brk = 0\<rparr>\<rparr>"
  by (simp add: process_info_def shell_kernel_def)

lemma process_spawn_arguments_witness:
  "\<exists>k'. process_spawn (replicate 512 0) (replicate 16 0) 0 [[0x61, 0], [0x62, 0x63, 0]] 2 shell_kernel = Some (scheduler_add 0 k')
     \<and> peek_word k' 0 0xf812 = 0xf822 \<and> peek8 k' 0 0xf823 = 0x63"
proof -
  let ?argv = "[[0x61, 0], [0x62, 0x63, 0]] :: bytes list"
  obtain k' where k': "process_spawn (replicate 512 0) (replicate 16 0) 0 ?argv 2 shell_kernel = Some (scheduler_add 0 k')"
     "\<forall>i < length ?argv. peek_word k' 0 (0xf810 + 2 * i) = of_nat (0xf820 + arg_offset ?argv i)
       \<and> (\<forall>j \<le> length (cstr (?argv ! i)). peek8 k' 0 (0xf820 + arg_offset ?argv i + j) = (cstr (?argv ! i) @ [0]) ! j)"
    using process_spawn_arguments [where argv = ?argv and ?arg0.0 = "replicate 512 0" and ?argv0.0 = "replicate 16 0", OF _ _ _ _ _ shell_info]
    by (auto simp: cstr_def)
  have "arg_offset ?argv 1 = 2" "cstr (?argv ! 1) = [0x62, 0x63]" by (simp_all add: arg_offset_def cstr_def)
  with k'(2) [rule_format, of 1] have "peek_word k' 0 0xf812 = 0xf822" "\<forall>j \<le> 2. peek8 k' 0 (0xf822 + j) = [0x62, 0x63, 0] ! j"
    by auto
  with k'(1) show ?thesis by (auto dest: spec [of _ "1::nat"] intro!: exI [of _ k'])
qed

lemma process_spawn_ninth_argument_witness:
  "\<exists>k'. process_spawn (replicate 512 0) (replicate 16 0) 0 nine_args 9 shell_kernel = Some (scheduler_add 0 k')
     \<and> peek_word k' 0 0xf820 = 0x61"
proof -
  have n: "length nine_args = 9" by (simp add: nine_args_def)
  have a: "args_block nine_args = concat (replicate 9 [0x61, 0])" by (simp add: args_block_def nine_args_def cstr_def)
  have "length (args_block nine_args) = 18" "le16 (args_block nine_args) 0 = 0x61"
    unfolding a by (simp_all add: le16_def replicate_Suc [of 8, simplified] length_concat sum_list_replicate)
  moreover have "\<forall>s \<in> set nine_args. 0 \<in> set s" by (simp add: nine_args_def)
  ultimately show ?thesis
    using process_spawn_ninth_argument [where argv = nine_args and ?arg0.0 = "replicate 512 0" and ?argv0.0 = "replicate 16 0",
        OF _ _ _ _ _ _ shell_info] n by auto
qed

end
