(* ===== verification/Boot_Loader.thy ===== *)
theory Boot_Loader
  imports File_Reading
begin

text \<open>
  The second-stage boot loader, \<open>loader/file.c\<close> and \<open>loader/main.c\<close>: a read-only FAT16 reader
  that loads \<open>KERNEL.BIN\<close> and copies it to address 0. It repeats part of the kernel's file system
  with differences that matter: the tag of its sector cache has 16 bits, its directory search does
  not skip deleted entries, and its \<open>file_read\<close> does not look at the file size between sectors.
  \<open>syscall_dread\<close> is a service of the ROM; the field \<open>ld_disk\<close> holds what it returns for a sector.
\<close>

abbreviation (input) LOADER_EOF :: int where "LOADER_EOF \<equiv> -1"
abbreviation (input) E_LOADER_FILENOTFOUND :: int where "E_LOADER_FILENOTFOUND \<equiv> -1"

record loader_state =
  ld_disk :: "u32 \<Rightarrow> bytes"
  ld_info :: DiskInfo_T
  ld_cache :: u16
  ld_temp :: bytes

record File_T =
  lf_size :: u32
  lf_fpos :: u32
  lf_start_cluster :: u16
  lf_current_cluster :: u16
  lf_sector :: u8
  lf_within :: u16

section \<open>Sectors and clusters\<close>

text \<open>\<open>disk_info.current_cache_sector\<close> is a \<open>uint\<close>: it is widened for the comparison and truncated by
  the assignment.\<close>

definition ld_read_sector_cached :: "u32 \<Rightarrow> loader_state \<Rightarrow> loader_state" where
  "ld_read_sector_cached sec s =
     (if ucast (ld_cache s) \<noteq> sec then s\<lparr>ld_temp := ld_disk s sec, ld_cache := ucast sec\<rparr> else s)"

definition ld_filesystem_init :: "loader_state \<Rightarrow> int \<times> loader_state" where
  "ld_filesystem_init s =
     (let buf = ld_disk s 0;
          bps = le16 buf 0x0b;
          spc = buf ! 0x0d;
          fat = ucast (le16 buf 0x0e);
          sectors_per_fat = le16 buf 0x16;
          number_of_fats = ucast (buf ! 0x10);
          root = fat + ucast (sectors_per_fat * number_of_fats);
          root_directory_size = le16 buf 0x11 div 16;
          small = ucast (le16 buf 0x13);
          n = (if small = 0 then le32 buf 0x20 else small)
      in (0, s\<lparr>ld_temp := buf, ld_cache := 0,
               ld_info := \<lparr>fat_region = fat, root_region = root, data_region = root + ucast root_directory_size,
                 bytes_per_sector = bps, sectors_per_cluster = spc, bytes_per_cluster = bps * ucast spc,
                 num_sectors = n\<rparr>\<rparr>))"

definition ld_start_sector :: "u16 \<Rightarrow> loader_state \<Rightarrow> u32" where
  "ld_start_sector cluster s =
     data_region (ld_info s) + ucast ((cluster - 2) * ucast (sectors_per_cluster (ld_info s)) :: u16)"

definition ld_next_cluster :: "u16 \<Rightarrow> loader_state \<Rightarrow> (u16 \<times> loader_state) option" where
  "ld_next_cluster cluster s =
     (let bps = bytes_per_sector (ld_info s) in
      if bps = 0 then None
      else do {
        let fat_sector = fat_region (ld_info s) + ucast (cluster * 2 div bps);
        let entry = unat (cluster * 2 mod bps);
        let s1 = ld_read_sector_cached fat_sector s;
        v \<leftarrow> rd16 (ld_temp s1) entry;
        Some (v, s1)
      })"

section \<open>The directory\<close>

text \<open>\<open>for (i = start; i < start + n; i++) if (buf[i] == ' ') break;\<close>\<close>

fun space_from :: "bytes \<Rightarrow> nat \<Rightarrow> nat \<Rightarrow> nat option" where
  "space_from buf i 0 = Some i"
| "space_from buf i (Suc n) =
     do { c \<leftarrow> rd buf i; if c = 0x20 then Some i else space_from buf (i + 1) n }"

definition ld_get_filename :: "bytes \<Rightarrow> bytes \<Rightarrow> bytes option" where
  "ld_get_filename buf dir_entry =
     do {
       b1 \<leftarrow> memcpy buf 0 (take 8 dir_entry);
       i \<leftarrow> space_from b1 0 8;
       b2 \<leftarrow> memcpy b1 i [0x2e];
       b3 \<leftarrow> memcpy b2 (i + 1) (take 3 (drop 8 dir_entry));
       j \<leftarrow> space_from b3 (i + 1) 3;
       memcpy b3 j [0]
     }"

fun ld_scan :: "bytes \<Rightarrow> bytes \<Rightarrow> nat list \<Rightarrow> scan option" where
  "ld_scan filename sec [] = Some More"
| "ld_scan filename sec (f # fs) =
     do {
       c \<leftarrow> rd sec f;
       if c = 0 then Some Missing
       else do {
         attr \<leftarrow> rd sec (f + 11);
         if attr AND 0x18 \<noteq> 0 then ld_scan filename sec fs
         else do {
           buf \<leftarrow> ld_get_filename (replicate 13 0) (drop f sec);
           same \<leftarrow> strcmp_eq buf filename;
           if same then Some (Found f) else ld_scan filename sec fs
         }
       }
     }"

text \<open>The loop over the sectors of the root directory; the entry found is the 32 bytes copied.\<close>

partial_function (option) ld_directory_find :: "bytes \<Rightarrow> u32 \<Rightarrow> loader_state \<Rightarrow> ((int + bytes) \<times> loader_state) option" where
  "ld_directory_find filename sec s =
     do {
       let s1 = ld_read_sector_cached sec s;
       r \<leftarrow> ld_scan filename (ld_temp s1) offsets;
       case r of
         Missing \<Rightarrow> Some (Inl E_LOADER_FILENOTFOUND, s1)
       | Found f \<Rightarrow> Some (Inr (take 32 (drop f (ld_temp s1))), s1)
       | More \<Rightarrow> ld_directory_find filename (sec + 1) s1
     }"

definition ld_get_directory_entry :: "bytes \<Rightarrow> loader_state \<Rightarrow> ((int + bytes) \<times> loader_state) option" where
  "ld_get_directory_entry filename s = ld_directory_find filename (root_region (ld_info s)) s"

section \<open>Files\<close>

definition ld_file_open :: "bytes \<Rightarrow> File_T \<Rightarrow> loader_state \<Rightarrow> (int \<times> File_T \<times> loader_state) option" where
  "ld_file_open filename fd s =
     do {
       (r, s1) \<leftarrow> ld_get_directory_entry filename s;
       case r of
         Inl e \<Rightarrow> Some (e, fd, s1)
       | Inr b \<Rightarrow> Some (0, \<lparr>lf_size = le32 b 0x1c, lf_fpos = 0, lf_start_cluster = le16 b 0x1a,
                          lf_current_cluster = le16 b 0x1a, lf_sector = 0, lf_within = 0\<rparr>, s1)
     }"

text \<open>The end of \<open>file_readbyte\<close> and \<open>file_readsector\<close>: on to the next sector.\<close>

definition ld_next_sector :: "File_T \<Rightarrow> loader_state \<Rightarrow> (File_T \<times> loader_state) option" where
  "ld_next_sector f s =
     (let f1 = f\<lparr>lf_sector := lf_sector f + 1\<rparr> in
      if lf_sector f1 = sectors_per_cluster (ld_info s) then do {
        (c, s1) \<leftarrow> ld_next_cluster (lf_current_cluster f1) s;
        Some (f1\<lparr>lf_current_cluster := c, lf_sector := 0\<rparr>, s1)
      } else Some (f1, s))"

definition ld_sector :: "File_T \<Rightarrow> loader_state \<Rightarrow> u32" where
  "ld_sector f s = ld_start_sector (lf_current_cluster f) s + ucast (lf_sector f)"

definition ld_file_readbyte :: "File_T \<Rightarrow> loader_state \<Rightarrow> (int \<times> File_T \<times> loader_state) option" where
  "ld_file_readbyte f s =
     (if lf_fpos f = lf_size f then Some (LOADER_EOF, f, s)
      else if lf_current_cluster f = CLUSTER_EOF then Some (LOADER_EOF, f, s)
      else do {
        let s1 = ld_read_sector_cached (ld_sector f s) s;
        byte \<leftarrow> rd (ld_temp s1) (unat (lf_within f));
        let f1 = f\<lparr>lf_fpos := lf_fpos f + 1, lf_within := lf_within f + 1\<rparr>;
        (f2, s2) \<leftarrow> (if lf_within f1 = bytes_per_sector (ld_info s1)
                     then ld_next_sector (f1\<lparr>lf_within := 0\<rparr>) s1 else Some (f1, s1));
        Some (int (unat byte), f2, s2)
      })"

definition ld_file_readsector :: "File_T \<Rightarrow> loader_state \<Rightarrow> (int \<times> bytes \<times> File_T \<times> loader_state) option" where
  "ld_file_readsector f s =
     (if lf_fpos f = lf_size f then Some (LOADER_EOF, [], f, s)
      else if lf_current_cluster f = CLUSTER_EOF then Some (LOADER_EOF, [], f, s)
      else do {
        let buf = ld_disk s (ld_sector f s);
        let f1 = f\<lparr>lf_fpos := lf_fpos f + ucast (bytes_per_sector (ld_info s))\<rparr>;
        (f2, s2) \<leftarrow> ld_next_sector f1 s;
        Some (0, buf, f2, s2)
      })"

text \<open>The three loops of \<open>file_read\<close>. \<open>acc\<close> holds the bytes stored so far, so \<open>bytes\<close> is its length;
  the first component of the result says that the function returns.\<close>

partial_function (option) ld_read_head ::
  "u16 \<Rightarrow> bytes \<Rightarrow> File_T \<Rightarrow> loader_state \<Rightarrow> (bool \<times> u16 \<times> bytes \<times> File_T \<times> loader_state) option" where
  "ld_read_head n acc f s =
     (if lf_within f = 0 then Some (False, n, acc, f, s)
      else do {
        (c, f1, s1) \<leftarrow> ld_file_readbyte f s;
        if c = LOADER_EOF then Some (True, n, acc, f1, s1)
        else ld_read_head (n - 1) (acc @ [of_int c]) f1 s1
      })"

fun ld_read_sectors :: "nat \<Rightarrow> bytes \<Rightarrow> File_T \<Rightarrow> loader_state \<Rightarrow> (bool \<times> bytes \<times> File_T \<times> loader_state) option" where
  "ld_read_sectors 0 acc f s = Some (False, acc, f, s)"
| "ld_read_sectors (Suc i) acc f s =
     do {
       (c, b, f1, s1) \<leftarrow> ld_file_readsector f s;
       if c = LOADER_EOF then Some (True, acc, f1, s1) else ld_read_sectors i (acc @ b) f1 s1
     }"

fun ld_read_tail :: "nat \<Rightarrow> bytes \<Rightarrow> File_T \<Rightarrow> loader_state \<Rightarrow> (bytes \<times> File_T \<times> loader_state) option" where
  "ld_read_tail 0 acc f s = Some (acc, f, s)"
| "ld_read_tail (Suc i) acc f s =
     do {
       (c, f1, s1) \<leftarrow> ld_file_readbyte f s;
       if c = LOADER_EOF then Some (acc, f1, s1) else ld_read_tail i (acc @ [of_int c]) f1 s1
     }"

definition ld_file_read :: "File_T \<Rightarrow> u16 \<Rightarrow> loader_state \<Rightarrow> (bytes \<times> File_T \<times> loader_state) option" where
  "ld_file_read f n s =
     do {
       (ret, n1, acc, f1, s1) \<leftarrow> ld_read_head n [] f s;
       if ret then Some (acc, f1, s1)
       else if bytes_per_sector (ld_info s1) = 0 then None
       else do {
         let bps = bytes_per_sector (ld_info s1);
         (ret, acc, f2, s2) \<leftarrow> ld_read_sectors (unat (n1 div bps)) acc f1 s1;
         if ret then Some (acc, f2, s2)
         else ld_read_tail (unat (n1 mod bps)) acc f2 s2
       }
     }"

section \<open>The loader\<close>

definition KERNEL_BIN :: bytes where
  "KERNEL_BIN = [0x4b, 0x45, 0x52, 0x4e, 0x45, 0x4c, 0x2e, 0x42, 0x49, 0x4e, 0]"

text \<open>Bytes stored at increasing addresses.\<close>

fun store_at :: "u16 \<Rightarrow> bytes \<Rightarrow> (u16 \<Rightarrow> u8) \<Rightarrow> (u16 \<Rightarrow> u8)" where
  "store_at a [] m = m"
| "store_at a (v # vs) m = store_at (a + 1) vs (m(a := v))"

text \<open>\<open>memcpy(0, mem, n)\<close> of \<open>loader/utils.asm\<close> is one \<open>ldir\<close>, which copies 65536 bytes for \<open>n = 0\<close>. The
  loader runs above 0x8000, so longer copies than 0x8000 bytes overwrite it.\<close>

definition copy_kernel :: "u16 \<Rightarrow> u32 \<Rightarrow> (u16 \<Rightarrow> u8) \<Rightarrow> bytes option" where
  "copy_kernel mem bytes_in_file m =
     (let n = ucast bytes_in_file :: u16 in
      if n = 0 \<or> 0x8000 < n then None
      else Some (map (\<lambda>i. m (mem + of_nat i)) [0..<unat n]))"

datatype boot_outcome = Kernel_Not_Found | Ram_Error | Started bytes

text \<open>\<open>main\<close>; \<open>tail\<close> is the address of \<open>_tail\<close>, \<open>m\<close> the memory, \<open>ram\<close> what \<open>ram_test\<close> returns.
  \<open>loader/kernel.h\<close> declares it \<open>bool\<close>, that is \<open>unsigned char\<close>, and the result is widened to \<open>uint\<close>.
  The outcome \<open>Started image\<close> carries the bytes from address 0 on when the kernel is entered.\<close>

definition loader_main :: "u16 \<Rightarrow> (u16 \<Rightarrow> u8) \<Rightarrow> u8 \<Rightarrow> File_T \<Rightarrow> loader_state \<Rightarrow> (boot_outcome \<times> loader_state) option" where
  "loader_main tail m ram file0 s0 =
     do {
       let s1 = snd (ld_filesystem_init s0);
       (e, file1, s2) \<leftarrow> ld_file_open KERNEL_BIN file0 s1;
       if e = 0 then do {
         let mem = tail + 512;
         (data, file2, s3) \<leftarrow> ld_file_read file1 (0xf000 - mem) s2;
         let m1 = store_at mem data m;
         let address = (ucast ram :: u16);
         if address \<noteq> 0x8000 then Some (Ram_Error, s3)
         else do {
           image \<leftarrow> copy_kernel mem (lf_size file2) m1;
           Some (Started image, s3)
         }
       }
       else Some (Kernel_Not_Found, s2)
     }"

end
