(* ===== verification/Loader_Properties.thy ===== *)
theory Loader_Properties
  imports Boot_Loader File_Properties
begin

text \<open>
  The boot loader against the kernel's file system. \<open>ld_fs\<close> reads a loader state and its file as a
  state of the kernel's file system with one descriptor; as long as all sectors have numbers below
  65536 the loader's functions are simulated by the kernel's, whose properties then carry over.
\<close>

section \<open>The loader's state as a file system\<close>

definition as_fd :: "u32 \<Rightarrow> File_T \<Rightarrow> FileDescriptor_T" where
  "as_fd z f = \<lparr>fd_name = [], flags = 0, mode = FMODE_READ, fsize = z, fpos = lf_fpos f,
     start_cluster = lf_start_cluster f, current_cluster = lf_current_cluster f, sector = lf_sector f,
     fpos_within_sector = lf_within f\<rparr>"

definition ld_fs :: "u32 \<Rightarrow> loader_state \<Rightarrow> File_T \<Rightarrow> fs" where
  "ld_fs z s f = \<lparr>disk = ld_disk s, disk_info = ld_info s, temp_sector = ld_temp s,
     current_cache_sector = ucast (ld_cache s), fdtable = [as_fd z f], close_entry = bytes_entry (replicate 32 0)\<rparr>"

lemma as_fd_fields [simp]:
  "mode (as_fd z f) = FMODE_READ" "fsize (as_fd z f) = z" "fpos (as_fd z f) = lf_fpos f"
  "current_cluster (as_fd z f) = lf_current_cluster f" "sector (as_fd z f) = lf_sector f"
  "fpos_within_sector (as_fd z f) = lf_within f"
  by (simp_all add: as_fd_def)

lemma ld_fs_fields [simp]:
  "disk (ld_fs z s f) = ld_disk s" "disk_info (ld_fs z s f) = ld_info s" "temp_sector (ld_fs z s f) = ld_temp s"
  "current_cache_sector (ld_fs z s f) = ucast (ld_cache s)" "fdtable (ld_fs z s f) = [as_fd z f]"
  by (simp_all add: ld_fs_def)

lemma ld_fs_fd: "fd_at 0 (ld_fs z s f) = Some (as_fd z f)"
  by (simp add: fd_at_def rd_def)

text \<open>What does not depend on the file.\<close>

lemma ld_fs_file:
  "fat_at (ld_fs z s f) = fat_at (ld_fs z' s f')" "fat_ok (ld_fs z s f) = fat_ok (ld_fs z' s f')"
  "spc (ld_fs z s f) = spc (ld_fs z' s f')" "file_data (ld_fs z s f) cs = file_data (ld_fs z' s f') cs"
  "sectors_of (ld_fs z s f) cs = sectors_of (ld_fs z' s f') cs" "dir_slots (ld_fs z s f) = dir_slots (ld_fs z' s f')"
proof -
  have same: "same_disk (ld_fs z s f) (ld_fs z' s f')" by (simp add: same_disk_def)
  show "fat_at (ld_fs z s f) = fat_at (ld_fs z' s f')" using same_diskD(2) [OF same] by simp
  show "spc (ld_fs z s f) = spc (ld_fs z' s f')" "file_data (ld_fs z s f) cs = file_data (ld_fs z' s f') cs"
    "sectors_of (ld_fs z s f) cs = sectors_of (ld_fs z' s f') cs"
    using same_disk_data [OF same] by simp_all
  show "fat_ok (ld_fs z s f) = fat_ok (ld_fs z' s f')"
    by (simp add: fat_ok_def fs_wf_def geometry_def disk_read_def)
  show "dir_slots (ld_fs z s f) = dir_slots (ld_fs z' s f')"
    by (simp add: dir_slots_def slots_from_def root_sectors_def disk_read_def)
qed

lemma ucast_u16_u32: "unat (sec :: u32) < 65536 \<Longrightarrow> ucast (ucast sec :: u16) = sec"
  by (simp add: word_unat_eq_iff unat_u16_u32 unat_u32_u16)

lemma ld_cached_sim:
  assumes "unat sec < 65536"
  shows "ld_fs z (ld_read_sector_cached sec s) f = read_sector_cached sec False (ld_fs z s f)"
proof -
  have "lba sec = sec" using assms by (intro lba_small) simp
  then show ?thesis
    using ucast_u16_u32 [OF assms] by (simp add: ld_read_sector_cached_def read_sector_cached_def disk_read_def ld_fs_def)
qed

lemma ld_cached_fields [simp]:
  "ld_disk (ld_read_sector_cached sec s) = ld_disk s" "ld_info (ld_read_sector_cached sec s) = ld_info s"
  by (simp_all add: ld_read_sector_cached_def)

text \<open>All the sectors that matter have 16-bit numbers.\<close>

definition no_file :: File_T where
  "no_file = \<lparr>lf_size = 0, lf_fpos = 0, lf_start_cluster = 0, lf_current_cluster = 0, lf_sector = 0, lf_within = 0\<rparr>"

definition ld_small :: "loader_state \<Rightarrow> u16 list \<Rightarrow> bool" where
  "ld_small s cs \<longleftrightarrow> unat (fat_region (ld_info s)) + 128 \<le> 65536 \<and> bytes_per_sector (ld_info s) = 512
     \<and> (\<forall>sec \<in> set (sectors_of (ld_fs 0 s no_file) cs). unat sec < 65536)"

lemma fat_sector_small:
  assumes "unat (fat_region i) + 128 \<le> 65536"
  shows "unat (fat_region i + ucast (c * 2 div 512 :: u16)) < 65536"
proof -
  have "unat (c * 2 div 512 :: u16) = unat (c * 2) div 512" by (simp only: unat_div) simp
  moreover have "unat (c * 2) < 65536" by (rule unat_u16_less)
  ultimately have "unat (ucast (c * 2 div 512 :: u16) :: u32) < 128" by (simp add: unat_u16_u32)
  then show ?thesis using assms by (subst unat_add_lt) simp_all
qed

lemma ld_next_cluster_sim:
  assumes "unat (fat_region (ld_info s)) + 128 \<le> 65536" "bytes_per_sector (ld_info s) = 512"
  shows "fat_next_cluster c (ld_fs z s f) = map_option (\<lambda>(v, s'). (v, ld_fs z s' f)) (ld_next_cluster c s)"
proof -
  note sec = fat_sector_small [OF assms(1), of c]
  let ?s = "ld_read_sector_cached (fat_region (ld_info s) + ucast (c * 2 div 512)) s"
  have "fat_next_cluster c (ld_fs z s f) =
      do { v \<leftarrow> rd16 (ld_temp ?s) (unat (c * 2 mod 512)); Some (v, ld_fs z ?s f) }"
    using assms(2) by (simp add: fat_next_cluster_def fat_locate_def Let_def flip: ld_cached_sim [OF sec])
  then show ?thesis
    using assms(2) by (cases "rd16 (ld_temp ?s) (unat (c * 2 mod 512))") (simp_all add: ld_next_cluster_def Let_def)
qed

lemma ld_set_fd: "fd_at 0 (ld_fs z s f) = Some (as_fd z f) \<Longrightarrow> g (as_fd z f) = as_fd z f' \<Longrightarrow> fd_update 0 g (ld_fs z s f) = Some (ld_fs z s f')"
  by (simp add: fd_update_eq set_fd_def ld_fs_def)

lemma ld_next_sector_sim:
  assumes "unat (fat_region (ld_info s)) + 128 \<le> 65536" "bytes_per_sector (ld_info s) = 512"
  shows "next_sector 0 (ld_fs z s f) = map_option (\<lambda>(f', s'). ld_fs z s' f') (ld_next_sector f s)"
proof -
  define f1 where "f1 = f\<lparr>lf_sector := lf_sector f + 1\<rparr>"
  have upd1: "fd_update 0 (\<lambda>f. f\<lparr>sector := sector f + 1\<rparr>) (ld_fs z s f) = Some (ld_fs z s f1)"
    by (rule ld_set_fd [OF ld_fs_fd]) (simp add: as_fd_def f1_def)
  have upd2: "fd_update 0 (\<lambda>f. f\<lparr>current_cluster := c, sector := 0\<rparr>) (ld_fs z s' f1) = Some (ld_fs z s' (f1\<lparr>lf_current_cluster := c, lf_sector := 0\<rparr>))" for c s'
    by (rule ld_set_fd [OF ld_fs_fd]) (simp add: as_fd_def)
  show ?thesis
    unfolding next_sector_def upd1 ld_next_sector_def f1_def [symmetric] Let_def
    by (simp add: ld_fs_fd ld_next_cluster_sim [OF assms] upd2 split: option.split) (cases "ld_next_cluster (lf_current_cluster f1) s"; auto simp: upd2)
qed

section \<open>Bytes and sectors\<close>

lemma ld_file_readbyte_sim:
  assumes "unat (fat_region (ld_info s)) + 128 \<le> 65536" "bytes_per_sector (ld_info s) = 512" "unat (ld_sector f s) < 65536"
    and "lf_fpos f = lf_size f \<longleftrightarrow> lf_fpos f = z"
  shows "file_readbyte 0 (ld_fs z s f) = map_option (\<lambda>(r, f', s'). (r, ld_fs z s' f')) (ld_file_readbyte f s)"
proof (cases "lf_fpos f = z \<or> lf_current_cluster f = CLUSTER_EOF")
  case True
  then show ?thesis using assms(4) by (auto simp: file_readbyte_def ld_file_readbyte_def ld_fs_fd)
next
  case False
  then have go: "lf_fpos f \<noteq> z" "lf_fpos f \<noteq> lf_size f" "lf_current_cluster f \<noteq> CLUSTER_EOF" using assms(4) by auto
  define s1 where "s1 = ld_read_sector_cached (ld_sector f s) s"
  have sec: "file_sector (as_fd z f) (ld_fs z s f) = ld_sector f s"
    by (simp add: file_sector_def ld_sector_def file_start_sector_def ld_start_sector_def)
  have s1: "read_sector_cached (ld_sector f s) False (ld_fs z s f) = ld_fs z s1 f"
    unfolding s1_def by (rule ld_cached_sim [OF assms(3), symmetric])
  have info: "ld_info s1 = ld_info s" by (simp add: s1_def)
  define f1 where "f1 = f\<lparr>lf_fpos := lf_fpos f + 1, lf_within := lf_within f + 1\<rparr>"
  have upd1: "fd_update 0 (\<lambda>f. f\<lparr>fpos := fpos f + 1, fpos_within_sector := fpos_within_sector f + 1\<rparr>) (ld_fs z s1 f) = Some (ld_fs z s1 f1)"
    by (rule ld_set_fd [OF ld_fs_fd]) (simp add: as_fd_def f1_def)
  have upd2: "fd_update 0 (\<lambda>f. f\<lparr>fpos_within_sector := 0\<rparr>) (ld_fs z s1 f1) = Some (ld_fs z s1 (f1\<lparr>lf_within := 0\<rparr>))"
    by (rule ld_set_fd [OF ld_fs_fd]) (simp add: as_fd_def)
  have nxt: "next_sector 0 (ld_fs z s1 g) = map_option (\<lambda>(f', s'). ld_fs z s' f') (ld_next_sector g s1)" for g
    using assms(1,2) by (intro ld_next_sector_sim) (simp_all add: info)
  have f1w: "lf_within f1 = lf_within f + 1" by (simp add: f1_def)
  show ?thesis
    using go
    by (simp add: file_readbyte_def ld_file_readbyte_def ld_fs_fd sec s1 s1_def [symmetric] f1_def [symmetric] upd1 upd2 nxt info f1w Let_def)
      (auto simp: map_option_case split: option.splits bind_splits)
qed

lemma ld_file_readsector_sim:
  assumes "unat (fat_region (ld_info s)) + 128 \<le> 65536" "bytes_per_sector (ld_info s) = 512" "unat (ld_sector f s) < 65536"
    and "lf_fpos f = lf_size f \<longleftrightarrow> lf_fpos f = z"
  shows "file_readsector 0 (ld_fs z s f) = map_option (\<lambda>(r, b, f', s'). (r, b, ld_fs z s' f')) (ld_file_readsector f s)"
proof (cases "lf_fpos f = z \<or> lf_current_cluster f = CLUSTER_EOF")
  case True
  then show ?thesis using assms(4) by (auto simp: file_readsector_def ld_file_readsector_def ld_fs_fd)
next
  case False
  then have go: "lf_fpos f \<noteq> z" "lf_fpos f \<noteq> lf_size f" "lf_current_cluster f \<noteq> CLUSTER_EOF" using assms(4) by auto
  have sec: "file_sector (as_fd z f) (ld_fs z s f) = ld_sector f s"
    by (simp add: file_sector_def ld_sector_def file_start_sector_def ld_start_sector_def)
  have "lba (ld_sector f s) = ld_sector f s" using assms(3) by (intro lba_small) simp
  then have read: "disk_read (ld_sector f s) (ld_fs z s f) = ld_disk s (ld_sector f s)" by (simp add: disk_read_def)
  define f1 where "f1 = f\<lparr>lf_fpos := lf_fpos f + 512\<rparr>"
  have upd1: "fd_update 0 (\<lambda>f. f\<lparr>fpos := fpos f + 512\<rparr>) (ld_fs z s f) = Some (ld_fs z s f1)"
    by (rule ld_set_fd [OF ld_fs_fd]) (simp add: as_fd_def f1_def)
  show ?thesis
    using go assms(2)
    by (simp add: file_readsector_def ld_file_readsector_def ld_fs_fd sec read f1_def [symmetric] upd1
        ld_next_sector_sim [OF assms(1,2)] Let_def)
      (auto simp: map_option_case split: option.splits bind_splits)
qed

section \<open>Positions in a file\<close>

abbreviation (input) NO_SIZE :: u32 where "NO_SIZE \<equiv> 0xffffffff"

text \<open>The loader stands at byte \<open>p\<close> of the chain \<open>cs\<close>, whose sectors hold \<open>D\<close>. The kernel's descriptor
  is given a size that is never reached: the loader's own end-of-file test is treated apart.\<close>

definition ld_at :: "loader_state \<Rightarrow> File_T \<Rightarrow> u16 list \<Rightarrow> bytes \<Rightarrow> nat \<Rightarrow> bool" where
  "ld_at s f cs D p \<longleftrightarrow> fat_ok (ld_fs NO_SIZE s f) \<and> ld_small s cs \<and> chain_of (ld_fs NO_SIZE s f) cs
     \<and> open_at (ld_fs NO_SIZE s f) 0 FMODE_READ NO_SIZE cs p \<and> file_data (ld_fs NO_SIZE s f) cs = D \<and> length D < 2 ^ 31"

lemma ld_small_cong:
  assumes "same_disk (ld_fs z s f) (ld_fs z' s' f')"
  shows "ld_small s' cs = ld_small s cs"
proof -
  have "same_disk (ld_fs 0 s no_file) (ld_fs 0 s' no_file)" using assms by (simp add: same_disk_def)
  note this = same_disk_data(2) [OF this]
  then show ?thesis using assms by (simp add: ld_small_def same_disk_def)
qed

lemma ld_atD:
  assumes "ld_at s f cs D p"
  shows "length D = 512 * (spc (ld_fs NO_SIZE s f) * length cs)" "unat (lf_fpos f) = p" "p \<le> length D"
    "pos_ok (ld_fs NO_SIZE s f) cs p (as_fd NO_SIZE f)" "lf_fpos f \<noteq> NO_SIZE"
    "unat (fat_region (ld_info s)) + 128 \<le> 65536" "bytes_per_sector (ld_info s) = 512"
proof -
  from assms have open_: "open_at (ld_fs NO_SIZE s f) 0 FMODE_READ NO_SIZE cs p" and ok: "fat_ok (ld_fs NO_SIZE s f)"
    and D: "file_data (ld_fs NO_SIZE s f) cs = D" "length D < 2 ^ 31" and sm: "ld_small s cs" by (simp_all add: ld_at_def)
  show len: "length D = 512 * (spc (ld_fs NO_SIZE s f) * length cs)"
    using ok D by (auto simp: fat_ok_def file_data_length)
  show pos: "unat (lf_fpos f) = p" "pos_ok (ld_fs NO_SIZE s f) cs p (as_fd NO_SIZE f)"
    using open_ by (auto simp: open_at_def ld_fs_fd)
  then show "p \<le> length D" by (simp add: len pos_ok_def)
  with D(2) pos(1) show "lf_fpos f \<noteq> NO_SIZE" by auto
  show "unat (fat_region (ld_info s)) + 128 \<le> 65536" "bytes_per_sector (ld_info s) = 512"
    using sm by (simp_all add: ld_small_def)
qed

lemma ld_at_sector:
  assumes "ld_at s f cs D p" "p < length D"
  shows "unat (ld_sector f s) < 65536"
proof -
  note at = ld_atD [OF assms(1)]
  have lt: "p < 512 * (spc (ld_fs NO_SIZE s f) * length cs)" using assms(2) at(1) by simp
  have "file_sector (as_fd NO_SIZE f) (ld_fs NO_SIZE s f) = ld_sector f s"
    by (simp add: file_sector_def ld_sector_def file_start_sector_def ld_start_sector_def)
  then have "ld_sector f s = sectors_of (ld_fs NO_SIZE s f) cs ! (p div 512)"
    using file_sector_pos(1) [OF at(4) lt] by simp
  moreover have "p div 512 < spc (ld_fs NO_SIZE s f) * length cs" using lt by (simp add: less_mult_imp_div_less mult.commute)
  ultimately have "ld_sector f s \<in> set (sectors_of (ld_fs 0 s no_file) cs)"
    using ld_fs_file(5) [of NO_SIZE s f cs 0 no_file] by (metis nth_mem sectors_of_length)
  then show ?thesis using assms(1) by (simp add: ld_at_def ld_small_def)
qed

text \<open>End of file: at the size, or at the end of the chain.\<close>

lemma ld_at_end:
  assumes "ld_at s f cs D p" "p = unat (lf_size f) \<or> p = length D"
  shows "ld_file_readbyte f s = Some (LOADER_EOF, f, s)" "ld_file_readsector f s = Some (LOADER_EOF, [], f, s)"
proof -
  note at = ld_atD [OF assms(1)]
  have "lf_fpos f = lf_size f \<or> lf_current_cluster f = CLUSTER_EOF"
  proof (cases "p = unat (lf_size f)")
    case True
    then show ?thesis using at(2) by (simp add: word_unat_eq_iff)
  next
    case False
    then have "p = length D" using assms(2) by simp
    moreover have "0 < spc (ld_fs NO_SIZE s f)" using assms(1) spc_bounds by (simp add: ld_at_def)
    ultimately have "lf_current_cluster f = (cs @ [CLUSTER_EOF]) ! length cs" using at(1,4) by (simp add: pos_ok_def)
    then show ?thesis by simp
  qed
  then show "ld_file_readbyte f s = Some (LOADER_EOF, f, s)" "ld_file_readsector f s = Some (LOADER_EOF, [], f, s)"
    by (auto simp: ld_file_readbyte_def ld_file_readsector_def)
qed

lemma ld_next_sector_size: "ld_next_sector f s = Some (f', s') \<Longrightarrow> lf_size f' = lf_size f"
  by (auto simp: ld_next_sector_def Let_def split: if_splits bind_splits prod.splits)

lemma ld_read_size:
  "ld_file_readbyte f s = Some (r, f', s') \<Longrightarrow> lf_size f' = lf_size f"
  "ld_file_readsector f s = Some (r, b, f', s') \<Longrightarrow> lf_size f' = lf_size f"
  by (auto simp: ld_file_readbyte_def ld_file_readsector_def Let_def split: if_splits bind_splits prod.splits dest!: ld_next_sector_size)

lemma ld_at_frame:
  assumes "ld_at s f cs D p" "same_disk (ld_fs NO_SIZE s f) (ld_fs NO_SIZE s' f')" "fat_ok (ld_fs NO_SIZE s' f')"
    and "open_at (ld_fs NO_SIZE s' f') 0 FMODE_READ NO_SIZE cs q"
  shows "ld_at s' f' cs D q"
  using assms ld_small_cong [OF assms(2)] chain_of_same_disk [OF assms(2)] same_disk_data(3) [OF assms(2), of cs]
  by (simp add: ld_at_def)

lemma ld_readbyte_at:
  assumes "ld_at s f cs D p" "p < length D" "p \<noteq> unat (lf_size f)"
  obtains f' s' where "ld_file_readbyte f s = Some (int (unat (D ! p)), f', s')" "ld_at s' f' cs D (Suc p)"
    "lf_size f' = lf_size f"
proof -
  note at = ld_atD [OF assms(1)]
  have facts: "fat_ok (ld_fs NO_SIZE s f)" "chain_of (ld_fs NO_SIZE s f) cs"
    "open_at (ld_fs NO_SIZE s f) 0 FMODE_READ NO_SIZE cs p" "file_data (ld_fs NO_SIZE s f) cs = D"
    "length D < 2 ^ 31" using assms(1) by (simp_all add: ld_at_def)
  have "p < 2 ^ 31" using assms(2) facts(5) by (rule less_trans)
  then have lt: "p < unat NO_SIZE" "p < 512 * (spc (ld_fs NO_SIZE s f) * length cs)" using assms(2) at(1) by simp_all
  obtain t where t: "file_readbyte 0 (ld_fs NO_SIZE s f) = Some (int (unat (D ! p)), t)" "fat_ok t"
      "same_disk (ld_fs NO_SIZE s f) t" "open_at t 0 FMODE_READ NO_SIZE cs (Suc p)"
    by (rule file_readbyte_pos [OF facts(1-3) lt, unfolded facts(4)])
  have "lf_fpos f = lf_size f \<longleftrightarrow> lf_fpos f = NO_SIZE" using at(2,5) assms(3) by auto
  from ld_file_readbyte_sim [OF at(6,7) ld_at_sector [OF assms(1,2)] this] t(1)
  obtain f' s' where r: "ld_file_readbyte f s = Some (int (unat (D ! p)), f', s')" "t = ld_fs NO_SIZE s' f'"
    by (cases "ld_file_readbyte f s") auto
  show thesis
    using that [OF r(1) ld_at_frame [OF assms(1)]] ld_read_size(1) [OF r(1)] t(2-4) by (simp add: r(2))
qed

lemma ld_readsector_at:
  assumes "ld_at s f cs D p" "p mod 512 = 0" "p < length D" "p \<noteq> unat (lf_size f)"
  obtains f' s' where "ld_file_readsector f s = Some (0, take 512 (drop p D), f', s')" "ld_at s' f' cs D (p + 512)"
    "lf_size f' = lf_size f"
proof -
  note at = ld_atD [OF assms(1)]
  have facts: "fat_ok (ld_fs NO_SIZE s f)" "chain_of (ld_fs NO_SIZE s f) cs"
    "open_at (ld_fs NO_SIZE s f) 0 FMODE_READ NO_SIZE cs p" "file_data (ld_fs NO_SIZE s f) cs = D"
    "length D < 2 ^ 31" using assms(1) by (simp_all add: ld_at_def)
  have "p < 2 ^ 31" using assms(3) facts(5) by (rule less_trans)
  then have lt: "p + 512 \<le> unat NO_SIZE" "p < 512 * (spc (ld_fs NO_SIZE s f) * length cs)" using assms(3) at(1) by simp_all
  obtain t where t: "file_readsector 0 (ld_fs NO_SIZE s f) = Some (0, take 512 (drop p D), t)" "fat_ok t"
      "same_disk (ld_fs NO_SIZE s f) t" "open_at t 0 FMODE_READ NO_SIZE cs (p + 512)"
    by (rule file_readsector_pos [OF facts(1-3) assms(2) lt, unfolded facts(4)])
  have "lf_fpos f = lf_size f \<longleftrightarrow> lf_fpos f = NO_SIZE" using at(2,5) assms(4) by auto
  from ld_file_readsector_sim [OF at(6,7) ld_at_sector [OF assms(1,3)] this] t(1)
  obtain f' s' where r: "ld_file_readsector f s = Some (0, take 512 (drop p D), f', s')" "t = ld_fs NO_SIZE s' f'"
    by (cases "ld_file_readsector f s") auto
  show thesis
    using that [OF r(1) ld_at_frame [OF assms(1)]] ld_read_size(2) [OF r(1)] t(2-4) by (simp add: r(2))
qed

section \<open>The loops of \<open>file_read\<close>\<close>

text \<open>The byte loop stops at the size if it starts before it, and at the end of the chain otherwise.\<close>

lemma ld_read_tail_at:
  assumes "ld_at s f cs D p" "unat (lf_size f) \<le> length D" "lim = (if p \<le> unat (lf_size f) then unat (lf_size f) else length D)"
  shows "\<exists>f' s'. ld_read_tail k acc f s = Some (acc @ take k (drop p (take lim D)), f', s') \<and> lf_size f' = lf_size f"
  using assms
proof (induction k arbitrary: acc f s p)
  case (Suc k)
  have le: "p \<le> lim" "lim \<le> length D" using ld_atD(3) [OF Suc.prems(1)] Suc.prems(2,3) by simp_all
  show ?case
  proof (cases "p = lim")
    case True
    then have "p = unat (lf_size f) \<or> p = length D" using Suc.prems(3) by (simp split: if_splits)
    from ld_at_end(1) [OF Suc.prems(1) this] True show ?thesis by simp
  next
    case False
    then have p: "p < length D" "p \<noteq> unat (lf_size f)" "p < lim" using le Suc.prems(3) by (auto split: if_splits)
    obtain f1 s1 where r: "ld_file_readbyte f s = Some (int (unat (D ! p)), f1, s1)" "ld_at s1 f1 cs D (Suc p)" "lf_size f1 = lf_size f"
      by (rule ld_readbyte_at [OF Suc.prems(1) p(1,2)])
    have lim1: "lim = (if Suc p \<le> unat (lf_size f1) then unat (lf_size f1) else length D)"
      using p Suc.prems(3) by (auto simp: r(3) split: if_splits)
    obtain f' s' where IH: "ld_read_tail k (acc @ [D ! p]) f1 s1 = Some ((acc @ [D ! p]) @ take k (drop (Suc p) (take lim D)), f', s')" "lf_size f' = lf_size f1"
      using Suc.IH [OF r(2) _ lim1, of "acc @ [D ! p]"] Suc.prems(2) r(3) by auto
    have "drop p (take lim D) = D ! p # drop (Suc p) (take lim D)"
      using p(3) le(2) Cons_nth_drop_Suc [of p "take lim D"] by simp
    then show ?thesis using r IH by simp
  qed
qed simp

lemma next_multiple:
  assumes "p mod m = 0" "l mod m = 0" "p < (l :: nat)"
  shows "p + m \<le> l"
proof -
  from assms obtain a b where ab: "p = m * a" "l = m * b" by (auto simp: mod_eq_0_iff_dvd elim!: dvdE)
  with assms(3) have "Suc a \<le> b" by (auto intro: ccontr)
  then have "m * Suc a \<le> m * b" by (rule mult_le_mono2)
  then show ?thesis by (simp add: ab)
qed

lemma ld_read_sectors_at:
  assumes "ld_at s f cs D p" "p mod 512 = 0" "unat (lf_size f) \<le> length D" "p \<le> lim"
    and "lim = (if unat (lf_size f) mod 512 = 0 then unat (lf_size f) else length D)"
  shows "\<exists>f' s'. ld_read_sectors k acc f s = Some (lim < p + 512 * k, acc @ take (512 * k) (drop p (take lim D)), f', s')
    \<and> lf_size f' = lf_size f \<and> (p + 512 * k \<le> lim \<longrightarrow> ld_at s' f' cs D (p + 512 * k))"
  using assms
proof (induction k arbitrary: acc f s p)
  case (Suc k)
  have lim: "lim \<le> length D" "lim mod 512 = 0"
    using Suc.prems(3,5) ld_atD(1) [OF Suc.prems(1)] by simp_all
  show ?case
  proof (cases "p = lim")
    case True
    then have "p = unat (lf_size f) \<or> p = length D" using Suc.prems(5) by (simp split: if_splits)
    from ld_at_end(2) [OF Suc.prems(1) this] True show ?thesis by simp
  next
    case False
    then have p: "p < length D" "p < lim" using Suc.prems(4) lim by simp_all
    have "p \<noteq> unat (lf_size f)" using False Suc.prems(2,5) by (auto split: if_splits)
    then obtain f1 s1 where r: "ld_file_readsector f s = Some (0, take 512 (drop p D), f1, s1)" "ld_at s1 f1 cs D (p + 512)" "lf_size f1 = lf_size f"
      using ld_readsector_at [OF Suc.prems(1,2) p(1)] by metis
    have p512: "p + 512 \<le> lim" by (rule next_multiple [OF Suc.prems(2) lim(2) p(2)])
    have p512_mod: "(p + 512) mod 512 = 0" using Suc.prems(2) by simp
    have lim1: "lim = (if unat (lf_size f1) mod 512 = 0 then unat (lf_size f1) else length D)"
      using Suc.prems(5) by (simp add: r(3))
    have size1: "unat (lf_size f1) \<le> length D" using Suc.prems(3) by (simp only: r(3))
    from Suc.IH [OF r(2) p512_mod size1 p512 lim1, of "acc @ take 512 (drop p D)"]
    obtain f' s' where IH: "ld_read_sectors k (acc @ take 512 (drop p D)) f1 s1 =
        Some (lim < p + 512 + 512 * k, (acc @ take 512 (drop p D)) @ take (512 * k) (drop (p + 512) (take lim D)), f', s')"
        "lf_size f' = lf_size f1" "p + 512 + 512 * k \<le> lim \<longrightarrow> ld_at s' f' cs D (p + 512 + 512 * k)"
      by blast
    have split: "take (512 + 512 * k) (drop p (take lim D)) = take 512 (drop p D) @ take (512 * k) (drop (p + 512) (take lim D))"
    proof -
      have "take 512 (drop p (take lim D)) = take 512 (drop p D)" using p512 by (simp add: drop_take min_def)
      moreover have "drop 512 (drop p (take lim D)) = drop (p + 512) (take lim D)" by (simp only: drop_drop add.commute)
      ultimately show ?thesis by (simp only: take_add)
    qed
    have mult: "512 * Suc k = 512 + 512 * k" by simp
    show ?thesis
      unfolding mult split using IH by (simp add: r(1,3) add.assoc)
  qed
qed simp

section \<open>Reading a file\<close>

text \<open>How many bytes \<open>file_read\<close> stores, of a file of \<open>z\<close> bytes whose clusters have \<open>t\<close> bytes, when \<open>n\<close> are
  asked for: between whole sectors the size is only noticed when it is a multiple of 512.\<close>

definition ld_count :: "nat \<Rightarrow> nat \<Rightarrow> nat \<Rightarrow> nat" where
  "ld_count z t n = (if z mod 512 = 0 \<or> 512 * (n div 512) \<le> z then min n z else min n t)"

text \<open>A file as \<open>file_open\<close> leaves it.\<close>

definition just_opened :: "File_T \<Rightarrow> bool" where
  "just_opened f \<longleftrightarrow> lf_fpos f = 0 \<and> lf_within f = 0 \<and> lf_sector f = 0"

lemma just_opened_at:
  assumes "fat_ok (ld_fs 0 s no_file)" "ld_small s cs" "is_chain (fat_at (ld_fs 0 s no_file)) (lf_current_cluster f) cs"
    and "just_opened f" "D = file_data (ld_fs 0 s no_file) cs" "length D < 2 ^ 31"
  shows "ld_at s f cs D 0"
proof -
  have "lf_current_cluster f = (cs @ [CLUSTER_EOF]) ! 0" using assms(3) by (cases cs) auto
  then have "open_at (ld_fs NO_SIZE s f) 0 FMODE_READ NO_SIZE cs 0"
    using assms(4) by (simp add: open_at_def ld_fs_fd pos_ok_def just_opened_def)
  moreover have "fat_ok (ld_fs NO_SIZE s f)" using assms(1) ld_fs_file(2) by blast
  moreover have "chain_of (ld_fs NO_SIZE s f) cs"
    unfolding chain_of_def using assms(3) ld_fs_file(1) [of NO_SIZE s f 0 no_file] by auto
  moreover have "file_data (ld_fs NO_SIZE s f) cs = D" unfolding assms(5) by (rule ld_fs_file(4))
  ultimately show ?thesis using assms(2,6) by (simp add: ld_at_def)
qed

lemma ld_file_read_at:
  assumes "ld_at s f cs D 0" "lf_within f = 0" "unat (lf_size f) \<le> length D"
  shows "\<exists>f' s'. ld_file_read f n s = Some (take (ld_count (unat (lf_size f)) (length D) (unat n)) D, f', s') \<and> lf_size f' = lf_size f"
proof -
  let ?z = "unat (lf_size f)" and ?t = "length D" and ?n = "unat n" and ?k = "unat n div 512"
  define lim where "lim = (if ?z mod 512 = 0 then ?z else ?t)"
  have bps: "bytes_per_sector (ld_info s) = 512" by (rule ld_atD(7) [OF assms(1)])
  have div: "unat (n div 512) = ?k" "unat (n mod 512) = ?n mod 512" by (simp_all only: unat_div unat_mod) simp_all
  have nk: "512 * ?k + ?n mod 512 = ?n" by simp
  obtain f1 s1 where sec: "ld_read_sectors ?k [] f s = Some (lim < 512 * ?k, take (512 * ?k) (take lim D), f1, s1)"
      "lf_size f1 = lf_size f" "512 * ?k \<le> lim \<longrightarrow> ld_at s1 f1 cs D (512 * ?k)"
    using ld_read_sectors_at [OF assms(1) _ assms(3) _ lim_def, of ?k "[]"] by auto
  have head: "ld_read_head n [] f s = Some (False, n, [], f, s)"
    using assms(2) by (simp add: ld_read_head.simps)
  show ?thesis
  proof (cases "lim < 512 * ?k")
    case True
    then have "ld_count ?z ?t ?n = lim" using nk assms(3) by (auto simp: ld_count_def lim_def)
    then show ?thesis
      using True sec(1,2) by (simp add: ld_file_read_def head bps div(1))
  next
    case False
    then have at1: "ld_at s1 f1 cs D (512 * ?k)" using sec(3) by simp
    define lim2 where "lim2 = (if 512 * ?k \<le> unat (lf_size f1) then unat (lf_size f1) else length D)"
    have size1: "unat (lf_size f1) \<le> length D" using assms(3) by (simp only: sec(2))
    from ld_read_tail_at [OF at1 size1 lim2_def]
    obtain f2 s2 where tail: "ld_read_tail (?n mod 512) (take (512 * ?k) (take lim D)) f1 s1 =
        Some (take (512 * ?k) (take lim D) @ take (?n mod 512) (drop (512 * ?k) (take lim2 D)), f2, s2)" "lf_size f2 = lf_size f1"
      by blast
    have le: "512 * ?k \<le> lim2" "lim2 \<le> ?t" using False assms(3) sec(2) by (auto simp: lim_def lim2_def split: if_splits)
    have "take (512 * ?k) (take lim D) = take (512 * ?k) (take lim2 D)" using False le by (simp add: min_def)
    then have "take (512 * ?k) (take lim D) @ take (?n mod 512) (drop (512 * ?k) (take lim2 D)) = take ?n (take lim2 D)"
      using take_add [of "512 * ?k" "?n mod 512" "take lim2 D"] nk by simp
    moreover have "ld_count ?z ?t ?n = min ?n lim2"
      using False le sec(2) by (auto simp: ld_count_def lim_def lim2_def split: if_splits)
    ultimately show ?thesis
      using False sec(1,2) tail bps by (simp add: ld_file_read_def head div)
  qed
qed

section \<open>The directory\<close>

lemma space_from_eq:
  assumes "i + n \<le> length buf"
  shows "space_from buf i n = Some (i + (case first_idx (\<lambda>c. c = 0x20) (take n (drop i buf)) of None \<Rightarrow> n | Some k \<Rightarrow> k))"
  using assms
proof (induction n arbitrary: i)
  case (Suc n)
  have d: "drop i buf = buf ! i # drop (Suc i) buf" using Suc.prems by (simp add: Cons_nth_drop_Suc)
  have "rd buf i = Some (buf ! i)" using Suc.prems by (simp add: rd_def)
  then show ?case
    using Suc.IH [of "i + 1"] Suc.prems unfolding d
    by (cases "first_idx (\<lambda>c. c = 0x20) (take n (drop (Suc i) buf))") (simp_all del: first_idx_None)
qed simp

lemma filename_eq:
  assumes "length buf = 13" "11 \<le> length de"
  shows "ld_get_filename buf de = filesystem_filename buf de"
proof -
  have len8: "length (take 8 de) = 8" "length (take 3 (drop 8 de)) = 3" using assms(2) by simp_all
  obtain b1 where b1: "memcpy buf 0 (take 8 de) = Some b1" "length b1 = 13"
    using assms len8 memcpy_length by (simp add: memcpy_def)
  define i where "i = (case first_idx (\<lambda>c. c = 0x20) (take 8 b1) of None \<Rightarrow> 8 | Some k \<Rightarrow> k)"
  have i8: "i \<le> 8" unfolding i_def using b1(2) by (intro first_space_bound) simp
  have si: "space_from b1 0 8 = Some i" using space_from_eq [of 0 8 b1] b1(2) by (simp add: i_def)
  obtain b2 where b2: "memcpy b1 i [0x2e] = Some b2" "length b2 = 13" using b1(2) i8 by (simp add: memcpy_def)
  obtain b3 where b3: "memcpy b2 (i + 1) (take 3 (drop 8 de)) = Some b3" "length b3 = 13"
    using b2(2) i8 len8 by (simp add: memcpy_def)
  have sj: "space_from b3 (i + 1) 3 =
      Some (case first_idx (\<lambda>c. c = 0x20) (take 3 (drop (i + 1) b3)) of None \<Rightarrow> i + 1 + 3 | Some j \<Rightarrow> i + 1 + j)"
    using space_from_eq [of "i + 1" 3 b3] b3(2) i8
    by (cases "first_idx (\<lambda>c. c = 0x20) (take 3 (drop (i + 1) b3))") (simp_all del: first_idx_None)
  show ?thesis
    unfolding ld_get_filename_def filesystem_filename_def b1(1) Option.bind.bind_lunit Let_def si i_def [symmetric] b2(1) b3(1) sj ..
qed

lemma strcmp_e5:
  assumes "buf ! 0 = 0xe5" "0 < length buf" "filename \<noteq> []" "hd filename \<noteq> 0xe5"
  shows "strcmp_eq buf filename = Some False"
  using assms by (cases buf; cases filename) auto

lemma filename_first:
  assumes "filesystem_filename buf de = Some buf'" "length buf = 13" "11 \<le> length de" "de ! 0 \<noteq> 0" "de ! 0 \<noteq> 0x20"
  shows "buf' ! 0 = de ! 0 \<and> length buf' = 13"
proof -
  have "cstr buf' = slot_string de" "length buf' = 13" using filesystem_filename_eq [OF assms(2,3)] assms(1) by auto
  moreover obtain c cs where "de = c # cs" using assms(3) by (cases de) auto
  ultimately have "cstr buf' = c # tl (cstr buf')" "c = de ! 0" using assms(4,5) by (simp_all add: slot_string_def cstr_def)
  moreover have "cstr buf' ! 0 = buf' ! 0" if "cstr buf' \<noteq> []"
    using that by (cases buf') (auto simp: cstr_def)
  ultimately show ?thesis using \<open>length buf' = 13\<close> by (metis list.distinct(1) nth_Cons_0)
qed

text \<open>The loader does not skip deleted entries, but their first byte keeps them from matching.\<close>

lemma ld_scan_eq:
  assumes "length sec = 512" "filename \<noteq> []" "hd filename \<noteq> 0xe5" "\<forall>f \<in> set fs. f + 32 \<le> 512"
  shows "ld_scan filename sec fs = scan_entries filename sec fs"
  using assms(4)
proof (induction fs)
  case (Cons f fs)
  have f: "f + 32 \<le> length sec" using Cons.prems assms(1) by simp
  then have r: "rd sec f = Some (sec ! f)" "rd sec (f + 11) = Some (sec ! (f + 11))" by (simp_all add: rd_def)
  have de: "11 \<le> length (drop f sec)" "drop f sec ! 0 = sec ! f" using f by simp_all
  have name: "ld_get_filename (replicate 13 0) (drop f sec) = filesystem_filename (replicate 13 0) (drop f sec)"
    using de by (intro filename_eq) simp_all
  have IH: "ld_scan filename sec fs = scan_entries filename sec fs" using Cons by simp
  show ?case
  proof (cases "sec ! f = 0xe5")
    case False
    then show ?thesis unfolding ld_scan.simps scan_entries.simps name IH by (simp add: r)
  next
    case True
    obtain buf where buf: "filesystem_filename (replicate 13 0) (drop f sec) = Some buf"
      using filesystem_filename_eq [of "replicate 13 0" "drop f sec"] de by auto
    from filename_first [OF this] de True have "buf ! 0 = 0xe5" "0 < length buf" by auto
    from strcmp_e5 [OF this assms(2,3)] True show ?thesis by (simp add: r name buf IH)
  qed
qed simp

lemma ld_fs_wf_cached:
  assumes "fs_wf (ld_fs z s f)" "unat sec < 65536"
  shows "fs_wf (ld_fs z (ld_read_sector_cached sec s) f)" "ld_temp (ld_read_sector_cached sec s) = disk_read sec (ld_fs z s f)"
  using read_sector_cached_wf [OF assms(1)] read_sector_cached_temp [OF assms(1), of sec False] ld_cached_sim [OF assms(2), of z s f]
  by (auto dest: arg_cong [of _ _ temp_sector])

lemma ld_directory_find_slots:
  assumes "fs_wf (ld_fs z s f)" "0 \<in> set filename" "hd filename \<noteq> 0xe5" "unat sec + n \<le> 65536"
  shows "\<exists>s'. ld_disk s' = ld_disk s \<and> ld_info s' = ld_info s \<and> fs_wf (ld_fs z s' f) \<and> ld_directory_find filename sec s =
    (case dir_scan (cstr filename) (slots_from (ld_fs z s f) sec n) of
       Found k \<Rightarrow> Some (Inr (slots_from (ld_fs z s f) sec n ! k), s')
     | Missing \<Rightarrow> Some (Inl E_LOADER_FILENOTFOUND, s')
     | More \<Rightarrow> ld_directory_find filename (sec + of_nat n) s')"
  using assms(1,4)
proof (induction n arbitrary: sec s)
  case 0
  then show ?case by (intro exI [of _ s]) (simp add: slots_from_def)
next
  case (Suc n)
  let ?v = "ld_fs z s f" and ?s = "ld_read_sector_cached sec s"
  let ?b = "disk_read sec ?v"
  let ?r = "dir_scan (cstr filename) (sector_slots ?b)"
  have sec: "unat sec < 65536" using Suc.prems(2) by simp
  note rd = ld_fs_wf_cached [OF Suc.prems(1) sec]
  have ne: "filename \<noteq> []" using assms(2) by auto
  have len: "length ?b = 512" by (rule fs_wf_read_length [OF Suc.prems(1)])
  have scan: "ld_scan filename (ld_temp ?s) offsets = Some (case ?r of Found k \<Rightarrow> Found (offsets ! k) | r \<Rightarrow> r)"
    unfolding rd(2) using ld_scan_eq [OF len ne assms(3), of offsets] scan_entries_slots [OF len assms(2), of offsets] offsets_bound
    by (simp add: sector_slots_def)
  show ?case
  proof (cases ?r)
    case (Found k)
    then have k: "k < 16" using dir_scan_Found [of "cstr filename" "sector_slots ?b" k] by simp
    have "ld_directory_find filename sec s = Some (Inr (sector_slots ?b ! k), ?s)"
      using scan Found k rd(2) by (subst ld_directory_find.simps) (simp add: Let_def offsets_nth sector_slots_nth)
    with Found k rd show ?thesis
      by (intro exI [of _ ?s]) (simp add: slots_from_Suc dir_scan_append nth_append)
  next
    case Missing
    have "ld_directory_find filename sec s = Some (Inl E_LOADER_FILENOTFOUND, ?s)"
      using scan Missing by (subst ld_directory_find.simps) (simp add: Let_def)
    with Missing rd show ?thesis
      by (intro exI [of _ ?s]) (simp add: slots_from_Suc dir_scan_append)
  next
    case More
    have onward: "ld_directory_find filename sec s = ld_directory_find filename (sec + 1) ?s"
      using scan More by (subst ld_directory_find.simps) (simp add: Let_def)
    have slots: "slots_from (ld_fs z ?s f) t m = slots_from ?v t m" for t m by (simp add: slots_from_def disk_read_def)
    have sec1: "unat (sec + 1) + n \<le> 65536" using Suc.prems(2) by (subst unat_Suc_word) simp_all
    obtain s' where s': "ld_disk s' = ld_disk s" "ld_info s' = ld_info s" "fs_wf (ld_fs z s' f)"
      "ld_directory_find filename (sec + 1) ?s =
        (case dir_scan (cstr filename) (slots_from ?v (sec + 1) n) of
           Found k \<Rightarrow> Some (Inr (slots_from ?v (sec + 1) n ! k), s')
         | Missing \<Rightarrow> Some (Inl E_LOADER_FILENOTFOUND, s')
         | More \<Rightarrow> ld_directory_find filename (sec + 1 + of_nat n) s')"
      using Suc.IH [OF rd(1) sec1, unfolded slots] by auto
    then show ?thesis
      using More unfolding onward
      by (intro exI [of _ s']) (cases "dir_scan (cstr filename) (slots_from ?v (sec + 1) n)";
        simp add: slots_from_Suc dir_scan_append nth_append add.assoc)
  qed
qed

end
