(* ===== verification/Loader_Claims.thy ===== *)
theory Loader_Claims
  imports Loader_Properties Process_Properties
begin

text \<open>
  The properties of the boot loader: it finds and reads files like the kernel, the image it copies
  is the file, and three ways in which it goes wrong.
\<close>

lemma store_at_eq:
  assumes "unat a + length vs \<le> 0x10000"
  shows "store_at a vs m x = (if unat a \<le> unat x \<and> unat x < unat a + length vs then vs ! (unat x - unat a) else m x)"
  using assms
proof (induction vs arbitrary: a m)
  case (Cons v vs)
  show ?case
  proof (cases vs)
    case Nil
    then show ?thesis by (auto simp: word_unat_eq_iff)
  next
    case (Cons w ws)
    then have a1: "unat (a + 1) = unat a + 1" using Cons.prems by (subst unat_Suc_word) auto
    have top1: "unat (a + 1) + length vs \<le> 0x10000" using Cons.prems a1 by simp
    have IH: "store_at (a + 1) vs (m(a := v)) x =
        (if unat a + 1 \<le> unat x \<and> unat x < unat a + 1 + length vs then vs ! (unat x - (unat a + 1)) else (m(a := v)) x)"
      by (rule Cons.IH [OF top1, of "m(a := v)", unfolded a1])
    show ?thesis
    proof (cases "unat x = unat a")
      case True
      then show ?thesis using IH by (simp add: word_unat_eq_iff)
    next
      case False
      then have "x \<noteq> a" by auto
      moreover have "unat x - unat a = Suc (unat x - (unat a + 1))" if "unat a + 1 \<le> unat x" using that by simp
      ultimately show ?thesis using False IH by auto
    qed
  qed
qed auto

section \<open>Looking files up\<close>

lemma loader_lookup_ok:
  assumes "fat_ok (ld_fs 0 s no_file)" "0 \<in> set filename" "hd filename \<noteq> 0xe5" "unat (data_region (ld_info s)) \<le> 65536"
    and "dir_scan (cstr filename) (dir_slots (ld_fs 0 s no_file)) \<noteq> More"
  shows "\<exists>s'. ld_get_directory_entry filename s = Some
      (case dir_scan (cstr filename) (dir_slots (ld_fs 0 s no_file)) of
         Found k \<Rightarrow> Inr (dir_slots (ld_fs 0 s no_file) ! k) | _ \<Rightarrow> Inl E_LOADER_FILENOTFOUND, s')
    \<and> ld_disk s' = ld_disk s \<and> ld_info s' = ld_info s \<and> fat_ok (ld_fs 0 s' no_file)"
proof -
  let ?v = "ld_fs 0 s no_file"
  have wf: "fs_wf ?v" and g: "geometry ?v" using assms(1) by (simp_all add: fat_ok_def)
  have bound: "unat (root_region (ld_info s)) + root_sectors ?v \<le> 65536"
    using geometryD [OF g] assms(4) by (simp add: root_sectors_def)
  have ds: "dir_slots ?v = slots_from ?v (root_region (ld_info s)) (root_sectors ?v)" by (simp add: dir_slots_def)
  obtain s' where s': "ld_disk s' = ld_disk s" "ld_info s' = ld_info s" "fs_wf (ld_fs 0 s' no_file)"
      "ld_directory_find filename (root_region (ld_info s)) s =
    (case dir_scan (cstr filename) (dir_slots ?v) of
       Found k \<Rightarrow> Some (Inr (dir_slots ?v ! k), s')
     | Missing \<Rightarrow> Some (Inl E_LOADER_FILENOTFOUND, s')
     | More \<Rightarrow> ld_directory_find filename (root_region (ld_info s) + of_nat (root_sectors ?v)) s')"
    using ld_directory_find_slots [OF wf assms(2,3) bound] unfolding ds by blast
  moreover have "geometry (ld_fs 0 s' no_file)" using g s'(2) by (simp add: geometry_def)
  ultimately show ?thesis
    using assms(5)
    by (intro exI [of _ s']) (cases "dir_scan (cstr filename) (dir_slots ?v)"; simp add: ld_get_directory_entry_def fat_ok_def)
qed

text \<open>C32. The loader finds what the kernel finds: for a name that does not start with the deletion mark,
  on a disk whose root directory has an end and lies below sector 65536, \<open>get_directory_entry\<close>
  copies the bytes of the entry that the kernel's \<open>filesystem_get_directory_entry\<close> returns, or fails
  with the same error, although it does not skip deleted entries.\<close>

theorem loader_finds_entry:
  assumes "fat_ok (ld_fs 0 s no_file)" "0 \<in> set filename" "hd filename \<noteq> 0xe5" "unat (data_region (ld_info s)) \<le> 65536"
    and "dir_scan (cstr filename) (dir_slots (ld_fs 0 s no_file)) \<noteq> More"
  shows "\<exists>r s' t. ld_get_directory_entry filename s = Some (r, s')
    \<and> filesystem_get_directory_entry filename (ld_fs 0 s no_file) = Some (map_sum id bytes_entry r, t)"
proof -
  have "fs_wf (ld_fs 0 s no_file)" using assms(1) by (simp add: fat_ok_def)
  from get_entry_cases [OF this assms(2,5)]
  obtain t where "filesystem_get_directory_entry filename (ld_fs 0 s no_file) =
      Some (case dir_scan (cstr filename) (dir_slots (ld_fs 0 s no_file)) of
              Found k \<Rightarrow> Inr (bytes_entry (dir_slots (ld_fs 0 s no_file) ! k)) | _ \<Rightarrow> Inl E_FILENOTFOUND, t)"
    by metis
  with loader_lookup_ok [OF assms] show ?thesis
    by (cases "dir_scan (cstr filename) (dir_slots (ld_fs 0 s no_file))") auto
qed

section \<open>Reading files\<close>

text \<open>C33. The loader's \<open>file_readbyte\<close> and \<open>file_readsector\<close> do what the kernel's do, on the first 65536 sectors:
  when the sector to be read and those of the FAT are below 65536, the kernel's function on the corresponding
  state of its file system gives the same result and leads to the corresponding state. (Above, the 16-bit tag
  of the loader's cache takes one sector for another, \<open>loader_cache_aliases\<close>.)\<close>

theorem loader_read_refines:
  assumes "unat (fat_region (ld_info s)) + 128 \<le> 65536" "bytes_per_sector (ld_info s) = 512" "unat (ld_sector f s) < 65536"
  shows "file_readbyte 0 (ld_fs (lf_size f) s f) = map_option (\<lambda>(r, f', s'). (r, ld_fs (lf_size f) s' f')) (ld_file_readbyte f s)
    \<and> file_readsector 0 (ld_fs (lf_size f) s f) = map_option (\<lambda>(r, b, f', s'). (r, b, ld_fs (lf_size f) s' f')) (ld_file_readsector f s)"
  using ld_file_readbyte_sim [OF assms, of "lf_size f"] ld_file_readsector_sim [OF assms, of "lf_size f"] by blast

text \<open>C30. Reading an opened file of \<open>z\<close> bytes, whose clusters hold the bytes \<open>D\<close>: asked for \<open>n\<close> bytes,
  \<open>file_read\<close> stores the first \<open>min(n, z)\<close> bytes of \<open>D\<close> if \<open>z\<close> is a multiple of 512 or all the whole
  sectors of the request lie below \<open>z\<close>; otherwise the end of the file goes unnoticed and it stores
  the first \<open>n\<close> bytes of the clusters, \<open>z\<close> or not.\<close>

theorem loader_reads_file:
  assumes "fat_ok (ld_fs 0 s no_file)" "ld_small s cs" "is_chain (fat_at (ld_fs 0 s no_file)) (lf_current_cluster f) cs"
    and "just_opened f" "D = file_data (ld_fs 0 s no_file) cs" "length D < 2 ^ 31" "z = unat (lf_size f)" "z \<le> length D"
  shows "\<exists>f' s'. ld_file_read f n s = Some
    (take (if z mod 512 = 0 \<or> 512 * (unat n div 512) \<le> z then min (unat n) z else min (unat n) (length D)) D, f', s')"
  using ld_file_read_at [OF just_opened_at [OF assms(1-6)], of n] assms(4,7,8)
  by (auto simp: just_opened_def ld_count_def)

text \<open>Either way the first \<open>z\<close> bytes are there.\<close>

lemma ld_count_ge: "z \<le> t \<Longrightarrow> z \<le> n \<Longrightarrow> z \<le> ld_count z t n \<and> ld_count z t n \<le> n"
  by (auto simp: ld_count_def)

text \<open>C31. The image the loader copies to address 0 is the file: opening a file of at most 32 KB and reading it
  to a buffer that ends at 0xf000, whatever \<open>file_read\<close> stores behind the file's end, leaves the file's
  bytes, and no others, in what \<open>main\<close> then copies.\<close>

theorem loader_copies_file:
  assumes "fat_ok (ld_fs 0 s no_file)" "0 \<in> set filename" "hd filename \<noteq> 0xe5" "unat (data_region (ld_info s)) \<le> 65536"
    and "dir_scan (cstr filename) (dir_slots (ld_fs 0 s no_file)) = Found k"
    and "e = bytes_entry (dir_slots (ld_fs 0 s no_file) ! k)" "is_chain (fat_at (ld_fs 0 s no_file)) (starting_cluster e) cs"
    and "ld_small s cs" "D = file_data (ld_fs 0 s no_file) cs" "length D < 2 ^ 31"
    and "z = unat (de_size e)" "0 < z" "z \<le> 0x8000" "z \<le> length D" "unat mem + z \<le> 0xf000"
  shows "\<exists>f1 s1 data f2 s2. ld_file_open filename f0 s = Some (0, f1, s1) \<and> ld_file_read f1 (0xf000 - mem) s1 = Some (data, f2, s2)
    \<and> copy_kernel mem (lf_size f2) (store_at mem data m) = Some (take z D)"
proof -
  have found: "dir_scan (cstr filename) (dir_slots (ld_fs 0 s no_file)) \<noteq> More" using assms(5) by simp
  define b where "b = dir_slots (ld_fs 0 s no_file) ! k"
  obtain s1 where s1: "ld_get_directory_entry filename s = Some (Inr b, s1)" "ld_disk s1 = ld_disk s"
      "ld_info s1 = ld_info s" "fat_ok (ld_fs 0 s1 no_file)"
    using loader_lookup_ok [OF assms(1-4) found] assms(5) by (auto simp: b_def)
  define f1 where "f1 = \<lparr>lf_size = le32 b 0x1c, lf_fpos = 0, lf_start_cluster = le16 b 0x1a,
    lf_current_cluster = le16 b 0x1a, lf_sector = 0, lf_within = 0\<rparr>"
  have open_: "ld_file_open filename f0 s = Some (0, f1, s1)" by (simp add: ld_file_open_def s1(1) f1_def)
  have same: "same_disk (ld_fs 0 s no_file) (ld_fs 0 s1 no_file)" using s1(2,3) by (simp add: same_disk_def)
  have e: "starting_cluster e = lf_current_cluster f1" "z = unat (lf_size f1)" "just_opened f1"
    by (simp_all add: assms(6,11) bytes_entry_def b_def [symmetric] f1_def just_opened_def)
  have chain1: "is_chain (fat_at (ld_fs 0 s1 no_file)) (lf_current_cluster f1) cs"
    using assms(7) same_diskD(2) [OF same] by (simp add: e(1))
  have small1: "ld_small s1 cs" using assms(8) ld_small_cong [OF same] by simp
  have D1: "D = file_data (ld_fs 0 s1 no_file) cs" using assms(9) same_disk_data(3) [OF same] by simp
  have at: "ld_at s1 f1 cs D 0" by (rule just_opened_at [OF s1(4) small1 chain1 e(3) D1 assms(10)])
  have within: "lf_within f1 = 0" by (simp add: f1_def)
  let ?n = "unat (0xf000 - mem)" and ?c = "ld_count (unat (lf_size f1)) (length D) (unat (0xf000 - mem))"
  have n: "?n = 0xf000 - unat mem" using assms(12,15) by (subst unat_sub) (simp_all add: word_le_nat_alt)
  obtain f2 s2 where read: "ld_file_read f1 (0xf000 - mem) s1 = Some (take ?c D, f2, s2)" "lf_size f2 = lf_size f1"
    using ld_file_read_at [OF at within, of "0xf000 - mem"] assms(14) e(2) by auto
  have c: "z \<le> ?c" "?c \<le> ?n" using ld_count_ge [of z "length D" ?n] assms(14,15) n e(2) by simp_all
  define w :: u16 where "w = ucast (lf_size f2)"
  have w: "unat w = z" using assms(13) by (simp add: w_def read(2) e(2) unat_u32_u16)
  have byte: "store_at mem (take ?c D) m (mem + of_nat i) = D ! i" if "i < z" for i
  proof -
    have ui: "unat (of_nat i :: u16) = i" using that assms(13) by (intro unat_of_nat_u16) simp
    then have u: "unat (mem + of_nat i) = unat mem + i" using that assms(15) by (subst unat_add_lt) simp_all
    have len: "length (take ?c D) = min (length D) ?c" by (simp add: min.commute)
    have top: "unat mem + length (take ?c D) \<le> 0x10000" using c(2) n assms(15) by simp
    show ?thesis
      unfolding store_at_eq [OF top] u using that c(1) assms(14) by (simp add: len)
  qed
  have "copy_kernel mem (lf_size f2) (store_at mem (take ?c D) m) =
      Some (map (\<lambda>i. store_at mem (take ?c D) m (mem + of_nat i)) [0..<z])"
    using assms(12,13) w unfolding copy_kernel_def w_def [symmetric] by (auto simp: word_less_nat_alt Let_def)
  also have "map (\<lambda>i. store_at mem (take ?c D) m (mem + of_nat i)) [0..<z] = take z D"
    using byte assms(14) by (intro nth_equalityI) simp_all
  finally show ?thesis using open_ read(1) by blast
qed

section \<open>Where it goes wrong\<close>

text \<open>The tag of the sector cache is too narrow: after sector 65536 + \<open>k\<close> has been read, a request for
  sector \<open>k\<close> is answered with the contents of sector 65536 + \<open>k\<close>.\<close>

theorem loader_cache_aliases:
  assumes "k < 65536"
  shows "ld_temp (ld_read_sector_cached (of_nat k) (ld_read_sector_cached (of_nat (65536 + k)) s)) = ld_disk s (of_nat (65536 + k))"
proof -
  define hi :: u32 where "hi = of_nat (65536 + k)"
  have hi: "unat hi = 65536 + k" unfolding hi_def by (intro unat_of_nat_u32) (use assms in simp)
  have lo: "unat (of_nat k :: u32) = k" using assms by (intro unat_of_nat_u32) simp
  have "ucast (ld_cache s) \<noteq> hi" 
  proof
    assume "ucast (ld_cache s) = hi"
    then have "unat (ld_cache s) = 65536 + k" using hi unat_u16_u32 [of "ld_cache s"] by simp
    then show False using unat_u16_less [of "ld_cache s"] by simp
  qed
  then have s1: "ld_read_sector_cached hi s = s\<lparr>ld_temp := ld_disk s hi, ld_cache := ucast hi\<rparr>"
    by (simp add: ld_read_sector_cached_def)
  have "unat (ucast hi :: u16) = k" using hi assms by (simp add: unat_u32_u16)
  then have "ucast (ucast hi :: u16) = (of_nat k :: u32)" using lo by (simp add: word_unat_eq_iff unat_u16_u32)
  then show ?thesis unfolding hi_def [symmetric] s1 by (simp add: ld_read_sector_cached_def)
qed

text \<open>By the declaration of \<open>ram_test\<close> as \<open>bool\<close>, an unsigned char, \<open>main\<close> never starts the kernel: whatever the
  test returns and whatever is on the disk, the result is a RAM error or a missing file.\<close>

theorem loader_never_starts:
  "loader_main tail m ram f s \<noteq> Some (Started img, s')"
proof
  assume run: "loader_main tail m ram f s = Some (Started img, s')"
  have "unat (ucast ram :: u16) < 256" using unat_u8_less by (simp only: unat_u8_u16)
  then have "(ucast ram :: u16) \<noteq> 0x8000" by auto
  with run show False
    by (auto simp: loader_main_def Let_def split: bind_splits prod.splits if_splits)
qed

section \<open>Examples\<close>

text \<open>The loader on the disk with the shell.\<close>

definition shell_loader :: loader_state where
  "shell_loader = \<lparr>ld_disk = shell_disk, ld_info = disk_info shell_fs, ld_cache = 0, ld_temp = shell_disk 0\<rparr>"

lemma shell_loader_same: "same_disk shell_fs (ld_fs 0 shell_loader no_file)"
  by (simp add: same_disk_def shell_loader_def shell_fs)

lemma shell_loader:
  "fat_ok (ld_fs 0 shell_loader no_file)" "dir_slots (ld_fs 0 shell_loader no_file) = dir_slots shell_fs"
  "fat_at (ld_fs 0 shell_loader no_file) = fat_at shell_fs" "ld_small shell_loader [2]"
  "file_data (ld_fs 0 shell_loader no_file) [2] = shell_disk 11" "unat (data_region (ld_info shell_loader)) = 11"
proof -
  note sd = same_diskD [OF shell_loader_same] same_disk_data [OF shell_loader_same]
  show "fat_ok (ld_fs 0 shell_loader no_file)"
    using shell_fs_ok by (simp add: fat_ok_def fs_wf_def geometry_def shell_loader_def shell_fs disk_read_def)
  show "dir_slots (ld_fs 0 shell_loader no_file) = dir_slots shell_fs"
    using sd(1,3) by (simp add: dir_slots_def slots_from_def root_sectors_def)
  show "fat_at (ld_fs 0 shell_loader no_file) = fat_at shell_fs" by (rule sd(2))
  have start: "file_start_sector 2 shell_fs = 11" by (simp add: file_start_sector_def shell_fs)
  then have secs: "sectors_of shell_fs [2] = [11]" by (simp add: sectors_of_def shell_fs)
  then show "ld_small shell_loader [2]"
    using sd(6) [of "[2]"] by (simp add: ld_small_def) (simp add: shell_loader_def shell_fs)
  show "file_data (ld_fs 0 shell_loader no_file) [2] = shell_disk 11"
    using sd(7) [of "[2]"] secs by (simp add: file_data_def disk_read_def lba_def shell_fs)
  show "unat (data_region (ld_info shell_loader)) = 11" by (simp add: shell_loader_def shell_fs)
qed

lemma command_name: "canon COMMAND_EXE = cstr COMMAND_EXE" "0 \<in> set COMMAND_EXE" "hd COMMAND_EXE \<noteq> 0xe5"
  by (simp_all add: COMMAND_EXE_def canon_def cstr_def upper_def)

lemma loader_found: "dir_scan (cstr COMMAND_EXE) (dir_slots (ld_fs 0 shell_loader no_file)) = Found 0"
  using shell_found by (simp add: command_name shell_loader(2))

lemma loader_finds_entry_witness:
  "\<exists>r s' t. ld_get_directory_entry COMMAND_EXE shell_loader = Some (r, s')
    \<and> filesystem_get_directory_entry COMMAND_EXE (ld_fs 0 shell_loader no_file) = Some (map_sum id bytes_entry r, t)"
  using loader_finds_entry [OF shell_loader(1) command_name(2,3)] by (simp add: shell_loader(6) loader_found)

lemma loader_copies_file_witness:
  "\<exists>f1 s1 data f2 s2. ld_file_open COMMAND_EXE no_file shell_loader = Some (0, f1, s1)
    \<and> ld_file_read f1 (0xf000 - 0x9000) s1 = Some (data, f2, s2)
    \<and> copy_kernel 0x9000 (lf_size f2) (store_at 0x9000 data (\<lambda>_. 0)) = Some [0x0a, 0x80, 0xc3, 0x00, 0x80]"
proof -
  have slot: "shell_entry = bytes_entry (dir_slots (ld_fs 0 shell_loader no_file) ! 0)" by (simp add: shell_loader(2) shell_slot)
  have chain: "is_chain (fat_at (ld_fs 0 shell_loader no_file)) (starting_cluster shell_entry) [2]"
    using shell_chain by (simp add: shell_loader(3) shell_header)
  have "take 5 (shell_disk 11) = [0x0a, 0x80, 0xc3, 0x00, 0x80]" by (simp add: shell_disk_def)
  with loader_copies_file [where mem = "0x9000" and m = "\<lambda>_. 0" and ?f0.0 = no_file and z = 5,
      OF shell_loader(1) command_name(2,3) _ loader_found slot chain shell_loader(4) shell_loader(5) [symmetric]]
  show ?thesis by (simp add: shell_loader(6) shell_disk_length shell_header)
qed

definition shell_file :: File_T where
  "shell_file = no_file\<lparr>lf_size := 5, lf_current_cluster := 2\<rparr>"

text \<open>A request for 600 bytes of the 5-byte file stores the whole cluster.\<close>

lemma loader_reads_file_witness:
  "\<exists>f' s'. ld_file_read shell_file 600 shell_loader = Some (shell_disk 11, f', s')"
proof -
  have chain: "is_chain (fat_at (ld_fs 0 shell_loader no_file)) (lf_current_cluster shell_file) [2]"
    using shell_chain by (simp add: shell_loader(3) shell_file_def)
  have opened: "just_opened shell_file" by (simp add: just_opened_def shell_file_def no_file_def)
  have "unat (lf_size shell_file) = 5" by (simp add: shell_file_def)
  with loader_reads_file [where n = 600, OF shell_loader(1,4) chain opened shell_loader(5) [symmetric] _ refl] show ?thesis
    by (simp add: shell_disk_length)
qed

lemma loader_read_refines_witness:
  "file_readbyte 0 (ld_fs 5 shell_loader shell_file) =
    map_option (\<lambda>(r, f', s'). (r, ld_fs 5 s' f')) (ld_file_readbyte shell_file shell_loader)"
  using loader_read_refines [of shell_loader shell_file]
  by (simp add: shell_loader_def shell_file_def shell_fs ld_sector_def ld_start_sector_def no_file_def)

lemma loader_cache_aliases_witness:
  "ld_temp (ld_read_sector_cached 1 (ld_read_sector_cached 65537 shell_loader)) = ld_disk shell_loader 65537"
  using loader_cache_aliases [of 1 shell_loader] by simp

end
