(* ===== verification/Basic_Tokens.thy ===== *)
theory Basic_Tokens
  imports C_Prelude
begin

text \<open>
  The tokens of the BASIC interpreter (\<open>builtin/basic\<close>): the byte encoding of \<open>t_defs.h\<close> and
  its siblings, one parser per token type (\<open>t_*_parse\<close>), one printer per token type
  (\<open>t_*_list\<close>), and the tokenizer \<open>statement_tokenize\<close>.

  An input pointer is the list of characters from it to the end of the buffer \<open>input[256]\<close>,
  the NUL of the string and the stale characters behind it included. A parser returns \<open>Some None\<close>
  for the C result 0, \<open>Some (Some (toks, rest))\<close> when it has written \<open>toks\<close> and left
  the input pointer at \<open>rest\<close>, and \<open>None\<close> when it overruns a buffer. The printers read the
  tokens in memory and return the characters they print and the address after the token.
\<close>

type_synonym numeric_t = u16
type_synonym tokmem = "u16 \<Rightarrow> u8"

text \<open>\<open>error_t\<close>; \<open>ERROR_NOERROR\<close> is the absence of an error.\<close>

datatype error_t = ERROR_SYNTAX | ERROR_UNDEFINED_KW | ERROR_LINENUM | ERROR_GOTO | ERROR_NOT_RUNNING
  | ERROR_VARNAME | ERROR_UNDEFINED_VAR | ERROR_TOO_MANY_VARS | ERROR_RETSTACK_EMPTY | ERROR_RANGE
  | ERROR_UNDEFINED_ARRAY | ERROR_UNKNOWN_FUNC

abbreviation (input) "TOK_TERMINATOR \<equiv> (0x00 :: u8)"
abbreviation (input) "TOK_STRING \<equiv> (0x01 :: u8)"
abbreviation (input) "TOK_KEYWORD \<equiv> (0x02 :: u8)"
abbreviation (input) "TOK_NUMERIC \<equiv> (0x03 :: u8)"
abbreviation (input) "TOK_OPERATOR \<equiv> (0x04 :: u8)"
abbreviation (input) "TOK_VARIABLE \<equiv> (0x05 :: u8)"
abbreviation (input) "TOK_SEPARATOR \<equiv> (0x06 :: u8)"
abbreviation (input) "TOK_ALLOC \<equiv> (0x07 :: u8)"
abbreviation (input) "TOK_FUNC \<equiv> (0x08 :: u8)"
abbreviation (input) "TOK_REMARK \<equiv> (0x09 :: u8)"
abbreviation (input) "TOK_REGISTER \<equiv> (0x0a :: u8)"

abbreviation (input) "OP_MINUS \<equiv> (0x00 :: u8)"
abbreviation (input) "OP_PLUS \<equiv> (0x01 :: u8)"
abbreviation (input) "OP_EQUAL \<equiv> (0x02 :: u8)"
abbreviation (input) "OP_LPAREN \<equiv> (0x03 :: u8)"
abbreviation (input) "OP_RPAREN \<equiv> (0x04 :: u8)"
abbreviation (input) "OP_LT \<equiv> (0x05 :: u8)"
abbreviation (input) "OP_GT \<equiv> (0x06 :: u8)"
abbreviation (input) "OP_LTEQ \<equiv> (0x07 :: u8)"
abbreviation (input) "OP_GTEQ \<equiv> (0x08 :: u8)"
abbreviation (input) "OP_MULT \<equiv> (0x09 :: u8)"

abbreviation (input) "FUNC_RND \<equiv> (0x01 :: u8)"

text \<open>The byte under an input pointer.\<close>

definition peek :: "bytes \<Rightarrow> u8" where
  "peek s = (case s of [] \<Rightarrow> 0 | c # _ \<Rightarrow> c)"

definition is_upper :: "u8 \<Rightarrow> bool" where
  "is_upper c \<longleftrightarrow> of_char (CHR ''A'') \<le> c \<and> c \<le> of_char (CHR ''Z'')"

definition is_digit :: "u8 \<Rightarrow> bool" where
  "is_digit c \<longleftrightarrow> of_char (CHR ''0'') \<le> c \<and> c \<le> of_char (CHR ''9'')"

section \<open>The parsers\<close>

definition t_sep_parse :: "bytes \<Rightarrow> (bytes \<times> bytes) option option" where
  "t_sep_parse input =
     (if peek input \<noteq> of_char (CHR '','') then Some None
      else Some (Some ([TOK_SEPARATOR], tl input)))"

definition t_rem_parse :: "bytes \<Rightarrow> (bytes \<times> bytes) option option" where
  "t_rem_parse input =
     (if take 3 input \<noteq> ascii ''REM'' then Some None
      else let s = takeWhile (\<lambda>c. c \<noteq> 0) (drop 3 input);
               rest = dropWhile (\<lambda>c. c \<noteq> 0) (drop 3 input)
           in Some (Some (TOK_REMARK # of_nat (length s + 1) # s @ [0], rest)))"

text \<open>The loop of \<open>t_string_parse\<close> looks for the closing quote only: without one it runs over the
  NUL and the rest of the buffer.\<close>

fun string_body :: "bytes \<Rightarrow> (bytes \<times> bytes) option" where
  "string_body [] = None"
| "string_body (c # s) =
     (if c = of_char (CHR 0x22) then Some ([], s)
      else map_option (\<lambda>(body, rest). (c # body, rest)) (string_body s))"

definition t_string_parse :: "bytes \<Rightarrow> (bytes \<times> bytes) option option" where
  "t_string_parse input =
     (if peek input \<noteq> of_char (CHR 0x22) then Some None
      else do {
        (body, rest) \<leftarrow> string_body (tl input);
        Some (Some (TOK_STRING # of_nat (length body + 1) # body @ [0], rest))
      })"

definition t_operator_parse :: "bytes \<Rightarrow> (bytes \<times> bytes) option option" where
  "t_operator_parse input =
     (let c = peek input; s = tl input; operator = (\<lambda>op rest. Some (Some ([TOK_OPERATOR, op], rest)))
      in if c = of_char (CHR ''-'') then operator OP_MINUS s
         else if c = of_char (CHR ''+'') then operator OP_PLUS s
         else if c = of_char (CHR ''*'') then operator OP_MULT s
         else if c = of_char (CHR ''='') then operator OP_EQUAL s
         else if c = of_char (CHR ''('') then operator OP_LPAREN s
         else if c = of_char (CHR '')'') then operator OP_RPAREN s
         else if c = of_char (CHR ''<'') then
           (if peek s = of_char (CHR ''='') then operator OP_LTEQ (tl s) else operator OP_LT s)
         else if c = of_char (CHR ''>'') then
           (if peek s = of_char (CHR ''='') then operator OP_GTEQ (tl s) else operator OP_GT s)
         else Some None)"

text \<open>The digits of a number; \<open>numeric_t\<close> has 16 bits and wraps.\<close>

fun numeric_digits :: "numeric_t \<Rightarrow> bytes \<Rightarrow> numeric_t \<times> bytes" where
  "numeric_digits val [] = (val, [])"
| "numeric_digits val (c # s) =
     (if is_digit c then numeric_digits (val * 10 + (ucast c - of_char (CHR ''0''))) s else (val, c # s))"

definition t_numeric_parse :: "bytes \<Rightarrow> (bytes \<times> bytes) option option" where
  "t_numeric_parse input =
     (if peek input \<noteq> of_char (CHR ''-'') \<and> \<not> is_digit (peek input) then Some None
      else if \<not> is_digit (peek input) then Some None
      else let (val, rest) = numeric_digits (ucast (peek input) - of_char (CHR ''0'')) (tl input)
           in Some (Some (TOK_NUMERIC # put16 val, rest)))"

definition keyword_table :: "(bytes \<times> u8) list" where
  "keyword_table = [
     (ascii ''PRINT'', 1), (ascii ''LIST'', 2), (ascii ''NEW'', 3), (ascii ''RUN'', 4),
     (ascii ''END'', 5), (ascii ''GOTO'', 6), (ascii ''FOR'', 7), (ascii ''TO'', 8),
     (ascii ''NEXT'', 9), (ascii ''GOSUB'', 10), (ascii ''RETURN'', 11), (ascii ''DIM'', 12),
     (ascii ''IF'', 13), (ascii ''THEN'', 14), (ascii ''JUMPTO'', 15), (ascii ''JUMPSUB'', 16)]"

text \<open>\<open>kw_str\<close> has 11 bytes and the copy of the word into it is not bounded.\<close>

definition t_keyword_parse :: "bytes \<Rightarrow> (bytes \<times> bytes) option option" where
  "t_keyword_parse input =
     (let kw_str = takeWhile is_upper input
      in if 11 \<le> length kw_str then None
         else case find (\<lambda>k. fst k = kw_str) keyword_table of
             None \<Rightarrow> Some None
           | Some (_, code) \<Rightarrow> Some (Some ([TOK_KEYWORD, code], dropWhile is_upper input)))"

text \<open>\<open>funcname\<close> has 9 bytes, and again the copy is not bounded.\<close>

definition t_func_parse :: "bytes \<Rightarrow> (bytes \<times> bytes) option option" where
  "t_func_parse input =
     (let funcname = takeWhile is_upper input
      in if 9 \<le> length funcname then None
         else if funcname = ascii ''RND'' then Some (Some ([TOK_FUNC, FUNC_RND], dropWhile is_upper input))
         else Some None)"

text \<open>A single letter is a register, a longer word a variable of which \<open>VARNAME_SIZE\<close>, four, letters
  are kept.\<close>

definition t_variable_parse :: "bytes \<Rightarrow> (bytes \<times> bytes) option option" where
  "t_variable_parse input =
     (if is_upper (peek input) \<and> \<not> is_upper (peek (tl input))
      then Some (Some ([TOK_REGISTER, peek input - of_char (CHR ''A'')], tl input))
      else let name = take 4 (takeWhile is_upper input)
           in if name = [] then Some None
              else Some (Some (TOK_VARIABLE # of_nat (length name + 1) # name @ [0],
                dropWhile is_upper input)))"

definition or_else :: "'a option option \<Rightarrow> 'a option option \<Rightarrow> 'a option option" where
  "or_else p q = (case p of None \<Rightarrow> None | Some None \<Rightarrow> q | Some (Some r) \<Rightarrow> Some (Some r))"

definition statement_tokenize_string :: "bytes \<Rightarrow> (bytes \<times> bytes) option option" where
  "statement_tokenize_string input =
     or_else (t_rem_parse input) (or_else (t_sep_parse input) (or_else (t_string_parse input)
       (or_else (t_operator_parse input) (or_else (t_numeric_parse input)
         (or_else (t_keyword_parse input) (or_else (t_func_parse input) (t_variable_parse input)))))))"

lemma length_tl_peek: "peek input \<noteq> 0 \<Longrightarrow> length (tl input) < length input"
  by (cases input) (auto simp: peek_def)

lemma string_body_shorter: "string_body s = Some (body, rest) \<Longrightarrow> length rest < length s"
  by (induction s arbitrary: body) (auto split: if_splits)

lemma numeric_digits_shorter: "length (snd (numeric_digits val s)) \<le> length s"
  by (induction val s rule: numeric_digits.induct) auto

lemma dropWhile_shorter: "takeWhile P s \<noteq> [] \<Longrightarrow> length (dropWhile P s) < length s"
  by (cases s) (auto simp: length_dropWhile_le less_Suc_eq_le split: if_splits)

lemma t_operator_parse_shorter:
  "t_operator_parse input = Some (Some (t, rest)) \<Longrightarrow> length rest < length input"
  by (cases input) (auto simp: t_operator_parse_def Let_def peek_def split: if_splits)

lemma t_numeric_parse_shorter:
  assumes "t_numeric_parse input = Some (Some (t, rest))"
  shows "length rest < length input"
proof -
  have "is_digit (peek input)" using assms by (auto simp: t_numeric_parse_def split: if_splits)
  then obtain c s where "input = c # s" by (cases input) (auto simp: peek_def is_digit_def)
  with assms numeric_digits_shorter [of "ucast c - of_char (CHR ''0'')" s] show ?thesis
    by (auto simp: t_numeric_parse_def peek_def split: if_splits prod.splits)
qed

lemma t_keyword_parse_shorter:
  assumes "t_keyword_parse input = Some (Some (t, rest))"
  shows "length rest < length input"
proof -
  have "takeWhile is_upper input \<noteq> []"
  proof
    assume "takeWhile is_upper input = []"
    with assms show False by (simp add: t_keyword_parse_def keyword_table_def)
  qed
  with assms dropWhile_shorter [OF this] show ?thesis
    by (auto simp: t_keyword_parse_def Let_def split: if_splits option.splits)
qed

lemma statement_tokenize_string_shorter:
  assumes "statement_tokenize_string input = Some (Some (t, rest))"
  shows "length rest < length input"
proof -
  have or: "or_else p q = Some (Some r) \<Longrightarrow> p = Some (Some r) \<or> q = Some (Some r)"
    for p q :: "(bytes \<times> bytes) option option" and r
    by (auto simp: or_else_def split: option.splits)
  consider "t_rem_parse input = Some (Some (t, rest))" | "t_sep_parse input = Some (Some (t, rest))"
    | "t_string_parse input = Some (Some (t, rest))" | "t_operator_parse input = Some (Some (t, rest))"
    | "t_numeric_parse input = Some (Some (t, rest))" | "t_keyword_parse input = Some (Some (t, rest))"
    | "t_func_parse input = Some (Some (t, rest))" | "t_variable_parse input = Some (Some (t, rest))"
    using assms unfolding statement_tokenize_string_def by (blast dest: or)
  then show ?thesis
  proof cases
    case 1
    then have "take 3 input = ascii ''REM''" "rest = dropWhile (\<lambda>c. c \<noteq> 0) (drop 3 input)"
      by (auto simp: t_rem_parse_def Let_def split: if_splits)
    moreover from this(1) have "input \<noteq> []" by auto
    ultimately show ?thesis
      using length_dropWhile_le [of "\<lambda>c. c \<noteq> 0" "drop 3 input"] by (cases input) auto
  next
    case 2
    then show ?thesis using length_tl_peek [of input] by (auto simp: t_sep_parse_def split: if_splits)
  next
    case 3
    then show ?thesis using length_tl_peek [of input] string_body_shorter [of "tl input"]
      by (auto simp: t_string_parse_def split: if_splits bind_splits)
  next
    case 7
    then have "takeWhile is_upper input \<noteq> []" "rest = dropWhile is_upper input"
      by (auto simp: t_func_parse_def Let_def split: if_splits)
    then show ?thesis using dropWhile_shorter by blast
  next
    case 8
    show ?thesis
    proof (cases "is_upper (peek input) \<and> \<not> is_upper (peek (tl input))")
      case True
      then have "peek input \<noteq> 0" by (auto simp: is_upper_def)
      with 8 True show ?thesis using length_tl_peek [of input] by (auto simp: t_variable_parse_def)
    next
      case False
      with 8 have "takeWhile is_upper input \<noteq> []" "rest = dropWhile is_upper input"
        by (auto simp: t_variable_parse_def Let_def split: if_splits)
      then show ?thesis using dropWhile_shorter by blast
    qed
  qed (auto intro: t_operator_parse_shorter t_numeric_parse_shorter t_keyword_parse_shorter)
qed

text \<open>The loop of \<open>statement_tokenize\<close>. \<open>out\<close> is what has been written to the buffer
  \<open>statement[256]\<close> so far; a token that does not fit overruns it. The result is the error, if any,
  and the bytes written.\<close>

function tokenize_loop :: "bytes \<Rightarrow> bytes \<Rightarrow> (error_t option \<times> bytes) option" where
  "tokenize_loop out input =
     (let s = dropWhile (\<lambda>c. c = of_char (CHR '' '')) input
      in if peek s = 0 then (if length out < 256 then Some (None, out @ [TOK_TERMINATOR]) else None)
         else case statement_tokenize_string s of
             None \<Rightarrow> None
           | Some None \<Rightarrow> Some (Some ERROR_SYNTAX, out)
           | Some (Some (t, rest)) \<Rightarrow>
               (if 256 < length (out @ t) then None else tokenize_loop (out @ t) rest))"
  by pat_completeness auto
termination
proof (relation "measure (\<lambda>(out, input). length input)")
  fix out input s x2 x2a t rest
  assume "s = dropWhile (\<lambda>c. c = of_char CHR '' '') input" "statement_tokenize_string s = Some x2"
    "x2 = Some x2a" "(t, rest) = x2a"
  then show "((out @ t, rest), out, input) \<in> measure (\<lambda>(out, input). length input)"
    using statement_tokenize_string_shorter [of s t rest] length_dropWhile_le [of "\<lambda>c. c = of_char CHR '' ''" input]
    by simp
qed simp

declare tokenize_loop.simps [simp del]

definition statement_tokenize :: "bytes \<Rightarrow> (error_t option \<times> bytes) option" where
  "statement_tokenize input =
     (case statement_tokenize_string input of
        None \<Rightarrow> None
      | Some None \<Rightarrow> Some (Some ERROR_SYNTAX, [])
      | Some (Some (t, rest)) \<Rightarrow> (if 256 < length t then None else tokenize_loop t rest))"

section \<open>The printers\<close>

text \<open>Loads and stores of 16-bit values, and C strings in memory.\<close>

definition load16 :: "tokmem \<Rightarrow> u16 \<Rightarrow> u16" where
  "load16 m a = ucast (m a) + 256 * ucast (m (a + 1))"

definition store16 :: "u16 \<Rightarrow> u16 \<Rightarrow> tokmem \<Rightarrow> tokmem" where
  "store16 a v m = m(a := ucast v, a + 1 := ucast (drop_bit 8 v))"

partial_function (option) mem_cstr :: "tokmem \<Rightarrow> u16 \<Rightarrow> bytes option" where
  "mem_cstr m a = (if m a = 0 then Some [] else do { s \<leftarrow> mem_cstr m (a + 1); Some (m a # s) })"

definition t_terminator_list :: "tokmem \<Rightarrow> u16 \<Rightarrow> (bytes \<times> u16) option" where
  "t_terminator_list m toks = Some ([13, 10], toks)"

definition t_string_list :: "tokmem \<Rightarrow> u16 \<Rightarrow> (bytes \<times> u16) option" where
  "t_string_list m toks = do {
     let size = m toks;
     s \<leftarrow> mem_cstr m (toks + 1);
     Some (of_char (CHR 0x22) # s @ [of_char (CHR 0x22), of_char (CHR '' '')], toks + 1 + ucast size)
   }"

definition t_keyword_list :: "tokmem \<Rightarrow> u16 \<Rightarrow> (bytes \<times> u16) option" where
  "t_keyword_list m toks =
     (let str = (case find (\<lambda>k. snd k = m toks) keyword_table of None \<Rightarrow> [] | Some (s, _) \<Rightarrow> s)
      in Some (str @ [of_char (CHR '' '')], toks + 1))"

definition t_numeric_list :: "tokmem \<Rightarrow> u16 \<Rightarrow> (bytes \<times> u16) option" where
  "t_numeric_list m toks = Some (print_d (load16 m toks) @ [of_char (CHR '' '')], toks + 2)"

definition t_operator_list :: "tokmem \<Rightarrow> u16 \<Rightarrow> (bytes \<times> u16) option" where
  "t_operator_list m toks =
     (let op = m toks;
          s = (if op = OP_MINUS then ascii ''-''
               else if op = OP_PLUS then ascii ''+''
               else if op = OP_MULT then ascii ''*''
               else if op = OP_EQUAL then ascii ''=''
               else if op = OP_LPAREN then ascii ''(''
               else if op = OP_RPAREN then ascii '')''
               else if op = OP_LT then ascii ''<''
               else if op = OP_GT then ascii ''>''
               else if op = OP_LTEQ then ascii ''<=''
               else if op = OP_GTEQ then ascii ''>=''
               else ascii ''?!'')
      in Some (s, toks + 1))"

definition t_variable_list :: "tokmem \<Rightarrow> u16 \<Rightarrow> (bytes \<times> u16) option" where
  "t_variable_list m toks =
     (let size = m toks
      in Some (map (\<lambda>i. m (toks + 1 + of_nat i)) [0..<unat size], toks + 1 + ucast size))"

definition t_separator_list :: "tokmem \<Rightarrow> u16 \<Rightarrow> (bytes \<times> u16) option" where
  "t_separator_list m toks = Some (ascii '', '', toks)"

definition t_alloc_list :: "tokmem \<Rightarrow> u16 \<Rightarrow> (bytes \<times> u16) option" where
  "t_alloc_list m toks = Some ([], toks + ucast (m toks) + 1)"

definition t_func_list :: "tokmem \<Rightarrow> u16 \<Rightarrow> (bytes \<times> u16) option" where
  "t_func_list m toks = Some (if m toks = FUNC_RND then ascii ''RND'' else ascii ''FUNC?'', toks + 1)"

text \<open>\<open>t_rem_list\<close> skips \<open>size\<close> bytes from the size byte on, so it stops at the NUL of the remark.\<close>

definition t_rem_list :: "tokmem \<Rightarrow> u16 \<Rightarrow> (bytes \<times> u16) option" where
  "t_rem_list m toks = do {
     s \<leftarrow> mem_cstr m (toks + 1);
     Some (ascii ''REM'' @ s, toks + ucast (m toks))
   }"

definition t_register_list :: "tokmem \<Rightarrow> u16 \<Rightarrow> (bytes \<times> u16) option" where
  "t_register_list m toks = Some ([m toks + of_char (CHR ''A'')], toks + 1)"

definition t_varlen_skip :: "tokmem \<Rightarrow> u16 \<Rightarrow> u16" where
  "t_varlen_skip m toks = toks + 2 + ucast (m (toks + 1))"

definition t_list :: "(tokmem \<Rightarrow> u16 \<Rightarrow> (bytes \<times> u16) option) list" where
  "t_list = [t_terminator_list, t_string_list, t_keyword_list, t_numeric_list, t_operator_list,
     t_variable_list, t_separator_list, t_alloc_list, t_func_list, t_rem_list, t_register_list]"

definition t_defs_list :: "tokmem \<Rightarrow> u16 \<Rightarrow> (bytes \<times> u16) option" where
  "t_defs_list m toks = do {
     printer \<leftarrow> rd t_list (unat (m toks));
     printer m (toks + 1)
   }"

definition t_operator_is_comparison :: "tokmem \<Rightarrow> u16 \<Rightarrow> bool" where
  "t_operator_is_comparison m toks =
     (m toks = TOK_OPERATOR \<and> m (toks + 1) \<in> {OP_EQUAL, OP_LT, OP_GT, OP_LTEQ, OP_GTEQ})"

definition t_numeric_put :: "u16 \<Rightarrow> numeric_t \<Rightarrow> tokmem \<Rightarrow> tokmem" where
  "t_numeric_put toks num m = store16 (toks + 1) num (m(toks := TOK_NUMERIC))"

text \<open>\<open>program_list_stmt\<close> of \<open>program.c\<close>.\<close>

partial_function (option) program_list_stmt :: "tokmem \<Rightarrow> u16 \<Rightarrow> bytes option" where
  "program_list_stmt m toks =
     (if m toks \<noteq> TOK_TERMINATOR then do {
        (s, next_toks) \<leftarrow> t_defs_list m toks;
        rest \<leftarrow> program_list_stmt m next_toks;
        Some (s @ rest)
      } else map_option fst (t_defs_list m toks))"

section \<open>Tokens in memory\<close>

primrec bytes_at :: "tokmem \<Rightarrow> u16 \<Rightarrow> bytes \<Rightarrow> bool" where
  "bytes_at m a [] = True"
| "bytes_at m a (b # bs) = (m a = b \<and> bytes_at m (a + 1) bs)"

lemma bytes_at_append [simp]:
  "bytes_at m a (xs @ ys) \<longleftrightarrow> bytes_at m a xs \<and> bytes_at m (a + of_nat (length xs)) ys"
  by (induction xs arbitrary: a) (auto simp: add.assoc)

lemma bytes_at_nth: "bytes_at m a bs \<Longrightarrow> i < length bs \<Longrightarrow> m (a + of_nat i) = bs ! i"
proof (induction bs arbitrary: a i)
  case (Cons b bs)
  then show ?case
  proof (cases i)
    case (Suc j)
    have "a + of_nat (Suc j) = a + 1 + of_nat j" by (simp only: of_nat_Suc add.assoc)
    then have "m (a + of_nat i) = m (a + 1 + of_nat j)" by (simp only: Suc)
    with Cons.IH [of "a + 1" j] Cons.prems Suc show ?thesis by (simp del: of_nat_Suc)
  qed simp
qed simp

lemma load16_at: "bytes_at m a (put16 v) \<Longrightarrow> load16 m a = v"
  using le16_put16 [of v] by (simp add: load16_def le16_def put16_def)

lemma mem_cstr_at: "bytes_at m a (s @ [0]) \<Longrightarrow> 0 \<notin> set s \<Longrightarrow> mem_cstr m a = Some s"
proof (induction s arbitrary: a)
  case Nil
  then show ?case by (simp add: mem_cstr.simps)
next
  case (Cons c s)
  then show ?case by (subst mem_cstr.simps) (simp add: add.assoc)
qed

text \<open>A memory that holds given bytes.\<close>

definition ram_of :: "u16 \<Rightarrow> bytes \<Rightarrow> tokmem" where
  "ram_of a bs = (\<lambda>x. if unat (x - a) < length bs then bs ! unat (x - a) else 0)"

lemma bytes_atI: "(\<And>i. i < length bs \<Longrightarrow> m (a + of_nat i) = bs ! i) \<Longrightarrow> bytes_at m a bs"
proof (induction bs arbitrary: a)
  case (Cons b bs)
  have "m (a + 1 + of_nat i) = bs ! i" if "i < length bs" for i
    using Cons.prems [of "Suc i"] that by (simp add: add.assoc)
  with Cons.IH [of "a + 1"] Cons.prems [of 0] show ?case by simp
qed simp

lemma bytes_at_ram_of: "length bs \<le> 65536 \<Longrightarrow> bytes_at (ram_of a bs) a bs"
  by (rule bytes_atI) (simp add: ram_of_def unat_of_nat_u16)

end
