(* ===== verification/Basic_Program.thy ===== *)
theory Basic_Program
  imports Basic_Tokens
begin

text \<open>
  The program, the variables and the return stack of the BASIC interpreter
  (\<open>builtin/basic/program.c\<close>), for the Z80 build: a pointer is a 16-bit address and \<open>NULL\<close> is 0.

  The bytes that token pointers refer to (the program region behind \<open>end\<close>, and the buffer
  \<open>statement\<close>) live in one flat memory \<open>ram\<close>, as the code has them: nothing in \<open>program.c\<close> checks
  \<open>program_max\<close>, and the interpreter patches the lines it executes. The other globals are separate
  objects. An array with a count is the list of its first \<open>count\<close> entries, the only ones that are read;
  the return stack has its top first. \<open>console\<close> is what has been printed. A call that leaves one of these
  arrays has the result \<open>None\<close>.
\<close>

text \<open>The union \<open>var_value_t\<close> of a number and a pointer is a 16-bit value.\<close>

record register_t =
  reg_defined :: bool
  reg_value :: u16

record context_var_t =
  var_name :: bytes
  var_value :: u16

record basic =
  ram :: tokmem
  program_start :: u16
  program_max :: u16
  program_end_ptr :: u16
  program_running :: bool
  program_registers :: "register_t list"
  program_context :: "context_var_t list"
  program_return_stack :: "(u16 \<times> u16) list"
  program_current_line :: u16
  program_last_inserted_line :: u16
  program_next_line :: u16
  rnd :: u16
  console :: bytes

abbreviation (input) "MAX_VARS \<equiv> (16 :: nat)"
abbreviation (input) "NUM_REGISTERS \<equiv> (26 :: nat)"
abbreviation (input) "RETURN_STACK_LIMIT \<equiv> (8 :: nat)"
abbreviation (input) "VARNAME_SIZE \<equiv> (4 :: nat)"

text \<open>The macros of \<open>program.h\<close>.\<close>

abbreviation (input) "PROG_HDR_SIZE \<equiv> (6 :: u16)"

definition PROG_LINENO :: "tokmem \<Rightarrow> u16 \<Rightarrow> numeric_t" where
  "PROG_LINENO m line = load16 m line"

definition PROG_PREV :: "tokmem \<Rightarrow> u16 \<Rightarrow> u16" where
  "PROG_PREV m line = load16 m (line + 2)"

definition PROG_NEXT :: "tokmem \<Rightarrow> u16 \<Rightarrow> u16" where
  "PROG_NEXT m line = load16 m (line + 4)"

definition PROG_STMT :: "u16 \<Rightarrow> u16" where
  "PROG_STMT line = line + PROG_HDR_SIZE"

section \<open>Lines\<close>

definition program_end :: "error_t option \<Rightarrow> basic \<Rightarrow> error_t option \<times> basic" where
  "program_end e b =
     (if \<not> program_running b then (Some ERROR_NOT_RUNNING, b)
      else (e, b\<lparr>program_running := False\<rparr>))"

definition program_free :: "basic \<Rightarrow> u16" where
  "program_free b = program_max b - program_end_ptr b"

definition program_new :: "basic \<Rightarrow> basic" where
  "program_new b = b\<lparr>program_end_ptr := program_start b, program_current_line := program_start b,
     program_last_inserted_line := 0, program_running := False,
     program_registers := map (\<lambda>r. r\<lparr>reg_defined := False\<rparr>) (program_registers b),
     program_context := [], program_return_stack := []\<rparr>"

text \<open>\<open>statement_size\<close> of \<open>statement.c\<close>: the size of one token, and the end of the statement. A byte that
  is no token is not skipped, and then the loop does not end.\<close>

definition token_size :: "tokmem \<Rightarrow> u16 \<Rightarrow> u16" where
  "token_size m stmt =
     (let tok = m stmt
      in if tok = TOK_NUMERIC then 3
         else if tok \<in> {TOK_KEYWORD, TOK_OPERATOR, TOK_FUNC, TOK_REGISTER} then 2
         else if tok = TOK_SEPARATOR then 1
         else if tok \<in> {TOK_STRING, TOK_VARIABLE, TOK_ALLOC, TOK_REMARK} then t_varlen_skip m stmt - stmt
         else 0)"

partial_function (option) statement_end :: "tokmem \<Rightarrow> u16 \<Rightarrow> u16 option" where
  "statement_end m stmt =
     (if m stmt \<noteq> TOK_TERMINATOR then statement_end m (stmt + token_size m stmt) else Some (stmt + 1))"

definition statement_size :: "tokmem \<Rightarrow> u16 \<Rightarrow> u8 option" where
  "statement_size m start = do { stmt \<leftarrow> statement_end m start; Some (ucast (stmt - start)) }"

fun copy_bytes :: "nat \<Rightarrow> u16 \<Rightarrow> u16 \<Rightarrow> tokmem \<Rightarrow> tokmem" where
  "copy_bytes 0 dst src m = m"
| "copy_bytes (Suc n) dst src m = copy_bytes n (dst + 1) (src + 1) (m(dst := m src))"

definition program_insert :: "u16 \<Rightarrow> basic \<Rightarrow> (error_t option \<times> basic) option" where
  "program_insert toks b =
     (if ram b toks \<noteq> TOK_NUMERIC then Some (Some ERROR_SYNTAX, b)
      else do {
        let lineno = load16 (ram b) (toks + 1);
        let stmt = toks + 3;
        size \<leftarrow> statement_size (ram b) stmt;
        let line = program_end_ptr b;
        let last_line = program_last_inserted_line b;
        let m1 = (if last_line \<noteq> 0 then store16 (last_line + 4) line (ram b) else ram b);
        let m2 = store16 line lineno m1;
        let m3 = store16 (line + 2) last_line m2;
        let m4 = store16 (line + 4) 0 m3;
        let m5 = copy_bytes (unat size) (PROG_STMT line) stmt m4;
        Some (None, b\<lparr>ram := m5, program_last_inserted_line := line,
          program_end_ptr := line + ucast size + PROG_HDR_SIZE\<rparr>)
      })"

partial_function (option) program_list_from :: "tokmem \<Rightarrow> u16 \<Rightarrow> bytes option" where
  "program_list_from m line =
     (if line \<noteq> 0 \<and> PROG_LINENO m line \<noteq> 0 then do {
        stmt \<leftarrow> program_list_stmt m (PROG_STMT line);
        rest \<leftarrow> program_list_from m (PROG_NEXT m line);
        Some (print_d (PROG_LINENO m line) @ of_char (CHR '' '') # stmt @ rest)
      } else Some [])"

definition program_list :: "basic \<Rightarrow> basic option" where
  "program_list b = do {
     s \<leftarrow> program_list_from (ram b) (program_start b);
     Some (b\<lparr>console := console b @ s\<rparr>)
   }"

text \<open>The two loops of \<open>program_search_lineno\<close>.\<close>

partial_function (option) search_backwards :: "tokmem \<Rightarrow> numeric_t \<Rightarrow> u16 \<Rightarrow> u16 option" where
  "search_backwards m lineno line =
     (if sint lineno \<le> sint (PROG_LINENO m line) then
        (if PROG_PREV m line = 0 then Some 0 else search_backwards m lineno (PROG_PREV m line))
      else Some (PROG_NEXT m line))"

partial_function (option) search_forwards :: "tokmem \<Rightarrow> numeric_t \<Rightarrow> u16 \<Rightarrow> u16 option" where
  "search_forwards m lineno line =
     (if sint (PROG_LINENO m line) < sint lineno then
        (if PROG_NEXT m line = 0 then Some 0 else search_forwards m lineno (PROG_NEXT m line))
      else Some line)"

definition program_search_lineno :: "numeric_t \<Rightarrow> basic \<Rightarrow> u16 option" where
  "program_search_lineno lineno b =
     (let line = program_current_line b
      in if sint lineno < sint (PROG_LINENO (ram b) line)
         then search_backwards (ram b) lineno line
         else search_forwards (ram b) lineno line)"

definition program_get_current_line :: "basic \<Rightarrow> u16" where
  "program_get_current_line b = program_current_line b"

definition program_current_lineno :: "basic \<Rightarrow> numeric_t" where
  "program_current_lineno b = PROG_LINENO (ram b) (program_current_line b)"

definition program_transfer_control :: "numeric_t \<Rightarrow> basic \<Rightarrow> (u16 \<times> basic) option" where
  "program_transfer_control lineno b = do {
     line \<leftarrow> program_search_lineno lineno b;
     Some (line, b\<lparr>program_next_line := line\<rparr>)
   }"

definition program_transfer_control_direct :: "u16 \<Rightarrow> basic \<Rightarrow> basic" where
  "program_transfer_control_direct line b = b\<lparr>program_next_line := line\<rparr>"

definition program_next_lineno :: "basic \<Rightarrow> numeric_t" where
  "program_next_lineno b =
     (if program_next_line b = 0 then -1 else PROG_LINENO (ram b) (program_next_line b))"

section \<open>Variables\<close>

text \<open>What a \<open>numeric_t *\<close> points to: a register, an entry of the context, or an array element.\<close>

datatype numeric_ref = RegRef nat | VarRef nat | MemRef u16

primrec deref :: "numeric_ref \<Rightarrow> basic \<Rightarrow> numeric_t" where
  "deref (RegRef i) b = reg_value (program_registers b ! i)"
| "deref (VarRef i) b = var_value (program_context b ! i)"
| "deref (MemRef a) b = load16 (ram b) a"

primrec assign :: "numeric_ref \<Rightarrow> numeric_t \<Rightarrow> basic \<Rightarrow> basic" where
  "assign (RegRef i) v b = b\<lparr>program_registers :=
     (program_registers b)[i := (program_registers b ! i)\<lparr>reg_value := v\<rparr>]\<rparr>"
| "assign (VarRef i) v b = b\<lparr>program_context :=
     (program_context b)[i := (program_context b ! i)\<lparr>var_value := v\<rparr>]\<rparr>"
| "assign (MemRef a) v b = b\<lparr>ram := store16 a v (ram b)\<rparr>"

text \<open>\<open>strcmp(name, s) == 0\<close> for a name in the context and a string in memory.\<close>

definition find_var :: "u16 \<Rightarrow> basic \<Rightarrow> nat option" where
  "find_var s b = first_idx (\<lambda>v. bytes_at (ram b) s (var_name v @ [0])) (program_context b)"

definition program_get_numeric_ref :: "u16 \<Rightarrow> basic \<Rightarrow> numeric_ref option option" where
  "program_get_numeric_ref toks b =
     (if ram b toks = TOK_REGISTER then
        (let i = unat (ram b (toks + 1)) in if i < NUM_REGISTERS then Some (Some (RegRef i)) else None)
      else Some (map_option VarRef (find_var (toks + 2) b)))"

definition program_set_numeric :: "u16 \<Rightarrow> numeric_t \<Rightarrow> basic \<Rightarrow> (error_t option \<times> basic) option" where
  "program_set_numeric toks val b = do {
     ref \<leftarrow> program_get_numeric_ref toks b;
     case ref of
       Some r \<Rightarrow> Some (None, assign r val b)
     | None \<Rightarrow>
         if length (program_context b) = MAX_VARS then Some (Some ERROR_TOO_MANY_VARS, b)
         else do {
           varname \<leftarrow> mem_cstr (ram b) (toks + 2);
           if VARNAME_SIZE < length varname then Some (Some ERROR_VARNAME, b)
           else Some (None, b\<lparr>program_context :=
             program_context b @ [\<lparr>var_name = varname, var_value = val\<rparr>]\<rparr>)
         }
   }"

definition program_get_numeric :: "u16 \<Rightarrow> basic \<Rightarrow> (error_t + numeric_t) option" where
  "program_get_numeric toks b = do {
     ref \<leftarrow> program_get_numeric_ref toks b;
     case ref of
       None \<Rightarrow> Some (Inl ERROR_UNDEFINED_VAR)
     | Some r \<Rightarrow> Some (Inr (deref r b))
   }"

definition program_push_return :: "u16 \<Rightarrow> u16 \<Rightarrow> basic \<Rightarrow> basic option" where
  "program_push_return line vartok b =
     (if length (program_return_stack b) < RETURN_STACK_LIMIT
      then Some (b\<lparr>program_return_stack := (line, vartok) # program_return_stack b\<rparr>) else None)"

definition program_pop_return :: "basic \<Rightarrow> (error_t + (u16 \<times> u16)) \<times> basic" where
  "program_pop_return b =
     (case program_return_stack b of
        [] \<Rightarrow> (Inl ERROR_RETSTACK_EMPTY, b)
      | entry # rest \<Rightarrow> (Inr entry, b\<lparr>program_return_stack := rest\<rparr>))"

fun clear_bytes :: "nat \<Rightarrow> u16 \<Rightarrow> tokmem \<Rightarrow> tokmem" where
  "clear_bytes 0 a m = m"
| "clear_bytes (Suc n) a m = clear_bytes n (a + 1) (m(a := 0))"

definition program_alloc :: "u8 \<Rightarrow> basic \<Rightarrow> u16 \<times> basic" where
  "program_alloc nbytes b =
     (let allocated = program_end_ptr b;
          m = (ram b)(allocated := TOK_ALLOC, allocated + 1 := nbytes)
      in (allocated, b\<lparr>ram := clear_bytes (unat nbytes) (allocated + 2) m,
            program_end_ptr := allocated + 2 + ucast nbytes\<rparr>))"

definition program_create_array :: "u16 \<Rightarrow> u8 \<Rightarrow> basic \<Rightarrow> basic option" where
  "program_create_array toks nbytes b =
     (let (a, b1) = program_alloc nbytes b
      in if ram b1 toks = TOK_REGISTER then
           (let i = unat (ram b1 (toks + 1))
            in if i < NUM_REGISTERS
               then Some (b1\<lparr>program_registers := (program_registers b1)[i := \<lparr>reg_defined = True, reg_value = a\<rparr>]\<rparr>)
               else None)
         else do {
           varname \<leftarrow> mem_cstr (ram b1) (toks + 2);
           if length (program_context b1) < MAX_VARS \<and> length varname \<le> VARNAME_SIZE
           then Some (b1\<lparr>program_context := program_context b1 @ [\<lparr>var_name = varname, var_value = a\<rparr>]\<rparr>)
           else None
         })"

definition program_get_array :: "u16 \<Rightarrow> basic \<Rightarrow> (error_t + u16) option" where
  "program_get_array toks b =
     (if ram b toks = TOK_REGISTER then
        (let i = unat (ram b (toks + 1))
         in if \<not> i < NUM_REGISTERS then None
            else if \<not> reg_defined (program_registers b ! i) then Some (Inl ERROR_UNDEFINED_ARRAY)
            else Some (Inr (reg_value (program_registers b ! i))))
      else do {
        varname \<leftarrow> mem_cstr (ram b) (toks + 2);
        if VARNAME_SIZE < length varname then Some (Inl ERROR_VARNAME)
        else case find_var (toks + 2) b of
            Some i \<Rightarrow> Some (Inr (var_value (program_context b ! i)))
          | None \<Rightarrow> Some (Inl ERROR_UNDEFINED_ARRAY)
      })"

end
