(* ===== verification/Basic_Eval.thy ===== *)
theory Basic_Eval
  imports Basic_Program
begin

text \<open>
  The expression evaluator of BASIC: \<open>eval.c\<close>, \<open>t_variable_get_ptr\<close> of \<open>t_variable.c\<close>, and
  \<open>t_func_call\<close> of \<open>t_func.c\<close>. The three call each other, for array indices and function
  arguments; the evaluator is passed to the other two, and \<open>eval_numeric n\<close> is the call with room for
  \<open>n\<close> nested calls on the C stack. The result is an error, or a value and the address behind the
  expression, together with the state, of which only the seed of the random numbers changes. \<open>None\<close> stands
  for an access outside one of the stacks or the output buffer, an undefined result, or a loop that does not end.
\<close>

type_synonym 'a result = "((error_t + 'a) \<times> basic) option"

text \<open>The macro \<open>ERROR_HANDLE(call)\<close> names its argument twice, so a call that fails is made a second
  time, and the second result is returned. When the second call succeeds, the function returns
  \<open>ERROR_NOERROR\<close> without having set its results.\<close>

definition ERROR_HANDLE :: "(basic \<Rightarrow> 'a result) \<Rightarrow> basic \<Rightarrow> 'a result" where
  "ERROR_HANDLE call b = do {
     (r, b1) \<leftarrow> call b;
     case r of
       Inr v \<Rightarrow> Some (Inr v, b1)
     | Inl _ \<Rightarrow> do {
         (r2, b2) \<leftarrow> call b1;
         case r2 of Inl e \<Rightarrow> Some (Inl e, b2) | Inr _ \<Rightarrow> None
       }
   }"

definition helper_eval_precedence :: "u8 \<Rightarrow> int" where
  "helper_eval_precedence op =
     (if op = OP_MULT then 4 else if op = OP_MINUS then 2 else if op = OP_PLUS then 1 else 0)"

definition OP_CHECK :: "tokmem \<Rightarrow> u16 \<Rightarrow> u8 \<Rightarrow> bool" where
  "OP_CHECK m toks op \<longleftrightarrow> m toks = TOK_OPERATOR \<and> m (toks + 1) = op"

definition eval_is_end_of_expression :: "tokmem \<Rightarrow> u16 \<Rightarrow> bool" where
  "eval_is_end_of_expression m toks \<longleftrightarrow>
     m toks = TOK_TERMINATOR \<or> m toks = TOK_SEPARATOR \<or> m toks = TOK_KEYWORD
     \<or> OP_CHECK m toks OP_RPAREN \<or> t_operator_is_comparison m toks"

section \<open>Operands\<close>

type_synonym evaluator = "u16 \<Rightarrow> basic \<Rightarrow> (numeric_t \<times> u16) result"

text \<open>The result is a pointer to the value and the address of the next token.\<close>

definition t_variable_get_ptr :: "evaluator \<Rightarrow> u16 \<Rightarrow> basic \<Rightarrow> (numeric_ref \<times> u16) result" where
  "t_variable_get_ptr ev var b =
     (let m = ram b
      in if m var \<noteq> TOK_VARIABLE \<and> m var \<noteq> TOK_REGISTER then Some (Inl ERROR_SYNTAX, b)
         else let toks = (if m var = TOK_VARIABLE then t_varlen_skip m var else var + 2)
         in if OP_CHECK m toks OP_LPAREN then do {
              (r1, b1) \<leftarrow> ERROR_HANDLE (ev (toks + 2)) b;
              case r1 of
                Inl e \<Rightarrow> Some (Inl e, b1)
              | Inr (index, expr_end) \<Rightarrow> do {
                  (r2, b2) \<leftarrow> ERROR_HANDLE (\<lambda>b. map_option (\<lambda>r. (r, b)) (program_get_array var b)) b1;
                  case r2 of
                    Inl e \<Rightarrow> Some (Inl e, b2)
                  | Inr arr \<Rightarrow>
                      if sint index < 1 then Some (Inl ERROR_RANGE, b2)
                      else if ucast (ram b2 (arr + 1)) < index * 2 then Some (Inl ERROR_RANGE, b2)
                      else Some (Inr (MemRef (arr + 2 + 2 * (index - 1)), expr_end + 2), b2)
                }
            }
            else do {
              ref \<leftarrow> program_get_numeric_ref var b;
              case ref of
                None \<Rightarrow> Some (Inl ERROR_UNDEFINED_VAR, b)
              | Some r \<Rightarrow> Some (Inr (r, toks), b)
            })"

definition rand16 :: "basic \<Rightarrow> u16 \<times> basic" where
  "rand16 b =
     (let r1 = xor (rnd b) (push_bit 7 (rnd b));
          r2 = xor r1 (drop_bit 9 r1);
          r3 = xor r2 (push_bit 8 r2)
      in (r3, b\<lparr>rnd := r3\<rparr>))"

text \<open>\<open>rand16() % (param + 1 - RND_RANGE_MIN) + RND_RANGE_MIN\<close>, in unsigned 16-bit arithmetic; the
  remainder by 0 is undefined.\<close>

definition t_func_call :: "evaluator \<Rightarrow> u16 \<Rightarrow> basic \<Rightarrow> (numeric_t \<times> u16) result" where
  "t_func_call ev func b =
     (let m = ram b
      in if m func \<noteq> TOK_FUNC then Some (Inl ERROR_SYNTAX, b)
         else if m (func + 1) = FUNC_RND then
           (let toks = func + 2
            in if OP_CHECK m toks OP_LPAREN then do {
                 (r1, b1) \<leftarrow> ERROR_HANDLE (ev toks) b;
                 case r1 of
                   Inl e \<Rightarrow> Some (Inl e, b1)
                 | Inr (param, expr_end) \<Rightarrow>
                     (let (v, b2) = rand16 b1
                      in if param = 0 then None
                         else Some (Inr (v mod param + 1, expr_end + 2), b2))
               }
               else (let (v, b1) = rand16 b in Some (Inr (v, toks), b1)))
         else Some (Inl ERROR_UNKNOWN_FUNC, b))"

section \<open>The shunting yard\<close>

text \<open>The operators are popped into the output while their precedence is greater than that of the new one.\<close>

fun pop_greater :: "int \<Rightarrow> u8 list \<Rightarrow> bytes \<Rightarrow> u8 list \<times> bytes" where
  "pop_greater p [] output = ([], output)"
| "pop_greater p (op # opstack) output =
     (if helper_eval_precedence op > p then pop_greater p opstack (output @ [TOK_OPERATOR, op])
      else (op # opstack, output))"

abbreviation (input) "OPSTACK_MAX \<equiv> (16 :: nat)"
abbreviation (input) "NUMSTACK_MAX \<equiv> (16 :: nat)"
abbreviation (input) "OUTPUT_MAX \<equiv> (256 :: nat)"

lemma pop_greater_length:
  "pop_greater p ops out = (ops', out')
   \<Longrightarrow> length out' + 2 * length ops' = length out + 2 * length ops \<and> length ops' \<le> length ops"
  by (induction p ops out arbitrary: ops' out' rule: pop_greater.induct) (fastforce split: if_splits)+

text \<open>\<open>eval_shunting_yard\<close>: the operator stack has its top first, \<open>output\<close> is what has been written to
  the buffer. The working pointers of the C function are static, but saved around the calls. The loop does
  not skip a token of another type, and then never ends.\<close>

function eval_shunting_yard :: "evaluator \<Rightarrow> u16 \<Rightarrow> u8 list \<Rightarrow> bytes \<Rightarrow> basic \<Rightarrow> (bytes \<times> u16) result" where
  "eval_shunting_yard ev src opstack output b =
     (let m = ram b; tok = m src
      in if eval_is_end_of_expression m src then
           (let output1 = output @ concat (map (\<lambda>op. [TOK_OPERATOR, op]) opstack) @ [TOK_TERMINATOR]
            in if length output1 \<le> OUTPUT_MAX then Some (Inr (output1, src), b) else None)
         else if tok = TOK_NUMERIC then
           (if length output + 3 \<le> OUTPUT_MAX
            then eval_shunting_yard ev (src + 3) opstack (output @ [TOK_NUMERIC, m (src + 1), m (src + 2)]) b
            else None)
         else if tok = TOK_FUNC then
           (case ERROR_HANDLE (t_func_call ev src) b of
              None \<Rightarrow> None
            | Some (Inl e, b1) \<Rightarrow> Some (Inl e, b1)
            | Some (Inr (val, next_toks), b1) \<Rightarrow>
                (if length output + 3 \<le> OUTPUT_MAX
                 then eval_shunting_yard ev next_toks opstack (output @ TOK_NUMERIC # put16 val) b1
                 else None))
         else if tok = TOK_VARIABLE \<or> tok = TOK_REGISTER then
           (case ERROR_HANDLE (t_variable_get_ptr ev src) b of
              None \<Rightarrow> None
            | Some (Inl e, b1) \<Rightarrow> Some (Inl e, b1)
            | Some (Inr (val, next_toks), b1) \<Rightarrow>
                (if length output + 3 \<le> OUTPUT_MAX
                 then eval_shunting_yard ev next_toks opstack (output @ TOK_NUMERIC # put16 (deref val b1)) b1
                 else None))
         else if tok = TOK_OPERATOR then
           (case pop_greater (helper_eval_precedence (m (src + 1))) opstack output of
              (opstack1, output1) \<Rightarrow>
                (if length output1 \<le> OUTPUT_MAX \<and> length opstack1 < OPSTACK_MAX
                 then eval_shunting_yard ev (src + 2) (m (src + 1) # opstack1) output1 b else None))
         else None)"
  by pat_completeness auto
termination
proof (relation "measure (\<lambda>(ev, src, ops, out, b). (257 - length out) + (17 - length ops))", goal_cases)
  case (5 ev src ops out b m tok ops' out')
  then have "pop_greater (helper_eval_precedence (m (src + 1))) ops out = (ops', out')" by simp
  from pop_greater_length [OF this] 5 show ?case by auto
qed auto

declare eval_shunting_yard.simps [simp del]

section \<open>The stack machine\<close>

text \<open>The operators of \<open>eval_rpn\<close> on the number stack, top first. A pop of an empty stack is undefined;
  a minus sign negates when there is one number only, and is skipped when there is none.\<close>

definition rpn_operator :: "u8 \<Rightarrow> numeric_t list \<Rightarrow> numeric_t list option" where
  "rpn_operator op stack =
     (if op = OP_PLUS then (case stack of a # b # rest \<Rightarrow> Some ((a + b) # rest) | _ \<Rightarrow> None)
      else if op = OP_MULT then (case stack of a # b # rest \<Rightarrow> Some (a * b # rest) | _ \<Rightarrow> None)
      else if op = OP_MINUS then
        (case stack of [] \<Rightarrow> Some [] | [a] \<Rightarrow> Some [- a] | a # b # rest \<Rightarrow> Some ((b - a) # rest))
      else Some stack)"

fun eval_rpn :: "bytes \<Rightarrow> numeric_t list \<Rightarrow> numeric_t option" where
  "eval_rpn [] stack = None"
| "eval_rpn (tok # expr) stack =
     (if tok = TOK_TERMINATOR then (case stack of [] \<Rightarrow> None | a # _ \<Rightarrow> Some a)
      else if tok = TOK_NUMERIC then
        (case expr of
           lo # hi # rest \<Rightarrow>
             (if length stack < NUMSTACK_MAX then eval_rpn rest (le16 [lo, hi] 0 # stack) else None)
         | _ \<Rightarrow> None)
      else if tok = TOK_OPERATOR then
        (case expr of
           op # rest \<Rightarrow> (case rpn_operator op stack of None \<Rightarrow> None | Some stack1 \<Rightarrow> eval_rpn rest stack1)
         | _ \<Rightarrow> None)
      else None)"

fun eval_numeric :: "nat \<Rightarrow> u16 \<Rightarrow> basic \<Rightarrow> (numeric_t \<times> u16) result" where
  "eval_numeric 0 src b = None"
| "eval_numeric (Suc n) src b =
     (let m = ram b
      in if m src = TOK_NUMERIC \<and> eval_is_end_of_expression m (src + 3)
         then Some (Inr (load16 m (src + 1), src + 3), b)
         else if m src = TOK_REGISTER \<and> eval_is_end_of_expression m (src + 2) then do {
           ref \<leftarrow> program_get_numeric_ref src b;
           case ref of None \<Rightarrow> None | Some r \<Rightarrow> Some (Inr (deref r b, src + 2), b)
         }
         else do {
           (r, b1) \<leftarrow> ERROR_HANDLE (eval_shunting_yard (eval_numeric n) src [] []) b;
           case r of
             Inl e \<Rightarrow> Some (Inl e, b1)
           | Inr (output, expr_end) \<Rightarrow> do {
               v \<leftarrow> eval_rpn output [];
               Some (Inr (v, expr_end), b1)
             }
         })"

declare eval_numeric.simps [simp del]

end
