(* ===== verification/Basic_Interp.thy ===== *)
theory Basic_Interp
  imports Basic_Eval
begin

text \<open>
  The interpreter of BASIC: the keywords of \<open>t_keyword.c\<close>, \<open>statement_interpret\<close> of
  \<open>statement.c\<close>, \<open>program_run\<close> of \<open>program.c\<close>, \<open>error_display\<close> and \<open>process_line\<close>.
  The functions of the C code call each other; each handler takes what it calls as arguments, and
  \<open>statement_interpret n\<close> ties the knot for \<open>n\<close> nested calls, \<open>n\<close> nested expressions and
  programs of at most \<open>n\<close> executed statements. A status is the error, if any, and the new state.
\<close>

type_synonym status = "(error_t option \<times> basic) option"
type_synonym interpreter = "u16 \<Rightarrow> basic \<Rightarrow> status"

definition print :: "bytes \<Rightarrow> basic \<Rightarrow> basic" where
  "print s b = b\<lparr>console := console b @ s\<rparr>"

abbreviation (input) "KEYWORD_PRINT \<equiv> (1 :: u8)"
abbreviation (input) "KEYWORD_LIST \<equiv> (2 :: u8)"
abbreviation (input) "KEYWORD_NEW \<equiv> (3 :: u8)"
abbreviation (input) "KEYWORD_RUN \<equiv> (4 :: u8)"
abbreviation (input) "KEYWORD_END \<equiv> (5 :: u8)"
abbreviation (input) "KEYWORD_GOTO \<equiv> (6 :: u8)"
abbreviation (input) "KEYWORD_FOR \<equiv> (7 :: u8)"
abbreviation (input) "KEYWORD_TO \<equiv> (8 :: u8)"
abbreviation (input) "KEYWORD_NEXT \<equiv> (9 :: u8)"
abbreviation (input) "KEYWORD_GOSUB \<equiv> (10 :: u8)"
abbreviation (input) "KEYWORD_RETURN \<equiv> (11 :: u8)"
abbreviation (input) "KEYWORD_DIM \<equiv> (12 :: u8)"
abbreviation (input) "KEYWORD_IF \<equiv> (13 :: u8)"
abbreviation (input) "KEYWORD_THEN \<equiv> (14 :: u8)"
abbreviation (input) "KEYWORD_JUMPTO \<equiv> (15 :: u8)"
abbreviation (input) "KEYWORD_JUMPSUB \<equiv> (16 :: u8)"

definition KW_CHECK :: "tokmem \<Rightarrow> u16 \<Rightarrow> u8 \<Rightarrow> bool" where
  "KW_CHECK m toks kw \<longleftrightarrow> m toks = TOK_KEYWORD \<and> m (toks + 1) = kw"

section \<open>PRINT\<close>

definition do_print_string :: "u16 \<Rightarrow> basic \<Rightarrow> u16 result" where
  "do_print_string toks b = do {
     s \<leftarrow> mem_cstr (ram b) (toks + 2);
     Some (Inr (t_varlen_skip (ram b) toks), print s b)
   }"

definition do_print_numeric :: "evaluator \<Rightarrow> u16 \<Rightarrow> basic \<Rightarrow> u16 result" where
  "do_print_numeric ev toks b = do {
     (r, b1) \<leftarrow> ev toks b;
     case r of
       Inl e \<Rightarrow> Some (Inl e, b1)
     | Inr (val, expr_end) \<Rightarrow> Some (Inr expr_end, print (print_d val) b1)
   }"

partial_function (option) do_print :: "evaluator \<Rightarrow> u16 \<Rightarrow> basic \<Rightarrow> status" where
  "do_print ev toks b = do {
     (r, b1) \<leftarrow> (if ram b toks = TOK_STRING then do_print_string toks b else do_print_numeric ev toks b);
     case r of
       Inl e \<Rightarrow> Some (Some e, b1)
     | Inr next_toks \<Rightarrow>
         if ram b1 next_toks = TOK_TERMINATOR then Some (None, print [13, 10] b1)
         else if ram b1 next_toks \<noteq> TOK_SEPARATOR then Some (Some ERROR_SYNTAX, b1)
         else do_print ev (next_toks + 1) b1
   }"

section \<open>Control flow\<close>

text \<open>\<open>do_goto\<close> overwrites its own statement: the keyword becomes \<open>JUMPTO\<close>, and the line number the
  address of the line.\<close>

definition do_goto :: "u16 \<Rightarrow> basic \<Rightarrow> status" where
  "do_goto toks b =
     (if ram b toks \<noteq> TOK_NUMERIC then Some (Some ERROR_SYNTAX, b)
      else do {
        let lineno = load16 (ram b) (toks + 1);
        (line, b1) \<leftarrow> program_transfer_control lineno b;
        let goto_pos = toks - 1;
        Some (None, b1\<lparr>ram := store16 (goto_pos + 2) line ((ram b1)(goto_pos := KEYWORD_JUMPTO))\<rparr>)
      })"

definition do_jumpto :: "u16 \<Rightarrow> basic \<Rightarrow> status" where
  "do_jumpto toks b =
     (if ram b toks \<noteq> TOK_NUMERIC then Some (Some ERROR_SYNTAX, b)
      else Some (None, program_transfer_control_direct (load16 (ram b) (toks + 1)) b))"

definition do_gosub :: "u16 \<Rightarrow> basic \<Rightarrow> status" where
  "do_gosub toks b =
     (if ram b toks \<noteq> TOK_NUMERIC then Some (Some ERROR_SYNTAX, b)
      else do {
        let next_lineno = load16 (ram b) (toks + 1);
        b1 \<leftarrow> program_push_return (program_get_current_line b) 0 b;
        (line, b2) \<leftarrow> program_transfer_control next_lineno b1;
        let gosub_pos = toks - 1;
        Some (None, b2\<lparr>ram := store16 (gosub_pos + 2) line ((ram b2)(gosub_pos := KEYWORD_JUMPSUB))\<rparr>)
      })"

definition do_jumpsub :: "u16 \<Rightarrow> basic \<Rightarrow> status" where
  "do_jumpsub toks b =
     (if ram b toks \<noteq> TOK_NUMERIC then Some (Some ERROR_SYNTAX, b)
      else do {
        b1 \<leftarrow> program_push_return (program_get_current_line b) 0 b;
        Some (None, program_transfer_control_direct (load16 (ram b1) (toks + 1)) b1)
      })"

definition do_return :: "u16 \<Rightarrow> basic \<Rightarrow> status" where
  "do_return toks b =
     (let (r, b1) = program_pop_return b
      in case r of
           Inl e \<Rightarrow> Some (Some e, b1)
         | Inr (line, vartok) \<Rightarrow> Some (None, program_transfer_control_direct (PROG_NEXT (ram b1) line) b1))"

text \<open>\<open>varcmp\<close> of \<open>t_variable.c\<close>, true when it returns 0. The names are compared together with the size
  byte in front of them.\<close>

definition varcmp :: "tokmem \<Rightarrow> u16 \<Rightarrow> u16 \<Rightarrow> bool option" where
  "varcmp m left right =
     (if left = 0 \<or> right = 0 then Some False
      else if m left \<noteq> m right then Some False
      else if m left = TOK_REGISTER then Some (m (left + 1) = m (right + 1))
      else if m left = TOK_VARIABLE then do {
        s \<leftarrow> mem_cstr m (left + 1);
        t \<leftarrow> mem_cstr m (right + 1);
        Some (s = t)
      }
      else Some False)"

text \<open>The tokens of a variable, at the start of \<open>FOR\<close> and \<open>DIM\<close>.\<close>

definition skip_variable :: "tokmem \<Rightarrow> u16 \<Rightarrow> u16 option" where
  "skip_variable m toks =
     (if m toks = TOK_VARIABLE then Some (t_varlen_skip m toks)
      else if m toks = TOK_REGISTER then Some (toks + 2) else None)"

text \<open>\<open>FOR var = start TO limit\<close>, the second part of \<open>do_for\<close>. \<open>line\<close> is only set when the return
  stack was not empty; a \<open>current_val\<close> that cannot be read is undefined as well.\<close>

definition for_loop :: "u16 \<Rightarrow> numeric_t \<Rightarrow> numeric_t \<Rightarrow> basic \<Rightarrow> status" where
  "for_loop var start limit b = do {
     let (onstack, b1) = program_pop_return b;
     same \<leftarrow> (case onstack of Inl _ \<Rightarrow> Some False | Inr (line, vartok) \<Rightarrow> varcmp (ram b1) vartok var);
     b2 \<leftarrow> (if same then do {
              r \<leftarrow> program_get_numeric var b1;
              case r of
                Inl _ \<Rightarrow> None
              | Inr current_val \<Rightarrow> map_option snd (program_set_numeric var (current_val + 1) b1)
            }
            else do {
              (_, b') \<leftarrow> program_set_numeric var start b1;
              case onstack of Inl _ \<Rightarrow> Some b' | Inr (line, vartok) \<Rightarrow> program_push_return line vartok b'
            });
     r \<leftarrow> program_get_numeric var b2;
     case r of
       Inl _ \<Rightarrow> None
     | Inr current_val \<Rightarrow>
         if sint limit \<le> sint current_val then
           (case onstack of
              Inl _ \<Rightarrow> None
            | Inr (line, _) \<Rightarrow> Some (None, program_transfer_control_direct (PROG_NEXT (ram b2) line) b2))
         else map_option (Pair None) (program_push_return (program_get_current_line b2) var b2)
   }"

definition do_for :: "u16 \<Rightarrow> basic \<Rightarrow> status" where
  "do_for var b =
     (let m = ram b
      in case skip_variable m var of
           None \<Rightarrow> Some (Some ERROR_SYNTAX, b)
         | Some t \<Rightarrow>
             if \<not> OP_CHECK m t OP_EQUAL then Some (Some ERROR_SYNTAX, b)
             else if m (t + 2) \<noteq> TOK_NUMERIC then Some (Some ERROR_SYNTAX, b)
             else if \<not> KW_CHECK m (t + 5) KEYWORD_TO then Some (Some ERROR_SYNTAX, b)
             else if m (t + 7) \<noteq> TOK_NUMERIC then Some (Some ERROR_SYNTAX, b)
             else for_loop var (load16 m (t + 3)) (load16 m (t + 8)) b)"

definition do_next :: "u16 \<Rightarrow> basic \<Rightarrow> status" where
  "do_next var b =
     (if ram b var \<noteq> TOK_VARIABLE \<and> ram b var \<noteq> TOK_REGISTER then Some (Some ERROR_SYNTAX, b)
      else let (r, b1) = program_pop_return b
      in case r of
           Inl e \<Rightarrow> Some (Some ERROR_SYNTAX, b1)
         | Inr (dest, vartok) \<Rightarrow> do {
             same \<leftarrow> varcmp (ram b1) var vartok;
             if \<not> same then Some (Some ERROR_SYNTAX, b1)
             else do {
               b2 \<leftarrow> program_push_return (program_get_current_line b1) vartok b1;
               Some (None, program_transfer_control_direct dest b2)
             }
           })"

section \<open>DIM and IF\<close>

text \<open>The parentheses are skipped unseen. The size is compared as an unsigned number.\<close>

definition do_dim :: "u16 \<Rightarrow> basic \<Rightarrow> status" where
  "do_dim var b =
     (case skip_variable (ram b) var of
        None \<Rightarrow> Some (Some ERROR_SYNTAX, b)
      | Some t \<Rightarrow>
          (let elems = load16 (ram b) (t + 3)
           in if 127 < elems then Some (Some ERROR_RANGE, b)
              else map_option (Pair None) (program_create_array var (ucast (elems * 2)) b)))"

definition helper_if_do_comparison :: "u8 \<Rightarrow> numeric_t \<Rightarrow> numeric_t \<Rightarrow> bool option" where
  "helper_if_do_comparison op left right =
     (if op = OP_EQUAL then Some (left = right)
      else if op = OP_LT then Some (sint left < sint right)
      else if op = OP_GT then Some (sint left > sint right)
      else if op = OP_LTEQ then Some (sint left \<le> sint right)
      else if op = OP_GTEQ then Some (sint left \<ge> sint right)
      else None)"

text \<open>The statement behind \<open>THEN\<close> is an argument of \<open>ERROR_HANDLE\<close>: when it fails it is
  interpreted again.\<close>

definition do_if :: "evaluator \<Rightarrow> interpreter \<Rightarrow> u16 \<Rightarrow> basic \<Rightarrow> status" where
  "do_if ev interp toks b = do {
     (r1, b1) \<leftarrow> ERROR_HANDLE (ev toks) b;
     case r1 of
       Inl e \<Rightarrow> Some (Some e, b1)
     | Inr (expr1_val, expr1_end) \<Rightarrow>
         if \<not> t_operator_is_comparison (ram b1) expr1_end then Some (Some ERROR_SYNTAX, b1)
         else do {
           let op = ram b1 (expr1_end + 1);
           (r2, b2) \<leftarrow> ERROR_HANDLE (ev (expr1_end + 2)) b1;
           case r2 of
             Inl e \<Rightarrow> Some (Some e, b2)
           | Inr (expr2_val, expr2_end) \<Rightarrow>
               if \<not> KW_CHECK (ram b2) expr2_end KEYWORD_THEN then Some (Some ERROR_SYNTAX, b2)
               else case helper_if_do_comparison op expr1_val expr2_val of
                   None \<Rightarrow> Some (Some ERROR_SYNTAX, b2)
                 | Some False \<Rightarrow> Some (None, b2)
                 | Some True \<Rightarrow> do {
                     (e, b3) \<leftarrow> interp (expr2_end + 2) b2;
                     if e \<noteq> None then interp (expr2_end + 2) b3 else Some (None, b3)
                   }
         }
   }"

section \<open>RUN\<close>

definition program_run_init :: "basic \<Rightarrow> basic" where
  "program_run_init b = b\<lparr>program_running := True, program_next_line := program_start b,
     program_context := [], program_return_stack := []\<rparr>"

text \<open>The loop of \<open>program_run\<close>, for at most \<open>n\<close> statements.\<close>

fun run_loop :: "interpreter \<Rightarrow> nat \<Rightarrow> basic \<Rightarrow> status" where
  "run_loop interp 0 b = None"
| "run_loop interp (Suc n) b =
     (if program_next_line b = 0 then Some (None, b\<lparr>program_running := False\<rparr>)
      else let line = program_next_line b;
               stmt = PROG_STMT line;
               b1 = b\<lparr>program_current_line := line\<rparr>
      in if ram b1 stmt = TOK_ALLOC \<or> ram b1 stmt = TOK_NUMERIC then Some (program_end (Some ERROR_SYNTAX) b1)
         else do {
           (e, b2) \<leftarrow> interp stmt (b1\<lparr>program_next_line := PROG_NEXT (ram b1) line\<rparr>);
           if \<not> program_running b2 then Some (None, b2)
           else if e \<noteq> None then Some (program_end e b2)
           else if program_next_line b2 = 0 then Some (program_end (Some ERROR_GOTO) b2)
           else run_loop interp n b2
         })"

definition program_run :: "interpreter \<Rightarrow> nat \<Rightarrow> basic \<Rightarrow> status" where
  "program_run interp n b = run_loop interp n (program_run_init b)"

section \<open>Statements\<close>

text \<open>\<open>t_keyword_interpret\<close> with the table \<open>keyword_funcs\<close>.\<close>

definition t_keyword_interpret ::
  "evaluator \<Rightarrow> interpreter \<Rightarrow> (basic \<Rightarrow> status) \<Rightarrow> u8 \<Rightarrow> u16 \<Rightarrow> basic \<Rightarrow> status" where
  "t_keyword_interpret ev interp run kw toks b =
     (if kw = KEYWORD_PRINT then do_print ev toks b
      else if kw = KEYWORD_LIST then map_option (Pair None) (program_list b)
      else if kw = KEYWORD_NEW then Some (None, program_new b)
      else if kw = KEYWORD_RUN then run b
      else if kw = KEYWORD_END then Some (program_end None b)
      else if kw = KEYWORD_GOTO then do_goto toks b
      else if kw = KEYWORD_FOR then do_for toks b
      else if kw = KEYWORD_TO then Some (Some ERROR_SYNTAX, b)
      else if kw = KEYWORD_NEXT then do_next toks b
      else if kw = KEYWORD_GOSUB then do_gosub toks b
      else if kw = KEYWORD_RETURN then do_return toks b
      else if kw = KEYWORD_DIM then do_dim toks b
      else if kw = KEYWORD_IF then do_if ev interp toks b
      else if kw = KEYWORD_THEN then Some (Some ERROR_SYNTAX, b)
      else if kw = KEYWORD_JUMPTO then do_jumpto toks b
      else if kw = KEYWORD_JUMPSUB then do_jumpsub toks b
      else Some (Some ERROR_UNDEFINED_KW, b))"

text \<open>The assignment: a variable that does not exist is defined, and the reference looked up again.\<close>

definition assign_reference :: "evaluator \<Rightarrow> u16 \<Rightarrow> basic \<Rightarrow> (numeric_ref \<times> u16) result" where
  "assign_reference ev stmt b = do {
     (r, b1) \<leftarrow> t_variable_get_ptr ev stmt b;
     if r = Inl ERROR_UNDEFINED_VAR then do {
       (e, b2) \<leftarrow> program_set_numeric stmt 0 b1;
       case e of
         Some err \<Rightarrow> Some (Inl err, b2)
       | None \<Rightarrow> t_variable_get_ptr ev stmt b2
     }
     else Some (r, b1)
   }"

definition statement_assign :: "evaluator \<Rightarrow> u16 \<Rightarrow> basic \<Rightarrow> status" where
  "statement_assign ev stmt b = do {
     (r, b1) \<leftarrow> assign_reference ev stmt b;
     case r of
       Inl e \<Rightarrow> Some (Some e, b1)
     | Inr (val_ptr, next_toks) \<Rightarrow>
         if \<not> OP_CHECK (ram b1) next_toks OP_EQUAL then Some (Some ERROR_SYNTAX, b1)
         else do {
           (r2, b2) \<leftarrow> ev (next_toks + 2) b1;
           case r2 of
             Inl e \<Rightarrow> Some (Some e, b2)
           | Inr (val, _) \<Rightarrow> Some (None, assign val_ptr val b2)
         }
   }"

definition interpret_statement :: "evaluator \<Rightarrow> interpreter \<Rightarrow> (basic \<Rightarrow> status) \<Rightarrow> u16 \<Rightarrow> basic \<Rightarrow> status" where
  "interpret_statement ev interp run stmt b =
     (let tok_type = ram b stmt
      in if tok_type = TOK_NUMERIC then program_insert stmt b
         else if tok_type = TOK_KEYWORD
           then t_keyword_interpret ev interp run (ram b (stmt + 1)) (stmt + 2) b
         else if tok_type = TOK_VARIABLE \<or> tok_type = TOK_REGISTER then statement_assign ev stmt b
         else if tok_type = TOK_REMARK then Some (None, b)
         else Some (Some ERROR_SYNTAX, b))"

primrec statement_interpret :: "nat \<Rightarrow> u16 \<Rightarrow> basic \<Rightarrow> status" where
  "statement_interpret 0 = (\<lambda>stmt b. None)"
| "statement_interpret (Suc n) =
     interpret_statement (eval_numeric n) (statement_interpret n) (program_run (statement_interpret n) n)"

section \<open>The console loop\<close>

definition error_display :: "error_t \<Rightarrow> basic \<Rightarrow> basic" where
  "error_display e b =
     (let s = (case e of
          ERROR_SYNTAX \<Rightarrow> ascii ''SYNTAX!'' @ [10]
        | ERROR_UNDEFINED_KW \<Rightarrow> ascii ''KEYWORD?'' @ [10]
        | ERROR_LINENUM \<Rightarrow> ascii ''LINENUM?'' @ [10]
        | ERROR_GOTO \<Rightarrow> ascii ''GOTO '' @ print_u (program_next_lineno b) @ ascii ''?''
        | ERROR_NOT_RUNNING \<Rightarrow> ascii ''PROGRAM NOT RUNNING!'' @ [10]
        | ERROR_RANGE \<Rightarrow> ascii ''OUT OF RANGE!'' @ [10]
        | _ \<Rightarrow> ascii ''UNDEFINED ERROR!'' @ [10])
      in print (s @ [13, 10, 10]) b)"

text \<open>\<open>process_line\<close>: \<open>input\<close> is the input buffer, \<open>statement\<close> the address of the token buffer.\<close>

fun store_bytes :: "u16 \<Rightarrow> bytes \<Rightarrow> tokmem \<Rightarrow> tokmem" where
  "store_bytes a [] m = m"
| "store_bytes a (x # xs) m = store_bytes (a + 1) xs (m(a := x))"

definition process_line :: "nat \<Rightarrow> u16 \<Rightarrow> bytes \<Rightarrow> basic \<Rightarrow> status" where
  "process_line n statement input b = do {
     (e, toks) \<leftarrow> statement_tokenize input;
     let b1 = b\<lparr>ram := store_bytes statement toks (ram b)\<rparr>;
     case e of
       Some err \<Rightarrow>
         Some (Some err, error_display err
           (print (ascii ''TOK: L'' @ print_u (program_current_lineno b1) @ ascii '' '') b1))
     | None \<Rightarrow> do {
         (e2, b2) \<leftarrow> statement_interpret n statement b1;
         case e2 of
           Some err \<Rightarrow>
             Some (Some err, error_display err
               (print (ascii ''INT: L'' @ print_d (program_current_lineno b2) @ ascii '' '') b2))
         | None \<Rightarrow> Some (None, b2)
       }
   }"

end
