(* ===== verification/Basic_Listing.thy ===== *)
theory Basic_Listing
  imports Basic_Tokens
begin

text \<open>
  The tokenizer and the printers of BASIC are inverse to each other: what \<open>LIST\<close> prints for a
  statement is tokenized into that statement again, unless the printed forms of two neighbours run
  together. The tokens are described by the datatype \<open>token\<close>, with their encoding (\<open>encode\<close>) and their
  printed form (\<open>body\<close> and the blank \<open>gap\<close> behind it).
\<close>

section \<open>Numbers\<close>

lemma is_digit_of_nat: "k < 10 \<Longrightarrow> is_digit (of_nat (48 + k))"
proof -
  assume "k < 10"
  then have "unat (of_nat (48 + k) :: u8) = 48 + k" by (intro unat_of_nat_u8) simp
  with \<open>k < 10\<close> show ?thesis by (simp add: is_digit_def word_le_nat_alt del: of_nat_add)
qed

lemma decimal_digits: "c \<in> set (decimal n) \<Longrightarrow> is_digit c"
proof (induction n rule: decimal.induct)
  case (1 n)
  have "n mod 10 < 10" by simp
  then show ?case
    using 1 is_digit_of_nat by (subst (asm) (2) decimal.simps) (auto split: if_splits simp del: of_nat_add)
qed

lemma decimal_not_Nil [simp]: "decimal n \<noteq> []"
  by (subst decimal.simps) simp

lemma digit_value:
  assumes "k < 10"
  shows "ucast (of_nat (48 + k) :: u8) - 48 = (of_nat k :: u16)"
proof -
  have "ucast (of_nat (48 + k) :: u8) = (of_nat (48 + k) :: u16)"
    using assms by (intro word_unat_eq_iff [THEN iffD2]) (simp only: unat_u8_u16 unat_of_nat_u8 unat_of_nat_u16)
  then show ?thesis by simp
qed

lemma numeric_digits_decimal:
  "numeric_digits v (decimal n @ s) = numeric_digits (v * 10 ^ length (decimal n) + of_nat n) s"
proof (induction n arbitrary: s rule: decimal.induct)
  case (1 n)
  show ?case
  proof (cases "n < 10")
    case True
    then have "decimal n = [of_nat (48 + n)]" by (subst decimal.simps) simp
    then show ?thesis using is_digit_of_nat [OF True] digit_value [OF True] by (simp del: of_nat_add)
  next
    case False
    define d where "d = n mod 10"
    have "d < 10" by (simp add: d_def)
    have dec: "decimal n = decimal (n div 10) @ [of_nat (48 + d)]"
      using False by (subst decimal.simps) (simp add: d_def)
    have n: "n = n div 10 * 10 + d" by (simp add: d_def)
    have "(of_nat (n div 10) :: u16) * 10 + of_nat d = of_nat n"
      by (subst (2) n) (simp only: of_nat_add of_nat_mult of_nat_numeral)
    then have val: "(v * 10 ^ length (decimal (n div 10)) + of_nat (n div 10)) * 10 + of_nat d
        = v * 10 ^ length (decimal n) + of_nat n"
      by (simp only: dec distrib_right add.assoc length_append list.size power_add power_one_right
          mult.assoc One_nat_def [symmetric] add_0_right add_0_left plus_1_eq_Suc)
    have "numeric_digits v (decimal n @ s)
        = numeric_digits ((v * 10 ^ length (decimal (n div 10)) + of_nat (n div 10)) * 10 + of_nat d) s"
      using 1 [OF False, of "of_nat (48 + d) # s"] is_digit_of_nat [OF \<open>d < 10\<close>] digit_value [OF \<open>d < 10\<close>]
      by (simp add: dec del: of_nat_add)
    then show ?thesis by (simp only: val)
  qed
qed

lemma numeric_digits_stop: "\<not> is_digit (peek s) \<Longrightarrow> numeric_digits v s = (v, s)"
  by (cases s) (auto simp: peek_def is_digit_def)

lemma t_numeric_parse_decimal:
  assumes "\<not> is_digit (peek s)"
  shows "t_numeric_parse (decimal n @ s) = Some (Some (TOK_NUMERIC # put16 (of_nat n), s))"
proof -
  obtain c ds where c: "decimal n = c # ds" by (cases "decimal n") auto
  then have "is_digit c" using decimal_digits [of c n] by simp
  moreover have "numeric_digits 0 (decimal n @ s) = (of_nat n, s)"
    using assms by (simp add: numeric_digits_decimal numeric_digits_stop)
  ultimately show ?thesis using c by (simp add: t_numeric_parse_def peek_def)
qed

lemma print_d_nonneg: "unat v < 32768 \<Longrightarrow> print_d v = decimal (unat v)"
proof -
  assume v: "unat v < 32768"
  have b: "uint v < 32768" unfolding uint_nat using v by linarith
  have "- 32768 \<le> uint v" using uint_ge_0 [of v] by linarith
  with b have "sint v = uint v"
    unfolding sint_uint by (intro signed_take_bit_int_eq_self) simp_all
  moreover have "nat (uint v) = unat v" by simp
  ultimately show ?thesis by (simp add: print_d_def)
qed

section \<open>Token sequences\<close>

datatype token = Num numeric_t | Op u8 | Kw u8 | Sep | Str bytes | Rnd | Reg u8

primrec encode :: "token \<Rightarrow> bytes" where
  "encode (Num v) = TOK_NUMERIC # put16 v"
| "encode (Op op) = [TOK_OPERATOR, op]"
| "encode (Kw kw) = [TOK_KEYWORD, kw]"
| "encode Sep = [TOK_SEPARATOR]"
| "encode (Str s) = TOK_STRING # of_nat (length s + 1) # s @ [0]"
| "encode Rnd = [TOK_FUNC, FUNC_RND]"
| "encode (Reg r) = [TOK_REGISTER, r]"

definition op_text :: "u8 \<Rightarrow> bytes" where
  "op_text op = map ascii [''-'', ''+'', ''='', ''('', '')'', ''<'', ''>'', ''<='', ''>='', ''*''] ! unat op"

definition kw_text :: "u8 \<Rightarrow> bytes" where
  "kw_text kw = fst (keyword_table ! (unat kw - 1))"

primrec body :: "token \<Rightarrow> bytes" where
  "body (Num v) = decimal (unat v)"
| "body (Op op) = op_text op"
| "body (Kw kw) = kw_text kw"
| "body Sep = ascii '',''"
| "body (Str s) = of_char (CHR 0x22) # s @ [of_char (CHR 0x22)]"
| "body Rnd = ascii ''RND''"
| "body (Reg r) = [r + of_char (CHR ''A'')]"

primrec gap :: "token \<Rightarrow> bytes" where
  "gap (Num v) = ascii '' ''"
| "gap (Op op) = []"
| "gap (Kw kw) = ascii '' ''"
| "gap Sep = ascii '' ''"
| "gap (Str s) = ascii '' ''"
| "gap Rnd = []"
| "gap (Reg r) = []"

definition listing :: "token list \<Rightarrow> bytes" where
  "listing ts = concat (map (\<lambda>t. body t @ gap t) ts)"

definition encoding :: "token list \<Rightarrow> bytes" where
  "encoding ts = concat (map encode ts)"

text \<open>Tokens that the tokenizer can produce: numbers are not negative, strings have no quote, no NUL
  and fewer than 255 characters.\<close>

primrec proper :: "token \<Rightarrow> bool" where
  "proper (Num v) \<longleftrightarrow> unat v < 32768"
| "proper (Op op) \<longleftrightarrow> unat op < 10"
| "proper (Kw kw) \<longleftrightarrow> 1 \<le> unat kw \<and> unat kw \<le> 16"
| "proper Sep \<longleftrightarrow> True"
| "proper (Str s) \<longleftrightarrow> 0 \<notin> set s \<and> of_char (CHR 0x22) \<notin> set s \<and> length s < 255"
| "proper Rnd \<longleftrightarrow> True"
| "proper (Reg r) \<longleftrightarrow> unat r < 26"

text \<open>The printed forms of \<open>t\<close> and \<open>t'\<close> do not run together: no \<open>=\<close> behind \<open><\<close> or \<open>></\<close>, no letter
  behind a register or a function name.\<close>

fun apart :: "token \<Rightarrow> token \<Rightarrow> bool" where
  "apart (Op op) t \<longleftrightarrow> \<not> (op \<in> {OP_LT, OP_GT} \<and> t = Op OP_EQUAL)"
| "apart (Reg r) t \<longleftrightarrow> (case t of Kw _ \<Rightarrow> False | Rnd \<Rightarrow> False | Reg _ \<Rightarrow> False | _ \<Rightarrow> True)"
| "apart Rnd t \<longleftrightarrow> (case t of Kw _ \<Rightarrow> False | Rnd \<Rightarrow> False | Reg _ \<Rightarrow> False | _ \<Rightarrow> True)"
| "apart _ t \<longleftrightarrow> True"

lemma word_enum: "unat w < n \<Longrightarrow> (w :: u8) \<in> set (map of_nat [0..<n])"
  by (auto intro!: image_eqI [where x = "unat w"])

lemma below_ten: "unat op < 10 \<Longrightarrow> op \<in> {0, 1, 2, 3, 4, 5, 6, 7, 8, 9 :: u8}"
  using word_enum [of op 10] by (auto simp: upt_conv_Cons)

lemma keyword_code:
  assumes "1 \<le> unat kw" "unat kw \<le> 16"
  shows "kw \<in> {1, 2, 3, 4, 5, 6, 7, 8, 9, 10, 11, 12, 13, 14, 15, 16 :: u8}"
  using word_enum [of kw 17] assms by (auto simp: upt_conv_Cons)

section \<open>Listing\<close>

lemma t_defs_list_encode:
  assumes "bytes_at m a (encode t)" "proper t"
  shows "t_defs_list m a = Some (body t @ gap t, a + of_nat (length (encode t)))"
    and "m a \<noteq> TOK_TERMINATOR"
proof -
  show "m a \<noteq> TOK_TERMINATOR" using assms(1) by (cases t) auto
  show "t_defs_list m a = Some (body t @ gap t, a + of_nat (length (encode t)))"
  proof (cases t)
    case (Num v)
    with assms load16_at [of m "a + 1" v] print_d_nonneg [of v] show ?thesis
      by (simp add: t_defs_list_def rd_def t_list_def t_numeric_list_def add.assoc)
  next
    case (Op op)
    with assms have "op \<in> {0, 1, 2, 3, 4, 5, 6, 7, 8, 9}" using below_ten by simp
    then show ?thesis
      using assms(1) Op by (auto simp: t_defs_list_def rd_def t_list_def t_operator_list_def op_text_def add.assoc)
  next
    case (Kw kw)
    with assms have "kw \<in> {1, 2, 3, 4, 5, 6, 7, 8, 9, 10, 11, 12, 13, 14, 15, 16}"
      using keyword_code by simp
    then show ?thesis
      using assms(1) Kw
      by (auto simp: t_defs_list_def rd_def t_list_def t_keyword_list_def kw_text_def keyword_table_def add.assoc)
  next
    case Sep
    with assms show ?thesis by (simp add: t_defs_list_def rd_def t_list_def t_separator_list_def)
  next
    case (Str s)
    have l: "length s + 1 < 256" "length s + 1 < 65536" using assms(2) Str by simp_all
    have "ucast (of_nat (length s + 1) :: u8) = (of_nat (length s + 1) :: u16)"
      by (intro word_unat_eq_iff [THEN iffD2])
        (simp only: unat_u8_u16 unat_of_nat_u8 [OF l(1)] unat_of_nat_u16 [OF l(2)])
    moreover have "mem_cstr m (a + 2) = Some s"
      using assms Str by (intro mem_cstr_at) (simp_all add: add.assoc)
    ultimately show ?thesis
      using assms(1) Str
      by (simp add: t_defs_list_def rd_def t_list_def t_string_list_def add.assoc add.commute add.left_commute)
  next
    case Rnd
    with assms show ?thesis by (simp add: t_defs_list_def rd_def t_list_def t_func_list_def add.assoc)
  next
    case (Reg r)
    with assms show ?thesis by (simp add: t_defs_list_def rd_def t_list_def t_register_list_def add.assoc)
  qed
qed

lemma program_list_stmt_encoding:
  "bytes_at m a (encoding ts @ [TOK_TERMINATOR]) \<Longrightarrow> \<forall>t \<in> set ts. proper t
   \<Longrightarrow> program_list_stmt m a = Some (listing ts @ [13, 10])"
proof (induction ts arbitrary: a)
  case Nil
  then show ?case
    by (subst program_list_stmt.simps)
      (simp add: listing_def encoding_def t_defs_list_def rd_def t_list_def t_terminator_list_def)
next
  case (Cons t ts)
  then have "bytes_at m a (encode t)"
    and rest: "bytes_at m (a + of_nat (length (encode t))) (encoding ts @ [TOK_TERMINATOR])"
    by (simp_all add: encoding_def add.assoc)
  with Cons t_defs_list_encode [of m a t] show ?case
    by (subst program_list_stmt.simps) (simp add: listing_def)
qed

section \<open>Tokenizing\<close>

text \<open>What may follow the printed form of a token.\<close>

primrec follow :: "token \<Rightarrow> bytes \<Rightarrow> bool" where
  "follow (Num v) s \<longleftrightarrow> True"
| "follow (Op op) s \<longleftrightarrow> (op \<in> {OP_LT, OP_GT} \<longrightarrow> peek s \<noteq> of_char (CHR ''=''))"
| "follow (Kw kw) s \<longleftrightarrow> True"
| "follow Sep s \<longleftrightarrow> True"
| "follow (Str t) s \<longleftrightarrow> True"
| "follow Rnd s \<longleftrightarrow> \<not> is_upper (peek s)"
| "follow (Reg r) s \<longleftrightarrow> \<not> is_upper (peek s)"

lemma string_body_append: "of_char (CHR 0x22) \<notin> set s \<Longrightarrow> string_body (s @ of_char (CHR 0x22) # rest) = Some (s, rest)"
  by (induction s) auto

lemma takeWhile_upper_stop: "\<not> is_upper (peek s) \<Longrightarrow> takeWhile is_upper s = [] \<and> dropWhile is_upper s = s"
  by (cases s) (auto simp: peek_def)

lemma peek_simps [simp]: "peek [] = 0" "peek (c # s) = c"
  by (simp_all add: peek_def)

lemmas tokenize_defs = statement_tokenize_string_def or_else_def t_rem_parse_def t_sep_parse_def
  t_string_parse_def t_operator_parse_def

lemma digit_not_upper: "is_digit c \<Longrightarrow> \<not> is_upper c \<and> c \<noteq> 61 \<and> c \<noteq> 0 \<and> c \<noteq> 32"
  by (auto simp: is_digit_def is_upper_def word_le_nat_alt)

lemma tokenize_body:
  assumes "proper t" "follow t s"
  shows "statement_tokenize_string (body t @ gap t @ s) = Some (Some (encode t, gap t @ s))"
proof (cases t)
  case (Num v)
  obtain c ds where c: "decimal (unat v) = c # ds" by (cases "decimal (unat v)") auto
  then have "is_digit c" using decimal_digits [of c "unat v"] by simp
  then have "c \<ge> 48" "c \<le> 57" by (simp_all add: is_digit_def)
  then have "t_rem_parse (c # x) = Some None" "t_sep_parse (c # x) = Some None"
    "t_string_parse (c # x) = Some None" "t_operator_parse (c # x) = Some None" for x
    by (auto simp: tokenize_defs)
  then show ?thesis
    using Num c t_numeric_parse_decimal [of "32 # s" "unat v"]
    by (simp add: statement_tokenize_string_def or_else_def is_digit_def)
next
  case (Op op)
  with assms have "op \<in> {0, 1, 2, 3, 4, 5, 6, 7, 8, 9}" using below_ten by simp
  moreover have "t_operator_parse (op_text op @ s) = Some (Some ([TOK_OPERATOR, op], s))"
    using assms(2) Op calculation by (elim insertE) (simp_all add: op_text_def t_operator_parse_def)
  moreover have "t_rem_parse (op_text op @ s) = Some None" "t_sep_parse (op_text op @ s) = Some None"
    "t_string_parse (op_text op @ s) = Some None"
    using calculation(1) by (elim insertE; simp add: op_text_def tokenize_defs)+
  ultimately show ?thesis using Op by (simp add: statement_tokenize_string_def or_else_def)
next
  case (Kw kw)
  with assms have "kw \<in> {1, 2, 3, 4, 5, 6, 7, 8, 9, 10, 11, 12, 13, 14, 15, 16}"
    using keyword_code by simp
  then show ?thesis
    using Kw by (elim insertE) (simp_all add: kw_text_def tokenize_defs t_numeric_parse_def is_digit_def
        t_keyword_parse_def is_upper_def keyword_table_def)
next
  case Sep
  then show ?thesis by (simp add: tokenize_defs)
next
  case (Str u)
  with assms string_body_append [of u "32 # s"] show ?thesis by (simp add: tokenize_defs)
next
  case Rnd
  then have w: "takeWhile is_upper (ascii ''RND'' @ s) = ascii ''RND''" "dropWhile is_upper (ascii ''RND'' @ s) = s"
    using assms takeWhile_upper_stop [of s] by (simp_all add: is_upper_def)
  then show ?thesis using Rnd
    by (simp add: tokenize_defs Let_def t_numeric_parse_def is_digit_def t_keyword_parse_def
        keyword_table_def t_func_parse_def)
next
  case (Reg r)
  define c where "c = r + 65"
  have "is_upper c"
  proof -
    have "unat c = unat r + 65" using assms(1) Reg unfolding c_def by (subst unat_add_lt) simp_all
    then show ?thesis using assms(1) Reg by (simp add: is_upper_def word_le_nat_alt)
  qed
  then have w: "takeWhile is_upper (c # s) = [c]" and ne: "c \<ge> 65" "c \<le> 90"
    using assms Reg takeWhile_upper_stop [of s] by (simp_all add: is_upper_def)
  have "\<not> (s \<noteq> [] \<and> hd s = 69)" using assms Reg by (cases s) (auto simp: peek_def is_upper_def)
  then have "t_rem_parse (c # s) = Some None" by (cases s) (auto simp: t_rem_parse_def)
  moreover have "t_sep_parse (c # s) = Some None" "t_string_parse (c # s) = Some None"
    "t_operator_parse (c # s) = Some None" "t_numeric_parse (c # s) = Some None"
    using ne digit_not_upper [of c] \<open>is_upper c\<close> by (auto simp: tokenize_defs t_numeric_parse_def)
  moreover have "t_keyword_parse (c # s) = Some None" "t_func_parse (c # s) = Some None"
    using w by (simp_all add: t_keyword_parse_def t_func_parse_def keyword_table_def)
  moreover have "t_variable_parse (c # s) = Some (Some ([TOK_REGISTER, r], s))"
    using \<open>is_upper c\<close> assms Reg by (simp add: t_variable_parse_def peek_def c_def)
  ultimately show ?thesis using Reg by (simp add: statement_tokenize_string_def or_else_def c_def)
qed

fun apart_list :: "token list \<Rightarrow> bool" where
  "apart_list (t # t' # ts) \<longleftrightarrow> apart t t' \<and> apart_list (t' # ts)"
| "apart_list _ \<longleftrightarrow> True"

lemma not_upper_simps [simp]: "\<not> is_upper 0" "\<not> is_upper 32" "\<not> is_upper 44" "\<not> is_upper 34"
  by (simp_all add: is_upper_def)

lemma peek_decimal: "is_digit (peek (decimal n @ s))"
  using decimal_digits [of _ n] by (cases "decimal n") auto

lemma peek_body:
  assumes "proper t"
  shows "peek (body t @ s) \<noteq> 0" and "peek (body t @ s) \<noteq> 32"
    and "peek (body t @ s) = of_char (CHR ''='') \<Longrightarrow> t = Op OP_EQUAL"
    and "is_upper (peek (body t @ s)) \<Longrightarrow> (\<exists>k. t = Kw k) \<or> t = Rnd \<or> (\<exists>r. t = Reg r)"
proof -
  have *: "peek (body t @ s) \<noteq> 0 \<and> peek (body t @ s) \<noteq> 32
    \<and> (peek (body t @ s) = 61 \<longrightarrow> t = Op OP_EQUAL)
    \<and> (is_upper (peek (body t @ s)) \<longrightarrow> (\<exists>k. t = Kw k) \<or> t = Rnd \<or> (\<exists>r. t = Reg r))"
  proof (cases t)
    case (Num v)
    then show ?thesis using digit_not_upper [OF peek_decimal [of "unat v" s]] by simp
  next
    case (Op op)
    with assms have "op \<in> {0, 1, 2, 3, 4, 5, 6, 7, 8, 9}" using below_ten by simp
    then show ?thesis using Op by (elim insertE) (simp_all add: op_text_def is_upper_def)
  next
    case (Kw kw)
    with assms have "kw \<in> {1, 2, 3, 4, 5, 6, 7, 8, 9, 10, 11, 12, 13, 14, 15, 16}"
      using keyword_code by simp
    then show ?thesis using Kw by (elim insertE) (simp_all add: kw_text_def keyword_table_def)
  next
    case (Reg r)
    have "unat (r + 65) = unat r + 65" using assms Reg by (subst unat_add_lt) simp_all
    then have "r + 65 \<noteq> 0" "r + 65 \<noteq> 32" "r + 65 \<noteq> 61" by (auto simp: word_unat_eq_iff)
    then show ?thesis using Reg by simp
  qed simp_all
  then show "peek (body t @ s) \<noteq> 0" "peek (body t @ s) \<noteq> 32"
    "peek (body t @ s) = of_char (CHR ''='') \<Longrightarrow> t = Op OP_EQUAL"
    "is_upper (peek (body t @ s)) \<Longrightarrow> (\<exists>k. t = Kw k) \<or> t = Rnd \<or> (\<exists>r. t = Reg r)"
    by simp_all
qed

lemma apart_follow:
  assumes "apart t t'" "proper t'"
  shows "follow t (body t' @ s)"
  using assms peek_body [of t' s] by (cases t) (auto split: token.splits)

lemma follow_nul: "follow t (0 # s)"
  by (cases t) simp_all

lemma dropWhile_gap: "peek s \<noteq> 32 \<Longrightarrow> dropWhile (\<lambda>c. c = of_char (CHR '' '')) (gap t @ s) = s"
  by (cases t; cases s) simp_all

lemma tokenize_loop_listing:
  assumes "\<forall>t \<in> set ts. proper t" "apart_list (t # ts)" "length (out @ encoding ts) < 256"
  shows "tokenize_loop out (gap t @ listing ts @ 0 # stale) = Some (None, out @ encoding ts @ [TOK_TERMINATOR])"
  using assms
proof (induction ts arbitrary: t out)
  case Nil
  then show ?case using dropWhile_gap [of "0 # stale" t]
    by (subst tokenize_loop.simps) (simp add: listing_def encoding_def)
next
  case (Cons u us)
  define s where "s = listing us @ 0 # stale"
  have u: "proper u" using Cons.prems by simp
  have "follow u s"
  proof (cases us)
    case Nil
    then show ?thesis by (simp add: s_def listing_def follow_nul)
  next
    case (Cons w ws)
    with Cons.prems apart_follow [of u w "gap w @ listing ws @ 0 # stale"] show ?thesis
      by (simp add: s_def listing_def)
  qed
  then have step: "statement_tokenize_string (body u @ gap u @ s) = Some (Some (encode u, gap u @ s))"
    by (rule tokenize_body [OF u])
  have split: "gap t @ listing (u # us) @ 0 # stale = gap t @ body u @ gap u @ s"
    by (simp add: s_def listing_def)
  have "tokenize_loop out (gap t @ body u @ gap u @ s) = tokenize_loop (out @ encode u) (gap u @ s)"
    using step peek_body [OF u, of "gap u @ s"] dropWhile_gap [of "body u @ gap u @ s" t] Cons.prems(3)
    by (subst tokenize_loop.simps) (simp add: encoding_def)
  also have "\<dots> = Some (None, (out @ encode u) @ encoding us @ [TOK_TERMINATOR])"
    unfolding s_def using Cons.prems by (intro Cons.IH) (auto simp: encoding_def)
  finally show ?case by (simp add: split encoding_def)
qed

text \<open>The tokenizer on the printed form of a statement.\<close>

lemma tokenize_listing:
  assumes "\<forall>u \<in> set (t # ts). proper u" "apart_list (t # ts)" "length (encoding (t # ts)) < 256"
  shows "statement_tokenize (listing (t # ts) @ 0 # stale) = Some (None, encoding (t # ts) @ [TOK_TERMINATOR])"
proof -
  define s where "s = listing ts @ 0 # stale"
  have "follow t s"
  proof (cases ts)
    case Nil
    then show ?thesis by (simp add: s_def listing_def follow_nul)
  next
    case (Cons w ws)
    with assms apart_follow [of t w "gap w @ listing ws @ 0 # stale"] show ?thesis
      by (simp add: s_def listing_def)
  qed
  then have "statement_tokenize_string (body t @ gap t @ s) = Some (Some (encode t, gap t @ s))"
    using assms(1) by (intro tokenize_body) simp
  moreover have "tokenize_loop (encode t) (gap t @ s) = Some (None, encode t @ encoding ts @ [TOK_TERMINATOR])"
    unfolding s_def using assms by (intro tokenize_loop_listing) (auto simp: encoding_def)
  moreover have "length (encode t) \<le> 256" using assms(3) by (simp add: encoding_def)
  ultimately show ?thesis
    by (simp add: statement_tokenize_def listing_def encoding_def s_def)
qed

text \<open>C36. What \<open>LIST\<close> prints for a statement is tokenized into the same statement: for every
  sequence of numbers, operators, keywords, separators, strings, registers and RND whose printed
  forms do not run together, and that fits into the buffer of 256 bytes, \<open>program_list_stmt\<close> on the
  bytes in memory prints a line, and \<open>statement_tokenize\<close> on that line produces these bytes,
  whatever the input buffer holds behind it. Numbers are non-negative and variables have one letter. Variables of several
  letters are not covered, because \<open>LIST\<close> prints a NUL behind their names (\<open>variable_listing_has_nul\<close>), nor are remarks.\<close>

theorem list_tokenize_roundtrip:
  assumes "bytes_at m a (encoding (t # ts) @ [TOK_TERMINATOR])" "\<forall>u \<in> set (t # ts). proper u"
    "apart_list (t # ts)" "length (encoding (t # ts)) < 256"
  shows "\<exists>line. program_list_stmt m a = Some (line @ [13, 10])
    \<and> statement_tokenize (line @ 0 # stale) = Some (None, encoding (t # ts) @ [TOK_TERMINATOR])"
  using program_list_stmt_encoding [OF assms(1,2)] tokenize_listing [OF assms(2-4)] by blast

text \<open>\<open>IF A=1 THEN GOTO 10\<close>.\<close>

lemma list_tokenize_roundtrip_witness:
  "\<exists>line. program_list_stmt (ram_of 0x8000 (encoding [Kw 13, Reg 0, Op 2, Num 1, Kw 14, Kw 6, Num 10] @ [0])) 0x8000
      = Some (line @ [13, 10])
    \<and> statement_tokenize (line @ 0 # ascii ''STALE'')
      = Some (None, encoding [Kw 13, Reg 0, Op 2, Num 1, Kw 14, Kw 6, Num 10] @ [0])"
  by (rule list_tokenize_roundtrip, rule bytes_at_ram_of) (simp_all add: encoding_def)

text \<open>The exception: the size of a variable token counts the NUL behind the name, so \<open>LIST\<close> prints
  that NUL, and a listing read back ends there.\<close>

lemma variable_listing_has_nul:
  assumes "bytes_at m a (of_nat (length name + 1) # name @ [0])" "length name < 255"
  shows "map_option fst (t_variable_list m a) = Some (name @ [0])"
proof -
  have size: "unat (of_nat (length name + 1) :: u8) = Suc (length name)"
    using assms(2) by (subst unat_of_nat_u8) simp_all
  have "m (a + 1 + of_nat i) = (name @ [0]) ! i" if "i < length (name @ [0])" for i
    using assms(1) that by (intro bytes_at_nth) simp_all
  then have "map (\<lambda>i. m (a + 1 + of_nat i)) [0..<Suc (length name)] = name @ [0]"
    by (intro nth_equalityI) (simp_all del: upt_Suc)
  with assms(1) size show ?thesis by (simp add: t_variable_list_def Let_def del: upt_Suc of_nat_add of_nat_Suc)
qed

text \<open>Unbounded copies: a word of more than ten letters overruns \<open>kw_str\<close>, a string without a closing
  quote the input buffer.\<close>

lemma long_word_overruns: "11 \<le> length (takeWhile is_upper input) \<Longrightarrow> t_keyword_parse input = None"
  by (simp add: t_keyword_parse_def)

lemma unterminated_string_overruns:
  "of_char (CHR 0x22) \<notin> set s \<Longrightarrow> t_string_parse (of_char (CHR 0x22) # s) = None"
proof -
  have "of_char (CHR 0x22) \<notin> set s \<Longrightarrow> string_body s = None" by (induction s) auto
  then show "of_char (CHR 0x22) \<notin> set s \<Longrightarrow> t_string_parse (of_char (CHR 0x22) # s) = None"
    by (simp add: t_string_parse_def)
qed

end
