(* ===== verification/Basic_Expressions.thy ===== *)
theory Basic_Expressions
  imports Basic_Eval
begin

text \<open>
  What the evaluator computes. An expression is a sum of differences of products of operands, a list of
  lists of lists: \<open>a - b * c + d\<close> is \<open>[[[a], [b, c]], [[d]]]\<close>. Its value takes the products
  first, then the differences, then the sums, each from right to left: \<open>a - b - c\<close> is \<open>a - (b - c)\<close>.

  The proof goes through the machine \<open>yard\<close>, which applies the operators to numbers as they are popped:
  the shunting yard followed by the stack machine computes what it computes, and it computes the value
  of the expression.
\<close>

section \<open>The two passes in one\<close>

fun pop_apply :: "int \<Rightarrow> u8 list \<Rightarrow> numeric_t list \<Rightarrow> (u8 list \<times> numeric_t list) option" where
  "pop_apply p [] nums = Some ([], nums)"
| "pop_apply p (op # ops) nums =
     (if helper_eval_precedence op > p
      then (case rpn_operator op nums of None \<Rightarrow> None | Some nums1 \<Rightarrow> pop_apply p ops nums1)
      else Some (op # ops, nums))"

fun apply_all :: "u8 list \<Rightarrow> numeric_t list \<Rightarrow> numeric_t list option" where
  "apply_all [] nums = Some nums"
| "apply_all (op # ops) nums =
     (case rpn_operator op nums of None \<Rightarrow> None | Some nums1 \<Rightarrow> apply_all ops nums1)"

fun yard :: "(u8 \<times> numeric_t) list \<Rightarrow> u8 list \<Rightarrow> numeric_t list \<Rightarrow> numeric_t list option" where
  "yard [] ops nums = apply_all ops nums"
| "yard ((op, v) # rest) ops nums =
     (case pop_apply (helper_eval_precedence op) ops nums of
        None \<Rightarrow> None
      | Some (ops1, nums1) \<Rightarrow> yard rest (op # ops1) (v # nums1))"

section \<open>The value of an expression\<close>

type_synonym 'a sum = "'a list list list"

fun product_terms :: "u8 \<Rightarrow> 'a list \<Rightarrow> (u8 \<times> 'a) list" where
  "product_terms op [] = []"
| "product_terms op (x # xs) = (op, x) # map (Pair OP_MULT) xs"

fun difference_terms :: "u8 \<Rightarrow> 'a list list \<Rightarrow> (u8 \<times> 'a) list" where
  "difference_terms op [] = []"
| "difference_terms op (p # ps) = product_terms op p @ concat (map (product_terms OP_MINUS) ps)"

definition sum_terms :: "'a sum \<Rightarrow> (u8 \<times> 'a) list" where
  "sum_terms e = concat (map (difference_terms OP_PLUS) e)"

fun difference :: "numeric_t list \<Rightarrow> numeric_t" where
  "difference [] = 0"
| "difference [x] = x"
| "difference (x # xs) = x - difference xs"

definition sum_value :: "numeric_t sum \<Rightarrow> numeric_t" where
  "sum_value e = sum_list (map (\<lambda>d. difference (map prod_list d)) e)"

definition well_shaped :: "'a sum \<Rightarrow> bool" where
  "well_shaped e \<longleftrightarrow> e \<noteq> [] \<and> (\<forall>d \<in> set e. d \<noteq> [] \<and> (\<forall>p \<in> set d. p \<noteq> []))"

text \<open>What follows binds less tightly than an operator of precedence \<open>p\<close>.\<close>

definition looser :: "int \<Rightarrow> (u8 \<times> 'a) list \<Rightarrow> bool" where
  "looser p r \<longleftrightarrow> (r = [] \<or> helper_eval_precedence (fst (hd r)) < p)"

definition tops_below :: "int \<Rightarrow> u8 list \<Rightarrow> bool" where
  "tops_below p ops \<longleftrightarrow> (ops = [] \<or> helper_eval_precedence (hd ops) \<le> p)"

lemma precedence_simps [simp]:
  "helper_eval_precedence OP_MULT = 4" "helper_eval_precedence OP_MINUS = 2"
  "helper_eval_precedence OP_PLUS = 1"
  by (simp_all add: helper_eval_precedence_def)

lemma precedence_le: "helper_eval_precedence op \<le> 4"
  by (simp add: helper_eval_precedence_def)

lemma yard_pop:
  assumes "looser (helper_eval_precedence op) r" "rpn_operator op nums = Some nums1"
  shows "yard r (op # ops) nums = yard r ops nums1"
  using assms by (cases r) (auto simp: looser_def)

lemma pop_apply_none: "tops_below p ops \<Longrightarrow> pop_apply p ops nums = Some (ops, nums)"
  by (cases ops) (auto simp: tops_below_def)

lemma yard_product:
  "looser 4 r \<Longrightarrow> yard (map (Pair OP_MULT) xs @ r) ops (x # nums) = yard r ops (prod_list (x # xs) # nums)"
proof (induction xs arbitrary: x ops nums)
  case (Cons y ys)
  have "tops_below 4 ops" by (simp add: tops_below_def precedence_le)
  then have "yard (map (Pair OP_MULT) (y # ys) @ r) ops (x # nums)
      = yard (map (Pair OP_MULT) ys @ r) (OP_MULT # ops) (y # x # nums)"
    by (simp add: pop_apply_none)
  also have "\<dots> = yard r (OP_MULT # ops) (prod_list (y # ys) # x # nums)"
    by (rule Cons.IH [OF Cons.prems])
  also have "\<dots> = yard r ops (prod_list (x # y # ys) # nums)"
    using Cons.prems by (intro yard_pop) (simp_all add: rpn_operator_def mult.commute mult.left_commute)
  finally show ?case .
qed simp

lemma looser_products:
  "looser 2 r \<Longrightarrow> \<forall>p \<in> set ps. p \<noteq> [] \<Longrightarrow> looser 4 (concat (map (product_terms OP_MINUS) ps) @ r)"
proof (cases ps)
  case Nil
  then show "looser 2 r \<Longrightarrow> ?thesis" by (auto simp: looser_def)
next
  case (Cons p qs)
  then show "\<forall>p \<in> set ps. p \<noteq> [] \<Longrightarrow> ?thesis" by (cases p) (simp_all add: looser_def)
qed

lemma yard_difference:
  "looser 2 r \<Longrightarrow> \<forall>p \<in> set ps. p \<noteq> [] \<Longrightarrow> tops_below 2 ops
   \<Longrightarrow> yard (concat (map (product_terms OP_MINUS) ps) @ r) ops (v # nums)
      = yard r ops (difference (v # map prod_list ps) # nums)"
proof (induction ps arbitrary: v ops nums)
  case (Cons p ps)
  obtain x xs where p: "p = x # xs" using Cons.prems(2) by (cases p) auto
  have "yard (concat (map (product_terms OP_MINUS) (p # ps)) @ r) ops (v # nums)
      = yard (map (Pair OP_MULT) xs @ concat (map (product_terms OP_MINUS) ps) @ r) (OP_MINUS # ops) (x # v # nums)"
    using Cons.prems(3) by (simp add: p pop_apply_none)
  also have "\<dots> = yard (concat (map (product_terms OP_MINUS) ps) @ r) (OP_MINUS # ops) (prod_list p # v # nums)"
    using Cons.prems unfolding p by (intro yard_product looser_products) simp_all
  also have "\<dots> = yard r (OP_MINUS # ops) (difference (map prod_list (p # ps)) # v # nums)"
    using Cons.prems Cons.IH [of "OP_MINUS # ops" "prod_list p" "v # nums"] by (simp add: tops_below_def)
  also have "\<dots> = yard r ops (difference (v # map prod_list (p # ps)) # nums)"
    using Cons.prems by (intro yard_pop) (simp_all add: rpn_operator_def)
  finally show ?case .
qed simp

lemma looser_differences:
  assumes "well_shaped (d # ds)"
  shows "looser 2 (sum_terms ds)"
proof (cases ds)
  case (Cons c cs)
  then obtain p ps where "c = p # ps" "p \<noteq> []"
    using assms by (cases c) (auto simp: well_shaped_def)
  with Cons show ?thesis by (cases p) (auto simp: looser_def sum_terms_def)
qed (simp add: looser_def sum_terms_def)

lemma yard_sum:
  "\<forall>d \<in> set ds. d \<noteq> [] \<and> (\<forall>p \<in> set d. p \<noteq> []) \<Longrightarrow> tops_below 1 ops
   \<Longrightarrow> yard (sum_terms ds) ops (v # nums) = yard [] ops ((v + sum_value ds) # nums)"
proof (induction ds arbitrary: v ops nums)
  case (Cons d ds)
  obtain x xs ps where d: "d = (x # xs) # ps" and ps: "\<forall>p \<in> set ps. p \<noteq> []"
    using Cons.prems(1) by (metis list.exhaust list.set_intros(1,2))
  have ws: "well_shaped (d # ds)" using Cons.prems(1) by (simp add: well_shaped_def)
  note l2 = looser_differences [OF ws]
  have "yard (sum_terms (d # ds)) ops (v # nums)
      = yard (map (Pair OP_MULT) xs @ concat (map (product_terms OP_MINUS) ps) @ sum_terms ds) (OP_PLUS # ops) (x # v # nums)"
    using Cons.prems(2) by (simp add: d sum_terms_def pop_apply_none)
  also have "\<dots> = yard (concat (map (product_terms OP_MINUS) ps) @ sum_terms ds) (OP_PLUS # ops)
      (prod_list (x # xs) # v # nums)"
    by (intro yard_product looser_products l2 ps)
  also have "\<dots> = yard (sum_terms ds) (OP_PLUS # ops) (difference (map prod_list d) # v # nums)"
    unfolding d by (subst yard_difference [OF l2 ps]) (simp_all add: tops_below_def)
  also have "\<dots> = yard [] (OP_PLUS # ops) ((difference (map prod_list d) + sum_value ds) # v # nums)"
    using Cons.prems by (intro Cons.IH) (simp_all add: tops_below_def)
  also have "\<dots> = yard [] ops ((v + sum_value (d # ds)) # nums)"
    by (simp add: rpn_operator_def sum_value_def add.commute add.left_commute)
  finally show ?case .
qed (simp add: sum_terms_def sum_value_def)

text \<open>The first term has no operator in front.\<close>

lemma yard_value:
  assumes "well_shaped e" "sum_terms e = (op, x) # rest"
  shows "yard rest [] [x] = Some [sum_value e]"
proof -
  obtain y ys ps ds where e: "e = ((y # ys) # ps) # ds"
    using assms(1) unfolding well_shaped_def by (metis list.exhaust list.set_intros(1,2))
  have ps: "\<forall>p \<in> set ps. p \<noteq> []" and ds: "\<forall>d \<in> set ds. d \<noteq> [] \<and> (\<forall>p \<in> set d. p \<noteq> [])"
    using assms(1) by (auto simp: e well_shaped_def)
  note l2 = looser_differences [OF assms(1) [unfolded e]]
  have rest: "rest = map (Pair OP_MULT) ys @ concat (map (product_terms OP_MINUS) ps) @ sum_terms ds" and x: "x = y"
    using assms(2) by (simp_all add: e sum_terms_def)
  have "yard rest [] [x] = yard (concat (map (product_terms OP_MINUS) ps) @ sum_terms ds) [] [prod_list (y # ys)]"
    unfolding rest x by (intro yard_product looser_products l2 ps)
  also have "\<dots> = yard (sum_terms ds) [] [difference (map prod_list ((y # ys) # ps))]"
    by (subst yard_difference [OF l2 ps]) (simp_all add: tops_below_def)
  also have "\<dots> = Some [difference (map prod_list ((y # ys) # ps)) + sum_value ds]"
    by (subst yard_sum [OF ds]) (simp_all add: tops_below_def)
  finally show ?thesis by (simp add: e sum_value_def)
qed

section \<open>The evaluator runs the machine\<close>

text \<open>The bytes in the output buffer leave the numbers \<open>nums\<close> on the stack.\<close>

definition computes :: "bytes \<Rightarrow> numeric_t list \<Rightarrow> bool" where
  "computes out nums \<longleftrightarrow> (\<forall>rest. eval_rpn (out @ rest) [] = eval_rpn rest nums)"

lemma computes_Nil: "computes [] []"
  by (simp add: computes_def)

lemma computes_number:
  "computes out nums \<Longrightarrow> length nums < 16 \<Longrightarrow> computes (out @ TOK_NUMERIC # put16 v) (v # nums)"
  using le16_put16 [of v] by (simp add: computes_def put16_def)

lemma computes_operator:
  "computes out nums \<Longrightarrow> rpn_operator op nums = Some nums1 \<Longrightarrow> computes (out @ [TOK_OPERATOR, op]) nums1"
  by (simp add: computes_def)

lemma rpn_operator_length: "rpn_operator op nums = Some nums1 \<Longrightarrow> length nums1 \<le> length nums"
  by (auto simp: rpn_operator_def split: if_splits list.splits)

lemma computes_pop:
  "pop_apply p ops nums = Some (ops1, nums1) \<Longrightarrow> computes out nums
   \<Longrightarrow> \<exists>out1. pop_greater p ops out = (ops1, out1) \<and> computes out1 nums1 \<and> length nums1 \<le> length nums"
proof (induction p ops nums arbitrary: out rule: pop_apply.induct)
  case (2 p op ops nums)
  show ?case
  proof (cases "helper_eval_precedence op > p")
    case True
    with 2(2) obtain nums2 where n: "rpn_operator op nums = Some nums2" "pop_apply p ops nums2 = Some (ops1, nums1)"
      by (auto split: option.splits)
    from 2(1) [OF True n computes_operator [OF 2(3) n(1)]] rpn_operator_length [OF n(1)] True
    show ?thesis by auto
  qed (use 2 in auto)
qed auto

lemma computes_apply_all:
  "apply_all ops nums = Some res \<Longrightarrow> computes out nums
   \<Longrightarrow> computes (out @ concat (map (\<lambda>op. [TOK_OPERATOR, op]) ops)) res"
proof (induction ops nums arbitrary: out rule: apply_all.induct)
  case (2 op ops nums)
  then obtain nums1 where n: "rpn_operator op nums = Some nums1" "apply_all ops nums1 = Some res"
    by (auto split: option.splits)
  from 2(1) [OF n computes_operator [OF 2(3) n(1)]] show ?case by simp
qed simp

text \<open>The bytes \<open>bs\<close> are an operand with value \<open>v\<close>.\<close>

definition operand_evals :: "evaluator \<Rightarrow> basic \<Rightarrow> bytes \<Rightarrow> numeric_t \<Rightarrow> bool" where
  "operand_evals ev b bs v \<longleftrightarrow> (\<forall>src ops out.
     bytes_at (ram b) src bs \<longrightarrow> \<not> OP_CHECK (ram b) (src + of_nat (length bs)) OP_LPAREN
     \<longrightarrow> length out + 3 \<le> OUTPUT_MAX
     \<longrightarrow> eval_shunting_yard ev src ops out b
        = eval_shunting_yard ev (src + of_nat (length bs)) ops (out @ TOK_NUMERIC # put16 v) b)"

definition arith_ops :: "u8 set" where
  "arith_ops = {OP_MINUS, OP_PLUS, OP_MULT}"

lemma arith_not_end:
  "m src = TOK_OPERATOR \<Longrightarrow> m (src + 1) \<in> arith_ops
   \<Longrightarrow> \<not> eval_is_end_of_expression m src \<and> \<not> OP_CHECK m src OP_LPAREN"
  by (auto simp: arith_ops_def eval_is_end_of_expression_def OP_CHECK_def t_operator_is_comparison_def)

lemma end_not_paren: "eval_is_end_of_expression m src \<Longrightarrow> \<not> OP_CHECK m src OP_LPAREN"
  by (auto simp: eval_is_end_of_expression_def OP_CHECK_def t_operator_is_comparison_def)

lemma shunting_yard_operator:
  assumes "m = ram b" "m src = TOK_OPERATOR" "m (src + 1) \<in> arith_ops"
    and "pop_greater (helper_eval_precedence (m (src + 1))) ops out = (ops1, out1)"
    and "length out1 \<le> OUTPUT_MAX" "length ops1 < OPSTACK_MAX"
  shows "eval_shunting_yard ev src ops out b = eval_shunting_yard ev (src + 2) (m (src + 1) # ops1) out1 b"
  using assms arith_not_end [of m src] by (subst eval_shunting_yard.simps) simp

definition term_bytes :: "(u8 \<times> bytes \<times> numeric_t) list \<Rightarrow> bytes" where
  "term_bytes ts = concat (map (\<lambda>(op, bs, v). TOK_OPERATOR # op # bs) ts)"

lemma shunting_yard_terms:
  "bytes_at (ram b) src (term_bytes ts) \<Longrightarrow> eval_is_end_of_expression (ram b) (src + of_nat (length (term_bytes ts)))
   \<Longrightarrow> \<forall>(op, bs, v) \<in> set ts. op \<in> arith_ops \<and> operand_evals ev b bs v
   \<Longrightarrow> computes out nums \<Longrightarrow> yard (map (\<lambda>(op, bs, v). (op, v)) ts) ops nums = Some res
   \<Longrightarrow> length nums + length ts \<le> 16 \<Longrightarrow> length ops + length ts \<le> 16
   \<Longrightarrow> length out + 2 * length ops + 5 * length ts < 256
   \<Longrightarrow> \<exists>out1. eval_shunting_yard ev src ops out b
        = Some (Inr (out1, src + of_nat (length (term_bytes ts))), b)
      \<and> eval_rpn out1 [] = (case res of [] \<Rightarrow> None | v # _ \<Rightarrow> Some v)"
proof (induction ts arbitrary: src out ops nums)
  case Nil
  let ?out = "out @ concat (map (\<lambda>op. [TOK_OPERATOR, op]) ops)"
  have "length ?out < 256" using Nil.prems(8) by (simp add: length_concat comp_def sum_list_triv)
  moreover have "computes ?out res" using Nil.prems by (intro computes_apply_all) simp_all
  then have "eval_rpn (?out @ [TOK_TERMINATOR]) [] = (case res of [] \<Rightarrow> None | v # _ \<Rightarrow> Some v)"
    unfolding computes_def by (auto split: list.splits)
  ultimately show ?case
    using Nil.prems(2) by (subst eval_shunting_yard.simps) (simp add: term_bytes_def)
next
  case (Cons t ts)
  obtain op bs v where t: "t = (op, bs, v)" by (cases t)
  let ?m = "ram b"
  define a where "a = src + 2 + of_nat (length bs)"
  have len: "src + of_nat (length (term_bytes (t # ts))) = a + of_nat (length (term_bytes ts))"
    by (simp add: t term_bytes_def a_def add.assoc add.commute add.left_commute)
  have at: "?m src = TOK_OPERATOR" "?m (src + 1) = op" "bytes_at ?m (src + 2) bs" "bytes_at ?m a (term_bytes ts)"
    using Cons.prems(1) by (simp_all add: t term_bytes_def a_def add.assoc)
  have op: "op \<in> arith_ops" "operand_evals ev b bs v" using Cons.prems(3) by (simp_all add: t)
  obtain ops1 nums1 where pop: "pop_apply (helper_eval_precedence op) ops nums = Some (ops1, nums1)"
    and yd: "yard (map (\<lambda>(op, bs, v). (op, v)) ts) (op # ops1) (v # nums1) = Some res"
    using Cons.prems(5) by (auto simp: t split: option.splits)
  obtain out1 where pg: "pop_greater (helper_eval_precedence op) ops out = (ops1, out1)"
    and c1: "computes out1 nums1" "length nums1 \<le> length nums"
    using computes_pop [OF pop Cons.prems(4)] by blast
  note lens = pop_greater_length [OF pg]
  have "eval_shunting_yard ev src ops out b = eval_shunting_yard ev (src + 2) (op # ops1) out1 b"
    using shunting_yard_operator [of ?m b src ops out ops1 out1 ev] at op pg lens Cons.prems(7,8) by simp
  also have "\<not> OP_CHECK ?m a OP_LPAREN"
  proof (cases ts)
    case Nil
    then show ?thesis using Cons.prems(2) end_not_paren len by (simp add: term_bytes_def)
  next
    case (Cons u us)
    then show ?thesis using at(4) Cons.prems(3) arith_not_end [of ?m a]
      by (cases u) (auto simp: term_bytes_def)
  qed
  then have "eval_shunting_yard ev (src + 2) (op # ops1) out1 b
      = eval_shunting_yard ev a (op # ops1) (out1 @ TOK_NUMERIC # put16 v) b"
    using op(2) at(3) lens Cons.prems(8) unfolding operand_evals_def a_def by simp
  finally have step: "eval_shunting_yard ev src ops out b
      = eval_shunting_yard ev a (op # ops1) (out1 @ TOK_NUMERIC # put16 v) b" .
  have "computes (out1 @ TOK_NUMERIC # put16 v) (v # nums1)"
    using c1 Cons.prems(6) by (intro computes_number) simp_all
  from Cons.IH [OF at(4) _ _ this yd] Cons.prems lens c1(2) show ?case
    unfolding step len by simp
qed

section \<open>Expressions and their values\<close>

datatype var = R u8 | V bytes

datatype operand = Const numeric_t | Scalar var | Elem var "operand list list list"

definition infix_bytes :: "bytes sum \<Rightarrow> bytes" where
  "infix_bytes e = drop 2 (concat (map (\<lambda>(op, bs). TOK_OPERATOR # op # bs) (sum_terms e)))"

primrec var_toks :: "var \<Rightarrow> bytes" where
  "var_toks (R r) = [TOK_REGISTER, r]"
| "var_toks (V s) = TOK_VARIABLE # of_nat (length s + 1) # s @ [0]"

primrec operand_toks :: "operand \<Rightarrow> bytes" where
  "operand_toks (Const v) = TOK_NUMERIC # put16 v"
| "operand_toks (Scalar v) = var_toks v"
| "operand_toks (Elem v e) = var_toks v @ [TOK_OPERATOR, OP_LPAREN]
     @ infix_bytes (map (map (map operand_toks)) e) @ [TOK_OPERATOR, OP_RPAREN]"

definition expr_toks :: "operand sum \<Rightarrow> bytes" where
  "expr_toks e = infix_bytes (map (map (map operand_toks)) e)"

definition var_index :: "bytes \<Rightarrow> basic \<Rightarrow> nat option" where
  "var_index s b = first_idx (\<lambda>v. var_name v = s) (program_context b)"

primrec scalar_value :: "var \<Rightarrow> basic \<Rightarrow> numeric_t option" where
  "scalar_value (R r) b = (if unat r < 26 then Some (reg_value (program_registers b ! unat r)) else None)"
| "scalar_value (V s) b = map_option (\<lambda>i. var_value (program_context b ! i)) (var_index s b)"

primrec array_address :: "var \<Rightarrow> basic \<Rightarrow> u16 option" where
  "array_address (R r) b =
     (if unat r < 26 \<and> reg_defined (program_registers b ! unat r)
      then Some (reg_value (program_registers b ! unat r)) else None)"
| "array_address (V s) b =
     (if length s \<le> 4 then map_option (\<lambda>i. var_value (program_context b ! i)) (var_index s b) else None)"

text \<open>Element \<open>index\<close> of an array, from 1; the byte behind the tag of the array is its size in bytes.\<close>

definition element_address :: "var \<Rightarrow> numeric_t \<Rightarrow> basic \<Rightarrow> u16 option" where
  "element_address v index b =
     (case array_address v b of
        None \<Rightarrow> None
      | Some a \<Rightarrow> if sint index < 1 \<or> ucast (ram b (a + 1)) < index * 2 then None
                  else Some (a + 2 + 2 * (index - 1)))"

definition those_sum :: "'a option sum \<Rightarrow> 'a sum option" where
  "those_sum e = those (map (\<lambda>d. those (map those d)) e)"

primrec operand_value :: "operand \<Rightarrow> basic \<Rightarrow> numeric_t option" where
  "operand_value (Const v) b = Some v"
| "operand_value (Scalar v) b = scalar_value v b"
| "operand_value (Elem v e) b =
     (case those_sum (map (map (map (\<lambda>f. f b))) (map (map (map operand_value)) e)) of
        None \<Rightarrow> None
      | Some vs \<Rightarrow> map_option (load16 (ram b)) (element_address v (sum_value vs) b))"

definition expr_value :: "operand sum \<Rightarrow> basic \<Rightarrow> numeric_t option" where
  "expr_value e b = map_option sum_value (those_sum (map (map (map (\<lambda>x. operand_value x b))) e))"

primrec depth :: "operand \<Rightarrow> nat" where
  "depth (Const v) = 0"
| "depth (Scalar v) = 0"
| "depth (Elem v e) = Suc (foldr max (concat (concat (map (map (map depth)) e))) 0)"

definition expr_depth :: "operand sum \<Rightarrow> nat" where
  "expr_depth e = foldr max (map depth (concat (concat e))) 0"

text \<open>At most 16 operands, so that the two stacks and the output buffer are large enough.\<close>

primrec var_fits :: "var \<Rightarrow> bool" where
  "var_fits (R r) \<longleftrightarrow> True"
| "var_fits (V s) \<longleftrightarrow> 0 \<notin> set s \<and> length s < 255"

primrec operand_fits :: "operand \<Rightarrow> bool" where
  "operand_fits (Const v) \<longleftrightarrow> True"
| "operand_fits (Scalar v) \<longleftrightarrow> var_fits v"
| "operand_fits (Elem v e) \<longleftrightarrow> var_fits v \<and> well_shaped e \<and> length (concat (concat e)) \<le> 16
     \<and> list_all (\<lambda>x. x) (concat (concat (map (map (map operand_fits)) e)))"

definition expr_fits :: "operand sum \<Rightarrow> bool" where
  "expr_fits e \<longleftrightarrow> well_shaped e \<and> length (concat (concat e)) \<le> 16
     \<and> (\<forall>x \<in> set (concat (concat e)). operand_fits x)"

definition basic_ok :: "basic \<Rightarrow> bool" where
  "basic_ok b \<longleftrightarrow> length (program_registers b) = NUM_REGISTERS \<and> length (program_context b) \<le> MAX_VARS
     \<and> (\<forall>v \<in> set (program_context b). 0 \<notin> set (var_name v) \<and> length (var_name v) \<le> VARNAME_SIZE)"

section \<open>Operands are evaluated\<close>

lemma product_terms_map: "product_terms op (map f p) = map (map_prod id f) (product_terms op p)"
  by (cases p) simp_all

lemma difference_terms_map: "difference_terms op (map (map f) d) = map (map_prod id f) (difference_terms op d)"
  by (cases d) (simp_all add: product_terms_map map_concat comp_def)

lemma sum_terms_map: "sum_terms (map (map (map f)) e) = map (map_prod id f) (sum_terms e)"
  by (simp add: sum_terms_def difference_terms_map map_concat comp_def)

lemma product_terms_snd: "map snd (product_terms op p) = p"
  by (cases p) (simp_all add: comp_def)

lemma difference_terms_snd: "map snd (difference_terms op d) = concat d"
  by (cases d) (simp_all add: product_terms_snd map_concat comp_def)

lemma sum_terms_snd: "map snd (sum_terms e) = concat (concat e)"
proof -
  have "map snd (sum_terms e) = concat (map concat e)"
    by (simp add: sum_terms_def map_concat comp_def difference_terms_snd)
  also have "\<dots> = concat (concat e)" by (induction e) simp_all
  finally show ?thesis .
qed

lemma sum_terms_set:
  "snd ` set (sum_terms e) = set (concat (concat e))" "length (sum_terms e) = length (concat (concat e))"
  using sum_terms_snd [of e] by (metis list.set_map, metis length_map)

lemma sum_terms_ops: "(op, x) \<in> set (sum_terms e) \<Longrightarrow> op \<in> arith_ops"
proof -
  have 1: "(op, x) \<in> set (product_terms q p) \<Longrightarrow> q \<in> arith_ops \<Longrightarrow> op \<in> arith_ops" for q p
    by (cases p) (auto simp: arith_ops_def)
  have 2: "(op, x) \<in> set (difference_terms q d) \<Longrightarrow> q \<in> arith_ops \<Longrightarrow> op \<in> arith_ops" for q d
    using 1 by (cases d) (auto simp: arith_ops_def)
  assume "(op, x) \<in> set (sum_terms e)"
  then show ?thesis using 2 by (auto simp: sum_terms_def arith_ops_def)
qed

lemma those_map: "those (map f xs) = Some ys \<Longrightarrow> ys = map (the \<circ> f) xs \<and> (\<forall>x \<in> set xs. f x \<noteq> None)"
  by (induction xs arbitrary: ys) (auto split: option.splits)

lemma those_sum_map:
  assumes "those_sum (map (map (map f)) e) = Some vs"
  shows "vs = map (map (map (the \<circ> f))) e \<and> (\<forall>x \<in> set (concat (concat e)). f x \<noteq> None)"
proof -
  have 2: "those (map those (map (map f) d)) = Some d' \<Longrightarrow> d' = map (map (the \<circ> f)) d
      \<and> (\<forall>x \<in> set (concat d). f x \<noteq> None)" for d d'
    using those_map [of "\<lambda>p. those (map f p)" d d'] those_map [of f]
    by (force simp: comp_def)
  have "those (map (\<lambda>d. those (map those (map (map f) d))) e) = Some vs"
    using assms by (simp add: those_sum_def comp_def)
  from those_map [OF this] 2 show ?thesis by (force simp: comp_def)
qed

lemma well_shaped_map: "well_shaped (map (map (map f)) e) = well_shaped e"
  by (simp add: well_shaped_def)

lemma bytes_at_string:
  "bytes_at m a (s @ [0]) \<Longrightarrow> 0 \<notin> set s \<Longrightarrow> 0 \<notin> set t \<Longrightarrow> bytes_at m a (t @ [0]) = (t = s)"
proof (induction s arbitrary: a t)
  case Nil
  then show ?case by (cases t) auto
next
  case (Cons c s)
  then show ?case by (cases t) auto
qed

lemma find_var_index:
  assumes "basic_ok b" "bytes_at (ram b) a (s @ [0])" "0 \<notin> set s"
  shows "find_var a b = var_index s b"
proof -
  have "first_idx (\<lambda>v. bytes_at (ram b) a (var_name v @ [0])) vs = first_idx (\<lambda>v. var_name v = s) vs"
    if "set vs \<subseteq> set (program_context b)" for vs
    using that assms bytes_at_string [OF assms(2,3)] by (induction vs) (auto simp: basic_ok_def)
  then show ?thesis by (simp add: find_var_def var_index_def)
qed

end
