(* ===== verification/Basic_Eval_Claims.thy ===== *)
theory Basic_Eval_Claims
  imports Basic_Expressions
begin

text \<open>
  The properties of the evaluator: \<open>eval_numeric\<close> returns the value of every expression that
  fits its stacks, and what happens with expressions that do not, or that C programmers would read
  differently.
\<close>

section \<open>Correctness\<close>

lemma ERROR_HANDLE_Inr: "call b = Some (Inr v, b1) \<Longrightarrow> ERROR_HANDLE call b = Some (Inr v, b1)"
  by (simp add: ERROR_HANDLE_def)

lemma var_first: "bytes_at m a (var_toks v) \<Longrightarrow> m a = TOK_VARIABLE \<or> m a = TOK_REGISTER"
  by (cases v) auto

lemma operand_not_end:
  assumes "bytes_at (ram b) src (operand_toks x)"
  shows "\<not> eval_is_end_of_expression (ram b) src" "ram b src \<in> {TOK_NUMERIC, TOK_VARIABLE, TOK_REGISTER}"
proof -
  show *: "ram b src \<in> {TOK_NUMERIC, TOK_VARIABLE, TOK_REGISTER}"
    using assms var_first by (cases x) (auto simp del: var_toks.simps)
  then show "\<not> eval_is_end_of_expression (ram b) src"
    by (auto simp: eval_is_end_of_expression_def OP_CHECK_def t_operator_is_comparison_def)
qed

lemma varlen_skip_var:
  assumes "bytes_at m a (var_toks (V s))" "length s < 255"
  shows "t_varlen_skip m a = a + of_nat (length (var_toks (V s)))"
proof -
  have l: "length s + 1 < 256" "length s + 1 < 65536" using assms(2) by simp_all
  have "ucast (of_nat (length s + 1) :: u8) = (of_nat (length s + 1) :: u16)"
    by (intro word_unat_eq_iff [THEN iffD2])
      (simp only: unat_u8_u16 unat_of_nat_u8 [OF l(1)] unat_of_nat_u16 [OF l(2)])
  with assms(1) show ?thesis by (simp add: t_varlen_skip_def add.assoc add.left_commute)
qed

text \<open>What \<open>t_variable_get_ptr\<close> does with a variable token, up to the tokens behind it.\<close>

lemma var_skip:
  assumes "bytes_at m a (var_toks v)" "var_fits v"
  shows "m a = TOK_VARIABLE \<or> m a = TOK_REGISTER"
    and "(if m a = TOK_VARIABLE then t_varlen_skip m a else a + 2) = a + of_nat (length (var_toks v))"
  using assms varlen_skip_var [of m a] by (cases v; simp)+

lemma numeric_ref_var:
  assumes "basic_ok b" "bytes_at (ram b) a (var_toks v)" "var_fits v" "scalar_value v b = Some x"
  obtains r where "program_get_numeric_ref a b = Some (Some r)" "deref r b = x"
proof (cases v)
  case (R i)
  then show ?thesis using assms that [of "RegRef (unat i)"]
    by (auto simp: program_get_numeric_ref_def split: if_splits)
next
  case (V s)
  then have "bytes_at (ram b) (a + 2) (s @ [0])" using assms(2) by (simp add: add.assoc)
  with V assms find_var_index [of b "a + 2" s] obtain i where
    "find_var (a + 2) b = Some i" "var_value (program_context b ! i) = x" by auto
  then show ?thesis using V assms(2) that [of "VarRef i"] by (auto simp: program_get_numeric_ref_def)
qed

lemma array_var:
  assumes "basic_ok b" "bytes_at (ram b) a (var_toks v)" "var_fits v" "array_address v b = Some x"
  shows "program_get_array a b = Some (Inr x)"
proof (cases v)
  case (R i)
  then show ?thesis using assms by (auto simp: program_get_array_def split: if_splits)
next
  case (V s)
  then have at: "bytes_at (ram b) (a + 2) (s @ [0])" using assms(2) by (simp add: add.assoc)
  with V assms find_var_index [of b "a + 2" s] mem_cstr_at [OF at] show ?thesis
    by (auto simp: program_get_array_def split: if_splits)
qed

text \<open>The evaluator is right on the expressions of depth less than \<open>n\<close>.\<close>

definition evaluates :: "nat \<Rightarrow> basic \<Rightarrow> bool" where
  "evaluates n b \<longleftrightarrow> (\<forall>e src v. expr_fits e \<longrightarrow> expr_depth e < n \<longrightarrow> expr_value e b = Some v
     \<longrightarrow> bytes_at (ram b) src (expr_toks e)
     \<longrightarrow> eval_is_end_of_expression (ram b) (src + of_nat (length (expr_toks e)))
     \<longrightarrow> eval_numeric n src b = Some (Inr (v, src + of_nat (length (expr_toks e))), b))"

lemma paren_not_end: "OP_CHECK m a OP_LPAREN \<Longrightarrow> \<not> eval_is_end_of_expression m a"
  using end_not_paren by blast

lemma operand_Elem:
  assumes "basic_ok b" "evaluates n b" "operand_fits (Elem v e)" "operand_value (Elem v e) b = Some x"
    and "depth (Elem v e) \<le> n"
  shows "operand_evals (eval_numeric n) b (operand_toks (Elem v e)) x"
  unfolding operand_evals_def
proof (intro allI impI)
  fix src ops and out :: bytes
  assume at: "bytes_at (ram b) src (operand_toks (Elem v e))"
    and room: "length out + 3 \<le> OUTPUT_MAX"
  let ?m = "ram b"
  define a1 where "a1 = src + of_nat (length (var_toks v))"
  define a2 where "a2 = a1 + 2 + of_nat (length (expr_toks e))"
  have len: "src + of_nat (length (operand_toks (Elem v e))) = a2 + 2"
    by (simp add: a1_def a2_def expr_toks_def add.assoc add.commute add.left_commute)
  have parts: "bytes_at ?m src (var_toks v)" "OP_CHECK ?m a1 OP_LPAREN" "bytes_at ?m (a1 + 2) (expr_toks e)"
    "OP_CHECK ?m a2 OP_RPAREN"
    using at by (simp_all add: a1_def a2_def OP_CHECK_def expr_toks_def add.assoc)
  obtain i where i: "expr_value e b = Some i"
    and addr: "map_option (load16 ?m) (element_address v i b) = Some x"
    using assms(4) by (auto simp: expr_value_def comp_def split: option.splits)
  then obtain adr where adr: "element_address v i b = Some adr" "load16 ?m adr = x" by auto
  then obtain arr where arr: "array_address v b = Some arr" "\<not> (sint i < 1 \<or> ucast (?m (arr + 1)) < i * 2)"
    "adr = arr + 2 + 2 * (i - 1)"
    by (auto simp: element_address_def split: option.splits if_splits)
  have "expr_fits e" using assms(3) by (auto simp: expr_fits_def list_all_iff)
  moreover have "expr_depth e < n"
    using assms(5) by (simp add: expr_depth_def map_concat comp_def)
  moreover have "eval_is_end_of_expression ?m a2" using parts(4) by (simp add: eval_is_end_of_expression_def)
  ultimately have ev: "eval_numeric n (a1 + 2) b = Some (Inr (i, a2), b)"
    using assms(2) i parts(3) unfolding evaluates_def a2_def by simp
  have fits: "var_fits v" using assms(3) by simp
  have "t_variable_get_ptr (eval_numeric n) src b = Some (Inr (MemRef adr, a2 + 2), b)"
    using var_skip [OF parts(1) fits] parts(2) arr(2,3) array_var [OF assms(1) parts(1) fits arr(1)]
      ERROR_HANDLE_Inr [of "eval_numeric n (a1 + 2)", OF ev]
      ERROR_HANDLE_Inr [of "\<lambda>b. map_option (\<lambda>r. (r, b)) (program_get_array src b)" b arr b]
    by (auto simp: t_variable_get_ptr_def a1_def)
  then show "eval_shunting_yard (eval_numeric n) src ops out b
      = eval_shunting_yard (eval_numeric n) (src + of_nat (length (operand_toks (Elem v e)))) ops
          (out @ TOK_NUMERIC # put16 x) b"
    using room adr(2) operand_not_end [OF at] var_skip(1) [OF parts(1) fits]
    unfolding len by (subst eval_shunting_yard.simps) (auto simp: ERROR_HANDLE_Inr)
qed

lemma operand_Scalar:
  assumes "basic_ok b" "var_fits v" "scalar_value v b = Some x"
  shows "operand_evals ev b (operand_toks (Scalar v)) x"
  unfolding operand_evals_def
proof (intro allI impI)
  fix src ops and out :: bytes
  assume at: "bytes_at (ram b) src (operand_toks (Scalar v))"
    and follow: "\<not> OP_CHECK (ram b) (src + of_nat (length (operand_toks (Scalar v)))) OP_LPAREN"
    and room: "length out + 3 \<le> OUTPUT_MAX"
  have var: "bytes_at (ram b) src (var_toks v)" using at by simp
  obtain r where r: "program_get_numeric_ref src b = Some (Some r)" "deref r b = x"
    by (rule numeric_ref_var [OF assms(1) var assms(2,3)])
  have "t_variable_get_ptr ev src b = Some (Inr (r, src + of_nat (length (var_toks v))), b)"
    using var_skip [OF var assms(2)] follow r(1) by (auto simp: t_variable_get_ptr_def)
  then show "eval_shunting_yard ev src ops out b
      = eval_shunting_yard ev (src + of_nat (length (operand_toks (Scalar v)))) ops (out @ TOK_NUMERIC # put16 x) b"
    using room r(2) operand_not_end [OF at] var_skip(1) [OF var assms(2)]
    by (subst eval_shunting_yard.simps) (auto simp: ERROR_HANDLE_Inr)
qed

lemma operand_Const: "operand_evals ev b (operand_toks (Const v)) v"
  unfolding operand_evals_def
proof (intro allI impI)
  fix src ops and out :: bytes
  assume at: "bytes_at (ram b) src (operand_toks (Const v))" and room: "length out + 3 \<le> OUTPUT_MAX"
  then show "eval_shunting_yard ev src ops out b
      = eval_shunting_yard ev (src + of_nat (length (operand_toks (Const v)))) ops (out @ TOK_NUMERIC # put16 v) b"
    using operand_not_end [OF at]
    by (subst eval_shunting_yard.simps) (auto simp: put16_def add.assoc)
qed

lemma operand_correct:
  assumes "basic_ok b" "evaluates n b" "operand_fits x" "operand_value x b = Some v" "depth x \<le> n"
  shows "operand_evals (eval_numeric n) b (operand_toks x) v"
proof (cases x)
  case (Const c)
  then show ?thesis using assms(4) operand_Const by simp
next
  case (Scalar w)
  then show ?thesis using assms operand_Scalar by simp
next
  case (Elem w e)
  then show ?thesis using assms operand_Elem by blast
qed

text \<open>The shunting yard and the stack machine on an expression.\<close>

lemma shunting_yard_correct:
  assumes "basic_ok b" "evaluates n b" "expr_fits e" "expr_depth e \<le> n" "expr_value e b = Some v"
    and "bytes_at (ram b) src (expr_toks e)"
    and "eval_is_end_of_expression (ram b) (src + of_nat (length (expr_toks e)))"
  shows "\<exists>out. eval_shunting_yard (eval_numeric n) src [] [] b
      = Some (Inr (out, src + of_nat (length (expr_toks e))), b) \<and> eval_rpn out [] = Some v"
    and "\<exists>op x rest. sum_terms e = (op, x) # rest \<and> (rest = [] \<longrightarrow> operand_value x b = Some v)
      \<and> (rest \<noteq> [] \<longrightarrow> \<not> eval_is_end_of_expression (ram b) (src + of_nat (length (operand_toks x)))
           \<and> ram b (src + of_nat (length (operand_toks x))) = TOK_OPERATOR
           \<and> ram b (src + of_nat (length (operand_toks x)) + 1) \<in> arith_ops)
      \<and> bytes_at (ram b) src (operand_toks x)"
proof -
  let ?m = "ram b"
  let ?val = "\<lambda>x. the (operand_value x b)"
  have ws: "well_shaped e" and fits: "\<And>x. x \<in> set (concat (concat e)) \<Longrightarrow> operand_fits x"
    and sixteen: "length (sum_terms e) \<le> 16"
    using assms(3) by (auto simp: expr_fits_def sum_terms_set(2))
  obtain vs where "those_sum (map (map (map (\<lambda>x. operand_value x b))) e) = Some vs" and v: "v = sum_value vs"
    using assms(5) by (auto simp: expr_value_def)
  from those_sum_map [OF this(1)] have vs: "vs = map (map (map ?val)) e"
    and some: "\<And>x. x \<in> set (concat (concat e)) \<Longrightarrow> operand_value x b = Some (?val x)"
    by (auto simp: comp_def)
  have good: "op \<in> arith_ops \<and> operand_evals (eval_numeric n) b (operand_toks x) (?val x)"
    if "(op, x) \<in> set (sum_terms e)" for op x
  proof
    show "op \<in> arith_ops" using that by (rule sum_terms_ops)
    have x: "x \<in> set (concat (concat e))" using that sum_terms_set(1) [of e] by force
    have "k \<in> set ks \<Longrightarrow> k \<le> foldr max ks 0" for k :: nat and ks
      by (induction ks) auto
    with x have "depth x \<le> expr_depth e" by (simp add: expr_depth_def)
    then show "operand_evals (eval_numeric n) b (operand_toks x) (?val x)"
      using assms(4) by (intro operand_correct assms fits some x) simp
  qed
  obtain y ys ps ds where "e = ((y # ys) # ps) # ds"
    using ws unfolding well_shaped_def by (metis list.exhaust list.set_intros(1,2))
  then have "sum_terms e \<noteq> []" by (simp add: sum_terms_def)
  then obtain op x rest where e: "sum_terms e = (op, x) # rest" by (metis list.exhaust surj_pair)
  define ts where "ts = map (\<lambda>(op, x). (op, operand_toks x, ?val x)) rest"
  have toks: "expr_toks e = operand_toks x @ term_bytes ts"
    unfolding expr_toks_def infix_bytes_def sum_terms_map e
    by (simp add: ts_def term_bytes_def comp_def case_prod_unfold)
  define a where "a = src + of_nat (length (operand_toks x))"
  have at: "bytes_at ?m src (operand_toks x)" "bytes_at ?m a (term_bytes ts)"
    and fin: "eval_is_end_of_expression ?m (a + of_nat (length (term_bytes ts)))"
    using assms(6,7) by (simp_all add: toks a_def add.assoc)
  have ts_good: "\<forall>(op, bs, v) \<in> set ts. op \<in> arith_ops \<and> operand_evals (eval_numeric n) b bs v"
    using good by (auto simp: ts_def e)
  have nxt: "ts \<noteq> [] \<Longrightarrow> ?m a = TOK_OPERATOR \<and> ?m (a + 1) \<in> arith_ops"
    using at(2) ts_good by (cases ts) (auto simp: term_bytes_def)
  have "\<not> OP_CHECK ?m a OP_LPAREN"
  proof (cases "ts = []")
    case True
    then show ?thesis using fin end_not_paren by (simp add: term_bytes_def)
  next
    case False
    with nxt show ?thesis using arith_not_end by blast
  qed
  then have "eval_shunting_yard (eval_numeric n) src [] [] b
      = eval_shunting_yard (eval_numeric n) a [] (TOK_NUMERIC # put16 (?val x)) b"
    using good [of op x] at(1) unfolding operand_evals_def a_def e by simp
  moreover have "\<exists>out. eval_shunting_yard (eval_numeric n) a [] (TOK_NUMERIC # put16 (?val x)) b
      = Some (Inr (out, a + of_nat (length (term_bytes ts))), b) \<and> eval_rpn out [] = Some (sum_value vs)"
  proof -
    have c: "computes (TOK_NUMERIC # put16 (?val x)) [?val x]"
      using computes_number [OF computes_Nil, of "?val x"] by simp
    have "sum_terms vs = (op, ?val x) # map (map_prod id ?val) rest"
      by (simp add: vs sum_terms_map e)
    moreover have "well_shaped vs" using ws by (simp add: vs well_shaped_map)
    ultimately have "yard (map (map_prod id ?val) rest) [] [?val x] = Some [sum_value vs]"
      by (intro yard_value)
    then have y: "yard (map (\<lambda>(op, bs, v). (op, v)) ts) [] [?val x] = Some [sum_value vs]"
      by (simp add: ts_def comp_def case_prod_unfold map_prod_def)
    have len: "length ts < 16" using sixteen by (simp add: ts_def e)
    show ?thesis
      using shunting_yard_terms [OF at(2) fin ts_good c y] len by simp
  qed
  ultimately show "\<exists>out. eval_shunting_yard (eval_numeric n) src [] [] b
      = Some (Inr (out, src + of_nat (length (expr_toks e))), b) \<and> eval_rpn out [] = Some v"
    by (simp add: v toks a_def add.assoc)
  have "operand_value x b = Some v" if "rest = []"
  proof -
    have "sum_terms vs = [(op, ?val x)]" using that by (simp add: vs sum_terms_map e)
    with yard_value [of vs op "?val x" "[]"] ws have "sum_value vs = ?val x"
      by (simp add: vs well_shaped_map)
    moreover have "x \<in> set (concat (concat e))" using sum_terms_set(1) [of e] e by force
    ultimately show ?thesis using some [of x] v by simp
  qed
  moreover have "rest \<noteq> [] \<Longrightarrow> ts \<noteq> []" by (simp add: ts_def)
  ultimately show "\<exists>op x rest. sum_terms e = (op, x) # rest \<and> (rest = [] \<longrightarrow> operand_value x b = Some v)
      \<and> (rest \<noteq> [] \<longrightarrow> \<not> eval_is_end_of_expression ?m (src + of_nat (length (operand_toks x)))
           \<and> ?m (src + of_nat (length (operand_toks x))) = TOK_OPERATOR
           \<and> ?m (src + of_nat (length (operand_toks x)) + 1) \<in> arith_ops)
      \<and> bytes_at ?m src (operand_toks x)"
    using e nxt arith_not_end at(1) unfolding a_def by blast
qed

lemma eval_numeric_evaluates:
  assumes "basic_ok b"
  shows "evaluates n b"
proof (induction n)
  case 0
  then show ?case by (simp add: evaluates_def)
next
  case (Suc n)
  show ?case
    unfolding evaluates_def
  proof (intro allI impI)
    fix e src v
    assume e: "expr_fits e" "expr_depth e < Suc n" "expr_value e b = Some v" "bytes_at (ram b) src (expr_toks e)"
      "eval_is_end_of_expression (ram b) (src + of_nat (length (expr_toks e)))"
    let ?m = "ram b" and ?fin = "src + of_nat (length (expr_toks e))"
    from shunting_yard_correct [OF assms Suc e(1) _ e(3-5)] e(2) obtain out op x rest where
      yard: "eval_shunting_yard (eval_numeric n) src [] [] b = Some (Inr (out, ?fin), b)" "eval_rpn out [] = Some v"
      and terms: "sum_terms e = (op, x) # rest" "rest = [] \<Longrightarrow> operand_value x b = Some v"
        "rest \<noteq> [] \<Longrightarrow> \<not> eval_is_end_of_expression ?m (src + of_nat (length (operand_toks x)))"
      and x: "bytes_at ?m src (operand_toks x)"
      by auto
    have single: "expr_toks e = operand_toks x" if "rest = []"
      using terms(1) that by (simp add: expr_toks_def infix_bytes_def sum_terms_map)
    consider (num) "?m src = TOK_NUMERIC" "eval_is_end_of_expression ?m (src + 3)"
      | (reg) "?m src = TOK_REGISTER" "eval_is_end_of_expression ?m (src + 2)"
      | (other) "\<not> (?m src = TOK_NUMERIC \<and> eval_is_end_of_expression ?m (src + 3))"
        "\<not> (?m src = TOK_REGISTER \<and> eval_is_end_of_expression ?m (src + 2))"
      by blast
    then show "eval_numeric (Suc n) src b = Some (Inr (v, ?fin), b)"
    proof cases
      case num
      then obtain c where c: "x = Const c" using x var_first [of ?m src] by (cases x) auto
      then have "rest = []" using terms(3) num by auto
      with c terms(2) single x num load16_at [of ?m "src + 1" c] show ?thesis
        by (simp add: eval_numeric.simps)
    next
      case reg
      then obtain w where w: "x = Scalar w \<or> (\<exists>e'. x = Elem w e')" using x by (cases x) auto
      then have "bytes_at ?m src (var_toks w)" using x by auto
      then obtain r where r: "w = R r" "?m (src + 1) = r" using reg(1) by (cases w) auto
      have sc: "x = Scalar w"
      proof (rule ccontr)
        assume "x \<noteq> Scalar w"
        then have "OP_CHECK ?m (src + 2) OP_LPAREN" using w x r by (auto simp: OP_CHECK_def add.assoc)
        with reg(2) paren_not_end show False by blast
      qed
      then have "rest = []" using terms(3) reg(2) r by auto
      then have "scalar_value w b = Some v" "expr_toks e = var_toks w" using terms(2) single sc by simp_all
      moreover from this(1) obtain ref where
        "program_get_numeric_ref src b = Some (Some ref)" "deref ref b = v"
        using numeric_ref_var [OF assms \<open>bytes_at ?m src (var_toks w)\<close>] r(1) by auto
      ultimately show ?thesis using reg r by (simp add: eval_numeric.simps)
    next
      case other
      with yard show ?thesis
        by (auto simp add: eval_numeric.simps Let_def ERROR_HANDLE_Inr [of "eval_shunting_yard (eval_numeric n) src [] []", OF yard(1)])
    qed
  qed
qed

text \<open>C34. The evaluator is correct: on every expression of at most 16 operands per level, whose operands are
  numbers, defined variables, and array elements with indices in range, \<open>eval_numeric\<close> returns
  its value modulo \<open>2 ^ 16\<close> and the end of the expression, and leaves the interpreter alone. The value
  is that of a sum of differences of products, in which a chain of minus signs associates to the right; \<open>n\<close>
  is the room for nested array indices on the C stack.\<close>

theorem eval_numeric_correct:
  assumes "basic_ok b" "expr_fits e" "expr_depth e < n" "expr_value e b = Some v"
    and "bytes_at (ram b) src (expr_toks e)"
    and "eval_is_end_of_expression (ram b) (src + of_nat (length (expr_toks e)))"
  shows "eval_numeric n src b = Some (Inr (v, src + of_nat (length (expr_toks e))), b)"
  using eval_numeric_evaluates [OF assms(1), of n] assms(2-6) unfolding evaluates_def by blast

text \<open>\<open>A(2)*3-NU\<close>, with an array in register \<open>A\<close> that holds 10 and 20, and \<open>NU = 1\<close>.\<close>

definition example_expr :: "operand sum" where
  "example_expr = [[[Elem (R 0) [[[Const 2]]], Const 3], [Scalar (V (ascii ''NU''))]]]"

definition example_basic :: "bytes \<Rightarrow> basic" where
  "example_basic toks = \<lparr>ram = ram_of 0x8000 ([TOK_ALLOC, 4, 10, 0, 20, 0] @ toks), program_start = 0x8000,
     program_max = 0xf000, program_end_ptr = 0x9000, program_running = False,
     program_registers = \<lparr>reg_defined = True, reg_value = 0x8000\<rparr>
       # replicate 25 \<lparr>reg_defined = False, reg_value = 0\<rparr>,
     program_context = [\<lparr>var_name = ascii ''NU'', var_value = 1\<rparr>], program_return_stack = [],
     program_current_line = 0x8000, program_last_inserted_line = 0, program_next_line = 0,
     rnd = 1, console = []\<rparr>"

lemma example_basic_ok: "basic_ok (example_basic toks)"
  by (simp add: basic_ok_def example_basic_def)

lemma example_basic_at:
  assumes "length toks < 256"
  shows "bytes_at (ram (example_basic toks)) 0x8006 toks"
proof -
  have "bytes_at (ram (example_basic toks)) 0x8000 ([TOK_ALLOC, 4, 10, 0, 20, 0] @ toks)"
    using assms unfolding example_basic_def by (simp only: basic.simps) (rule bytes_at_ram_of, simp)
  then show ?thesis by simp
qed

lemma example_array: "load16 (ram (example_basic toks)) 0x8004 = 20" "ram (example_basic toks) 0x8001 = 4"
  by (simp_all add: example_basic_def load16_def ram_of_def)

lemma example_expr_toks:
  "expr_toks example_expr = [10, 0, 4, 3, 3, 2, 0, 4, 4, 4, 9, 3, 3, 0, 4, 0, 5, 3, 78, 85, 0]"
  by (simp add: example_expr_def expr_toks_def infix_bytes_def sum_terms_def put16_def)

lemma eval_numeric_correct_witness:
  "eval_numeric 2 0x8006 (example_basic (expr_toks example_expr @ [0]))
   = Some (Inr (59, 0x801b), example_basic (expr_toks example_expr @ [0]))"
proof -
  let ?b = "example_basic (expr_toks example_expr @ [0])"
  have at: "bytes_at (ram ?b) 0x8006 (expr_toks example_expr @ [0])"
    by (rule example_basic_at) (simp add: example_expr_toks)
  have "expr_value example_expr ?b = Some 59"
    using example_array [of "expr_toks example_expr @ [0]"]
    by (simp add: expr_value_def example_expr_def those_sum_def sum_value_def element_address_def var_index_def)
      (simp add: example_basic_def)
  moreover have "expr_fits example_expr" "expr_depth example_expr < 2"
    by (simp_all add: expr_fits_def example_expr_def well_shaped_def expr_depth_def)
  ultimately show ?thesis
    using eval_numeric_correct [where e = example_expr and b = ?b and n = 2 and v = 59 and src = "0x8006",
        OF example_basic_ok] at
    by (simp add: example_expr_toks eval_is_end_of_expression_def)
qed

section \<open>Limits\<close>

text \<open>A chain of minus signs is evaluated from the right.\<close>

lemma minus_chain_associates_right:
  assumes "basic_ok b" "bytes_at (ram b) src (expr_toks [[[Const x], [Const y], [Const z]]])"
    and "eval_is_end_of_expression (ram b) (src + 13)"
  shows "\<exists>a. eval_numeric 1 src b = Some (Inr (x - (y - z), a), b)"
proof -
  let ?e = "[[[Const x], [Const y], [Const z]]]"
  have "length (expr_toks ?e) = 13" by (simp add: expr_toks_def infix_bytes_def sum_terms_def)
  then show ?thesis
    using eval_numeric_evaluates [OF assms(1), of 1] assms(2,3) unfolding evaluates_def
    by (elim allE [of _ ?e] allE [of _ src] allE [of _ "x - (y - z)"])
      (simp add: expr_fits_def well_shaped_def expr_depth_def expr_value_def those_sum_def sum_value_def)
qed

text \<open>Without an operand the top of the empty number stack is read.\<close>

lemma empty_expression_undefined:
  assumes "eval_is_end_of_expression (ram b) src"
  shows "eval_numeric n src b = None"
proof (cases n)
  case (Suc k)
  have "ram b src \<noteq> TOK_NUMERIC" "ram b src \<noteq> TOK_REGISTER"
    using assms by (auto simp: eval_is_end_of_expression_def OP_CHECK_def t_operator_is_comparison_def)
  moreover have "eval_shunting_yard (eval_numeric k) src [] [] b = Some (Inr ([TOK_TERMINATOR], src), b)"
    using assms by (subst eval_shunting_yard.simps) simp
  ultimately show ?thesis
    by (simp add: Suc eval_numeric.simps Let_def
        ERROR_HANDLE_Inr [of "eval_shunting_yard (eval_numeric k) src [] []"])
qed (simp add: eval_numeric.simps)

definition number_toks :: "numeric_t list \<Rightarrow> bytes" where
  "number_toks cs = concat (map (\<lambda>c. TOK_NUMERIC # put16 c) cs)"

definition plus_toks :: "numeric_t list \<Rightarrow> bytes" where
  "plus_toks cs = concat (map (\<lambda>c. [TOK_OPERATOR, OP_PLUS, TOK_NUMERIC] @ put16 c) cs)"

lemma eval_rpn_too_many:
  "16 < length stack + length cs \<Longrightarrow> length stack \<le> 16 \<Longrightarrow> eval_rpn (number_toks cs @ rest) stack = None"
proof (induction cs arbitrary: stack)
  case (Cons c cs)
  then show ?case by (cases "length stack = 16") (simp_all add: number_toks_def put16_def)
qed simp

lemma shunting_yard_number:
  assumes "bytes_at (ram b) src (TOK_NUMERIC # put16 c)"
  shows "eval_shunting_yard ev src ops out b =
    (if length out + 3 \<le> OUTPUT_MAX then eval_shunting_yard ev (src + 3) ops (out @ TOK_NUMERIC # put16 c) b else None)"
  using assms operand_not_end [of b src "Const c"]
  by (subst eval_shunting_yard.simps) (auto simp: put16_def add.assoc)

lemma shunting_yard_sum:
  "bytes_at (ram b) src (plus_toks cs) \<Longrightarrow> eval_is_end_of_expression (ram b) (src + of_nat (length (plus_toks cs)))
   \<Longrightarrow> eval_shunting_yard ev src (replicate k OP_PLUS) out b = None
     \<or> (\<exists>r a. eval_shunting_yard ev src (replicate k OP_PLUS) out b
          = Some (Inr (out @ number_toks cs @ r, a), b))"
proof (induction cs arbitrary: src k out)
  case Nil
  then show ?case by (subst (1 2) eval_shunting_yard.simps) (simp add: plus_toks_def number_toks_def)
next
  case (Cons c cs)
  have at: "ram b src = TOK_OPERATOR" "ram b (src + 1) = OP_PLUS" "bytes_at (ram b) (src + 2) (TOK_NUMERIC # put16 c)"
    "bytes_at (ram b) (src + 5) (plus_toks cs)"
    using Cons.prems(1) by (simp_all add: plus_toks_def add.assoc)
  have fin: "eval_is_end_of_expression (ram b) (src + 5 + of_nat (length (plus_toks cs)))"
    using Cons.prems(2) by (simp add: plus_toks_def add.assoc)
  have "\<not> eval_is_end_of_expression (ram b) src" using arith_not_end [of "ram b" src] at by (simp add: arith_ops_def)
  moreover have "pop_greater 1 (replicate k OP_PLUS) out = (replicate k OP_PLUS, out)"
    by (cases k) simp_all
  ultimately have "eval_shunting_yard ev src (replicate k OP_PLUS) out b = None
      \<or> eval_shunting_yard ev src (replicate k OP_PLUS) out b
        = eval_shunting_yard ev (src + 5) (replicate (Suc k) OP_PLUS) (out @ TOK_NUMERIC # put16 c) b"
    using at shunting_yard_number [OF at(3), of ev "replicate (Suc k) OP_PLUS" out]
    by (subst (1 2) eval_shunting_yard.simps) (simp add: add.assoc)
  moreover note Cons.IH [OF at(4) fin, of "Suc k" "out @ TOK_NUMERIC # put16 c"]
  ultimately show ?case by (auto simp: number_toks_def)
qed

text \<open>A sum of more than 16 numbers overruns the stacks: the plus signs are kept until the end of the
  expression, so that all numbers are on the number stack of 16 entries before the first addition.\<close>

theorem long_sum_overruns:
  assumes "16 \<le> length cs"
    and "bytes_at (ram b) src (TOK_NUMERIC # put16 c @ plus_toks cs)"
    and "eval_is_end_of_expression (ram b) (src + 3 + of_nat (length (plus_toks cs)))"
  shows "eval_numeric n src b = None"
proof (cases n)
  case (Suc k)
  let ?yard = "\<lambda>src out. eval_shunting_yard (eval_numeric k) src [] out b"
  have at: "bytes_at (ram b) src (TOK_NUMERIC # put16 c)" "bytes_at (ram b) (src + 3) (plus_toks cs)"
    using assms(2) by (simp_all add: add.assoc)
  have "\<not> eval_is_end_of_expression (ram b) (src + 3)"
    using at(2) assms(1) arith_not_end [of "ram b" "src + 3"]
    by (cases cs) (simp_all add: plus_toks_def arith_ops_def)
  moreover have "?yard src [] = ?yard (src + 3) (number_toks [c])"
    using shunting_yard_number [OF at(1)] by (simp add: number_toks_def)
  moreover have "?yard (src + 3) (number_toks [c]) = None
      \<or> (\<exists>r a. ?yard (src + 3) (number_toks [c]) = Some (Inr (number_toks (c # cs) @ r, a), b))"
    using shunting_yard_sum [OF at(2) assms(3), of "eval_numeric k" 0 "number_toks [c]"]
    by (simp add: number_toks_def)
  moreover have "eval_rpn (number_toks (c # cs) @ r) [] = None" for r
    using assms(1) by (intro eval_rpn_too_many) simp_all
  ultimately show ?thesis
    using at(1) by (auto simp: Suc eval_numeric.simps Let_def ERROR_HANDLE_def)
qed (simp add: eval_numeric.simps)

lemma long_sum_overruns_witness:
  "eval_numeric 1 0x8006 (example_basic ((TOK_NUMERIC # put16 1 @ plus_toks (replicate 16 1)) @ [0])) = None"
proof (rule long_sum_overruns)
  let ?toks = "(TOK_NUMERIC # put16 1 @ plus_toks (replicate 16 1)) @ [0 :: u8]"
  have len: "length (plus_toks (replicate 16 1)) = 80"
    by (simp add: plus_toks_def numeral_eq_Suc)
  then have "bytes_at (ram (example_basic ?toks)) 0x8006 ?toks"
    by (intro example_basic_at) simp
  then show "bytes_at (ram (example_basic ?toks)) 0x8006 (TOK_NUMERIC # put16 1 @ plus_toks (replicate 16 1))"
    "eval_is_end_of_expression (ram (example_basic ?toks)) (0x8006 + 3 + of_nat (length (plus_toks (replicate 16 1))))"
    using len by (simp_all add: eval_is_end_of_expression_def add.assoc)
qed simp

end
