(* ===== verification/Basic_Program_Claims.thy ===== *)
theory Basic_Program_Claims
  imports Basic_Interp Basic_Listing Basic_Eval_Claims
begin

text \<open>
  The properties of the stored program: what the search for a line finds, what
  \<open>program_insert\<close>, \<open>LIST\<close> and \<open>NEW\<close> do to it, and what the interpreter changes in it.
\<close>

section \<open>Searching a line\<close>

text \<open>The lines \<open>ls\<close>, with their addresses and numbers, are linked in both directions.\<close>

fun first_address :: "(u16 \<times> numeric_t) list \<Rightarrow> u16" where
  "first_address [] = 0"
| "first_address ((a, n) # ls) = a"

fun linked :: "tokmem \<Rightarrow> u16 \<Rightarrow> (u16 \<times> numeric_t) list \<Rightarrow> bool" where
  "linked m prev [] = True"
| "linked m prev ((a, n) # ls) \<longleftrightarrow> a \<noteq> 0 \<and> PROG_LINENO m a = n \<and> PROG_PREV m a = prev
     \<and> PROG_NEXT m a = first_address ls \<and> linked m a ls"

text \<open>The first line with a number of at least \<open>t\<close>, 0 if there is none.\<close>

definition first_line :: "numeric_t \<Rightarrow> (u16 \<times> numeric_t) list \<Rightarrow> u16" where
  "first_line t ls = first_address (dropWhile (\<lambda>(a, n). sint n < sint t) ls)"

definition ascending :: "(u16 \<times> numeric_t) list \<Rightarrow> bool" where
  "ascending ls \<longleftrightarrow> sorted_wrt (\<lambda>(a, n) (a', n'). sint n < sint n') ls"

lemma search_forwards_linked:
  "linked m prev ((a, n) # ls) \<Longrightarrow> search_forwards m t a = Some (first_line t ((a, n) # ls))"
proof (induction ls arbitrary: a n prev)
  case Nil
  then show ?case by (subst search_forwards.simps) (simp add: first_line_def)
next
  case (Cons l ls)
  obtain a' n' where l: "l = (a', n')" by (cases l)
  with Cons show ?case by (subst search_forwards.simps) (auto simp: first_line_def)
qed

fun last_address :: "u16 \<Rightarrow> (u16 \<times> numeric_t) list \<Rightarrow> u16" where
  "last_address prev [] = prev"
| "last_address prev ((a, n) # ls) = last_address a ls"

lemma last_address_append: "last_address prev (xs @ ys) = last_address (last_address prev xs) ys"
  by (induction prev xs rule: last_address.induct) simp_all

lemma linked_append:
  "linked m prev (xs @ (a, n) # ys) \<Longrightarrow> linked m (last_address prev xs) ((a, n) # ys)
    \<and> (xs \<noteq> [] \<longrightarrow> PROG_NEXT m (last_address prev xs) = a)"
proof (induction m prev xs rule: linked.induct)
  case (2 m prev b k xs)
  then show ?case by (cases xs) auto
qed simp

text \<open>The search backwards stops at the first line even when that is the one looked for.\<close>

lemma search_backwards_linked:
  "linked m 0 (xs @ (a, n) # ys) \<Longrightarrow> \<forall>(b, k) \<in> set xs. sint k < sint n \<Longrightarrow> ascending xs \<Longrightarrow> sint t \<le> sint n
   \<Longrightarrow> search_backwards m t a
     = Some (if \<forall>(b, k) \<in> set xs. sint t \<le> sint k then 0 else first_line t (xs @ (a, n) # ys))"
proof (induction xs arbitrary: a n ys rule: rev_induct)
  case Nil
  then show ?case by (subst search_backwards.simps) simp
next
  case (snoc l xs)
  obtain b k where l: "l = (b, k)" by (cases l)
  have lk: "linked m (last_address 0 xs) ((b, k) # (a, n) # ys)"
    using linked_append [of m 0 xs b k "(a, n) # ys"] snoc.prems(1) by (simp add: l)
  then have here: "PROG_LINENO m a = n" "PROG_PREV m a = b" "b \<noteq> 0" by auto
  have less: "\<forall>(c, j) \<in> set xs. sint j < sint k" and asc: "ascending xs"
    using snoc.prems(3) by (auto simp: l ascending_def sorted_wrt_append)
  show ?case
  proof (cases "sint t \<le> sint k")
    case True
    then have "search_backwards m t b
        = Some (if \<forall>(c, j) \<in> set xs. sint t \<le> sint j then 0 else first_line t (xs @ (b, k) # (a, n) # ys))"
      using snoc.IH [of b k "(a, n) # ys"] snoc.prems(1) less asc by (simp add: l)
    then show ?thesis using here snoc.prems(4) True by (subst search_backwards.simps) (simp add: l)
  next
    case False
    then have "\<forall>(c, j) \<in> set (xs @ [l]). sint j < sint t" using less by (auto simp: l)
    then have "dropWhile (\<lambda>(c, j). sint j < sint t) ((xs @ [l]) @ (a, n) # ys) = (a, n) # ys"
      using snoc.prems(4) by (subst dropWhile_append2) auto
    moreover have "search_backwards m t b = Some (PROG_NEXT m b)"
      using lk False by (subst search_backwards.simps) simp
    ultimately show ?thesis
      using here lk snoc.prems(4) False
      by (subst search_backwards.simps) (auto simp: l first_line_def)
  qed
qed

lemma search_ok:
  assumes "linked (ram b) 0 (xs @ (a, n) # ys)" "ascending (xs @ (a, n) # ys)" "program_current_line b = a"
  shows "program_search_lineno t b = Some
    (if sint t < sint n \<and> (\<forall>(c, k) \<in> set xs. sint t \<le> sint k) then 0 else first_line t (xs @ (a, n) # ys))"
proof -
  have lk: "linked (ram b) (last_address 0 xs) ((a, n) # ys)"
    using linked_append [OF assms(1)] by blast
  then have n: "PROG_LINENO (ram b) a = n" by simp
  have xs: "\<forall>(c, k) \<in> set xs. sint k < sint n" and asc: "ascending xs"
    using assms(2) by (auto simp: ascending_def sorted_wrt_append)
  show ?thesis
  proof (cases "sint t < sint n")
    case True
    then show ?thesis
      using search_backwards_linked [OF assms(1) xs asc, of t] n
      by (simp add: program_search_lineno_def assms(3))
  next
    case False
    then have "\<forall>(c, k) \<in> set xs. sint k < sint t" using xs by force
    then have "first_line t (xs @ (a, n) # ys) = first_line t ((a, n) # ys)"
      unfolding first_line_def by (subst dropWhile_append2) auto
    then show ?thesis
      using search_forwards_linked [OF lk, of t] n False by (simp add: program_search_lineno_def assms(3))
  qed
qed

text \<open>C37. The search for a line number in a program with ascending numbers, from any current line, ends and finds the
  first line whose number is at least the one looked for, or \<open>NULL\<close> if there is none; with one exception:
  searching backwards, it returns \<open>NULL\<close> when the line to find is the first one of the program. So a loop
  back to the first line of a program ends with an error.\<close>

theorem program_search_lineno_correct:
  assumes "linked (ram b) 0 (xs @ (a, n) # ys)" "ascending (xs @ (a, n) # ys)" "program_current_line b = a"
  shows "program_search_lineno t b = Some
    (if sint t < sint n \<and> (\<forall>(c, k) \<in> set xs. sint t \<le> sint k) then 0 else first_line t (xs @ (a, n) # ys))"
  by (rule search_ok [OF assms])

section \<open>The program in memory\<close>

lemma unat_offset: "unat (a :: u16) + k < 65536 \<Longrightarrow> unat (a + of_nat k) = unat a + k"
  by (subst unat_add_lt) (simp_all add: unat_of_nat_u16)

lemma bytes_at_frame:
  "bytes_at m a bs \<Longrightarrow> unat a + length bs \<le> 65536
   \<Longrightarrow> (\<And>x. unat a \<le> unat x \<Longrightarrow> unat x < unat a + length bs \<Longrightarrow> m' x = m x) \<Longrightarrow> bytes_at m' a bs"
proof (rule bytes_atI)
  fix i
  assume "bytes_at m a bs" "unat a + length bs \<le> 65536" "i < length bs"
    "\<And>x. unat a \<le> unat x \<Longrightarrow> unat x < unat a + length bs \<Longrightarrow> m' x = m x"
  moreover have "unat (a + of_nat i) = unat a + i"
    using \<open>unat a + length bs \<le> 65536\<close> \<open>i < length bs\<close> by (intro unat_offset) simp
  ultimately show "m' (a + of_nat i) = bs ! i" using bytes_at_nth [of m a bs i] by simp
qed

lemma store16_at: "bytes_at (store16 a v m) a (put16 v)"
proof -
  have "a + 1 \<noteq> a" by simp
  then show ?thesis by (simp add: store16_def put16_def)
qed

lemma store16_other:
  assumes "unat a + 2 \<le> 65536" "unat x < unat a \<or> unat a + 2 \<le> unat x"
  shows "store16 a v m x = m x"
proof -
  have "unat (a + of_nat 1) = unat a + 1" using assms(1) by (intro unat_offset) simp
  then have "x \<noteq> a" "x \<noteq> a + 1" using assms(2) by auto
  then show ?thesis by (simp add: store16_def)
qed

lemma copy_bytes_ok:
  "bytes_at m src bs \<Longrightarrow> unat src + length bs \<le> unat dst \<Longrightarrow> unat dst + length bs \<le> 65536
   \<Longrightarrow> bytes_at (copy_bytes (length bs) dst src m) dst bs
     \<and> (\<forall>x. unat x < unat dst \<or> unat dst + length bs \<le> unat x \<longrightarrow> copy_bytes (length bs) dst src m x = m x)"
proof (induction bs arbitrary: src dst m)
  case (Cons b bs)
  define m0 where "m0 = m(dst := m src)"
  have m0: "m0 dst = b" "\<And>x. unat x \<noteq> unat dst \<Longrightarrow> m0 x = m x"
    using Cons.prems(1) by (auto simp: m0_def)
  have step: "copy_bytes (length (b # bs)) dst src m = copy_bytes (length bs) (dst + 1) (src + 1) m0"
    by (simp add: m0_def)
  have s: "unat (src + 1) = unat src + 1"
    using Cons.prems unat_offset [of src 1] by simp
  show ?case
  proof (cases "bs = []")
    case True
    then show ?thesis using m0(1) unfolding step by (auto intro!: m0(2))
  next
    case False
    then have "unat dst + 1 < 65536" using Cons.prems(3) by (cases bs) simp_all
    then have d: "unat (dst + 1) = unat dst + 1" using unat_offset [of dst 1] by simp
    have "bytes_at m (src + 1) bs" using Cons.prems(1) by simp
    then have "bytes_at m0 (src + 1) bs"
      by (rule bytes_at_frame) (use Cons.prems(2,3) s m0(2) in auto)
    from Cons.IH [OF this, of "dst + 1"] s d Cons.prems(2,3)
    have "bytes_at (copy_bytes (length bs) (dst + 1) (src + 1) m0) (dst + 1) bs"
      and keep: "\<And>x. unat x < unat dst + 1 \<or> unat dst + 1 + length bs \<le> unat x
        \<Longrightarrow> copy_bytes (length bs) (dst + 1) (src + 1) m0 x = m0 x"
      by auto
    moreover have "copy_bytes (length bs) (dst + 1) (src + 1) m0 x = m x"
      if "unat x < unat dst \<or> unat dst + length (b # bs) \<le> unat x" for x
      using keep [of x] that m0(2) [of x] by auto
    ultimately show ?thesis unfolding step using keep [of dst] m0(1) by simp
  qed
qed simp

text \<open>A program is a list of line numbers and statements. Its lines lie one behind the other.\<close>

type_synonym listing_lines = "(numeric_t \<times> bytes) list"

fun prog_bytes :: "u16 \<Rightarrow> u16 \<Rightarrow> listing_lines \<Rightarrow> u16 \<Rightarrow> bytes" where
  "prog_bytes prev a [] nxt = []"
| "prog_bytes prev a ((n, s) # ls) nxt =
     put16 n @ put16 prev @ put16 (if ls = [] then nxt else a + 6 + of_nat (length s)) @ s
     @ prog_bytes a (a + 6 + of_nat (length s)) ls nxt"

definition prog_size :: "listing_lines \<Rightarrow> nat" where
  "prog_size ls = sum_list (map (\<lambda>(n, s). 6 + length s) ls)"

fun last_line :: "u16 \<Rightarrow> u16 \<Rightarrow> listing_lines \<Rightarrow> u16" where
  "last_line prev a [] = prev"
| "last_line prev a ((n, s) # ls) = last_line a (a + 6 + of_nat (length s)) ls"

definition program_ok :: "basic \<Rightarrow> listing_lines \<Rightarrow> bool" where
  "program_ok b ls \<longleftrightarrow> 0 < unat (program_start b) \<and> unat (program_start b) + prog_size ls < 65536
     \<and> program_end_ptr b = program_start b + of_nat (prog_size ls)
     \<and> program_last_inserted_line b = last_line 0 (program_start b) ls
     \<and> bytes_at (ram b) (program_start b) (prog_bytes 0 (program_start b) ls 0)"

lemma prog_bytes_length [simp]: "length (prog_bytes prev a ls nxt) = prog_size ls"
  by (induction prev a ls nxt rule: prog_bytes.induct) (simp_all add: prog_size_def)

lemma prog_size_append [simp]: "prog_size (ls @ ks) = prog_size ls + prog_size ks"
  by (simp add: prog_size_def)

lemma prog_bytes_append:
  "prog_bytes prev a (ls @ [(n, s)]) nxt
   = prog_bytes prev a ls (a + of_nat (prog_size ls)) @ put16 n @ put16 (last_line prev a ls) @ put16 nxt @ s"
proof (induction prev a ls nxt rule: prog_bytes.induct)
  case (2 prev a k t ls nxt)
  then show ?case by (auto simp: prog_size_def add.assoc add.commute add.left_commute)
qed simp

lemma last_line_append:
  "last_line prev a (ls @ [(n, s)]) = a + of_nat (prog_size ls)"
  by (induction prev a ls rule: last_line.induct) (simp_all add: prog_size_def add.assoc add.left_commute)

text \<open>A line is written behind everything that is there already.\<close>

lemma new_line:
  fixes n prev x :: u16
  assumes "bytes_at m stmt s" "unat stmt + length s \<le> unat line" "unat line + 6 + length s \<le> 65536"
  defines "m' \<equiv> copy_bytes (length s) (line + 6) stmt
    (store16 (line + 4) 0 (store16 (line + 2) prev (store16 line n m)))"
  shows "bytes_at m' line (put16 n @ put16 prev @ put16 0 @ s)" and "unat x < unat line \<Longrightarrow> m' x = m x"
proof -
  define m1 where "m1 = store16 line n m"
  define m2 where "m2 = store16 (line + 2) prev m1"
  define m3 where "m3 = store16 (line + 4) 0 m2"
  have u: "unat (line + 2) = unat line + 2" "unat (line + 4) = unat line + 4"
    using unat_offset [of line 2] unat_offset [of line 4] assms(3) by simp_all
  have low1: "unat x < unat line \<Longrightarrow> m1 x = m x" for x
    using assms(3) unfolding m1_def by (intro store16_other) simp_all
  have low2: "unat x < unat line + 2 \<Longrightarrow> m2 x = m1 x" for x
    using assms(3) u unfolding m2_def by (intro store16_other) simp_all
  have low3: "unat x < unat line + 4 \<Longrightarrow> m3 x = m2 x" for x
    using assms(3) u unfolding m3_def by (intro store16_other) simp_all
  have m': "m' = copy_bytes (length s) (line + 6) stmt m3" by (simp add: m'_def m1_def m2_def m3_def)
  have b3: "bytes_at m3 (line + 4) (put16 0)" unfolding m3_def by (rule store16_at)
  have "bytes_at m2 (line + 2) (put16 prev)" unfolding m2_def by (rule store16_at)
  then have b2: "bytes_at m3 (line + 2) (put16 prev)"
    by (rule bytes_at_frame) (use assms(3) u low3 in simp_all)
  have "bytes_at m1 line (put16 n)" unfolding m1_def by (rule store16_at)
  then have "bytes_at m2 line (put16 n)" by (rule bytes_at_frame) (use assms(3) low2 in simp_all)
  then have b1: "bytes_at m3 line (put16 n)" by (rule bytes_at_frame) (use assms(3) low3 in simp_all)
  have hdr: "bytes_at m3 line (put16 n @ put16 prev @ put16 0)" using b1 b2 b3 by (simp add: add.assoc)
  have st: "bytes_at m3 stmt s"
    by (rule bytes_at_frame [OF assms(1)]) (use assms(2,3) low1 low2 low3 in simp_all)
  have both: "bytes_at m' (line + 6) s \<and> (unat x < unat line + 6 \<longrightarrow> m' x = m3 x)" for x
  proof (cases "s = []")
    case False
    then have "unat line + 6 < 65536" using assms(3) by (cases s) simp_all
    then have "unat (line + 6) = unat line + 6" using unat_offset [of line 6] by simp
    then show ?thesis using copy_bytes_ok [OF st, of "line + 6"] assms(2,3) m' by simp
  qed (simp add: m')
  have "bytes_at m' line (put16 n @ put16 prev @ put16 0)"
    using hdr both assms(3) by (intro bytes_at_frame [OF hdr]) simp_all
  then show "bytes_at m' line (put16 n @ put16 prev @ put16 0 @ s)" using both by (simp add: add.assoc)
  show "unat x < unat line \<Longrightarrow> m' x = m x" using both low1 low2 low3 by simp
qed

lemma token_size_encode:
  assumes "bytes_at m a (encode t)" "proper t"
  shows "token_size m a = of_nat (length (encode t))"
proof (cases t)
  case (Str s)
  have l: "length s + 1 < 256" "length s + 1 < 65536" using assms(2) Str by simp_all
  have "ucast (of_nat (length s + 1) :: u8) = (of_nat (length s + 1) :: u16)"
    by (intro word_unat_eq_iff [THEN iffD2])
      (simp only: unat_u8_u16 unat_of_nat_u8 [OF l(1)] unat_of_nat_u16 [OF l(2)])
  then show ?thesis using assms(1) Str by (simp add: token_size_def t_varlen_skip_def)
qed (use assms in \<open>simp_all add: token_size_def\<close>)

lemma statement_end_encoding:
  "bytes_at m a (encoding ts @ [TOK_TERMINATOR]) \<Longrightarrow> \<forall>t \<in> set ts. proper t
   \<Longrightarrow> statement_end m a = Some (a + of_nat (length (encoding ts @ [TOK_TERMINATOR])))"
proof (induction ts arbitrary: a)
  case Nil
  then show ?case by (subst statement_end.simps) (simp add: encoding_def)
next
  case (Cons t ts)
  then have at: "bytes_at m a (encode t)" and pr: "proper t"
    and rest: "bytes_at m (a + of_nat (length (encode t))) (encoding ts @ [TOK_TERMINATOR])"
    by (simp_all add: encoding_def add.assoc)
  from Cons.IH [OF rest] Cons.prems(2) token_size_encode [OF at pr] t_defs_list_encode(2) [OF at pr]
  show ?case by (subst statement_end.simps) (simp add: encoding_def add.assoc)
qed

lemma program_insert_ok:
  assumes "program_ok b ls" "bytes_at (ram b) toks (TOK_NUMERIC # put16 n @ s)"
    and "statement_end (ram b) (toks + 3) = Some (toks + 3 + of_nat (length s))"
    and "length s < 256" "unat toks + 3 + length s \<le> unat (program_start b)"
    and "unat (program_start b) + prog_size ls + 6 + length s < 65536"
  shows "\<exists>b'. program_insert toks b = Some (None, b') \<and> program_ok b' (ls @ [(n, s)])
    \<and> b' = b\<lparr>ram := ram b', program_last_inserted_line := program_last_inserted_line b',
        program_end_ptr := program_end_ptr b'\<rparr>"
proof -
  let ?m = "ram b"
  define a where "a = program_start b"
  define line where "line = a + of_nat (prog_size ls)"
  define last where "last = last_line 0 a ls"
  define m1 where "m1 = (if last \<noteq> 0 then store16 (last + 4) line ?m else ?m)"
  define m5 where "m5 = copy_bytes (length s) (line + 6) (toks + 3)
    (store16 (line + 4) 0 (store16 (line + 2) last (store16 line n m1)))"
  have ok: "0 < unat a" "program_end_ptr b = line" "program_last_inserted_line b = last"
    "bytes_at ?m a (prog_bytes 0 a ls 0)"
    using assms(1) by (simp_all add: program_ok_def a_def line_def last_def)
  have uline: "unat line = unat a + prog_size ls"
    unfolding line_def a_def using assms(6) by (intro unat_offset) simp
  have toks: "?m toks = TOK_NUMERIC" "load16 ?m (toks + 1) = n" "bytes_at ?m (toks + 3) s"
    using assms(2) load16_at [of ?m "toks + 1" n] by (simp_all add: add.assoc)
  have utoks: "unat (toks + 3) = unat toks + 3"
    using assms(5) unat_u16_less [of "program_start b"] unat_offset [of toks 3] by simp
  have sz: "statement_size ?m (toks + 3) = Some (of_nat (length s))"
  proof -
    have "ucast (of_nat (length s) :: u16) = (of_nat (length s) :: u8)"
      using assms(4) by (intro word_unat_eq_iff [THEN iffD2])
        (simp add: unat_u16_u8 unat_of_nat_u16 unat_of_nat_u8)
    then show ?thesis by (simp add: statement_size_def assms(3))
  qed
  have usz: "unat (of_nat (length s) :: u8) = length s" "ucast (of_nat (length s) :: u8) = (of_nat (length s) :: u16)"
  proof -
    show u: "unat (of_nat (length s) :: u8) = length s" using assms(4) by (rule unat_of_nat_u8)
    show "ucast (of_nat (length s) :: u8) = (of_nat (length s) :: u16)"
      using assms(4) by (intro word_unat_eq_iff [THEN iffD2]) (simp add: unat_u8_u16 u unat_of_nat_u16)
  qed
  have old: "bytes_at m1 a (prog_bytes 0 a ls line) \<and> (\<forall>x. unat x < unat a \<longrightarrow> m1 x = ?m x)"
  proof (cases ls rule: rev_cases)
    case Nil
    then show ?thesis by (simp add: m1_def last_def)
  next
    case (snoc ls0 l)
    obtain k t where l: "l = (k, t)" by (cases l)
    have split: "prog_bytes 0 a ls nxt = prog_bytes 0 a ls0 (a + of_nat (prog_size ls0)) @ put16 k
        @ put16 (last_line 0 a ls0) @ put16 nxt @ t" for nxt
      by (simp add: snoc l prog_bytes_append)
    have last: "last = a + of_nat (prog_size ls0)" by (simp add: last_def snoc l last_line_append)
    have size: "prog_size ls = prog_size ls0 + 6 + length t" by (simp add: snoc l prog_size_def)
    have ulast: "unat last = unat a + prog_size ls0"
      unfolding last a_def using assms(6) size by (intro unat_offset) simp
    then have ulast4: "unat (last + 4) = unat a + prog_size ls0 + 4"
      using unat_offset [of last 4] assms(6) size by (simp add: a_def)
    have ulast6: "t \<noteq> [] \<Longrightarrow> unat (last + 6) = unat a + prog_size ls0 + 6"
      using unat_offset [of last 6] ulast assms(6) size by (simp add: a_def)
    have "last \<noteq> 0" using ulast ok(1) by auto
    then have m1: "m1 = store16 (last + 4) line ?m" by (simp add: m1_def)
    have keep: "unat x < unat a + prog_size ls0 + 4 \<or> unat a + prog_size ls0 + 6 \<le> unat x \<Longrightarrow> m1 x = ?m x" for x
      unfolding m1 using ulast4 assms(6) size by (intro store16_other) (auto simp: a_def)
    have parts: "bytes_at ?m a (prog_bytes 0 a ls0 (a + of_nat (prog_size ls0)) @ put16 k @ put16 (last_line 0 a ls0))"
      "bytes_at ?m (last + 6) t"
      using ok(4) by (simp_all add: split last add.assoc)
    have "bytes_at m1 a (prog_bytes 0 a ls0 (a + of_nat (prog_size ls0)) @ put16 k @ put16 (last_line 0 a ls0))"
      using keep assms(6) size by (intro bytes_at_frame [OF parts(1)]) (simp_all add: a_def)
    moreover have "bytes_at m1 (last + 4) (put16 line)" unfolding m1 by (rule store16_at)
    moreover have "bytes_at m1 (last + 6) t"
    proof (cases "t = []")
      case False
      then show ?thesis
        using keep assms(6) size ulast6 by (intro bytes_at_frame [OF parts(2)]) (simp_all add: a_def)
    qed simp
    ultimately show ?thesis using keep by (simp add: split last add.assoc)
  qed
  have st: "bytes_at m1 (toks + 3) s"
    using old assms(5) utoks unat_u16_less [of "program_start b"]
    by (intro bytes_at_frame [OF toks(3)]) (auto simp: a_def)
  have room: "unat (toks + 3) + length s \<le> unat line" "unat line + 6 + length s \<le> 65536"
    using assms(5,6) utoks uline by (simp_all add: a_def)
  have new: "bytes_at m5 line (put16 n @ put16 last @ put16 0 @ s)"
    unfolding m5_def by (rule new_line(1) [OF st room])
  have keep: "unat x < unat line \<Longrightarrow> m5 x = m1 x" for x
    unfolding m5_def by (rule new_line(2) [OF st room])
  have "bytes_at m5 a (prog_bytes 0 a ls line)"
    by (rule bytes_at_frame [of m1]) (use keep uline assms(6) old in \<open>simp_all add: a_def\<close>)
  then have bytes: "bytes_at m5 a (prog_bytes 0 a (ls @ [(n, s)]) 0)"
    using new by (simp add: prog_bytes_append line_def last_def add.assoc)
  define b' where "b' = b\<lparr>ram := m5, program_last_inserted_line := line,
    program_end_ptr := line + of_nat (length s) + 6\<rparr>"
  have "program_insert toks b = Some (None, b')"
    unfolding program_insert_def Let_def
    by (simp add: toks(1,2) sz ok(2,3) usz PROG_STMT_def b'_def m5_def m1_def)
  moreover have "program_ok b' (ls @ [(n, s)])"
    using bytes assms(6) ok(1)
    by (simp add: program_ok_def b'_def a_def [symmetric] last_line_append line_def prog_size_def
        add.assoc add.left_commute add.commute)
  ultimately show ?thesis by (intro exI [of _ b']) (simp add: b'_def)
qed

text \<open>A program given by its tokens.\<close>

definition coded :: "(numeric_t \<times> token list) list \<Rightarrow> listing_lines" where
  "coded ps = map (\<lambda>(n, ts). (n, encoding ts @ [TOK_TERMINATOR])) ps"

fun line_addrs :: "u16 \<Rightarrow> listing_lines \<Rightarrow> (u16 \<times> numeric_t) list" where
  "line_addrs a [] = []"
| "line_addrs a ((n, s) # ls) = (a, n) # line_addrs (a + 6 + of_nat (length s)) ls"

lemma prog_header:
  assumes "bytes_at m a (prog_bytes prev a ((n, s) # ls) nxt)"
  shows "PROG_LINENO m a = n" "PROG_PREV m a = prev"
    "PROG_NEXT m a = (if ls = [] then nxt else a + 6 + of_nat (length s))"
    "bytes_at m (PROG_STMT a) s" "bytes_at m (a + 6 + of_nat (length s)) (prog_bytes a (a + 6 + of_nat (length s)) ls nxt)"
proof -
  have "bytes_at m a (put16 n)" "bytes_at m (a + 2) (put16 prev)"
    "bytes_at m (a + 4) (put16 (if ls = [] then nxt else a + 6 + of_nat (length s)))"
    "bytes_at m (a + 6) s" "bytes_at m (a + 6 + of_nat (length s)) (prog_bytes a (a + 6 + of_nat (length s)) ls nxt)"
    using assms by (auto simp: add.assoc)
  then show "PROG_LINENO m a = n" "PROG_PREV m a = prev"
    "PROG_NEXT m a = (if ls = [] then nxt else a + 6 + of_nat (length s))"
    "bytes_at m (PROG_STMT a) s" "bytes_at m (a + 6 + of_nat (length s)) (prog_bytes a (a + 6 + of_nat (length s)) ls nxt)"
    by (simp_all only: PROG_LINENO_def PROG_PREV_def PROG_NEXT_def PROG_STMT_def load16_at)
qed

lemma next_line_unat:
  fixes a :: u16
  assumes "unat a + prog_size ((n, s) # ls) < 65536"
  shows "unat (a + 6 + of_nat (length s)) = unat a + 6 + length s"
  using assms unat_offset [of a "6 + length s"] by (simp add: prog_size_def add.assoc)

lemma prog_linked:
  "bytes_at m a (prog_bytes prev a ls 0) \<Longrightarrow> 0 < unat a \<Longrightarrow> unat a + prog_size ls < 65536
   \<Longrightarrow> linked m prev (line_addrs a ls)"
proof (induction a ls arbitrary: prev rule: line_addrs.induct)
  case (2 a n s ls)
  let ?b = "a + 6 + of_nat (length s)"
  note hdr = prog_header [OF 2(2)]
  have "linked m a (line_addrs ?b ls)"
    using 2(4) next_line_unat [OF 2(4)] by (intro 2(1) hdr(5)) (simp_all add: prog_size_def)
  moreover have "first_address (line_addrs ?b ls) = (if ls = [] then 0 else ?b)"
    by (cases ls) auto
  moreover have "a \<noteq> 0" using 2(3) by auto
  ultimately show ?case using hdr by simp
qed simp

lemma program_insert_coded:
  assumes "program_ok b (coded ps)"
    and "bytes_at (ram b) toks (TOK_NUMERIC # put16 n @ encoding ts @ [TOK_TERMINATOR])" "\<forall>t \<in> set ts. proper t"
    and "length (encoding ts) < 255" "unat toks + 4 + length (encoding ts) \<le> unat (program_start b)"
    and "unat (program_start b) + prog_size (coded (ps @ [(n, ts)])) < 65536"
  shows "\<exists>b'. program_insert toks b = Some (None, b') \<and> program_ok b' (coded (ps @ [(n, ts)]))
    \<and> b' = b\<lparr>ram := ram b', program_last_inserted_line := program_last_inserted_line b',
        program_end_ptr := program_end_ptr b'\<rparr>"
proof -
  let ?s = "encoding ts @ [TOK_TERMINATOR]"
  have "bytes_at (ram b) (toks + 3) ?s" using assms(2) by (simp add: add.assoc)
  from statement_end_encoding [OF this assms(3)] program_insert_ok [OF assms(1), of toks n ?s] assms(2,4-6)
  show ?thesis by (simp add: coded_def prog_size_def add.assoc)
qed

text \<open>Typing a line adds it to the program: \<open>program_insert\<close> on a line of tokens with a number
  in front, in a buffer below the program region, writes it behind the last line and links it, whatever its number
  is; the lines before it stay as they are, and so do the variables. The room in the region is a
  hypothesis, since the code does not check it.\<close>

theorem program_insert_appends:
  assumes "program_ok b (coded ps)"
    and "bytes_at (ram b) toks (TOK_NUMERIC # put16 n @ encoding ts @ [TOK_TERMINATOR])" "\<forall>t \<in> set ts. proper t"
    and "length (encoding ts) < 255" "unat toks + 4 + length (encoding ts) \<le> unat (program_start b)"
    and "unat (program_start b) + prog_size (coded (ps @ [(n, ts)])) < 65536"
  shows "\<exists>b'. program_insert toks b = Some (None, b') \<and> program_ok b' (coded (ps @ [(n, ts)]))
    \<and> b' = b\<lparr>ram := ram b', program_last_inserted_line := program_last_inserted_line b',
        program_end_ptr := program_end_ptr b'\<rparr>"
  using assms by (rule program_insert_coded)

lemma program_list_from_coded:
  "bytes_at m a (prog_bytes prev a (coded ps) 0) \<Longrightarrow> ps \<noteq> [] \<Longrightarrow> 0 < unat a \<Longrightarrow> unat a + prog_size (coded ps) < 65536
   \<Longrightarrow> \<forall>(n, ts) \<in> set ps. n \<noteq> 0 \<and> (\<forall>t \<in> set ts. proper t)
   \<Longrightarrow> program_list_from m a
     = Some (concat (map (\<lambda>(n, ts). print_d n @ of_char (CHR '' '') # listing ts @ [13, 10]) ps))"
proof (induction ps arbitrary: prev a)
  case (Cons p ps)
  obtain n ts where p: "p = (n, ts)" by (cases p)
  let ?s = "encoding ts @ [TOK_TERMINATOR]"
  let ?b = "a + 6 + of_nat (length ?s)"
  have cod: "coded (p # ps) = (n, ?s) # coded ps" by (simp add: coded_def p)
  note hdr = prog_header [OF Cons.prems(1) [unfolded cod]]
  have stmt: "program_list_stmt m (PROG_STMT a) = Some (listing ts @ [13, 10])"
    using Cons.prems(5) by (intro program_list_stmt_encoding hdr(4)) (simp add: p)
  have u: "unat ?b = unat a + 6 + length ?s" by (rule next_line_unat [OF Cons.prems(4) [unfolded cod]])
  have "a \<noteq> 0" using Cons.prems(3) by auto
  show ?case
  proof (cases "ps = []")
    case True
    have "program_list_from m 0 = Some []" by (subst program_list_from.simps) simp
    then show ?thesis
      using hdr stmt True \<open>a \<noteq> 0\<close> Cons.prems(5)
      by (subst program_list_from.simps) (simp add: p coded_def)
  next
    case False
    have "program_list_from m ?b
        = Some (concat (map (\<lambda>(n, ts). print_d n @ of_char (CHR '' '') # listing ts @ [13, 10]) ps))"
      using Cons.prems u False by (intro Cons.IH [OF hdr(5)]) (auto simp: cod prog_size_def)
    then show ?thesis
      using hdr(1,3) stmt False \<open>a \<noteq> 0\<close> Cons.prems(5)
      by (subst program_list_from.simps) (simp add: p coded_def)
  qed
qed simp

text \<open>\<open>LIST\<close> prints the lines of the program in the order in which they were typed, each with its number.\<close>

theorem program_list_prints:
  assumes "program_ok b (coded ps)" "ps \<noteq> []" "\<forall>(n, ts) \<in> set ps. n \<noteq> 0 \<and> (\<forall>t \<in> set ts. proper t)"
  shows "program_list b = Some (b\<lparr>console := console b
    @ concat (map (\<lambda>(n, ts). print_d n @ of_char (CHR '' '') # listing ts @ [13, 10]) ps)\<rparr>)"
proof -
  have "bytes_at (ram b) (program_start b) (prog_bytes 0 (program_start b) (coded ps) 0)"
    using assms(1) by (simp add: program_ok_def)
  from program_list_from_coded [OF this assms(2) _ _ assms(3)] assms(1) show ?thesis
    by (simp add: program_list_def program_ok_def)
qed

text \<open>An interpreter with a program at \<open>0x9000\<close>, and one with an empty program and a line in a buffer
  at \<open>0x8000\<close>.\<close>

definition stored :: "tokmem \<Rightarrow> listing_lines \<Rightarrow> basic" where
  "stored m ls = \<lparr>ram = m, program_start = 0x9000, program_max = 0xf000,
     program_end_ptr = 0x9000 + of_nat (prog_size ls), program_running = False,
     program_registers = replicate 26 \<lparr>reg_defined = False, reg_value = 0\<rparr>,
     program_context = [], program_return_stack = [],
     program_current_line = 0x9000, program_last_inserted_line = last_line 0 0x9000 ls, program_next_line = 0,
     rnd = 1, console = []\<rparr>"

definition example_program :: "(numeric_t \<times> token list) list" where
  "example_program = [(10, [Kw 1, Str (ascii ''HI'')]), (20, [Reg 0, Op 2, Reg 0, Op 1, Num 1]), (30, [Kw 6, Num 10])]"

definition example_stored :: basic where
  "example_stored = stored (ram_of 0x9000 (prog_bytes 0 0x9000 (coded example_program) 0)) (coded example_program)"

lemma example_prog_size: "prog_size (coded example_program) = 44"
  by (simp add: example_program_def coded_def prog_size_def encoding_def)

lemma example_stored_ok: "program_ok example_stored (coded example_program)"
proof -
  have "bytes_at (ram_of 0x9000 (prog_bytes 0 0x9000 (coded example_program) 0)) 0x9000
      (prog_bytes 0 0x9000 (coded example_program) 0)"
    by (rule bytes_at_ram_of) (simp add: example_prog_size)
  then show ?thesis by (simp add: example_stored_def stored_def program_ok_def example_prog_size)
qed

lemma example_linked:
  "linked (ram example_stored) 0 (line_addrs 0x9000 (coded example_program))"
  "line_addrs 0x9000 (coded example_program) = [(0x9000, 10), (0x900e, 20), (0x9020, 30)]"
proof -
  have "bytes_at (ram example_stored) 0x9000 (prog_bytes 0 0x9000 (coded example_program) 0)"
    using example_stored_ok by (simp add: program_ok_def example_stored_def stored_def)
  then show "linked (ram example_stored) 0 (line_addrs 0x9000 (coded example_program))"
    by (rule prog_linked) (simp_all add: example_prog_size)
  show "line_addrs 0x9000 (coded example_program) = [(0x9000, 10), (0x900e, 20), (0x9020, 30)]"
    by (simp add: example_program_def coded_def encoding_def)
qed

lemma program_list_prints_witness:
  "program_list example_stored = Some (example_stored\<lparr>console := console example_stored
    @ concat (map (\<lambda>(n, ts). print_d n @ of_char (CHR '' '') # listing ts @ [13, 10]) example_program)\<rparr>)"
  by (rule program_list_prints [OF example_stored_ok]) (simp_all add: example_program_def)

text \<open>From line 30, line 20 is found, but not line 10.\<close>

lemma program_search_lineno_correct_witness:
  "program_search_lineno 20 (example_stored\<lparr>program_current_line := 0x9020\<rparr>) = Some 0x900e
   \<and> program_search_lineno 10 (example_stored\<lparr>program_current_line := 0x9020\<rparr>) = Some 0"
  using program_search_lineno_correct
      [of "example_stored\<lparr>program_current_line := 0x9020\<rparr>" "[(0x9000, 10), (0x900e, 20)]" "0x9020" 30 "[]" 20]
    program_search_lineno_correct
      [of "example_stored\<lparr>program_current_line := 0x9020\<rparr>" "[(0x9000, 10), (0x900e, 20)]" "0x9020" 30 "[]" 10]
    example_linked
  by (simp add: ascending_def first_line_def)

lemma program_insert_appends_witness:
  "\<exists>b'. program_insert 0x8000 (stored (ram_of 0x8000 (TOK_NUMERIC # put16 10 @ encoding [Kw 6, Num 10] @ [0])) [])
     = Some (None, b') \<and> program_ok b' (coded [(10, [Kw 6, Num 10])])"
proof -
  let ?b = "stored (ram_of 0x8000 (TOK_NUMERIC # put16 10 @ encoding [Kw 6, Num 10] @ [0])) []"
  have "program_ok ?b (coded [])" by (simp add: stored_def program_ok_def coded_def prog_size_def)
  moreover have "bytes_at (ram ?b) 0x8000 (TOK_NUMERIC # put16 10 @ encoding [Kw 6, Num 10] @ [0])"
    unfolding stored_def basic.simps by (rule bytes_at_ram_of) (simp add: encoding_def)
  ultimately show ?thesis
    using program_insert_appends [of ?b "[]" "0x8000" 10 "[Kw 6, Num 10]"]
    by (auto simp: encoding_def stored_def coded_def prog_size_def)
qed

section \<open>What is left behind\<close>

text \<open>\<open>NEW\<close> does not erase: the old program is still listed, and run, since both start at
  \<open>program_start\<close> whether or not a line has been typed.\<close>

lemma new_keeps_program:
  "map_option console (program_list (program_new b)) = map_option console (program_list b)"
  "program_run_init (program_new b) = program_new (program_run_init b)
     \<lparr>program_running := True, program_next_line := program_start b\<rparr>"
  by (cases "program_list_from (ram b) (program_start b)"; simp add: program_list_def program_new_def)
    (simp add: program_run_init_def program_new_def)

text \<open>C38. A \<open>GOTO\<close> is searched once: after it has been executed, its statement is a \<open>JUMPTO\<close> that
  leads to the line found then, from whatever line it is executed, and without a search.\<close>

theorem goto_becomes_jumpto:
  assumes "bytes_at (ram b) stmt [TOK_KEYWORD, KEYWORD_GOTO, TOK_NUMERIC, lo, hi]"
    and "statement_interpret n stmt b = Some (None, b')" "ram c = ram b'"
  shows "statement_interpret n stmt c = Some (None, c\<lparr>program_next_line := program_next_line b'\<rparr>)"
proof (cases n)
  case (Suc k)
  have at: "ram b stmt = TOK_KEYWORD" "ram b (stmt + 1) = KEYWORD_GOTO" "ram b (stmt + 2) = TOK_NUMERIC"
    using assms(1) by (simp_all add: add.assoc)
  have "do_goto (stmt + 2) b = Some (None, b')"
    using assms(2) at by (simp add: Suc interpret_statement_def t_keyword_interpret_def)
  then obtain line where b': "b' = b\<lparr>program_next_line := line,
      ram := store16 (stmt + 3) line ((ram b)(stmt + 1 := KEYWORD_JUMPTO))\<rparr>"
    using at by (auto simp: do_goto_def program_transfer_control_def add.commute split: bind_splits)
  let ?m = "store16 (stmt + 3) line ((ram b)(stmt + 1 := KEYWORD_JUMPTO))"
  have ne: "stmt \<noteq> stmt + 3" "stmt \<noteq> stmt + 4" "stmt + 1 \<noteq> stmt + 3" "stmt + 1 \<noteq> stmt + 4"
    "stmt + 2 \<noteq> stmt + 3" "stmt + 2 \<noteq> stmt + 4" "stmt \<noteq> stmt + 1" "stmt + 2 \<noteq> stmt + 1"
    by simp_all
  have "?m stmt = TOK_KEYWORD" "?m (stmt + 1) = KEYWORD_JUMPTO" "?m (stmt + 2) = TOK_NUMERIC"
    using ne at by (simp_all add: store16_def)
  moreover have "load16 ?m (stmt + 3) = line"
    by (rule load16_at) (rule store16_at)
  ultimately show ?thesis
    using assms(3)
    by (simp add: Suc interpret_statement_def t_keyword_interpret_def do_jumpto_def b' add.assoc
        program_transfer_control_direct_def)
qed (use assms(2) in simp)

text \<open>Line 30 of the example, \<open>GOTO 10\<close>, executed by hand first and then by the program.\<close>

lemma goto_becomes_jumpto_witness:
  "\<exists>b'. statement_interpret 1 0x9026 example_stored = Some (None, b')
    \<and> statement_interpret 1 0x9026 (b'\<lparr>program_current_line := 0x9020\<rparr>)
      = Some (None, b'\<lparr>program_current_line := 0x9020, program_next_line := 0x9000\<rparr>)"
proof -
  let ?b = example_stored
  have "bytes_at (ram ?b) 0x9000 (prog_bytes 0 0x9000 (coded example_program) 0)"
    using example_stored_ok by (simp add: program_ok_def example_stored_def stored_def)
  then have at: "bytes_at (ram ?b) 0x9026 [TOK_KEYWORD, KEYWORD_GOTO, TOK_NUMERIC, 10, 0]"
    by (simp add: example_program_def coded_def encoding_def put16_def)
  have "program_search_lineno 10 ?b = Some 0x9000"
    using search_ok [of ?b "[]" "0x9000" 10 "[(0x900e, 20), (0x9020, 30)]" 10] example_linked
    by (simp add: ascending_def first_line_def example_stored_def stored_def)
  moreover have "load16 (ram ?b) 0x9029 = 10" using at by (simp add: load16_def)
  ultimately obtain b' where b': "statement_interpret 1 0x9026 ?b = Some (None, b')" "program_next_line b' = 0x9000"
    using at by (simp add: interpret_statement_def t_keyword_interpret_def do_goto_def program_transfer_control_def)
  with goto_becomes_jumpto [OF at b'(1), of "b'\<lparr>program_current_line := 0x9020\<rparr>"] show ?thesis
    by (intro exI [of _ b']) simp
qed

end
