(* ===== verification/Basic_Run_Claims.thy ===== *)
theory Basic_Run_Claims
  imports Basic_Program_Claims
begin

text \<open>
  Running programs: the \<open>FOR\<close> loop, the return stack, and the effects of \<open>ERROR_HANDLE\<close> and of the
  definition of variables on the fly.
\<close>

section \<open>The FOR loop\<close>

definition for_program :: "u8 \<Rightarrow> numeric_t \<Rightarrow> numeric_t \<Rightarrow> (numeric_t \<times> numeric_t \<times> numeric_t)
    \<Rightarrow> (numeric_t \<times> token list) list" where
  "for_program r start limit ns = (case ns of (n1, n2, n3) \<Rightarrow>
     [(n1, [Kw KEYWORD_FOR, Reg r, Op OP_EQUAL, Num start, Kw KEYWORD_TO, Num limit]),
      (n2, [Kw KEYWORD_NEXT, Reg r]), (n3, [Kw KEYWORD_END])])"

text \<open>The states of the loop: the register, the current and the next line and the return stack.\<close>

definition loop_state :: "basic \<Rightarrow> u8 \<Rightarrow> numeric_t \<Rightarrow> u16 \<Rightarrow> u16 \<Rightarrow> (u16 \<times> u16) list \<Rightarrow> basic" where
  "loop_state b r v cur nxt stack = b\<lparr>program_running := True,
     program_registers := (program_registers b)[unat r := (program_registers b ! unat r)\<lparr>reg_value := v\<rparr>],
     program_context := [], program_return_stack := stack, program_current_line := cur, program_next_line := nxt\<rparr>"

text \<open>What the memory holds: the three lines at \<open>a\<close>, \<open>a + 21\<close> and \<open>a + 32\<close>.\<close>

definition for_lines :: "tokmem \<Rightarrow> u16 \<Rightarrow> u8 \<Rightarrow> numeric_t \<Rightarrow> numeric_t \<Rightarrow> bool" where
  "for_lines m a r start limit \<longleftrightarrow>
     PROG_NEXT m a = a + 21 \<and> PROG_NEXT m (a + 21) = a + 32 \<and> a \<noteq> 0 \<and> a + 21 \<noteq> 0 \<and> a + 32 \<noteq> 0 \<and> a + 8 \<noteq> 0 \<and> a + 29 \<noteq> 0
     \<and> m (a + 6) = TOK_KEYWORD \<and> m (a + 7) = KEYWORD_FOR \<and> m (a + 8) = TOK_REGISTER \<and> m (a + 9) = r
     \<and> m (a + 10) = TOK_OPERATOR \<and> m (a + 11) = OP_EQUAL \<and> m (a + 12) = TOK_NUMERIC \<and> load16 m (a + 13) = start
     \<and> m (a + 15) = TOK_KEYWORD \<and> m (a + 16) = KEYWORD_TO \<and> m (a + 17) = TOK_NUMERIC \<and> load16 m (a + 18) = limit
     \<and> m (a + 27) = TOK_KEYWORD \<and> m (a + 28) = KEYWORD_NEXT \<and> m (a + 29) = TOK_REGISTER \<and> m (a + 30) = r
     \<and> m (a + 38) = TOK_KEYWORD \<and> m (a + 39) = KEYWORD_END"

lemma for_lines_program:
  assumes "program_ok b (coded (for_program r start limit ns))"
  shows "for_lines (ram b) (program_start b) r start limit"
proof -
  obtain n1 n2 n3 where ns: "ns = (n1, n2, n3)" by (cases ns)
  define a where "a = program_start b"
  let ?s1 = "encoding [Kw KEYWORD_FOR, Reg r, Op OP_EQUAL, Num start, Kw KEYWORD_TO, Num limit] @ [0]"
  let ?s2 = "encoding [Kw KEYWORD_NEXT, Reg r] @ [0]" and ?s3 = "encoding [Kw KEYWORD_END] @ [0]"
  have cod: "coded (for_program r start limit ns) = [(n1, ?s1), (n2, ?s2), (n3, ?s3)]"
    by (simp add: coded_def for_program_def ns)
  have len: "length ?s1 = 15" "length ?s2 = 5" "length ?s3 = 3"
    by (simp_all add: encoding_def)
  have "bytes_at (ram b) a (prog_bytes 0 a [(n1, ?s1), (n2, ?s2), (n3, ?s3)] 0)"
    using assms by (simp add: program_ok_def cod a_def)
  note l1 = prog_header [OF this]
  have a21: "a + 6 + of_nat (length ?s1) = a + 21" unfolding len by (simp add: add.assoc)
  note l2 = prog_header [OF l1(5) [unfolded a21]]
  have a32: "a + 21 + 6 + of_nat (length ?s2) = a + 32" unfolding len by (simp add: add.assoc)
  note l3 = prog_header [OF l2(5) [unfolded a32]]
  have "prog_size (coded (for_program r start limit ns)) = 41"
    unfolding cod prog_size_def by (simp only: list.map sum_list.Cons sum_list.Nil case_prod_conv len)
  then have room: "0 < unat a" "unat a + 41 < 65536"
    using assms by (simp_all only: program_ok_def a_def)
  have nz: "a + k \<noteq> 0" if "unat k \<le> 41" for k :: u16
  proof -
    have "unat (a + k) = unat a + unat k" using room that by (intro unat_add_lt) simp
    then show ?thesis using room(1) by auto
  qed
  have s1: "bytes_at (ram b) (a + 6) ?s1" and s2: "bytes_at (ram b) (a + 27) ?s2" and s3: "bytes_at (ram b) (a + 38) ?s3"
    using l1(4) l2(4) l3(4) by (simp_all only: PROG_STMT_def add.assoc) (simp_all del: bytes_at_append)
  have v: "load16 (ram b) (a + 13) = start" "load16 (ram b) (a + 18) = limit"
    using s1 by (auto intro!: load16_at simp: encoding_def add.assoc)
  show ?thesis
    using l1(3) l2(3) a21 a32 nz [of 0] nz [of 21] nz [of 32] nz [of 8] nz [of 29] s1 s2 s3 v
    unfolding for_lines_def a_def [symmetric] by (simp add: encoding_def add.assoc)
qed

lemma loop_state_simps [simp]:
  "ram (loop_state b r v cur nxt stack) = ram b" "program_next_line (loop_state b r v cur nxt stack) = nxt"
  "program_current_line (loop_state b r v cur nxt stack) = cur"
  "program_return_stack (loop_state b r v cur nxt stack) = stack"
  "program_running (loop_state b r v cur nxt stack)"
  "(loop_state b r v cur nxt stack)\<lparr>program_current_line := cur'\<rparr> = loop_state b r v cur' nxt stack"
  "(loop_state b r v cur nxt stack)\<lparr>program_next_line := nxt'\<rparr> = loop_state b r v cur nxt' stack"
  "(loop_state b r v cur nxt stack)\<lparr>program_return_stack := stack'\<rparr> = loop_state b r v cur nxt stack'"
  by (simp_all add: loop_state_def)

lemma loop_state_ref:
  assumes "basic_ok b" "unat r < 26" "ram b a = TOK_REGISTER" "ram b (a + 1) = r"
  shows "program_get_numeric a (loop_state b r v cur nxt stack) = Some (Inr v)"
    and "program_set_numeric a w (loop_state b r v cur nxt stack) = Some (None, loop_state b r w cur nxt stack)"
  using assms by (simp_all add: program_get_numeric_def program_set_numeric_def program_get_numeric_ref_def
      loop_state_def basic_ok_def)

lemma for_step:
  assumes "for_lines (ram b) a r start limit" "basic_ok b" "unat r < 26"
    and "stack = [] \<and> w = start \<and> sint start < sint limit \<or> stack = [(a + 21, a + 8)] \<and> w = v + 1"
  shows "statement_interpret (Suc n) (a + 6) (loop_state b r v a nxt stack)
    = Some (None, if sint limit \<le> sint w then loop_state b r w a (a + 32) []
                  else loop_state b r w a nxt [(a, a + 8)])"
proof -
  let ?S = "loop_state b r v a nxt stack"
  have toks: "ram b (a + 6) = TOK_KEYWORD" "ram b (a + 7) = KEYWORD_FOR" "ram b (a + 8) = TOK_REGISTER" "ram b (a + 9) = r"
    "OP_CHECK (ram b) (a + 10) OP_EQUAL" "ram b (a + 12) = TOK_NUMERIC" "load16 (ram b) (a + 13) = start"
    "KW_CHECK (ram b) (a + 15) KEYWORD_TO" "ram b (a + 17) = TOK_NUMERIC" "load16 (ram b) (a + 18) = limit"
    "PROG_NEXT (ram b) (a + 21) = a + 32" "a + 8 \<noteq> 0"
    using assms(1) by (simp_all add: for_lines_def OP_CHECK_def KW_CHECK_def add.assoc)
  have "statement_interpret (Suc n) (a + 6) ?S = for_loop (a + 8) start limit ?S"
    using toks by (simp add: interpret_statement_def t_keyword_interpret_def do_for_def skip_variable_def add.assoc)
  also have "\<dots> = Some (None, if sint limit \<le> sint w then loop_state b r w a (a + 32) []
      else loop_state b r w a nxt [(a, a + 8)])"
    using assms(4) toks loop_state_ref [OF assms(2,3) toks(3)]
    by (auto simp: for_loop_def program_pop_return_def varcmp_def program_push_return_def
        program_transfer_control_direct_def program_get_current_line_def add.assoc)
  finally show ?thesis .
qed

lemma next_step:
  assumes "for_lines (ram b) a r start limit"
  shows "statement_interpret (Suc n) (a + 27) (loop_state b r v (a + 21) nxt [(a, a + 8)])
    = Some (None, loop_state b r v (a + 21) a [(a + 21, a + 8)])"
proof -
  have toks: "ram b (a + 27) = TOK_KEYWORD" "ram b (a + 28) = KEYWORD_NEXT" "ram b (a + 29) = TOK_REGISTER"
    "ram b (a + 30) = r" "ram b (a + 8) = TOK_REGISTER" "ram b (a + 9) = r" "a + 8 \<noteq> 0" "a + 29 \<noteq> 0"
    using assms by (simp_all add: for_lines_def)
  then show ?thesis
    by (simp add: interpret_statement_def t_keyword_interpret_def do_next_def program_pop_return_def varcmp_def
        program_push_return_def program_get_current_line_def program_transfer_control_direct_def add.assoc)
qed

lemma end_step:
  assumes "for_lines (ram b) a r start limit" "ram S = ram b"
  shows "statement_interpret (Suc n) (a + 38) S = Some (program_end None S)"
  using assms by (simp add: for_lines_def interpret_statement_def t_keyword_interpret_def add.assoc)

lemma run_step:
  assumes "program_next_line b = line" "line \<noteq> 0" "ram b (line + 6) = TOK_KEYWORD"
    and "interp (line + 6) (b\<lparr>program_current_line := line, program_next_line := PROG_NEXT (ram b) line\<rparr>)
      = Some (None, b2)" "program_running b2" "program_next_line b2 \<noteq> 0"
  shows "run_loop interp (Suc n) b = run_loop interp n b2"
  using assms by (simp add: PROG_STMT_def)

text \<open>From the top of the loop, with \<open>k\<close> rounds to go.\<close>

lemma for_rounds:
  assumes "for_lines (ram b) a r start limit" "basic_ok b" "unat r < 26"
  shows "sint v < sint limit \<Longrightarrow> k = nat (sint limit - sint v) \<Longrightarrow> 2 * k + 2 \<le> n
    \<Longrightarrow> run_loop (statement_interpret (Suc m)) n (loop_state b r v cur (a + 21) [(a, a + 8)])
      = Some (None, (loop_state b r limit (a + 32) (PROG_NEXT (ram b) (a + 32)) [])\<lparr>program_running := False\<rparr>)"
proof (induction k arbitrary: v n cur)
  case 0
  then show ?case by simp
next
  case (Suc k)
  note lines = assms(1) [unfolded for_lines_def]
  define n1 where "n1 = n - 2"
  have n: "n = Suc (Suc n1)" "2 * k + 2 \<le> n1" using Suc.prems(3) by (simp_all add: n1_def)
  have v1: "sint (v + 1) = sint v + 1"
    using Suc.prems(1) sint_greater_eq [of v] sint_less [of limit]
    by (simp add: signed_take_bit_int_eq_self sint_word_ariths)
  have "run_loop (statement_interpret (Suc m)) n (loop_state b r v cur (a + 21) [(a, a + 8)])
      = run_loop (statement_interpret (Suc m)) (Suc n1) (loop_state b r v (a + 21) a [(a + 21, a + 8)])"
    unfolding n(1) using lines next_step [OF assms(1)]
    by (intro run_step [where line = "a + 21"]) (simp_all add: add.assoc del: statement_interpret.simps)
  also have "\<dots> = run_loop (statement_interpret (Suc m)) n1
      (if sint limit \<le> sint (v + 1) then loop_state b r (v + 1) a (a + 32) []
       else loop_state b r (v + 1) a (a + 21) [(a, a + 8)])"
    using lines for_step [OF assms, of "[(a + 21, a + 8)]" "v + 1" v]
    by (intro run_step [where line = a]) (simp_all add: add.assoc del: statement_interpret.simps)
  also have "\<dots> = Some (None, (loop_state b r limit (a + 32) (PROG_NEXT (ram b) (a + 32)) [])\<lparr>program_running := False\<rparr>)"
  proof (cases "sint limit \<le> sint (v + 1)")
    case True
    then have "sint (v + 1) = sint limit" using v1 Suc.prems(1) by simp
    then have lim: "v + 1 = limit" by (rule signed_word_eqI)
    obtain n2 where "n1 = Suc n2" using n(2) by (cases n1) auto
    then show ?thesis
      using True lim lines end_step [OF assms(1)]
      by (simp add: PROG_STMT_def program_end_def Let_def add.assoc del: statement_interpret.simps)
  next
    case False
    moreover have "k = nat (sint limit - sint (v + 1))" using Suc.prems(2) v1 by simp
    ultimately show ?thesis using Suc.IH [of "v + 1" n1 a] n(2) by simp
  qed
  finally show ?case .
qed

text \<open>C39. A \<open>FOR\<close> loop ends: the program \<open>FOR r = start TO limit\<close>, \<open>NEXT r\<close>, \<open>END\<close>, with any line
  numbers and \<open>start < limit\<close>, runs to its end within \<open>2 * (limit - start) + 3\<close> statements, leaves
  \<open>limit\<close> in the variable and the return stack empty. The body has then been run for
  \<open>start\<close> to \<open>limit - 1\<close> only. With \<open>start\<close> not below \<open>limit\<close> the statement is undefined
  (\<open>for_empty_range_undefined\<close>).\<close>

theorem for_loop_terminates:
  assumes "program_ok b (coded (for_program r start limit ns))" "basic_ok b" "unat r < 26"
    and "sint start < sint limit" "2 * nat (sint limit - sint start) + 3 \<le> n"
  shows "\<exists>b'. program_run (statement_interpret (Suc m)) n b = Some (None, b')
    \<and> reg_value (program_registers b' ! unat r) = limit \<and> program_return_stack b' = []
    \<and> \<not> program_running b' \<and> ram b' = ram b"
proof -
  define a where "a = program_start b"
  have fl: "for_lines (ram b) a r start limit"
    using for_lines_program [OF assms(1)] by (simp add: a_def)
  note lines = fl [unfolded for_lines_def]
  let ?v = "reg_value (program_registers b ! unat r)"
  have init: "program_run_init b = loop_state b r ?v (program_current_line b) a []"
    by (simp add: program_run_init_def loop_state_def a_def)
  obtain n1 where n: "n = Suc n1" "2 * nat (sint limit - sint start) + 2 \<le> n1"
    using assms(5) by (cases n) auto
  have "program_run (statement_interpret (Suc m)) n b
      = run_loop (statement_interpret (Suc m)) n1 (loop_state b r start a (a + 21) [(a, a + 8)])"
    unfolding program_run_def init n(1)
    using lines for_step [OF fl assms(2,3), of "[]" start] assms(4)
    by (intro run_step [where line = a]) (simp_all add: add.assoc del: statement_interpret.simps)
  also have "\<dots> = Some (None, (loop_state b r limit (a + 32) (PROG_NEXT (ram b) (a + 32)) [])\<lparr>program_running := False\<rparr>)"
    using n(2) by (intro for_rounds [OF fl assms(2,3,4)]) simp_all
  finally show ?thesis
    using assms(2,3)
    by (intro exI [of _ "(loop_state b r limit (a + 32) (PROG_NEXT (ram b) (a + 32)) [])\<lparr>program_running := False\<rparr>"])
      (simp add: loop_state_def basic_ok_def del: statement_interpret.simps)
qed

definition for_example :: basic where
  "for_example = stored (ram_of 0x9000 (prog_bytes 0 0x9000 (coded (for_program 8 1 5 (10, 20, 30))) 0))
     (coded (for_program 8 1 5 (10, 20, 30)))"

lemma for_loop_terminates_witness:
  "\<exists>b'. program_run (statement_interpret 1) 11 for_example = Some (None, b') \<and> reg_value (program_registers b' ! 8) = 5"
proof -
  let ?ls = "coded (for_program 8 1 5 (10, 20, 30))"
  have len: "prog_size ?ls = 41" by (simp add: coded_def for_program_def prog_size_def encoding_def)
  then have "bytes_at (ram_of 0x9000 (prog_bytes 0 0x9000 ?ls 0)) 0x9000 (prog_bytes 0 0x9000 ?ls 0)"
    by (intro bytes_at_ram_of) simp
  then have "program_ok for_example ?ls" by (simp add: for_example_def stored_def program_ok_def len)
  moreover have "basic_ok for_example" by (simp add: for_example_def stored_def basic_ok_def)
  ultimately show ?thesis
    using for_loop_terminates [of for_example 8 1 5 "(10, 20, 30)" 11 0] by auto
qed

text \<open>When the first value is not below the limit and no other loop is open, \<open>do_for\<close> jumps to the line behind
  an address it has never set.\<close>

lemma for_empty_range_undefined:
  assumes "basic_ok b" "ram b var = TOK_REGISTER" "unat (ram b (var + 1)) < 26" "program_return_stack b = []"
    and "sint limit \<le> sint start"
  shows "for_loop var start limit b = None"
  using assms
  by (simp add: for_loop_def program_pop_return_def program_set_numeric_def program_get_numeric_def
      program_get_numeric_ref_def basic_ok_def)

section \<open>The return stack\<close>

text \<open>\<open>RETURN\<close> continues behind the line that was current at the \<open>GOSUB\<close>; a ninth nested call overruns the
  stack.\<close>

lemma gosub_return:
  assumes "do_jumpsub toks b = Some (None, b1)" "ram b2 = ram b1" "program_return_stack b2 = program_return_stack b1"
  shows "do_return t b2 = Some (None, b2\<lparr>program_return_stack := program_return_stack b,
    program_next_line := PROG_NEXT (ram b) (program_current_line b)\<rparr>)"
  using assms
  by (auto simp: do_jumpsub_def do_return_def program_push_return_def program_pop_return_def
      program_transfer_control_direct_def program_get_current_line_def split: if_splits)

lemma gosub_overflow:
  "8 \<le> length (program_return_stack b) \<Longrightarrow> ram b toks = TOK_NUMERIC \<Longrightarrow> do_gosub toks b = None \<and> do_jumpsub toks b = None"
  by (simp add: do_gosub_def do_jumpsub_def program_push_return_def)

section \<open>Errors\<close>

text \<open>C40. A statement behind \<open>THEN\<close> that fails is executed a second time. With two open loops,
  \<open>NEXT r\<close> for the variable of the outer one is an error; in \<open>IF x=x THEN NEXT r\<close> the error is lost, both
  entries are popped from the return stack, and the outer loop goes on.\<close>

theorem then_next_pops_twice:
  assumes "bytes_at (ram b) stmt (encoding [Kw KEYWORD_IF, Num x, Op OP_EQUAL, Num x, Kw KEYWORD_THEN, Kw KEYWORD_NEXT, Reg r])"
    and "program_return_stack b = [(inner, v), (outer, w)]" "v \<noteq> 0" "w \<noteq> 0" "stmt + 14 \<noteq> 0"
    and "bytes_at (ram b) v [TOK_REGISTER, s]" "s \<noteq> r" "bytes_at (ram b) w [TOK_REGISTER, r]"
  shows "statement_interpret (Suc n) (stmt + 12) b
      = Some (Some ERROR_SYNTAX, b\<lparr>program_return_stack := [(outer, w)]\<rparr>)
    \<and> statement_interpret (Suc (Suc n)) stmt b
      = Some (None, b\<lparr>program_return_stack := [(program_current_line b, w)], program_next_line := outer\<rparr>)"
proof -
  let ?m = "ram b" and ?b1 = "b\<lparr>program_return_stack := [(outer, w)]\<rparr>"
    and ?b2 = "b\<lparr>program_return_stack := [(program_current_line b, w)], program_next_line := outer\<rparr>"
  have at: "?m stmt = TOK_KEYWORD" "?m (stmt + 1) = KEYWORD_IF" "?m (stmt + 2) = TOK_NUMERIC"
    "bytes_at ?m (stmt + 3) (put16 x)" "?m (stmt + 5) = TOK_OPERATOR" "?m (stmt + 6) = OP_EQUAL"
    "?m (stmt + 7) = TOK_NUMERIC" "bytes_at ?m (stmt + 8) (put16 x)" "?m (stmt + 10) = TOK_KEYWORD"
    "?m (stmt + 11) = KEYWORD_THEN" "?m (stmt + 12) = TOK_KEYWORD" "?m (stmt + 13) = KEYWORD_NEXT"
    "?m (stmt + 14) = TOK_REGISTER" "?m (stmt + 15) = r"
    using assms(1) by (simp_all add: encoding_def add.assoc)
  note x = load16_at [OF at(4)] load16_at [OF at(8)]
  have first: "statement_interpret (Suc n) (stmt + 12) b = Some (Some ERROR_SYNTAX, ?b1)"
    using at assms(2-8)
    by (simp add: interpret_statement_def t_keyword_interpret_def do_next_def program_pop_return_def varcmp_def add.assoc)
  have second: "statement_interpret (Suc n) (stmt + 12) ?b1 = Some (None, ?b2)"
    using at assms(2-8)
    by (simp add: interpret_statement_def t_keyword_interpret_def do_next_def program_pop_return_def varcmp_def
        program_push_return_def program_get_current_line_def program_transfer_control_direct_def add.assoc)
  have cmp: "t_operator_is_comparison ?m (stmt + 5)"
    using at by (simp add: t_operator_is_comparison_def add.assoc)
  have "eval_numeric (Suc n) (stmt + 2) b = Some (Inr (x, stmt + 5), b)"
    using at(3) x cmp by (simp add: eval_numeric.simps eval_is_end_of_expression_def add.assoc)
  note ev1 = ERROR_HANDLE_Inr [of "eval_numeric (Suc n) (stmt + 2)", OF this]
  have "eval_numeric (Suc n) (stmt + 7) b = Some (Inr (x, stmt + 10), b)"
    using at(7,9) x by (simp add: eval_numeric.simps eval_is_end_of_expression_def add.assoc)
  note ev2 = ERROR_HANDLE_Inr [of "eval_numeric (Suc n) (stmt + 7)", OF this]
  have "do_if (eval_numeric (Suc n)) (statement_interpret (Suc n)) (stmt + 2) b = Some (None, ?b2)"
    using at cmp ev1 ev2 first second
    by (simp add: do_if_def KW_CHECK_def helper_if_do_comparison_def add.assoc del: statement_interpret.simps)
  then have "statement_interpret (Suc (Suc n)) stmt b = Some (None, ?b2)"
    using at unfolding statement_interpret.simps(2) [of "Suc n"]
    by (simp add: interpret_statement_def t_keyword_interpret_def del: statement_interpret.simps)
  with first show ?thesis by simp
qed

lemma then_next_pops_twice_witness:
  "\<exists>b'. statement_interpret 2 0x8000 ((stored (ram_of 0x8000 (encoding [Kw KEYWORD_IF, Num 1, Op OP_EQUAL, Num 1,
      Kw KEYWORD_THEN, Kw KEYWORD_NEXT, Reg 8] @ [TOK_REGISTER, 9, TOK_REGISTER, 8])) [])
      \<lparr>program_return_stack := [(0x9100, 0x8010), (0x9000, 0x8012)]\<rparr>) = Some (None, b')
    \<and> program_next_line b' = 0x9000"
proof -
  let ?toks = "encoding [Kw KEYWORD_IF, Num 1, Op OP_EQUAL, Num 1, Kw KEYWORD_THEN, Kw KEYWORD_NEXT, Reg 8]"
  let ?b = "(stored (ram_of 0x8000 (?toks @ [TOK_REGISTER, 9, TOK_REGISTER, 8])) [])
    \<lparr>program_return_stack := [(0x9100, 0x8010), (0x9000, 0x8012)]\<rparr>"
  have len: "length ?toks = 16" by (simp add: encoding_def)
  have "bytes_at (ram_of 0x8000 (?toks @ [TOK_REGISTER, 9, TOK_REGISTER, 8])) 0x8000
      (?toks @ [TOK_REGISTER, 9, TOK_REGISTER, 8])"
    by (rule bytes_at_ram_of) (simp add: len)
  then have "bytes_at (ram ?b) 0x8000 (?toks @ [TOK_REGISTER, 9, TOK_REGISTER, 8])"
    by (simp add: stored_def)
  then have at: "bytes_at (ram ?b) 0x8000 ?toks" "bytes_at (ram ?b) 0x8010 [TOK_REGISTER, 9]"
    "bytes_at (ram ?b) 0x8012 [TOK_REGISTER, 8]"
    unfolding bytes_at_append len by simp_all
  have st: "program_return_stack ?b = [(0x9100, 0x8010), (0x9000, 0x8012)]" by simp
  have "statement_interpret (Suc (Suc 0)) 0x8000 ?b = Some (None, ?b\<lparr>program_return_stack :=
      [(program_current_line ?b, 0x8012)], program_next_line := 0x9000\<rparr>)"
    by (rule then_next_pops_twice [OF at(1) st _ _ _ at(2) _ at(3), THEN conjunct2]) simp_all
  then show ?thesis
    unfolding numeral_2_eq_2 by (intro exI conjI) (assumption, simp)
qed

text \<open>An array index with an undefined variable: the assignment takes the error for its own variable and defines it.\<close>

lemma undefined_variable:
  assumes "bytes_at (ram b) src (var_toks (V s))" "0 \<notin> set s" "length s < 255" "basic_ok b" "var_index s b = None"
    and "\<not> OP_CHECK (ram b) (src + of_nat (length (var_toks (V s)))) OP_LPAREN"
  shows "eval_numeric (Suc n) src b = Some (Inl ERROR_UNDEFINED_VAR, b)"
proof -
  have fits: "var_fits (V s)" using assms(2,3) by simp
  have tok: "ram b src = TOK_VARIABLE" using assms(1) by simp
  have "bytes_at (ram b) (src + 2) (s @ [0])" using assms(1) by (simp add: add.assoc)
  then have "find_var (src + 2) b = None" using find_var_index [OF assms(4) _ assms(2)] assms(5) by simp
  then have "t_variable_get_ptr ev src b = Some (Inl ERROR_UNDEFINED_VAR, b)" for ev
    using var_skip(2) [OF assms(1) fits] assms(6) tok
    by (simp add: t_variable_get_ptr_def program_get_numeric_ref_def)
  then have "eval_shunting_yard ev src [] [] b = Some (Inl ERROR_UNDEFINED_VAR, b)" for ev
    using tok by (subst eval_shunting_yard.simps)
      (simp add: eval_is_end_of_expression_def OP_CHECK_def t_operator_is_comparison_def ERROR_HANDLE_def)
  then show ?thesis using tok by (simp add: eval_numeric.simps ERROR_HANDLE_def)
qed

text \<open>An assignment to an array element whose index contains an undefined variable destroys the array:
  the error is reported, but the register that points to the array has been set to 0, so that
  the next access goes to address 2.\<close>

theorem undefined_index_destroys_array:
  assumes "bytes_at (ram b) stmt ([TOK_REGISTER, r, TOK_OPERATOR, OP_LPAREN] @ var_toks (V s) @ [TOK_OPERATOR, OP_RPAREN])"
    and "unat r < 26" "0 \<notin> set s" "length s < 255" "basic_ok b" "var_index s b = None"
  shows "statement_interpret (Suc (Suc n)) stmt b = Some (Some ERROR_UNDEFINED_VAR,
    b\<lparr>program_registers := (program_registers b)[unat r := (program_registers b ! unat r)\<lparr>reg_value := 0\<rparr>]\<rparr>)"
proof -
  let ?m = "ram b"
  let ?b1 = "b\<lparr>program_registers := (program_registers b)[unat r := (program_registers b ! unat r)\<lparr>reg_value := 0\<rparr>]\<rparr>"
  have at: "?m stmt = TOK_REGISTER" "?m (stmt + 1) = r" "OP_CHECK ?m (stmt + 2) OP_LPAREN"
    "bytes_at ?m (stmt + 4) (var_toks (V s))"
    "\<not> OP_CHECK ?m (stmt + 4 + of_nat (length (var_toks (V s)))) OP_LPAREN"
    using assms(1) by (simp_all add: OP_CHECK_def add.assoc del: var_toks.simps)
  have undef: "eval_numeric (Suc n) (stmt + 4) c = Some (Inl ERROR_UNDEFINED_VAR, c)"
    if "ram c = ram b" "basic_ok c" "program_context c = program_context b" for c
    using undefined_variable [of c "stmt + 4" s n] that at(4,5) assms(3,4,6)
    by (simp add: var_index_def)
  have ptr: "t_variable_get_ptr (eval_numeric (Suc n)) stmt c = Some (Inl ERROR_UNDEFINED_VAR, c)"
    if "ram c = ram b" "basic_ok c" "program_context c = program_context b" for c
    using undef [OF that] at(1,3) that(1) by (simp add: t_variable_get_ptr_def ERROR_HANDLE_def add.assoc)
  have "basic_ok ?b1" using assms(5) by (simp add: basic_ok_def)
  with ptr [of b] ptr [of ?b1] assms(5)
  have "assign_reference (eval_numeric (Suc n)) stmt b = Some (Inl ERROR_UNDEFINED_VAR, ?b1)"
    using at assms(2) by (simp add: assign_reference_def program_set_numeric_def program_get_numeric_ref_def)
  then show ?thesis
    using at(1) by (simp add: interpret_statement_def statement_assign_def)
qed

lemma undefined_index_destroys_array_witness:
  "\<exists>b'. statement_interpret 2 0x8006 (example_basic ([TOK_REGISTER, 0, TOK_OPERATOR, OP_LPAREN]
      @ var_toks (V (ascii ''XX'')) @ [TOK_OPERATOR, OP_RPAREN])) = Some (Some ERROR_UNDEFINED_VAR, b')
    \<and> reg_value (program_registers b' ! 0) = 0"
proof -
  let ?toks = "[TOK_REGISTER, 0, TOK_OPERATOR, OP_LPAREN] @ var_toks (V (ascii ''XX'')) @ [TOK_OPERATOR, OP_RPAREN]"
  let ?b = "example_basic ?toks"
  have at: "bytes_at (ram ?b) 0x8006 ?toks" by (rule example_basic_at) simp
  have "var_index (ascii ''XX'') ?b = None" by (simp add: var_index_def example_basic_def)
  then have "statement_interpret (Suc (Suc 0)) 0x8006 ?b = Some (Some ERROR_UNDEFINED_VAR,
      ?b\<lparr>program_registers := (program_registers ?b)[unat (0 :: u8) :=
        (program_registers ?b ! unat (0 :: u8))\<lparr>reg_value := 0\<rparr>]\<rparr>)"
    by (intro undefined_index_destroys_array [OF at] example_basic_ok) simp_all
  moreover have "program_registers ?b \<noteq> []" by (simp add: example_basic_def)
  ultimately show ?thesis
    unfolding numeral_2_eq_2 by (intro exI conjI) (assumption, simp)
qed

end
