(* ===== verification/Basic_File.thy ===== *)
theory Basic_File
  imports Basic_Program_Claims
begin

text \<open>
  \<open>main\<close> of the BASIC interpreter (\<open>builtin/basic/main.c\<close>): a program is read from a file line by line, then lines are read
  from the console for ever. \<open>fgets\<close> and \<open>gets\<close> are not part of the program: the strings they store in \<open>input\<close> are
  arguments, and the end of a file is the end of the list. The claim takes a program through its text: a file with the
  listing of a program gives back the program.
\<close>

section \<open>The functions\<close>

text \<open>A string stored in the buffer \<open>input\<close>, with the NUL behind it; \<open>gets\<close> does not know the size of the buffer.\<close>

definition store_string :: "bytes \<Rightarrow> bytes \<Rightarrow> bytes option" where
  "store_string s input = memcpy input 0 (s @ [0])"

text \<open>\<open>input[strcspn(input, "\r\n")] = '\0'\<close>.\<close>

definition strip_newline :: "bytes \<Rightarrow> bytes" where
  "strip_newline input = input[length (takeWhile (\<lambda>c. c \<notin> {0, 10, 13}) input) := 0]"

fun read_program :: "nat \<Rightarrow> u16 \<Rightarrow> bytes list \<Rightarrow> bytes \<Rightarrow> basic \<Rightarrow> (bytes \<times> basic) option" where
  "read_program n statement [] input b = Some (input, b)"
| "read_program n statement (s # ss) input b = do {
     buf \<leftarrow> store_string s input;
     let input1 = strip_newline buf;
     if peek input1 = 0 then read_program n statement ss input1 b
     else do {
       (e, b1) \<leftarrow> process_line n statement input1 b;
       if e \<noteq> None then Some (input1, b1)
       else read_program n statement ss input1 (print (ascii ''.'') b1)
     }
   }"

fun read_console :: "nat \<Rightarrow> u16 \<Rightarrow> bytes list \<Rightarrow> bytes \<Rightarrow> basic \<Rightarrow> (bytes \<times> basic) option" where
  "read_console n statement [] input b = Some (input, b)"
| "read_console n statement (s # ss) input b = do {
     input1 \<leftarrow> store_string s input;
     (e, b1) \<leftarrow> process_line n statement input1 (print (ascii ''> '') b);
     read_console n statement ss input1 b1
   }"

text \<open>\<open>main\<close> up to the \<open>length typed\<close>-th line of the console; \<open>arg\<close> is the name of the file and what \<open>fgets\<close> reads
  from it.\<close>

definition basic_main :: "nat \<Rightarrow> u16 \<Rightarrow> (bytes \<times> bytes list) option \<Rightarrow> bytes list \<Rightarrow> bytes \<Rightarrow> basic \<Rightarrow> (bytes \<times> basic) option" where
  "basic_main n statement arg typed input b = do {
     let b0 = program_new (b\<lparr>rnd := 1\<rparr>);
     (input1, b1) \<leftarrow>
       (case arg of
          None \<Rightarrow> Some (input, b0)
        | Some (name, file_lines) \<Rightarrow> do {
            (input1, b1) \<leftarrow> read_program n statement file_lines input
               (print (ascii ''Reading '' @ cstr name @ ascii ''...'') b0);
            Some (input1, print (ascii ''! done.'' @ [13, 10]) b1)
          });
     let b2 = print (ascii ''ZEBRA BASIC.'' @ [13, 10, 10]) b1;
     read_console n statement typed input1 (print (print_u (program_free b1) @ ascii '' bytes free.'' @ [13, 10]) b2)
   }"

section \<open>One line\<close>

definition line_text :: "numeric_t \<times> token list \<Rightarrow> bytes" where
  "line_text p = listing (Num (fst p) # snd p)"

text \<open>A line that fits the buffers, and whose tokens and text are unambiguous.\<close>

definition line_fits :: "numeric_t \<times> token list \<Rightarrow> bool" where
  "line_fits p \<longleftrightarrow> fst p \<noteq> 0 \<and> (\<forall>t \<in> set (Num (fst p) # snd p). proper t) \<and> apart_list (Num (fst p) # snd p)
     \<and> length (encoding (snd p)) < 252 \<and> length (line_text p) < 254 \<and> set (line_text p) \<inter> {0, 10, 13} = {}"

lemma strip_line:
  assumes "line_fits p" "length input = 256"
  shows "\<exists>buf stale. store_string (line_text p @ [10]) input = Some buf \<and> strip_newline buf = line_text p @ 0 # stale
    \<and> length (strip_newline buf) = 256"
proof -
  let ?l = "line_text p"
  have buf: "store_string (?l @ [10]) input = Some (?l @ 10 # 0 # drop (length ?l + 2) input)"
    using assms by (simp add: store_string_def memcpy_def line_fits_def)
  have "takeWhile (\<lambda>c. c \<notin> {0, 10, 13}) (?l @ 10 # 0 # drop (length ?l + 2) input) = ?l"
    using assms(1) by (subst takeWhile_append2) (auto simp: line_fits_def)
  then have "strip_newline (?l @ 10 # 0 # drop (length ?l + 2) input) = ?l @ 0 # 0 # drop (length ?l + 2) input"
    by (simp add: strip_newline_def list_update_append)
  then show ?thesis using buf assms by (auto simp: line_fits_def)
qed

lemma store_bytes_at:
  assumes "unat a + length bs \<le> 65536"
  shows "store_bytes a bs m x = (if unat a \<le> unat x \<and> unat x < unat a + length bs then bs ! (unat x - unat a) else m x)"
  using assms
proof (induction bs arbitrary: a m)
  case (Cons b bs)
  show ?case
  proof (cases bs)
    case Nil
    then show ?thesis by (auto simp: word_unat_eq_iff)
  next
    case (Cons c cs)
    then have a1: "unat (a + 1) = unat a + 1" using Cons.prems by (intro unat_Suc_word) auto
    then have IH: "store_bytes (a + 1) bs (m(a := b)) x =
        (if unat a + 1 \<le> unat x \<and> unat x < unat a + 1 + length bs then bs ! (unat x - (unat a + 1)) else (m(a := b)) x)"
      using Cons.IH [of "a + 1"] Cons.prems by simp
    have "(b # bs) ! (unat x - unat a) = bs ! (unat x - (unat a + 1))" if "unat a + 1 \<le> unat x"
      using that by (simp add: nth_Cons' diff_diff_left)
    then show ?thesis using IH by (auto simp: word_unat_eq_iff not_le less_Suc_eq_le)
  qed
qed auto

lemma store_bytes_bytes_at:
  assumes "unat a + length bs \<le> 65536"
  shows "bytes_at (store_bytes a bs m) a bs"
proof (rule bytes_atI)
  fix i assume i: "i < length bs"
  then have "unat (a + of_nat i) = unat a + i"
    using assms by (subst unat_add_lt) (simp_all add: unat_of_nat_u16)
  then show "store_bytes a bs m (a + of_nat i) = bs ! i" using i assms by (simp add: store_bytes_at)
qed

lemma coded_single: "coded (ps @ [p]) = coded ps @ [(fst p, encoding (snd p) @ [TOK_TERMINATOR])]"
  by (simp add: coded_def case_prod_beta)

lemma process_program_line:
  assumes "program_ok b (coded ps)" "line_fits p" "unat st + 256 \<le> unat (program_start b)"
    and "unat (program_start b) + prog_size (coded (ps @ [p])) < 65536"
  shows "\<exists>b'. process_line (Suc n) st (line_text p @ 0 # stale) b = Some (None, b') \<and> program_ok b' (coded (ps @ [p]))
    \<and> program_start b' = program_start b \<and> console b' = console b"
proof -
  obtain k ts where p: "p = (k, ts)" by (cases p)
  let ?toks = "encoding (Num k # ts) @ [TOK_TERMINATOR]"
  have toks: "?toks = TOK_NUMERIC # put16 k @ encoding ts @ [TOK_TERMINATOR]" by (simp add: encoding_def)
  have len: "length (encoding (Num k # ts)) < 255" using assms(2) by (simp add: line_fits_def p encoding_def put16_def)
  have tok: "statement_tokenize (line_text p @ 0 # stale) = Some (None, ?toks)"
    unfolding line_text_def p fst_conv snd_conv
    using assms(2) len by (intro tokenize_listing) (simp_all add: line_fits_def p)
  define b1 where "b1 = b\<lparr>ram := store_bytes st ?toks (ram b)\<rparr>"
  have fits: "unat st + length ?toks \<le> unat (program_start b)" using assms(3) len by simp
  have low: "unat (program_start b) < 65536" using unsigned_less [of "program_start b", where 'a = nat] by simp
  have "bytes_at (store_bytes st ?toks (ram b)) st ?toks" using fits low by (intro store_bytes_bytes_at) simp
  then have at: "bytes_at (ram b1) st ?toks" by (simp only: b1_def) simp
  have size: "unat (program_start b) + prog_size (coded ps) < 65536" using assms(4) by (simp add: coded_single)
  have "bytes_at (ram b1) (program_start b) (prog_bytes 0 (program_start b) (coded ps) 0)"
  proof (rule bytes_at_frame)
    show "bytes_at (ram b) (program_start b) (prog_bytes 0 (program_start b) (coded ps) 0)"
      using assms(1) by (simp add: program_ok_def)
    show "ram b1 x = ram b x" if "unat (program_start b) \<le> unat x" for x
      using that fits low by (simp add: b1_def store_bytes_at del: length_append)
  qed (use size in simp)
  then have ok1: "program_ok b1 (coded ps)" using assms(1) by (simp add: program_ok_def b1_def)
  have "\<exists>b'. program_insert st b1 = Some (None, b') \<and> program_ok b' (coded (ps @ [(k, ts)]))
    \<and> b' = b1\<lparr>ram := ram b', program_last_inserted_line := program_last_inserted_line b',
        program_end_ptr := program_end_ptr b'\<rparr>"
    using assms(2,4) len fits at by (intro program_insert_coded [OF ok1]) (simp_all add: toks line_fits_def p b1_def)
  then obtain b' where b': "program_insert st b1 = Some (None, b')" "program_ok b' (coded (ps @ [(k, ts)]))"
    and eq: "b' = b1\<lparr>ram := ram b', program_last_inserted_line := program_last_inserted_line b', program_end_ptr := program_end_ptr b'\<rparr>"
    by blast
  have same: "program_start b' = program_start b1" "console b' = console b1"
    using arg_cong [OF eq, of program_start] arg_cong [OF eq, of console] by simp_all
  have "ram b1 st = TOK_NUMERIC" using at unfolding toks by simp
  then have "statement_interpret (Suc n) st b1 = Some (None, b')" using b'(1) by (simp add: interpret_statement_def)
  then have "process_line (Suc n) st (line_text p @ 0 # stale) b = Some (None, b')"
    by (simp add: process_line_def tok b1_def [symmetric] del: statement_interpret.simps)
  then show ?thesis using b'(2) same by (simp add: p b1_def)
qed

section \<open>A program through its text\<close>

lemma read_program_lines:
  assumes "program_ok b (coded ps)" "\<forall>p \<in> set qs. line_fits p" "unat st + 256 \<le> unat (program_start b)" "length input = 256"
    and "unat (program_start b) + prog_size (coded (ps @ qs)) < 65536"
  shows "\<exists>input' b'. read_program (Suc n) st (map (\<lambda>p. line_text p @ [10]) qs) input b = Some (input', b')
    \<and> program_ok b' (coded (ps @ qs)) \<and> console b' = console b @ concat (replicate (length qs) (ascii ''.''))"
  using assms
proof (induction qs arbitrary: ps b input)
  case (Cons q qs)
  obtain buf stale where buf: "store_string (line_text q @ [10]) input = Some buf" "strip_newline buf = line_text q @ 0 # stale"
      "length (strip_newline buf) = 256"
    using strip_line [of q input] Cons.prems(2,4) by auto
  have split: "coded (ps @ q # qs) = coded ((ps @ [q]) @ qs)" by simp
  then have room: "unat (program_start b) + prog_size (coded (ps @ [q])) < 65536"
    using Cons.prems(5) by (simp add: coded_def prog_size_def)
  have "line_fits q" using Cons.prems(2) by simp
  then obtain b1 where b1: "process_line (Suc n) st (line_text q @ 0 # stale) b = Some (None, b1)" "program_ok b1 (coded (ps @ [q]))"
      "program_start b1 = program_start b" "console b1 = console b"
    using process_program_line [OF Cons.prems(1) _ Cons.prems(3) room] by blast
  have "peek (line_text q @ 0 # stale) \<noteq> 0"
    using Cons.prems(2) peek_body(1) [of "Num (fst q)"] by (auto simp: line_text_def listing_def line_fits_def)
  then have step: "read_program (Suc n) st (map (\<lambda>p. line_text p @ [10]) (q # qs)) input b
      = read_program (Suc n) st (map (\<lambda>p. line_text p @ [10]) qs) (line_text q @ 0 # stale) (print (ascii ''.'') b1)"
    using buf(1,2) b1(1) by (simp add: Let_def)
  have ok1: "program_ok (print (ascii ''.'') b1) (coded (ps @ [q]))" using b1(2) by (simp add: print_def program_ok_def)
  have start1: "program_start (print (ascii ''.'') b1) = program_start b" "console (print (ascii ''.'') b1) = console b @ ascii ''.''"
    using b1(3,4) by (simp_all add: print_def)
  have qs: "\<forall>p \<in> set qs. line_fits p" using Cons.prems(2) by simp
  have start: "unat st + 256 \<le> unat (program_start (print (ascii ''.'') b1))" using Cons.prems(3) by (simp only: start1(1))
  have fits: "length (line_text q @ 0 # stale) = 256" using buf(3) by (simp only: buf(2))
  have room': "unat (program_start (print (ascii ''.'') b1)) + prog_size (coded ((ps @ [q]) @ qs)) < 65536"
    using Cons.prems(5) by (simp only: start1(1) split)
  obtain input' b' where r: "read_program (Suc n) st (map (\<lambda>p. line_text p @ [10]) qs) (line_text q @ 0 # stale) (print (ascii ''.'') b1) = Some (input', b')"
      "program_ok b' (coded ((ps @ [q]) @ qs))" "console b' = console (print (ascii ''.'') b1) @ concat (replicate (length qs) (ascii ''.''))"
    using Cons.IH [OF ok1 qs start fits room'] by (elim exE conjE)
  show ?case
    unfolding step using r start1(2) by (intro exI [of _ input'] exI [of _ b'] conjI) simp_all
qed simp

lemma program_list_text:
  assumes "program_ok b (coded ps)" "ps \<noteq> []" "\<forall>p \<in> set ps. line_fits p"
  shows "program_list b = Some (b\<lparr>console := console b @ concat (map (\<lambda>p. line_text p @ [13, 10]) ps)\<rparr>)"
proof -
  have "bytes_at (ram b) (program_start b) (prog_bytes 0 (program_start b) (coded ps) 0)"
    using assms(1) by (simp add: program_ok_def)
  moreover have "\<forall>(n, ts) \<in> set ps. n \<noteq> 0 \<and> (\<forall>t \<in> set ts. proper t)"
    using assms(3) by (auto simp: line_fits_def)
  ultimately have "program_list b = Some (b\<lparr>console := console b
      @ concat (map (\<lambda>(n, ts). print_d n @ of_char (CHR '' '') # listing ts @ [13, 10]) ps)\<rparr>)"
    using program_list_from_coded [of "ram b" "program_start b" 0 ps] assms(1,2) by (simp add: program_list_def program_ok_def)
  moreover have "map (\<lambda>(n, ts). print_d n @ of_char (CHR '' '') # listing ts @ [13, 10]) ps = map (\<lambda>p. line_text p @ [13, 10]) ps"
    using assms(3) by (intro map_cong) (auto simp: line_fits_def line_text_def listing_def print_d_nonneg)
  ultimately show ?thesis by (simp only:)
qed

text \<open>C35. A program survives as text. \<open>main\<close> of the interpreter, started with a file whose lines are those of a program as
  \<open>LIST\<close> prints them, reads all of them, one dot for each; then the program is in memory as it was, and \<open>LIST\<close> prints the
  same lines. The buffers \<open>statement\<close> and \<open>input\<close> have 256 bytes, and the program has room in memory. The lines are made
  of non-negative numbers, operators, keywords, separators, strings, variables of one letter and RND, with printed forms that do not run together and no line feed in a string; they have a line
  number other than 0 and fit the buffers. Lines with
  variables of several letters do not survive: \<open>LIST\<close> prints a NUL behind their names (\<open>variable_listing_has_nul\<close>);
  remarks are not covered either.\<close>

theorem basic_file_roundtrip:
  assumes "ps \<noteq> []" "\<forall>p \<in> set ps. line_fits p" "length input = 256"
    and "0 < unat (program_start b)" "unat st + 256 \<le> unat (program_start b)"
    and "unat (program_start b) + prog_size (coded ps) < 65536"
  shows "\<exists>input' b'. basic_main (Suc n) st (Some (name, map (\<lambda>p. line_text p @ [10]) ps)) [] input b = Some (input', b')
    \<and> program_ok b' (coded ps)
    \<and> program_list b' = Some (b'\<lparr>console := console b' @ concat (map (\<lambda>p. line_text p @ [13, 10]) ps)\<rparr>)"
proof -
  let ?b = "print (ascii ''Reading '' @ cstr name @ ascii ''...'') (program_new (b\<lparr>rnd := 1\<rparr>))"
  have "program_ok ?b (coded [])"
    using assms(4) unsigned_less [of "program_start b", where 'a = nat]
    by (simp add: program_ok_def program_new_def print_def coded_def prog_size_def)
  then obtain input' b' where r: "read_program (Suc n) st (map (\<lambda>p. line_text p @ [10]) ps) input ?b = Some (input', b')"
      "program_ok b' (coded ps)"
    using read_program_lines [of ?b "[]" ps st input n] assms by (auto simp: print_def program_new_def)
  have "program_ok (b'\<lparr>console := s\<rparr>) (coded ps)" for s using r(2) by (simp add: program_ok_def)
  then show ?thesis
    using r(1) program_list_text [OF _ assms(1,2)] by (auto simp: basic_main_def print_def Let_def)
qed

text \<open>The file \<^verbatim>\<open>10 A=5\<close>, \<^verbatim>\<open>20 A=A+1\<close>.\<close>

definition file_program :: "(numeric_t \<times> token list) list" where
  "file_program = [(10, [Reg 0, Op 2, Num 5]), (20, [Reg 0, Op 2, Reg 0, Op 1, Num 1])]"

lemma file_program_text:
  "line_text (10, [Reg 0, Op 2, Num 5]) = [49, 48, 32, 65, 61, 53, 32]"
  "line_text (20, [Reg 0, Op 2, Reg 0, Op 1, Num 1]) = [50, 48, 32, 65, 61, 65, 43, 49, 32]"
  by (simp_all add: line_text_def listing_def op_text_def decimal.simps)

lemma file_program_fits: "\<forall>p \<in> set file_program. line_fits p"
  by (simp add: file_program_def line_fits_def file_program_text encoding_def)

lemma basic_file_roundtrip_witness:
  "\<exists>input' b'. basic_main 1 0x8000 (Some ([0x41, 0], map (\<lambda>p. line_text p @ [10]) file_program)) [] (replicate 256 0) (stored (\<lambda>_. 0) [])
     = Some (input', b') \<and> program_ok b' (coded file_program)"
  using basic_file_roundtrip [OF _ file_program_fits, of "replicate 256 0" "stored (\<lambda>_. 0) []" "0x8000" 0 "[0x41, 0]"]
    by (auto simp: stored_def file_program_def coded_def prog_size_def encoding_def)

end
