(* ===== verification/File_Writing.thy ===== *)
theory File_Writing
  imports File_Effects
begin

text \<open>
  Writing a file. \<open>writing s fd n h cs w\<close> says that a descriptor is open for writing under the name
  \<open>n\<close> at the end of the bytes \<open>w\<close>, which the chain \<open>cs\<close> from cluster \<open>h\<close> holds. Every call of
  \<open>file_write\<close> appends its data to \<open>w\<close>, taking clusters from the FAT as needed, and touches no
  other file; closing the descriptor stores the size, and reading the file gives \<open>w\<close> back.
\<close>

section \<open>Sectors of clusters\<close>

text \<open>The clusters the allocator hands out.\<close>

abbreviation alloc_range :: "u16 \<Rightarrow> bool" where
  "alloc_range c \<equiv> 2 \<le> unat c \<and> unat c < 256"

lemma alloc_range_valid: "geometry s \<Longrightarrow> alloc_range c \<Longrightarrow> fat_valid s c"
  using geometryD(3) [of s] by (simp add: fat_valid_def)

lemma cluster_sector_unat:
  assumes "geometry s" "alloc_range c" "j < spc s"
  shows "unat (file_start_sector c s + of_nat j) = unat (data_region (disk_info s)) + (unat c - 2) * spc s + j"
    and "lba (file_start_sector c s + of_nat j) = file_start_sector c s + of_nat j"
proof -
  note g = geometryD [OF assms(1)]
  have spc: "spc s < 256" using unat_u8_less by (simp add: spc_def)
  have c2: "unat (c - 2) = unat c - 2" using assms(2) by (simp add: unat_sub word_le_nat_alt)
  have "(unat c - 2) * spc s \<le> 253 * 255" using assms(2) spc by (intro mult_le_mono) linarith+
  then have bound: "(unat c - 2) * spc s < 65536" by simp
  then have prod: "unat ((c - 2) * ucast (sectors_per_cluster (disk_info s)) :: u16) = (unat c - 2) * spc s"
    using c2 by (subst unat_mult_lt) (simp_all add: spc_def unat_u8_u16)
  have start: "unat (file_start_sector c s) = unat (data_region (disk_info s)) + (unat c - 2) * spc s"
    unfolding file_start_sector_def using bound g(5) prod
    by (subst unat_add_lt) (simp_all add: unat_u16_u32)
  have j: "unat (of_nat j :: u32) = j" using assms(3) spc by (simp add: unat_of_nat_u32)
  show n: "unat (file_start_sector c s + of_nat j) = unat (data_region (disk_info s)) + (unat c - 2) * spc s + j"
    using start j bound g(5) assms(3) spc by (subst unat_add_lt) simp_all
  show "lba (file_start_sector c s + of_nat j) = file_start_sector c s + of_nat j"
    using n bound g(5) assms(3) spc by (intro lba_small) simp
qed

lemma cluster_sector_inject:
  assumes "geometry s" "alloc_range c" "j < spc s" "alloc_range d" "i < spc s"
  shows "file_start_sector c s + of_nat j = file_start_sector d s + of_nat i \<longleftrightarrow> c = d \<and> j = i"
proof
  assume "file_start_sector c s + of_nat j = file_start_sector d s + of_nat i"
  then have eq: "(unat c - 2) * spc s + j = (unat d - 2) * spc s + i"
    using cluster_sector_unat(1) [OF assms(1-3)] cluster_sector_unat(1) [OF assms(1,4,5)] by simp
  from arg_cong [OF eq, of "\<lambda>x. x div spc s"] arg_cong [OF eq, of "\<lambda>x. x mod spc s"]
  have "unat c - 2 = unat d - 2" "j = i" using assms(3,5) by simp_all
  moreover from this have "unat c = unat d" using assms(2,4) by linarith
  ultimately show "c = d \<and> j = i" by (simp add: word_unat_eq_iff)
qed simp

lemma sectors_of_member:
  assumes "q < spc s * length cs" "\<forall>c \<in> set cs. alloc_range c"
  obtains c j where "c = cs ! (q div spc s)" "j = q mod spc s" "c \<in> set cs" "alloc_range c" "j < spc s"
    "sectors_of s cs ! q = file_start_sector c s + of_nat j"
proof -
  have "0 < spc s" using assms(1) by (auto intro: gr0I)
  moreover have "q div spc s < length cs" using assms(1) by (simp add: less_mult_imp_div_less mult.commute)
  ultimately show thesis using that assms sectors_of_nth [OF assms(1)] nth_mem by simp
qed

lemma sectors_of_inject:
  assumes "geometry s" "distinct cs" "\<forall>c \<in> set cs. alloc_range c" "q < spc s * length cs" "r < spc s * length cs"
  shows "sectors_of s cs ! q = sectors_of s cs ! r \<longleftrightarrow> q = r"
proof
  assume eq: "sectors_of s cs ! q = sectors_of s cs ! r"
  obtain c j where c: "c = cs ! (q div spc s)" "j = q mod spc s" "alloc_range c" "j < spc s"
      "sectors_of s cs ! q = file_start_sector c s + of_nat j"
    using sectors_of_member [OF assms(4,3)] by metis
  obtain d i where d: "d = cs ! (r div spc s)" "i = r mod spc s" "alloc_range d" "i < spc s"
      "sectors_of s cs ! r = file_start_sector d s + of_nat i"
    using sectors_of_member [OF assms(5,3)] by metis
  have "c = d \<and> j = i" using eq cluster_sector_inject [OF assms(1) c(3,4) d(3,4)] c(5) d(5) by simp
  moreover have "q div spc s < length cs" "r div spc s < length cs"
    using assms(4,5) by (simp_all add: less_mult_imp_div_less mult.commute)
  ultimately have "q div spc s = r div spc s" "q mod spc s = r mod spc s"
    using c(1,2) d(1,2) assms(2) by (simp_all add: nth_eq_iff_index_eq)
  then show "q = r" by (metis div_mult_mod_eq)
qed simp

lemma sectors_of_lba:
  assumes "geometry s" "\<forall>c \<in> set cs. alloc_range c" "q < spc s * length cs"
  shows "lba (sectors_of s cs ! q) = sectors_of s cs ! q"
    and "data_region (disk_info s) \<le> sectors_of s cs ! q"
proof -
  obtain c j where c: "alloc_range c" "j < spc s" "sectors_of s cs ! q = file_start_sector c s + of_nat j"
    using sectors_of_member [OF assms(3,2)] by metis
  show "lba (sectors_of s cs ! q) = sectors_of s cs ! q"
    "data_region (disk_info s) \<le> sectors_of s cs ! q"
    using cluster_sector_unat [OF assms(1) c(1,2)] by (simp_all add: c(3) word_le_nat_alt)
qed

lemma file_data_cong:
  assumes "disk_info s' = disk_info s" "\<And>q. q < spc s * length cs \<Longrightarrow> disk_read (sectors_of s cs ! q) s' = disk_read (sectors_of s cs ! q) s"
  shows "file_data s' cs = file_data s cs"
proof -
  have "sectors_of s' cs = sectors_of s cs" by (simp add: sectors_of_def file_start_sector_def spc_def assms(1))
  then show ?thesis
    unfolding file_data_def using assms(2) by (auto simp: set_conv_nth intro!: arg_cong [of _ _ concat] map_cong)
qed

lemma file_data_append: "file_data s (cs @ ds) = file_data s cs @ file_data s ds"
  by (simp add: file_data_def sectors_of_def)

text \<open>Only the FAT or only the directory changes: the files keep their contents.\<close>

lemma outside_data:
  assumes "geometry s" "disk_info s' = disk_info s" "\<forall>c \<in> set cs. alloc_range c"
    and "\<forall>k. data_region (disk_info s) \<le> k \<longrightarrow> disk s' k = disk s k"
  shows "file_data s' cs = file_data s cs"
  using assms(2)
proof (rule file_data_cong)
  fix q assume "q < spc s * length cs"
  with sectors_of_lba [OF assms(1,3) this] assms(4)
  show "disk_read (sectors_of s cs ! q) s' = disk_read (sectors_of s cs ! q) s" by (simp add: disk_read_def)
qed

lemma fat_frame_data:
  assumes "geometry s" "fat_frame s s'" "\<forall>c \<in> set cs. alloc_range c"
  shows "file_data s' cs = file_data s cs"
proof (rule outside_data [OF assms(1) _ assms(3)])
  have "\<not> k < root_region (disk_info s)" if "data_region (disk_info s) \<le> k" for k
    using geometryD(4) [OF assms(1)] that by (simp add: word_le_nat_alt word_less_nat_alt)
  then show "\<forall>k. data_region (disk_info s) \<le> k \<longrightarrow> disk s' k = disk s k" using assms(2) by (simp add: fat_frame_def)
qed (use assms(2) in \<open>simp add: fat_frame_def\<close>)

lemma dir_frame_data:
  assumes "geometry s" "dir_frame s s'" "\<forall>c \<in> set cs. alloc_range c"
  shows "file_data s' cs = file_data s cs"
  using assms by (intro outside_data) (auto simp: dir_frame_def not_less)

section \<open>Writing into the data region\<close>

definition data_frame :: "fs \<Rightarrow> fs \<Rightarrow> bool" where
  "data_frame s s' \<longleftrightarrow> disk_info s' = disk_info s \<and> close_entry s' = close_entry s
     \<and> (\<forall>k. k < data_region (disk_info s) \<longrightarrow> disk s' k = disk s k)"

lemma data_frame_dir:
  assumes "geometry s" "data_frame s s'"
  shows "dir_slots s' = dir_slots s"
proof (rule nth_equalityI)
  have info: "disk_info s' = disk_info s" using assms(2) by (simp add: data_frame_def)
  then have rs: "root_sectors s' = root_sectors s" by (simp add: root_sectors_def)
  then show "length (dir_slots s') = length (dir_slots s)" by simp
  fix k assume "k < length (dir_slots s')"
  then have k: "k < 16 * root_sectors s" "k < 16 * root_sectors s'" by (simp_all add: rs)
  note sec = slot_sector_unat [OF assms(1) k(1)]
  have "slot_sector s k < data_region (disk_info s)" using sec by (simp add: word_less_nat_alt)
  then have "disk s' (slot_sector s k) = disk s (slot_sector s k)"
    using assms(2) by (simp add: data_frame_def)
  moreover have "slot_sector s' k = slot_sector s k" by (simp add: slot_sector_def info)
  ultimately show "dir_slots s' ! k = dir_slots s ! k"
    using dir_slots_nth [OF k(1)] dir_slots_nth [OF k(2)] sec(3) by (simp add: disk_read_def)
qed

lemma data_frame_fat:
  assumes "geometry s" "data_frame s s'" "fat_valid s c"
  shows "fat_at s' c = fat_at s c"
proof -
  note sec = fat_sector_of_valid [OF assms(1,3)]
  have "fat_sector_of s c < data_region (disk_info s)"
    using sec(3) geometryD(4) [OF assms(1)] by (simp add: word_less_nat_alt)
  then have "disk s' (fat_sector_of s c) = disk s (fat_sector_of s c)"
    using assms(2) by (simp add: data_frame_def)
  then show ?thesis
    using sec(4) assms(2) by (simp add: fat_at_eq disk_read_def fat_sector_of_def data_frame_def)
qed

lemma nth_spliced:
  "m + length d \<le> length b \<Longrightarrow> j < m + length d
    \<Longrightarrow> (take m b @ d @ drop (m + length d) b) ! j = (if j < m then b ! j else d ! (j - m))"
  by (auto simp: nth_append)

text \<open>The bytes \<open>d\<close> written behind the first \<open>p\<close> bytes of a chain, within one sector.\<close>

definition put_block :: "fs \<Rightarrow> u16 list \<Rightarrow> nat \<Rightarrow> bytes \<Rightarrow> bytes" where
  "put_block s cs p d =
     (let b = disk_read (sectors_of s cs ! (p div 512)) s in
      take (p mod 512) b @ d @ drop (p mod 512 + length d) b)"

lemma put_block_file:
  assumes "fat_ok s" "distinct cs" "\<forall>c \<in> set cs. alloc_range c" "p < 512 * (spc s * length cs)"
    and "p mod 512 + length d \<le> 512" "sec = sectors_of s cs ! (p div 512)"
    and "s1 = disk_write (put_block s cs p d) sec (read_sector_cached sec False s\<lparr>temp_sector := put_block s cs p d\<rparr>)"
  shows "fat_ok s1" "data_frame s s1"
    "take (p + length d) (file_data s1 cs) = take p (file_data s cs) @ d"
    "set ds \<inter> set cs = {} \<Longrightarrow> \<forall>c \<in> set ds. alloc_range c \<Longrightarrow> file_data s1 ds = file_data s ds"
proof -
  have wf: "fs_wf s" and g: "geometry s" using assms(1) by (simp_all add: fat_ok_def)
  have q: "p div 512 < spc s * length cs" using assms(4) by (simp add: less_mult_imp_div_less mult.commute)
  note lba = sectors_of_lba [OF g assms(3)]
  have len: "length (put_block s cs p d) = SECTOR_SIZE"
    using assms(5) by (simp add: put_block_def Let_def fs_wf_read_length [OF wf])
  have info: "disk_info s1 = disk_info s" by (simp add: assms(7))
  show ok1: "fat_ok s1"
    using write_back_wf [OF wf len] g by (simp add: fat_ok_def geometry_def assms(7))
  have disk1: "disk s1 = (disk s)(sec := put_block s cs p d)"
    using lba(1) [OF q] by (simp add: assms(6,7) disk_write_def)
  then show "data_frame s s1"
    using lba(2) [OF q] info by (auto simp: data_frame_def assms(6,7))
  have secs: "sectors_of s1 es = sectors_of s es" for es
    by (simp add: sectors_of_def file_start_sector_def spc_def info)
  have spc1: "spc s1 = spc s" by (simp add: spc_def info)
  have wf1: "fs_wf s1" using ok1 by (simp add: fat_ok_def)
  show "take (p + length d) (file_data s1 cs) = take p (file_data s cs) @ d"
  proof (rule nth_equalityI)
    have "p + length d \<le> 512 * (spc s * length cs)"
    proof -
      have "p = 512 * (p div 512) + p mod 512" by simp
      then have "p + length d \<le> 512 * Suc (p div 512)" using assms(5) unfolding mult_Suc_right by linarith
      also have "\<dots> \<le> 512 * (spc s * length cs)" using q by (intro mult_le_mono2) simp
      finally show ?thesis .
    qed
    then show l: "length (take (p + length d) (file_data s1 cs)) = length (take p (file_data s cs) @ d)"
      using assms(4) by (simp add: file_data_length [OF wf1] file_data_length [OF wf] spc1)
    fix i assume "i < length (take (p + length d) (file_data s1 cs))"
    then have i: "i < p + length d" "i < 512 * (spc s * length cs)"
      by (simp_all add: file_data_length [OF wf1] spc1)
    then have r: "i div 512 < spc s * length cs" by (simp add: less_mult_imp_div_less mult.commute)
    have read: "disk_read (sectors_of s cs ! (i div 512)) s1 =
        (if i div 512 = p div 512 then put_block s cs p d else disk_read (sectors_of s cs ! (i div 512)) s)"
      using sectors_of_inject [OF g assms(2,3) r q] lba(1) [OF r] by (simp add: disk_read_def disk1 assms(6))
    have val: "file_data s1 cs ! i = (if i < p then file_data s cs ! i else d ! (i - p))"
    proof (cases "i div 512 = p div 512")
      case True
      then have m: "i < p \<longleftrightarrow> i mod 512 < p mod 512" "\<not> i < p \<Longrightarrow> i - p = i mod 512 - p mod 512"
        using div_mult_mod_eq [of i 512] div_mult_mod_eq [of p 512] by linarith+
      have "i mod 512 < p mod 512 + length d" using i(1) True div_mult_mod_eq [of i 512] div_mult_mod_eq [of p 512] by linarith
      moreover have "put_block s cs p d ! j = (if j < p mod 512 then disk_read (sectors_of s cs ! (p div 512)) s ! j
          else d ! (j - p mod 512))" if "j < p mod 512 + length d" for j
        using nth_spliced [OF _ that] assms(5) by (simp add: put_block_def Let_def fs_wf_read_length [OF wf])
      moreover have "disk_read (sectors_of s cs ! (p div 512)) s1 = put_block s cs p d" using read True by simp
      ultimately show ?thesis
        using file_data_nth [OF wf1, of i cs] file_data_nth [OF wf, of i cs] i m True
        by (simp add: spc1 secs)
    next
      case False
      then have "i < p" 
      proof -
        have "i div 512 \<le> p div 512"
          using i(1) assms(5) div_mult_mod_eq [of i 512] div_mult_mod_eq [of p 512] by linarith
        with False have "i div 512 < p div 512" by simp
        then show ?thesis using div_le_mono [of p i 512] by linarith
      qed
      with False show ?thesis
        using file_data_nth [OF wf1, of i cs] file_data_nth [OF wf, of i cs] i by (simp add: spc1 secs read)
    qed
    then show "take (p + length d) (file_data s1 cs) ! i = (take p (file_data s cs) @ d) ! i"
      using i assms(4) by (simp add: nth_append file_data_length [OF wf])
  qed
  show "file_data s1 ds = file_data s ds" if ds: "set ds \<inter> set cs = {}" "\<forall>c \<in> set ds. alloc_range c"
    using info
  proof (rule file_data_cong)
    fix r assume r: "r < spc s * length ds"
    obtain c j where c: "c \<in> set cs" "alloc_range c" "j < spc s" "sec = file_start_sector c s + of_nat j"
      using sectors_of_member [OF q assms(3)] assms(6) by metis
    obtain e i where e: "e \<in> set ds" "alloc_range e" "i < spc s" "sectors_of s ds ! r = file_start_sector e s + of_nat i"
      using sectors_of_member [OF r ds(2)] by metis
    have "e \<noteq> c" using ds(1) c(1) e(1) by auto
    then have "sectors_of s ds ! r \<noteq> sec"
      using cluster_sector_inject [OF g e(2,3) c(2,3)] by (simp add: c(4) e(4))
    then show "disk_read (sectors_of s ds ! r) s1 = disk_read (sectors_of s ds ! r) s"
      using sectors_of_lba(1) [OF g ds(2) r] by (simp add: disk_read_def disk1)
  qed
qed

section \<open>A file that is being written\<close>

definition free_set :: "fs \<Rightarrow> nat set" where
  "free_set s = {k. 2 \<le> k \<and> k < 256 \<and> fat_at s (of_nat k) = CLUSTER_FREE}"

definition writing :: "fs \<Rightarrow> int \<Rightarrow> bytes \<Rightarrow> u16 \<Rightarrow> u16 list \<Rightarrow> bytes \<Rightarrow> bool" where
  "writing s fd n h cs w \<longleftrightarrow> fat_ok s \<and> is_chain (fat_at s) h cs \<and> distinct cs \<and> (\<forall>c \<in> set cs. alloc_range c)
     \<and> 512 * (spc s * (length cs - 1)) \<le> length w \<and> length w < 512 * (spc s * length cs)
     \<and> take (length w) (file_data s cs) = w
     \<and> (\<exists>f. fd_at fd s = Some f \<and> mode f = FMODE_WRITE \<and> fd_name f = n \<and> unat (fsize f) = length w
          \<and> unat (fpos f) = length w \<and> pos_ok s cs (length w) f)"

text \<open>What writing to the chain \<open>cs\<close>, which becomes \<open>cs'\<close>, leaves alone: the directory, and the
  entries and contents of all clusters outside \<open>cs'\<close>. New clusters have been free.\<close>

definition keeps_others :: "u16 list \<Rightarrow> u16 list \<Rightarrow> fs \<Rightarrow> fs \<Rightarrow> bool" where
  "keeps_others cs cs' s s' \<longleftrightarrow> disk_info s' = disk_info s \<and> close_entry s' = close_entry s
     \<and> length (fdtable s') = length (fdtable s) \<and> dir_slots s' = dir_slots s \<and> set cs \<subseteq> set cs'
     \<and> (\<forall>c \<in> set cs' - set cs. alloc_range c \<and> fat_at s c = CLUSTER_FREE)
     \<and> (\<forall>c. alloc_range c \<and> c \<notin> set cs' \<longrightarrow> fat_at s' c = fat_at s c \<and> file_data s' [c] = file_data s [c])"

lemma keeps_others_refl: "keeps_others cs cs s s"
  by (simp add: keeps_others_def)

lemma keeps_others_trans:
  "keeps_others cs cs' s s' \<Longrightarrow> keeps_others cs' cs'' s' s'' \<Longrightarrow> keeps_others cs cs'' s s''"
proof -
  assume a: "keeps_others cs cs' s s'" and b: "keeps_others cs' cs'' s' s''"
  have "alloc_range c \<and> fat_at s c = CLUSTER_FREE" if "c \<in> set cs''" "c \<notin> set cs" for c
  proof (cases "c \<in> set cs'")
    case True
    then show ?thesis using a that by (simp add: keeps_others_def)
  next
    case False
    then have new: "alloc_range c" "fat_at s' c = CLUSTER_FREE" using b that by (simp_all add: keeps_others_def)
    then have "fat_at s' c = fat_at s c" using a False by (simp add: keeps_others_def)
    with new show ?thesis by simp
  qed
  moreover have "fat_at s'' c = fat_at s c \<and> file_data s'' [c] = file_data s [c]" if "alloc_range c" "c \<notin> set cs''" for c
    using a b that by (auto simp: keeps_others_def)
  ultimately show ?thesis using a b by (auto simp: keeps_others_def)
qed

lemma file_data_Cons: "file_data s (c # cs) = file_data s [c] @ file_data s cs"
  using file_data_append [of s "[c]" cs] by simp

text \<open>A file whose clusters are in use and not those of the written file keeps its contents.\<close>

lemma keeps_others_file:
  "keeps_others cs cs' s s' \<Longrightarrow> \<forall>c \<in> set es. alloc_range c \<and> fat_at s c \<noteq> CLUSTER_FREE \<Longrightarrow> set es \<inter> set cs = {}
    \<Longrightarrow> file_data s' es = file_data s es"
proof (induction es)
  case Nil
  show ?case by (simp add: file_data_def sectors_of_def)
next
  case (Cons e es)
  then have "e \<notin> set cs'" by (auto simp: keeps_others_def)
  then have "file_data s' [e] = file_data s [e]" using Cons.prems by (simp add: keeps_others_def)
  moreover have "file_data s' es = file_data s es" using Cons by simp
  ultimately show ?case using file_data_Cons [of s' e es] file_data_Cons [of s e es] by simp
qed

lemma finite_free_set: "finite (free_set s)"
  by (rule finite_subset [of _ "{..<256}"]) (auto simp: free_set_def)

lemma first_free_set:
  assumes "free_set s \<noteq> {}"
  obtains k where "first_free s = Some k" "k \<in> free_set s"
proof (cases "first_free s")
  case None
  note none = first_free_None [OF this]
  have "k \<notin> free_set s" for k using bspec [OF none, of k] by (auto simp: free_set_def)
  then show ?thesis using assms by blast
next
  case (Some k)
  then show ?thesis using that first_free_Some by (auto simp: free_set_def)
qed

lemma distinct_alloc_range:
  assumes "distinct cs" "\<forall>c \<in> set cs. alloc_range c"
  shows "length cs \<le> 254"
proof -
  have "inj_on unat (set cs)" by (auto intro: inj_onI simp: word_unat_eq_iff)
  then have "length cs = card (unat ` set cs)" using assms(1) by (simp add: card_image distinct_card)
  also have "\<dots> \<le> card {2..<256::nat}" using assms(2) by (intro card_mono) auto
  finally show ?thesis by simp
qed

lemma writing_bound:
  assumes "writing s fd n h cs w"
  shows "512 * (spc s * length cs) \<le> 33162240" "0 < spc s" "length cs \<noteq> 0"
proof -
  have "fat_ok s" "distinct cs" "\<forall>c \<in> set cs. alloc_range c" using assms by (simp_all add: writing_def)
  then have "length cs \<le> 254" "spc s \<le> 255" "0 < spc s" using distinct_alloc_range spc_bounds [of s] by fastforce+
  then have "spc s * length cs \<le> 255 * 254" by (intro mult_le_mono) simp_all
  then show "512 * (spc s * length cs) \<le> 33162240" by simp
  show "0 < spc s" by fact
  show "length cs \<noteq> 0" using assms by (auto simp: writing_def)
qed

text \<open>The clusters of a chain are in use.\<close>

lemma chain_in_use:
  assumes "is_chain (fat_at s) h cs" "\<forall>c \<in> set cs. alloc_range c" "c \<in> set cs"
  shows "fat_at s c \<noteq> CLUSTER_FREE"
proof -
  obtain i where i: "i < length cs" "c = cs ! i" using assms(3) by (metis in_set_conv_nth)
  then have "fat_at s c = (cs @ [CLUSTER_EOF]) ! Suc i" using is_chain_nth [OF assms(1) i(1)] by simp
  moreover have "(cs @ [CLUSTER_EOF]) ! Suc i \<noteq> CLUSTER_FREE"
  proof (cases "Suc i < length cs")
    case True
    then have "alloc_range (cs ! Suc i)" using assms(2) by (meson nth_mem)
    then have "cs ! Suc i \<noteq> 0" by auto
    with True show ?thesis by (simp add: nth_append)
  next
    case False
    then have "Suc i = length cs" using i(1) by simp
    then show ?thesis by (simp only: nth_append_length) simp
  qed
  ultimately show ?thesis by simp
qed

text \<open>When the last cluster of the file is full a new one is linked behind it.\<close>

lemma extend_file:
  assumes "fat_ok s" "is_chain (fat_at s) h cs" "distinct cs" "\<forall>c \<in> set cs. alloc_range c" "cs \<noteq> []" "free_set s \<noteq> {}"
  obtains c s1 s2 where "fat_next_cluster (last cs) s = Some (CLUSTER_EOF, s1)"
    "fat_allocate_cluster (last cs) s1 = Some (c, s2)" "c \<noteq> 0" "alloc_range c" "c \<notin> set cs" "fat_at s c = CLUSTER_FREE"
    "fat_ok s2" "fat_frame s s2" "is_chain (fat_at s2) h (cs @ [c])"
    "\<forall>d. fat_valid s d \<and> d \<notin> set (cs @ [c]) \<longrightarrow> fat_at s2 d = fat_at s d"
    "free_set s2 = free_set s - {unat c}" "unat c \<in> free_set s"
proof -
  have g: "geometry s" using assms(1) by (simp add: fat_ok_def)
  have use: "fat_at s d \<noteq> CLUSTER_FREE" if "d \<in> set cs" for d using chain_in_use [OF assms(2,4) that] .
  obtain k where k: "first_free s = Some k" "k \<in> free_set s" using first_free_set [OF assms(6)] .
  note kv = first_free_valid [OF k(1) g]
  define c :: u16 where "c = of_nat k"
  have c: "unat c = k" "alloc_range c" "c \<noteq> 0" "fat_valid s c" "fat_at s c = CLUSTER_FREE"
    using kv k(2) by (simp_all add: c_def free_set_def)
  have new: "c \<notin> set cs" using use c(5) by auto
  define s1 where "s1 = read_sector_cached (fat_sector_of s (last cs)) False s"
  have "fat_at s (last cs) = CLUSTER_EOF"
    using is_chain_nth [OF assms(2), of "length cs - 1"] assms(5) by (simp add: last_conv_nth nth_append)
  then have nxt: "fat_next_cluster (last cs) s = Some (CLUSTER_EOF, s1)"
    using fat_next_cluster_eq [OF assms(1)] by (simp add: s1_def)
  have s1: "fat_ok s1" "fat_at s1 = fat_at s" "disk_info s1 = disk_info s"
    using assms(1) by (simp_all add: s1_def fat_ok_read_cached)
  have valid: "fat_valid s1 d = fat_valid s d" for d using s1(3) by (rule fat_valid_info)
  have cs: "butlast cs @ [last cs] = cs" using assms(5) by simp
  have free1: "first_free s1 = Some k" using k(1) by (simp add: first_free_def s1(2))
  obtain s2 where s2: "fat_allocate_cluster (last cs) s1 = Some (c, s2)" "fat_ok s2" "fat_frame s1 s2"
      "is_chain (fat_at s2) h (cs @ [c])" "\<forall>d. fat_valid s d \<and> d \<noteq> last cs \<and> d \<noteq> c \<longrightarrow> fat_at s2 d = fat_at s d"
    using fat_allocate_link [OF s1(1) free1, of h "butlast cs" "last cs"] assms(2-4) use alloc_range_valid [OF g]
    unfolding cs by (auto simp: s1(2) valid c_def [symmetric]) (metis append.assoc append_Cons append_Nil cs)
  have frame: "fat_frame s s2" using fat_frame_trans [OF fat_frame_read_cached s2(3) [unfolded s1_def]] .
  have other: "fat_at s2 d = fat_at s d" if "fat_valid s d" "d \<notin> set (cs @ [c])" for d
    using s2(5) that assms(5) by auto
  have "\<forall>d \<in> set (cs @ [c]). alloc_range d" using assms(4) c(2) by auto
  note use2 = chain_in_use [OF s2(4) this]
  have "j \<in> free_set s2 \<longleftrightarrow> j \<in> free_set s \<and> j \<noteq> k" for j
  proof (cases "2 \<le> j \<and> j < 256")
    case True
    then have uj: "unat (of_nat j :: u16) = j" by (simp add: unat_of_nat_u16)
    then have v: "fat_valid s (of_nat j)" using True alloc_range_valid [OF g, of "of_nat j"] by simp
    show ?thesis
    proof (cases "(of_nat j :: u16) \<in> set (cs @ [c])")
      case True
      then have "fat_at s2 (of_nat j) \<noteq> CLUSTER_FREE" by (rule use2)
      moreover have "fat_at s (of_nat j) \<noteq> CLUSTER_FREE \<or> j = k" using True use uj c(1) by auto
      ultimately show ?thesis by (auto simp: free_set_def)
    next
      case False
      then have "j \<noteq> k" by (auto simp: c_def)
      with False other [OF v] show ?thesis by (simp add: free_set_def)
    qed
  qed (auto simp: free_set_def)
  then have "free_set s2 = free_set s - {unat c}" using c(1) by auto
  with nxt s2 frame other c new k(2) show thesis by (intro that [of s1 c s2]) auto
qed

lemma writingE:
  assumes "writing s fd n h cs w"
  obtains f where "fat_ok s" "is_chain (fat_at s) h cs" "distinct cs" "\<forall>c \<in> set cs. alloc_range c"
    "512 * (spc s * (length cs - 1)) \<le> length w" "length w < 512 * (spc s * length cs)"
    "take (length w) (file_data s cs) = w" "fd_at fd s = Some f" "mode f = FMODE_WRITE" "fd_name f = n"
    "unat (fsize f) = length w" "unat (fpos f) = length w" "pos_ok s cs (length w) f"
  using assms by (auto simp: writing_def)

lemma data_frame_keeps:
  assumes "geometry s" "data_frame s s'" "length (fdtable s') = length (fdtable s)"
    and "\<And>ds. set ds \<inter> set cs = {} \<Longrightarrow> \<forall>c \<in> set ds. alloc_range c \<Longrightarrow> file_data s' ds = file_data s ds"
  shows "keeps_others cs cs s s'"
  unfolding keeps_others_def
proof (intro conjI allI impI)
  show "dir_slots s' = dir_slots s" by (rule data_frame_dir [OF assms(1,2)])
  fix c :: u16 assume c: "alloc_range c \<and> c \<notin> set cs"
  then show "fat_at s' c = fat_at s c" using data_frame_fat [OF assms(1,2) alloc_range_valid] assms(1) by simp
  show "file_data s' [c] = file_data s [c]" using assms(4) [of "[c]"] c by simp
qed (use assms(2,3) in \<open>simp_all add: data_frame_def\<close>)

lemma fat_frame_keeps:
  assumes "geometry s" "fat_frame s s'" "\<forall>d. fat_valid s d \<and> d \<notin> set (cs @ [c]) \<longrightarrow> fat_at s' d = fat_at s d"
    and "alloc_range c" "fat_at s c = CLUSTER_FREE"
  shows "keeps_others cs (cs @ [c]) s s'"
  unfolding keeps_others_def
proof (intro conjI allI impI)
  show "dir_slots s' = dir_slots s" by (rule fat_frame_dir [OF assms(1,2)])
  fix d :: u16 assume d: "alloc_range d \<and> d \<notin> set (cs @ [c])"
  then show "fat_at s' d = fat_at s d" using assms(3) alloc_range_valid [OF assms(1)] by blast
  show "file_data s' [d] = file_data s [d]" using fat_frame_data [OF assms(1,2), of "[d]"] d by simp
qed (use assms(2,4,5) in \<open>auto simp: fat_frame_def\<close>)

lemma keeps_set_fd [simp]: "keeps_others cs cs' s (set_fd fd f s') = keeps_others cs cs' s s'"
proof -
  have "file_data (set_fd fd f s') ds = file_data s' ds" for ds
    by (rule same_disk_data(3)) (simp add: same_disk_def)
  then show ?thesis by (simp add: keeps_others_def) (simp add: set_fd_def)
qed

text \<open>What \<open>file_writesector\<close> does after it has moved the counters of the descriptor \<open>f\<close>; \<open>m\<close> is the
  new position within the sector.\<close>

definition after_sector :: "int \<Rightarrow> FileDescriptor_T \<Rightarrow> nat \<Rightarrow> fs \<Rightarrow> (int \<times> fs) option" where
  "after_sector fd f m s3 =
     (if m \<noteq> 512 then Some (0, s3)
      else do {
        s4 \<leftarrow> fd_update fd (\<lambda>f. f\<lparr>fpos_within_sector := 0, sector := sector f + 1\<rparr>) s3;
        if sector f + 1 \<noteq> sectors_per_cluster (disk_info s4) then Some (0, s4)
        else do {
          (next, s5) \<leftarrow> fat_next_cluster (current_cluster f) s4;
          (next_cluster, s6) \<leftarrow>
            (if next = CLUSTER_EOF then fat_allocate_cluster (current_cluster f) s5 else Some (next, s5));
          if next = CLUSTER_EOF \<and> next_cluster = 0 then Some (E_DISKFULL, s6)
          else do {
            s7 \<leftarrow> fd_update fd (\<lambda>f. f\<lparr>current_cluster := next_cluster, sector := 0\<rparr>) s6;
            Some (0, s7)
          }
        }
      })"

text \<open>The state after the sector has been written and the descriptor's counters have been set.\<close>

lemma writesector_sector:
  assumes "writing s fd n h cs w" "length w mod 512 + length d \<le> 512"
  obtains s2 f where "fat_ok s2" "keeps_others cs cs s s2" "is_chain (fat_at s2) h cs"
    "take (length (w @ d)) (file_data s2 cs) = w @ d" "fd_at fd s = Some f" "fd_at fd s2 = Some f" "disk_info s2 = disk_info s"
    "free_set s2 = free_set s"
    "file_writesector d (of_nat (length w mod 512)) fd s = (let s3 = set_fd fd (f\<lparr>fpos := fpos f + of_nat (length d),
        fsize := fsize f + of_nat (length d), fpos_within_sector := fpos_within_sector f + of_nat (length d)\<rparr>) s2 in
      after_sector fd f (length w mod 512 + length d) s3)"
proof -
  from assms(1) obtain f where f: "fat_ok s" "is_chain (fat_at s) h cs" "distinct cs" "\<forall>c \<in> set cs. alloc_range c"
    "length w < 512 * (spc s * length cs)" "take (length w) (file_data s cs) = w"
    "fd_at fd s = Some f" "pos_ok s cs (length w) f"
    by (rule writingE)
  have wf: "fs_wf s" and g: "geometry s" using f(1) by (simp_all add: fat_ok_def)
  have bps: "bytes_per_sector (disk_info s) = 512" using geometryD(1) [OF g] by simp
  define m where "m = length w mod 512"
  have m: "m < 512" "m + length d \<le> 512" using assms(2) by (simp_all add: m_def)
  have um: "unat (of_nat m :: u16) = m" and ud: "unat (of_nat (length d) :: u16) = length d"
    using m by (simp_all add: unat_of_nat_u16)
  have umd: "unat (of_nat m + of_nat (length d) :: u16) = m + length d"
    using m um ud by (subst unat_add_lt) simp_all
  have within: "fpos_within_sector f = of_nat m"
    using f(8) um by (simp add: word_unat_eq_iff pos_ok_def m_def)
  define sec where "sec = sectors_of s cs ! (length w div 512)"
  have sec: "file_sector f s = sec" unfolding sec_def by (rule file_sector_pos(1) [OF f(8,5)])
  let ?buf = "put_block s cs (length w) d"
  define s2 where "s2 = disk_write ?buf sec (read_sector_cached sec False s\<lparr>temp_sector := ?buf\<rparr>)"
  note pb = put_block_file [OF f(1,3,4,5) assms(2) sec_def s2_def]
  have buf: "memcpy (temp_sector (read_sector_cached sec False s)) m d = Some ?buf"
    using m by (simp add: memcpy_def read_sector_cached_temp [OF wf] fs_wf_read_length [OF wf] put_block_def Let_def m_def sec_def)
  have at2: "fd_at fd s2 = Some f" and info: "disk_info s2 = disk_info s"
    using fd_at_cong [of s2 s fd] f(7) by (simp_all add: s2_def)
  have fat2: "fat_at s2 c = fat_at s c" if "alloc_range c" for c
    using data_frame_fat [OF g pb(2) alloc_range_valid [OF g that]] .
  have "is_chain (fat_at s2) h cs" using f(2,4) fat2 by (subst is_chain_cong [of cs _ "fat_at s"]) auto
  moreover have "length (fdtable s2) = length (fdtable s)" by (simp add: s2_def)
  then have "keeps_others cs cs s s2" by (rule data_frame_keeps [OF g pb(2) _ pb(4)])
  moreover have "free_set s2 = free_set s"
    using fat2 by (auto simp: free_set_def unat_of_nat_u16)
  moreover have "ucast (of_nat (length d) :: u16) = (of_nat (length d) :: u32)"
    using ud m by (simp add: word_unat_eq_iff unat_u16_u32 unat_of_nat_u32)
  then have "file_writesector d (of_nat m) fd s = (let s3 = set_fd fd (f\<lparr>fpos := fpos f + of_nat (length d),
        fsize := fsize f + of_nat (length d), fpos_within_sector := fpos_within_sector f + of_nat (length d)\<rparr>) s2 in
      after_sector fd f (m + length d) s3)"
    using m umd word_le_nat_alt word_unat_eq_iff [of "of_nat m + of_nat (length d) :: u16" 512]
    by (simp add: after_sector_def file_writesector_def Let_def bps f(7) sec um buf s2_def [symmetric] fd_update_eq [OF at2] within
        not_less [symmetric] word_less_nat_alt)
  ultimately show thesis using that [of s2 f] pb f(7) at2 info f(6) by (simp add: m_def)
qed

text \<open>The position inside the last cluster, in sectors.\<close>

lemma last_cluster:
  assumes "512 * (k * (l - 1)) \<le> p" "p < 512 * (k * (l :: nat))" "q = p div 512"
  shows "q div k = l - 1" "q < k * l" "0 < k" "0 < l" "k * (l - 1) \<le> q"
proof -
  show "0 < k" "0 < l" using assms(2) by (auto intro: gr0I)
  show "q < k * l" using assms(2,3) by (simp add: less_mult_imp_div_less mult.commute)
  show *: "k * (l - 1) \<le> q" using div_le_mono [OF assms(1), of 512] assms(3) by simp
  have "q < k * Suc (l - 1)" using \<open>q < k * l\<close> \<open>0 < l\<close> by simp
  with * show "q div k = l - 1" by (intro div_nat_eqI) simp_all
qed

lemma same_sector:
  assumes "p mod 512 + l < (512 :: nat)"
  shows "(p + l) div 512 = p div 512" "(p + l) mod 512 = p mod 512 + l"
proof -
  have "p + l = 512 * (p div 512) + (p mod 512 + l)" by simp
  then show "(p + l) div 512 = p div 512" "(p + l) mod 512 = p mod 512 + l"
    using assms div_mult_self4 [of 512 "p div 512" "p mod 512 + l"] mod_mult_self4 [of 512 "p div 512" "p mod 512 + l"]
    by (metis add_0_right div_less zero_neq_numeral, metis mod_less)
qed

lemma full_sector:
  assumes "p mod 512 + l = (512 :: nat)"
  shows "p + l = 512 * Suc (p div 512)" "(p + l) div 512 = Suc (p div 512)" "(p + l) mod 512 = 0"
proof -
  have "p + l = 512 * (p div 512) + (p mod 512 + l)" by simp
  then show *: "p + l = 512 * Suc (p div 512)" unfolding assms by (simp only: mult_Suc_right add.commute)
  show "(p + l) div 512 = Suc (p div 512)" "(p + l) mod 512 = 0" unfolding * by simp_all
qed

text \<open>A write within one sector appends its data.\<close>

lemma writesector_appends:
  assumes w: "writing s fd n h cs w" and fits: "length w mod 512 + length d \<le> 512"
    and room: "length w + length d = 512 * (spc s * length cs) \<Longrightarrow> free_set s \<noteq> {}"
  obtains s' ds where "file_writesector d (of_nat (length w mod 512)) fd s = Some (0, s')"
    "writing s' fd n h (cs @ ds) (w @ d)" "keeps_others cs (cs @ ds) s s'"
    "card (free_set s') + length ds = card (free_set s)" "disk_info s' = disk_info s"
proof -
  obtain s2 f where s2: "fat_ok s2" "keeps_others cs cs s s2" "is_chain (fat_at s2) h cs"
    "take (length (w @ d)) (file_data s2 cs) = w @ d" "fd_at fd s = Some f" "fd_at fd s2 = Some f" "disk_info s2 = disk_info s"
    "free_set s2 = free_set s" and wsec: "file_writesector d (of_nat (length w mod 512)) fd s = (let s3 = set_fd fd (f\<lparr>fpos := fpos f + of_nat (length d),
        fsize := fsize f + of_nat (length d), fpos_within_sector := fpos_within_sector f + of_nat (length d)\<rparr>) s2 in
      after_sector fd f (length w mod 512 + length d) s3)"
    by (rule writesector_sector [OF w fits])
  note wr = w [unfolded writing_def]
  then have cs: "distinct cs" "\<forall>c \<in> set cs. alloc_range c" "cs \<noteq> []" using writing_bound(3) [OF w] by auto
  from w s2(5) have f: "mode f = FMODE_WRITE" "fd_name f = n" "unat (fsize f) = length w" "unat (fpos f) = length w"
    "pos_ok s cs (length w) f" by (auto elim: writingE)
  define q where "q = length w div 512"
  note lc = last_cluster [of "spc s" "length cs" "length w" q, OF _ _ q_def]
  have q: "q div spc s = length cs - 1" "q < spc s * length cs" "0 < spc s" "spc s * (length cs - 1) \<le> q"
    using lc wr by simp_all
  have spc256: "spc s < 256" using unat_u8_less by (simp add: spc_def)
  have pos: "unat (fpos_within_sector f) = length w mod 512" "unat (sector f) = q mod spc s" "current_cluster f = last cs"
    using f(5) q cs(3) by (simp_all add: pos_ok_def q_def nth_append last_conv_nth)
  define f3 where "f3 = f\<lparr>fpos := fpos f + of_nat (length d), fsize := fsize f + of_nat (length d),
      fpos_within_sector := fpos_within_sector f + of_nat (length d)\<rparr>"
  define s3 where "s3 = set_fd fd f3 s2"
  have at3: "fd_at fd s3 = Some f3" unfolding s3_def by (rule fd_at_set_fd [OF s2(6)])
  have s3: "fat_ok s3" "keeps_others cs cs s s3" "is_chain (fat_at s3) h cs" "disk_info s3 = disk_info s"
    "file_data s3 es = file_data s2 es" "spc s3 = spc s" "free_set s3 = free_set s" for es
    using s2(1-4,7,8) same_disk_data(3) [of s2 s3] by (simp_all add: s3_def same_disk_def spc_def free_set_def)
  have len: "length w + length d \<le> 33162752" using writing_bound(1) [OF w] wr fits by simp
  have ud: "unat (of_nat (length d) :: u32) = length d" "unat (of_nat (length d) :: u16) = length d"
    using fits by (simp_all add: unat_of_nat_u32 unat_of_nat_u16)
  have counters: "unat (fsize f3) = length w + length d" "unat (fpos f3) = length w + length d"
    using f(3,4) len by (simp_all add: f3_def unat_add_lt ud)
  have within: "unat (fpos_within_sector f3) = length w mod 512 + length d"
    using pos(1) fits by (simp add: f3_def unat_add_lt ud)
  have write3: "file_writesector d (of_nat (length w mod 512)) fd s = after_sector fd f (length w mod 512 + length d) s3"
    using wsec by (simp add: Let_def s3_def f3_def)
  have appended: "writing s' fd n h (cs @ ds) (w @ d)"
    if "fat_ok s'" "is_chain (fat_at s') h (cs @ ds)" "distinct (cs @ ds)" "\<forall>c \<in> set (cs @ ds). alloc_range c"
      "disk_info s' = disk_info s" "file_data s' cs = file_data s3 cs"
      "fd_at fd s' = Some f'" "fsize f' = fsize f3" "fpos f' = fpos f3" "mode f' = mode f" "fd_name f' = fd_name f"
      "pos_ok s' (cs @ ds) (length w + length d) f'" "spc s * (length (cs @ ds) - 1) \<le> (length w + length d) div 512"
      "(length w + length d) div 512 < spc s * length (cs @ ds)" for s' ds f'
  proof -
    have spc': "spc s' = spc s" by (simp add: spc_def that(5))
    have "length (file_data s3 cs) = 512 * (spc s * length cs)"
      using s3(1,6) by (simp add: fat_ok_def file_data_length)
    moreover have "length w + length d \<le> 512 * (spc s * length cs)"
    proof -
      have "length w + length d = 512 * q + (length w mod 512 + length d)" by (simp add: q_def)
      then have "length w + length d \<le> 512 * Suc q" using fits unfolding mult_Suc_right by linarith
      also have "\<dots> \<le> 512 * (spc s * length cs)" using q(2) by (intro mult_le_mono2) simp
      finally show ?thesis .
    qed
    ultimately have "take (length (w @ d)) (file_data s' (cs @ ds)) = w @ d"
      using s2(4) s3(5) by (simp add: file_data_append that(6))
    moreover have "512 * (spc s * (length (cs @ ds) - 1)) \<le> length w + length d"
      "length w + length d < 512 * (spc s * length (cs @ ds))"
      using that(13,14) by (simp_all add: less_eq_div_iff_mult_less_eq div_less_iff_less_mult mult.commute)
    ultimately show ?thesis
      unfolding writing_def using that counters f(1,2) by (auto simp: spc')
  qed
  have info3: "sectors_per_cluster (disk_info s3) = sectors_per_cluster (disk_info s)" by (simp add: s3(4))
  have usec: "unat (sector f + 1) = Suc (q mod spc s)"
    using pos(2) spc256 mod_less_divisor [OF q(3), of q] by (subst unat_Suc_word) auto
  have full: "sector f + 1 = sectors_per_cluster (disk_info s) \<longleftrightarrow> Suc (q mod spc s) = spc s"
    using usec by (simp add: word_unat_eq_iff spc_def)
  show thesis
  proof (cases "length w mod 512 + length d = 512")
    case False
    then have lt: "length w mod 512 + length d < 512" using fits by simp
    note ss = same_sector [OF lt, folded q_def]
    have "writing s3 fd n h (cs @ []) (w @ d)"
      using s3 cs at3 q pos within lt ss
      by (intro appended [where f' = f3]) (auto simp: f3_def pos_ok_def nth_append last_conv_nth)
    with False write3 s3(2,4,7) show thesis by (intro that [of s3 "[]"]) (simp_all add: after_sector_def)
  next
    case True
    note fs = full_sector [OF True, folded q_def]
    define f4 where "f4 = f3\<lparr>fpos_within_sector := 0, sector := sector f + 1\<rparr>"
    define s4 where "s4 = set_fd fd f4 s3"
    have f3s: "sector f3 = sector f" by (simp add: f3_def)
    have upd4: "fd_update fd (\<lambda>f. f\<lparr>fpos_within_sector := 0, sector := sector f + 1\<rparr>) s3 = Some s4"
      by (simp add: fd_update_eq [OF at3] s4_def f4_def f3s)
    have at4: "fd_at fd s4 = Some f4" unfolding s4_def by (rule fd_at_set_fd [OF at3])
    have s4: "fat_ok s4" "keeps_others cs cs s s4" "is_chain (fat_at s4) h cs" "disk_info s4 = disk_info s"
      "file_data s4 es = file_data s3 es" "free_set s4 = free_set s" "spc s4 = spc s" for es
      using s3(1-4,6,7) same_disk_data(3) [of s3 s4] by (simp_all add: s4_def same_disk_def free_set_def spc_def)
    show thesis
    proof (cases "Suc (q mod spc s) = spc s")
      case False
      note md = mod_div_Suc(2) [OF q(3) False]
      have "Suc q < spc s * length cs"
      proof -
        have "Suc q div spc s < length cs" using md q(1) cs(3) by simp
        then show ?thesis using q(3) by (simp add: div_less_iff_less_mult mult.commute)
      qed
      then have "writing s4 fd n h (cs @ []) (w @ d)"
        using s4 cs at4 q fs md usec False
        by (intro appended [where f' = f4]) (auto simp: f4_def f3_def pos_ok_def nth_append last_conv_nth pos(3))
      with False True write3 s4(2,4,6) full show thesis
        by (intro that [of s4 "[]"]) (simp_all add: after_sector_def upd4)
    next
      case cluster_full: True
      note md = mod_div_Suc(1) [OF q(3) cluster_full]
      have end_q: "Suc q = spc s * length cs"
        using md q(1) cs(3) div_mult_mod_eq [of "Suc q" "spc s"] by (simp add: mult.commute)
      then have "free_set s4 \<noteq> {}" using room fs(1) s4(6) by simp
      then obtain c s5 s6 where c: "fat_next_cluster (last cs) s4 = Some (CLUSTER_EOF, s5)"
        "fat_allocate_cluster (last cs) s5 = Some (c, s6)" "c \<noteq> 0" "alloc_range c" "c \<notin> set cs" "fat_at s4 c = CLUSTER_FREE"
        "fat_ok s6" "fat_frame s4 s6" "is_chain (fat_at s6) h (cs @ [c])"
        "\<forall>d. fat_valid s4 d \<and> d \<notin> set (cs @ [c]) \<longrightarrow> fat_at s6 d = fat_at s4 d"
        "free_set s6 = free_set s4 - {unat c}" "unat c \<in> free_set s4"
        by (rule extend_file [OF s4(1,3) cs])
      have g4: "geometry s4" using s4(1) by (simp add: fat_ok_def)
      have at6: "fd_at fd s6 = Some f4" using c(8) at4 fd_at_cong [of s6 s4 fd] by (simp add: fat_frame_def)
      define f7 where "f7 = f4\<lparr>current_cluster := c, sector := 0\<rparr>"
      define s7 where "s7 = set_fd fd f7 s6"
      have at7: "fd_at fd s7 = Some f7" unfolding s7_def by (rule fd_at_set_fd [OF at6])
      have same67: "same_disk s6 s7" by (simp add: s7_def same_disk_def)
      have info7: "disk_info s7 = disk_info s" using c(8) s4(4) by (simp add: s7_def fat_frame_def)
      have data7: "file_data s7 cs = file_data s3 cs"
        using fat_frame_data [OF g4 c(8) cs(2)] same_disk_data(3) [OF same67] s4(5) by simp
      have keeps: "keeps_others cs (cs @ [c]) s s7"
        using keeps_others_trans [OF s4(2) fat_frame_keeps [OF g4 c(8,10,4,6)]] by (simp add: s7_def)
      have spc7: "spc s7 = spc s" by (simp add: spc_def info7)
      have chain7: "is_chain (fat_at s7) h (cs @ [c])" "fat_ok s7" "free_set s7 = free_set s6"
        using c(7,9) by (simp_all add: s7_def free_set_def)
      have pos7: "pos_ok s7 (cs @ [c]) (length w + length d) f7"
        using end_q fs md q(3) by (simp add: pos_ok_def spc7 f7_def f4_def nth_append)
      have "writing s7 fd n h (cs @ [c]) (w @ d)"
        using chain7(1,2) cs c(4,5) at7 info7 data7 pos7 end_q fs q(3)
        by (intro appended [where f' = f7]) (simp_all add: f7_def f4_def f3_def)
      moreover have "file_writesector d (of_nat (length w mod 512)) fd s = Some (0, s7)"
        using write3 full [THEN iffD2, OF cluster_full] s4(4) True
        by (simp add: after_sector_def upd4 pos(3) c(1-3) fd_update_eq [OF at6] s7_def f7_def)
      moreover have "card (free_set s7) + length [c] = card (free_set s)"
        using c(12) finite_free_set [of s] card_Suc_Diff1 [of "free_set s" "unat c"] by (simp add: chain7(3) c(11) s4(6))
      ultimately show thesis using that [of s7 "[c]"] keeps info7 by simp
    qed
  qed
qed

section \<open>Writing\<close>

text \<open>The bytes that fit the clusters of the file and the free clusters together.\<close>

definition capacity :: "fs \<Rightarrow> u16 list \<Rightarrow> nat" where
  "capacity s cs = 512 * (spc s * (length cs + card (free_set s)))"

lemma writesector_capacity:
  assumes "writing s fd n h cs w" "length w mod 512 + length d \<le> 512" "length w + length d < capacity s cs"
  obtains s' ds where "file_writesector d (of_nat (length w mod 512)) fd s = Some (0, s')"
    "writing s' fd n h (cs @ ds) (w @ d)" "keeps_others cs (cs @ ds) s s'"
    "capacity s' (cs @ ds) = capacity s cs" "disk_info s' = disk_info s"
proof -
  have "free_set s \<noteq> {}" if "length w + length d = 512 * (spc s * length cs)"
    using assms(3) that by (auto simp: capacity_def)
  from writesector_appends [OF assms(1,2) this] obtain s' ds where
    "file_writesector d (of_nat (length w mod 512)) fd s = Some (0, s')"
    "writing s' fd n h (cs @ ds) (w @ d)" "keeps_others cs (cs @ ds) s s'"
    "card (free_set s') + length ds = card (free_set s)" "disk_info s' = disk_info s" by blast
  moreover from this have "length (cs @ ds) + card (free_set s') = length cs + card (free_set s)" by simp
  ultimately show thesis using that [of s' ds] by (simp add: capacity_def spc_def del: length_append)
qed

lemma write_sectors_appends:
  assumes "writing s fd n h cs w" "length w mod 512 = 0" "512 * k \<le> length data" "length w + 512 * k < capacity s cs"
  obtains s' ds where "write_sectors k data fd s = Some (Some (drop (512 * k) data), s')"
    "writing s' fd n h (cs @ ds) (w @ take (512 * k) data)" "keeps_others cs (cs @ ds) s s'"
    "capacity s' (cs @ ds) = capacity s cs" "disk_info s' = disk_info s"
  using assms
proof (induction k arbitrary: s cs w data thesis)
  case 0
  then show ?case using keeps_others_refl by (intro 0(1) [of s "[]"]) simp_all
next
  case (Suc k)
  let ?d = "take 512 data"
  have bps: "unat (bytes_per_sector (disk_info s)) = 512"
    using Suc.prems(2) by (simp add: writing_def fat_ok_def geometry_def)
  have "length ?d = 512" using Suc.prems(4) by simp
  then obtain s1 ds where s1: "file_writesector ?d 0 fd s = Some (0, s1)" "writing s1 fd n h (cs @ ds) (w @ ?d)"
      "keeps_others cs (cs @ ds) s s1" "capacity s1 (cs @ ds) = capacity s cs" "disk_info s1 = disk_info s"
    using writesector_capacity [OF Suc.prems(2), of ?d] Suc.prems(3,5) by auto
  have "length (w @ ?d) mod 512 = 0" "512 * k \<le> length (drop 512 data)" "length (w @ ?d) + 512 * k < capacity s1 (cs @ ds)"
    using Suc.prems(3-5) \<open>length ?d = 512\<close> s1(4) by simp_all
  then obtain s2 es where s2: "write_sectors k (drop 512 data) fd s1 = Some (Some (drop (512 * k) (drop 512 data)), s2)"
      "writing s2 fd n h ((cs @ ds) @ es) ((w @ ?d) @ take (512 * k) (drop 512 data))"
      "keeps_others (cs @ ds) ((cs @ ds) @ es) s1 s2" "capacity s2 ((cs @ ds) @ es) = capacity s1 (cs @ ds)"
      "disk_info s2 = disk_info s1"
    using Suc.IH [OF _ s1(2)] by metis
  have "take (512 * Suc k) data = ?d @ take (512 * k) (drop 512 data)"
    by (simp only: mult_Suc_right take_add)
  with s1 s2 keeps_others_trans [OF s1(3) s2(3)] show ?case
    by (intro Suc.prems(1) [of s2 "ds @ es"]) (simp_all add: bps Let_def add.commute)
qed

text \<open>The call: a partial sector, whole sectors, the rest.\<close>

lemma file_write_ok:
  assumes w: "writing s 0 n h cs w" and data: "length data < 2 ^ 16" and room: "length w + length data < capacity s cs"
  obtains s' ds where "file_write data 0 s = Some (of_nat (length data), s')"
    "writing s' 0 n h (cs @ ds) (w @ data)" "keeps_others cs (cs @ ds) s s'" "capacity s' (cs @ ds) = capacity s cs"
proof -
  have bps: "bytes_per_sector (disk_info s) = 512" using w by (simp add: writing_def fat_ok_def geometry_def)
  obtain f where f: "fd_at 0 s = Some f" "mode f = FMODE_WRITE" "unat (fpos_within_sector f) = length w mod 512"
    using w by (auto simp: pos_ok_def elim: writingE)
  define m where "m = length w mod 512"
  define l where "l = (if m = 0 then 0 else min (length data) (512 - m))"
  have m: "fpos_within_sector f = of_nat m" "unat (of_nat m :: u16) = m" "m < 512" "fpos_within_sector f = 0 \<longleftrightarrow> m = 0"
    using f(3) by (simp_all add: m_def word_unat_eq_iff unat_of_nat_u16)
  have ud: "unat (of_nat (length data) :: u16) = length data" using data by (simp add: unat_of_nat_u16)
  have limit: "unat (512 - of_nat m :: u16) = 512 - m" using m by (simp add: unat_sub word_le_nat_alt)
  define partial :: u16 where "partial = (if fpos_within_sector f = 0 then 0
      else if (of_nat (length data) :: u16) < 512 - fpos_within_sector f then of_nat (length data) else 512 - fpos_within_sector f)"
  have partial: "unat partial = l"
    using ud limit m by (auto simp: partial_def l_def word_less_nat_alt)
  have l: "l \<le> length data" "m + l \<le> 512" using m(3) by (auto simp: l_def)
  have first: "\<exists>s1 ds. (if fpos_within_sector f = 0 then Some (0, s)
        else file_writesector (take (unat partial) data) (fpos_within_sector f) 0 s) = Some (0, s1)
      \<and> writing s1 0 n h (cs @ ds) (w @ take l data) \<and> keeps_others cs (cs @ ds) s s1
      \<and> capacity s1 (cs @ ds) = capacity s cs \<and> disk_info s1 = disk_info s"
  proof (cases "m = 0")
    case True
    then show ?thesis using w keeps_others_refl m(4) by (intro exI [of _ s] exI [of _ "[]"]) (simp add: l_def)
  next
    case False
    have "length w mod 512 + length (take l data) \<le> 512" "length w + length (take l data) < capacity s cs"
      using l room by (simp_all add: m_def)
    from writesector_capacity [OF w this] show ?thesis
      using False m by (metis m_def partial)
  qed
  then obtain s1 ds where s1: "(if fpos_within_sector f = 0 then Some (0, s)
        else file_writesector (take (unat partial) data) (fpos_within_sector f) 0 s) = Some (0, s1)"
      "writing s1 0 n h (cs @ ds) (w @ take l data)" "keeps_others cs (cs @ ds) s s1"
      "capacity s1 (cs @ ds) = capacity s cs" "disk_info s1 = disk_info s" by blast
  define rest where "rest = drop l data"
  have split: "take l data @ rest = data" by (simp add: rest_def)
  define body where "body = (if rest = [] then Some (partial, s1)
          else if bytes_per_sector (disk_info s) = 0 then None
          else do {
            (r, s2) \<leftarrow> write_sectors (unat ((of_nat (length rest) :: u16) div bytes_per_sector (disk_info s))) rest 0 s1;
            case r of
              None \<Rightarrow> Some (0, s2)
            | Some final \<Rightarrow>
                if final = [] then Some (of_nat (length data), s2)
                else do {
                  (e', s3) \<leftarrow> file_writesector final 0 0 s2;
                  Some (of_nat (length data), s3)
                }
          })"
  have guard: "\<not> ((0 :: int) < 0 \<or> int FILE_LIMIT \<le> 0)" by simp
  have call: "file_write data 0 s = body"
    unfolding file_write_def body_def
    by (simp only: guard if_False f(1,2) Option.bind_lunit simp_thms Let_def bps partial_def [symmetric] s1(1) [unfolded partial] prod.case
        partial rest_def [symmetric])
  show thesis
  proof (cases "rest = []")
    case True
    then have "l = length data" using l(1) by (simp add: rest_def)
    then have "partial = of_nat (length data)" using partial ud by (simp add: word_unat_eq_iff)
    with True call s1 \<open>l = length data\<close> show thesis by (intro that [of s1 ds]) (simp_all add: body_def)
  next
    case False
    then have aligned: "length (w @ take l data) mod 512 = 0"
    proof -
      have "m = 0 \<or> m + l = 512" using False l by (auto simp: l_def rest_def min_def split: if_splits)
      then show ?thesis using full_sector(3) [of "length w" l] l(1) by (auto simp: m_def l_def)
    qed
    define k where "k = length rest div 512"
    have lrest: "length rest < 2 ^ 16" "unat (of_nat (length rest) :: u16) = length rest"
      using data by (simp_all add: rest_def unat_of_nat_u16)
    have uk: "unat ((of_nat (length rest) :: u16) div 512) = k" using lrest(2) by (simp add: unat_div k_def)
    have k: "512 * k \<le> length rest" "length rest - 512 * k < 512"
      by (simp_all add: k_def minus_mult_div_eq_mod)
    have room1: "length (w @ take l data) + 512 * k < capacity s1 (cs @ ds)"
      using k(1) room l(1) by (simp add: s1(4) rest_def)
    obtain s2 es where s2: "write_sectors k rest 0 s1 = Some (Some (drop (512 * k) rest), s2)"
        "writing s2 0 n h ((cs @ ds) @ es) ((w @ take l data) @ take (512 * k) rest)"
        "keeps_others (cs @ ds) ((cs @ ds) @ es) s1 s2" "capacity s2 ((cs @ ds) @ es) = capacity s1 (cs @ ds)"
      using write_sectors_appends [OF s1(2) aligned k(1) room1] by metis
    note keeps2 = keeps_others_trans [OF s1(3) s2(3)]
    let ?final = "drop (512 * k) rest"
    have written: "(w @ take l data) @ take (512 * k) rest @ ?final = w @ data" using split by simp
    show thesis
    proof (cases "?final = []")
      case True
      with False call s2(1) bps uk have "file_write data 0 s = Some (of_nat (length data), s2)" by (simp add: body_def)
      then show thesis using True written s2(2,4) keeps2 s1(4) by (intro that [of s2 "ds @ es"]) simp_all
    next
      case last: False
      let ?w = "(w @ take l data) @ take (512 * k) rest"
      have lw: "length ?w = length (w @ take l data) + 512 * k"
        using k(1) by (subst length_append) (simp only: length_take min_absorb2)
      have mod0: "length ?w mod 512 = 0" using aligned unfolding lw by (simp only: mod_mult_self2)
      have fits: "length ?w mod 512 + length ?final \<le> 512" "length ?w + length ?final < capacity s2 ((cs @ ds) @ es)"
      proof -
        show "length ?w mod 512 + length ?final \<le> 512" using k(2) by (simp only: mod0) simp
        have "length ?w + length ?final = length w + length data"
          using arg_cong [OF written, of length] by simp
        then show "length ?w + length ?final < capacity s2 ((cs @ ds) @ es)" using room s2(4) s1(4) by simp
      qed
      obtain s3 gs where s3: "file_writesector ?final (of_nat (length ?w mod 512)) 0 s2 = Some (0, s3)"
          "writing s3 0 n h (((cs @ ds) @ es) @ gs) (?w @ ?final)"
          "keeps_others ((cs @ ds) @ es) (((cs @ ds) @ es) @ gs) s2 s3"
          "capacity s3 (((cs @ ds) @ es) @ gs) = capacity s2 ((cs @ ds) @ es)"
        by (rule writesector_capacity [OF s2(2) fits])
      have "file_write data 0 s = Some (of_nat (length data), s3)"
        using False last call s2(1) s3(1) [unfolded mod0 of_nat_0] bps uk by (simp add: body_def)
      then show thesis
        using written s3(2,4) keeps_others_trans [OF keeps2 s3(3)] s2(4) s1(4)
        by (intro that [of s3 "ds @ es @ gs"]) simp_all
    qed
  qed
qed

end
