(* ===== verification/File_Lifecycle.thy ===== *)
theory File_Lifecycle
  imports File_Writing
begin

text \<open>
  The life of a file: created by \<open>file_open\<close>, written by any number of \<open>file_write\<close> calls, closed,
  and read back. The interface \<open>appender\<close> is what a program relies on that writes a file in pieces:
  each call adds its data at the end, as long as there is room.
\<close>

section \<open>Opening a new file\<close>

lemma strcpy_length: "strcpy dst src = Some dst' \<Longrightarrow> length dst' = length dst"
  by (auto simp: strcpy_def memcpy_length split: if_splits)

lemma file_open_write_ok:
  assumes "fat_ok s" "fd_ready s" "12 \<le> length filename" "valid_name (canon filename)"
    and "dir_scan (canon filename) (dir_slots s) = Missing" "first_free s = Some c"
    and "first_idx slot_free (dir_slots s) = Some k"
  obtains e n s' where "file_open filename FMODE_WRITE s = Some (0, s')" "writing s' 0 n (of_nat c) [of_nat c] []"
    "0 \<in> set n" "cstr n = canon filename" "length n = 13" "length (fdtable s') = 1"
    "entry_wf e" "is_file (entry_bytes e)" "slot_string (entry_bytes e) = canon filename"
    "starting_cluster e = of_nat c" "dir_slots s' = (dir_slots s)[k := entry_bytes e]"
    "capacity s' [of_nat c] = 512 * (spc s * card (free_set s))"
    "\<forall>d. alloc_range d \<and> d \<noteq> of_nat c \<longrightarrow> fat_at s' d = fat_at s d"
    "\<forall>ds. (\<forall>d \<in> set ds. alloc_range d) \<longrightarrow> file_data s' ds = file_data s ds" "disk_info s' = disk_info s"
proof -
  obtain u f where f: "filename_upper filename = Some u"
    "strcpy (fd_name (fdtable s ! 0)) u = Some (fd_name f)" "0 \<in> set (fd_name f)" "cstr (fd_name f) = canon filename"
    "fd_at 0 (set_fd 0 f s) = Some f"
    "fd_update 0 (\<lambda>f'. f'\<lparr>fd_name := fd_name f\<rparr>) s = Some (set_fd 0 f s)"
    using open_prefix [OF assms(2,3)] by metis
  note at = fd_ready_assign [OF assms(2)]
  have g: "geometry s" using assms(1) by (simp add: fat_ok_def)
  define s1 where "s1 = set_fd 0 f s"
  have ok1: "fat_ok s1" and dir1: "dir_slots s1 = dir_slots s" and fat1: "fat_at s1 = fat_at s"
    and free1: "first_free s1 = Some c" and valid1: "fat_valid s1 d = fat_valid s d" for d
    using assms(1,6) by (simp_all add: s1_def first_free_def fat_valid_def)
  have at1: "fd_at 0 s1 = Some f" using f(5) by (simp add: s1_def)
  have missing: "dir_scan (cstr (fd_name f)) (dir_slots s1) = Missing" using assms(5) by (simp add: f(4) dir1)
  obtain e s2 where s2: "file_open_write 0 s1 = Some (0, s2)" "fat_ok s2" "fd_at 0 s2 = Some (fd_start e FMODE_WRITE f)"
    "entry_wf e" "is_file (entry_bytes e)" "slot_string (entry_bytes e) = canon filename"
    "starting_cluster e = of_nat c" "de_size e = 0" "dir_slots s2 = (dir_slots s)[k := entry_bytes e]"
    "\<forall>d. fat_valid s d \<longrightarrow> fat_at s2 d = (if d = of_nat c then CLUSTER_EOF else fat_at s d)"
    "disk_info s2 = disk_info s1" "length (fdtable s2) = length (fdtable s1)"
    "\<forall>a. data_region (disk_info s1) \<le> a \<longrightarrow> disk s2 a = disk s1 a"
    by (rule file_open_write_start [OF ok1 at1 f(3) _ missing free1, unfolded f(4) dir1 fat1 valid1, OF assms(4,7)])
  have info: "disk_info s2 = disk_info s" using s2(11) by (simp add: s1_def)
  have len: "length (fd_name f) = 13" "length (fdtable s2) = 1"
    using strcpy_length [OF f(2)] assms(2) s2(12) by (simp_all add: fd_ready_def s1_def set_fd_def)
  have opened: "file_open filename FMODE_WRITE s = Some (0, s2)"
    using s2(1) at by (simp add: file_open_def f(1,2,6) s1_def [symmetric])
  note cv = first_free_valid [OF assms(6) g] and cf = first_free_Some [OF assms(6)]
  define c' :: u16 where "c' = of_nat c"
  have c': "alloc_range c'" "unat c' = c" "c' \<noteq> CLUSTER_EOF" "fat_valid s c'" using cv cf by (simp_all add: c'_def)
  have fat2: "fat_at s2 d = (if d = c' then CLUSTER_EOF else fat_at s d)" if "alloc_range d" for d
    using s2(10) alloc_range_valid [OF g that] by (simp add: c'_def)
  have "free_set s2 = free_set s - {c}"
  proof (rule set_eqI)
    fix j
    show "j \<in> free_set s2 \<longleftrightarrow> j \<in> free_set s - {c}"
    proof (cases "2 \<le> j \<and> j < 256")
      case True
      then have uj: "unat (of_nat j :: u16) = j" by (simp add: unat_of_nat_u16)
      then have "(of_nat j :: u16) = c' \<longleftrightarrow> j = c" using c'(2) by (auto simp: word_unat_eq_iff)
      with uj True fat2 [of "of_nat j"] show ?thesis by (simp add: free_set_def)
    qed (auto simp: free_set_def)
  qed
  moreover have "c \<in> free_set s" using cf by (simp add: free_set_def)
  ultimately have cap: "capacity s2 [c'] = 512 * (spc s * card (free_set s))"
    using card_Suc_Diff1 [OF finite_free_set, of c s] by (simp add: capacity_def spc_def info)
  have "0 < spc s2" using spc_bounds [OF s2(2)] by simp
  then have "writing s2 0 (fd_name f) c' [c'] []"
    using s2(2,3,7,8) c' fat2 by (simp add: writing_def fd_start_def pos_ok_def) (simp add: c'_def)
  moreover have "file_data s2 ds = file_data s ds" if "\<forall>d \<in> set ds. alloc_range d" for ds
    using s2(13) info by (intro outside_data [OF g _ that]) (simp_all add: s1_def)
  ultimately show thesis
    using opened s2 f(3,4) len cap fat2 info by (intro that [of s2 "fd_name f" e]) (simp_all add: c'_def)
qed

section \<open>Closing\<close>

lemma resized_entry:
  assumes "entry_wf e"
  shows "entry_wf (e\<lparr>de_size := z\<rparr>)" "is_file (entry_bytes (e\<lparr>de_size := z\<rparr>)) = is_file (entry_bytes e)"
    "slot_string (entry_bytes (e\<lparr>de_size := z\<rparr>)) = slot_string (entry_bytes e)"
proof -
  show wf: "entry_wf (e\<lparr>de_size := z\<rparr>)" using assms by (simp add: entry_wf_def)
  show "is_file (entry_bytes (e\<lparr>de_size := z\<rparr>)) = is_file (entry_bytes e)"
    using entry_bytes_nth(1) [OF assms, of 0] entry_bytes_nth(1) [OF wf, of 0]
      entry_bytes_nth(2) [OF assms] entry_bytes_nth(2) [OF wf] by (simp add: is_file_def)
  show "slot_string (entry_bytes (e\<lparr>de_size := z\<rparr>)) = slot_string (entry_bytes e)"
    using assms by (simp add: slot_string_def entry_bytes_def entry_wf_def)
qed

lemma dir_slots_close_entry [simp]: "dir_slots (s\<lparr>close_entry := e\<rparr>) = dir_slots s"
  by (simp add: dir_slots_def slots_from_def root_sectors_def)

lemma file_close_ok:
  assumes "writing s 0 n h cs w" "0 \<in> set n" "dir_scan (cstr n) (dir_slots s) = Found k"
    and "dir_slots s ! k = entry_bytes e" "entry_wf e"
  obtains s' f where "file_close 0 s = Some s'" "fat_ok s'" "disk_info s' = disk_info s"
    "dir_slots s' = (dir_slots s)[k := entry_bytes (e\<lparr>de_size := of_nat (length w)\<rparr>)]"
    "\<forall>d. alloc_range d \<longrightarrow> fat_at s' d = fat_at s d"
    "\<forall>ds. (\<forall>d \<in> set ds. alloc_range d) \<longrightarrow> file_data s' ds = file_data s ds"
    "length (fdtable s') = length (fdtable s)" "fd_at 0 s' = Some f" "fd_name f = n" "flags f AND FD_FLAGS_CLAIMED = 0"
proof -
  from assms(1) obtain f where f: "fat_ok s" "fd_at 0 s = Some f" "mode f = FMODE_WRITE" "fd_name f = n"
    "unat (fsize f) = length w" by (rule writingE)
  have wf: "fs_wf s" and g: "geometry s" using f(1) by (simp_all add: fat_ok_def)
  have z: "fsize f = of_nat (length w)" using arg_cong [OF f(5), of "of_nat :: nat \<Rightarrow> u32"] by simp
  have "dir_scan (cstr n) (dir_slots s) \<noteq> More" using assms(3) by simp
  from get_entry_cases [OF wf assms(2) this] assms(3) obtain s1 where
    s1: "filesystem_get_directory_entry n s = Some (Inr e, s1)" "cache_only s s1" "fs_wf s1"
    by (auto simp: assms(4) entry_roundtrip [OF assms(5)])
  define e' where "e' = e\<lparr>de_size := of_nat (length w)\<rparr>"
  define s2 where "s2 = s1\<lparr>close_entry := e'\<rparr>"
  note co = cache_onlyD [OF s1(2)]
  have s2: "fs_wf s2" "geometry s2" "dir_scan (cstr n) (dir_slots s2) = Found k" "dir_slots s2 = dir_slots s"
    using s1(3) g assms(3) co by (simp_all add: s2_def geometry_def)
  obtain s3 where s3: "filesystem_set_directory_entry e' n s2 = Some (0, s3)" "fs_wf s3" "geometry s3"
    "dir_frame s2 s3" "dir_slots s3 = (dir_slots s)[k := entry_bytes e']"
    using set_entry_Found [OF s2(1,2) assms(2) s2(3), of e'] resized_entry(1) [OF assms(5)] s2(4)
    by (metis e'_def)
  have at3: "fd_at 0 s3 = Some f"
    using f(2) s3(4) s1(2) fd_at_cong [of s3 s 0] by (simp add: dir_frame_def s2_def cache_only_def)
  have closed: "file_close 0 s = Some (set_fd 0 (unclaim f) s3)"
    using s1(1) s3(1) f(3) by (simp add: file_close_def f(2,4) e'_def [symmetric] z s2_def [symmetric] fd_update_eq [OF at3])
  have info: "disk_info s3 = disk_info s" using s3(4) co(4) by (simp add: dir_frame_def s2_def)
  have data1: "fat_at s2 = fat_at s" "file_data s2 ds = file_data s ds" for ds
    using same_diskD(2) [OF cache_only_same_disk [OF s1(2)]] same_disk_data(3) [OF cache_only_same_disk [OF s1(2)]]
    by (simp_all add: s2_def fat_at_def fun_eq_iff file_data_def sectors_of_def spc_def file_start_sector_def)
  have data2: "file_data (set_fd 0 f' s3) ds = file_data s3 ds" for f' ds
    by (rule same_disk_data(3)) (simp add: same_disk_def)
  have "fat_at s3 d = fat_at s d" if "alloc_range d" for d
    using dir_frame_fat [OF s2(2) s3(4) alloc_range_valid [OF s2(2) that]] data1(1) by simp
  moreover have "file_data s3 ds = file_data s ds" if "\<forall>d \<in> set ds. alloc_range d" for ds
    using dir_frame_data [OF s2(2) s3(4) that] data1(2) by simp
  moreover have "length (fdtable s3) = length (fdtable s)" using s3(4) s1(2) by (simp add: dir_frame_def s2_def cache_only_def)
  moreover have "flags (unclaim f) AND FD_FLAGS_CLAIMED = 0" by (simp add: unclaim_def and.assoc)
  ultimately show thesis
    using that [OF closed, of "unclaim f"] s3 info fd_at_set_fd [OF at3] f(4) data2
    by (simp add: fat_ok_def e'_def unclaim_def) (simp add: set_fd_def)
qed

section \<open>Writing in pieces\<close>

locale appender =
  fixes put :: "bytes \<Rightarrow> 's \<Rightarrow> ('r \<times> 's) option"
    and holds :: "'s \<Rightarrow> bytes \<Rightarrow> bool"
    and cap limit :: nat
  assumes put_ok: "holds s w \<Longrightarrow> length d < limit \<Longrightarrow> length w + length d < cap
      \<Longrightarrow> \<exists>r s'. put d s = Some (r, s') \<and> holds s' (w @ d)"
begin

fun put_all :: "bytes list \<Rightarrow> 's \<Rightarrow> 's option" where
  "put_all [] s = Some s"
| "put_all (d # ds) s = do { (r, s') \<leftarrow> put d s; put_all ds s' }"

lemma put_all_ok:
  assumes "holds s w" "\<forall>d \<in> set ds. length d < limit" "length w + length (concat ds) < cap"
  shows "\<exists>s'. put_all ds s = Some s' \<and> holds s' (w @ concat ds)"
  using assms
proof (induction ds arbitrary: s w)
  case (Cons d ds)
  then obtain r s1 where s1: "put d s = Some (r, s1)" "holds s1 (w @ d)"
    using put_ok [of s w d] by auto
  with Cons.IH [of s1 "w @ d"] Cons.prems show ?case by auto
qed simp

end

text \<open>The file system keeps the contract for a file that was in state \<open>s0\<close> with the chain \<open>cs\<close>.\<close>

definition written_to :: "fs \<Rightarrow> bytes \<Rightarrow> u16 \<Rightarrow> u16 list \<Rightarrow> nat \<Rightarrow> fs \<Rightarrow> bytes \<Rightarrow> bool" where
  "written_to s0 n h cs cap s w \<longleftrightarrow>
     (\<exists>ds. writing s 0 n h (cs @ ds) w \<and> keeps_others cs (cs @ ds) s0 s \<and> capacity s (cs @ ds) = cap)"

interpretation kfile: appender "\<lambda>d s. file_write d 0 s" "written_to s0 n h cs cap" cap "2 ^ 16" for s0 n h cs cap
proof unfold_locales
  fix s :: fs and w d :: bytes
  assume "written_to s0 n h cs cap s w" and d: "length d < 2 ^ 16" "length w + length d < cap"
  then obtain ds where ds: "writing s 0 n h (cs @ ds) w" "keeps_others cs (cs @ ds) s0 s" "capacity s (cs @ ds) = cap"
    by (auto simp: written_to_def)
  from d ds(3) obtain s' es where "file_write d 0 s = Some (of_nat (length d), s')"
    "writing s' 0 n h ((cs @ ds) @ es) (w @ d)" "keeps_others (cs @ ds) ((cs @ ds) @ es) s s'"
    "capacity s' ((cs @ ds) @ es) = capacity s (cs @ ds)"
    using file_write_ok [OF ds(1), of d] by metis
  moreover from this have "written_to s0 n h cs cap s' (w @ d)"
    unfolding written_to_def using keeps_others_trans [OF ds(2)] ds(3) by (intro exI [of _ "ds @ es"]) simp
  ultimately show "\<exists>r s'. file_write d 0 s = Some (r, s') \<and> written_to s0 n h cs cap s' (w @ d)" by blast
qed

fun write_all :: "bytes list \<Rightarrow> fs \<Rightarrow> fs option" where
  "write_all [] s = Some s"
| "write_all (d # ds) s = do { (r, s') \<leftarrow> file_write d 0 s; write_all ds s' }"

lemma write_all_eq: "write_all ds s = kfile.put_all ds s"
proof (induction ds arbitrary: s)
  case (Cons d ds)
  then have "write_all ds = kfile.put_all ds" by (intro ext)
  then show ?case by simp
qed simp

section \<open>From open to close\<close>

lemma dir_scan_resized:
  assumes "dir_scan name (slots[k := slot]) = Found k" "is_file slot'" "slot_string slot' = name"
  shows "dir_scan name (slots[k := slot']) = Found k"
  using assms by (simp add: dir_scan_Found)

lemma store_file:
  assumes "fat_ok s" "fd_ready s" "12 \<le> length filename" "valid_name (canon filename)"
    and "dir_scan (canon filename) (dir_slots s) = Missing" "first_idx slot_free (dir_slots s) = Some k"
    and "\<forall>b \<in> set blocks. length b < 2 ^ 16" "length (concat blocks) < 512 * (spc s * card (free_set s))"
  obtains s1 s2 s3 e cs where "file_open filename FMODE_WRITE s = Some (0, s1)" "write_all blocks s1 = Some s2"
    "file_close 0 s2 = Some s3" "fat_ok s3" "fd_ready s3" "spc s3 = spc s"
    "dir_slots s3 = (dir_slots s)[k := entry_bytes e]" "entry_wf e" "unat (de_size e) = length (concat blocks)"
    "dir_scan (canon filename) (dir_slots s3) = Found k" "is_chain (fat_at s3) (starting_cluster e) cs"
    "take (length (concat blocks)) (file_data s3 cs) = concat blocks" "length (concat blocks) \<le> 512 * (spc s * length cs)"
    "\<forall>es. (\<forall>d \<in> set es. alloc_range d \<and> fat_at s d \<noteq> CLUSTER_FREE) \<longrightarrow> file_data s3 es = file_data s es"
proof -
  define w where "w = concat blocks"
  have "free_set s \<noteq> {}" using assms(8) by auto
  then obtain c where c: "first_free s = Some c" "c \<in> free_set s" by (rule first_free_set)
  define c' :: u16 where "c' = of_nat c"
  obtain e n s1 where s1: "file_open filename FMODE_WRITE s = Some (0, s1)" "writing s1 0 n c' [c'] []"
    "0 \<in> set n" "cstr n = canon filename" "length n = 13" "length (fdtable s1) = 1"
    "entry_wf e" "is_file (entry_bytes e)" "slot_string (entry_bytes e) = canon filename"
    "starting_cluster e = c'" "dir_slots s1 = (dir_slots s)[k := entry_bytes e]"
    "capacity s1 [c'] = 512 * (spc s * card (free_set s))"
    "\<forall>d. alloc_range d \<and> d \<noteq> c' \<longrightarrow> fat_at s1 d = fat_at s d"
    "\<forall>ds. (\<forall>d \<in> set ds. alloc_range d) \<longrightarrow> file_data s1 ds = file_data s ds" "disk_info s1 = disk_info s"
    unfolding c'_def by (rule file_open_write_ok [OF assms(1-5) c(1) assms(6)])
  have "written_to s1 n c' [c'] (capacity s1 [c']) s1 []"
    unfolding written_to_def using s1(2) keeps_others_refl by (intro exI [of _ "[]"]) simp
  from kfile.put_all_ok [OF this assms(7)] assms(8) s1(12) obtain s2 where
    s2: "write_all blocks s1 = Some s2" "written_to s1 n c' [c'] (capacity s1 [c']) s2 w"
    by (auto simp: write_all_eq w_def)
  then obtain ds where wr: "writing s2 0 n c' ([c'] @ ds) w" "keeps_others [c'] ([c'] @ ds) s1 s2"
    by (auto simp: written_to_def)
  define cs where "cs = [c'] @ ds"
  note wr = wr [folded cs_def]
  have dir2: "dir_slots s2 = (dir_slots s)[k := entry_bytes e]" and info2: "disk_info s2 = disk_info s"
    and len2: "length (fdtable s2) = 1"
    using wr(2) s1(6,11,15) by (simp_all add: keeps_others_def)
  have k: "k < length (dir_slots s)" using first_idxD [OF assms(6)] by simp
  have scan2: "dir_scan (canon filename) ((dir_slots s)[k := entry_bytes e]) = Found k"
    using assms(5) by (intro dir_scan_created [OF assms(6) _ s1(8,9)]) simp
  have slot2: "dir_slots s2 ! k = entry_bytes e" unfolding dir2 by (rule nth_list_update_eq [OF k])
  define e' where "e' = e\<lparr>de_size := of_nat (length w)\<rparr>"
  obtain s3 f where s3: "file_close 0 s2 = Some s3" "fat_ok s3" "disk_info s3 = disk_info s2"
    "dir_slots s3 = (dir_slots s2)[k := entry_bytes e']" "\<forall>d. alloc_range d \<longrightarrow> fat_at s3 d = fat_at s2 d"
    "\<forall>ds. (\<forall>d \<in> set ds. alloc_range d) \<longrightarrow> file_data s3 ds = file_data s2 ds"
    "length (fdtable s3) = length (fdtable s2)" "fd_at 0 s3 = Some f" "fd_name f = n" "flags f AND FD_FLAGS_CLAIMED = 0"
    unfolding e'_def by (rule file_close_ok [OF wr(1) s1(3) _ slot2 s1(7)]) (use scan2 in \<open>simp_all add: dir2 s1(4)\<close>)
  have ready: "fd_ready s3"
    using s3(7-10) len2 s1(5) by (cases "fdtable s3") (auto simp: fd_ready_def fd_at_def rd_def)
  have dir3: "dir_slots s3 = (dir_slots s)[k := entry_bytes e']" by (simp add: s3(4) dir2)
  note re = resized_entry [OF s1(7), of "of_nat (length w)", folded e'_def]
  have scan3: "dir_scan (canon filename) (dir_slots s3) = Found k"
    unfolding dir3 by (rule dir_scan_resized [OF scan2]) (simp_all add: re s1(8,9))
  from wr(1) have cs: "is_chain (fat_at s2) c' cs" "\<forall>d \<in> set cs. alloc_range d" "take (length w) (file_data s2 cs) = w"
      "length w < 512 * (spc s2 * length cs)" by (simp_all add: writing_def)
  have spc: "spc s3 = spc s" "spc s2 = spc s" by (simp_all add: spc_def s3(3) info2)
  have chain3: "is_chain (fat_at s3) c' cs" using cs(1,2) s3(5) by (subst is_chain_cong [of cs _ "fat_at s2"]) auto
  have size: "unat (de_size e') = length w"
    using writing_bound(1) [OF wr(1)] cs(4) by (simp add: e'_def unat_of_nat_u32)
  have "file_data s3 es = file_data s es" if es: "\<forall>d \<in> set es. alloc_range d \<and> fat_at s d \<noteq> CLUSTER_FREE" for es
  proof -
    have free: "fat_at s c' = CLUSTER_FREE" using c(2) by (simp add: free_set_def c'_def)
    then have "c' \<notin> set es" using es by auto
    have es1: "alloc_range d \<and> fat_at s1 d \<noteq> CLUSTER_FREE" if "d \<in> set es" for d
      using that es s1(13) \<open>c' \<notin> set es\<close> by (cases "d = c'") auto
    have "file_data s2 es = file_data s1 es"
      using keeps_others_file [OF wr(2), of es] es1 \<open>c' \<notin> set es\<close> by simp
    then show ?thesis using s3(6) s1(14) es by simp
  qed
  then show thesis
    using that [OF s1(1) s2(1) s3(1,2) ready spc(1) dir3 re(1) _ scan3 _ _ _] size chain3 cs(2,3,4) s3(6) s1(10) spc
    by (simp add: w_def [symmetric] e'_def)
qed

text \<open>A file with the contents \<open>w\<close> is opened and read.\<close>

lemma stored_file_reads:
  assumes "fat_ok s" "fd_ready s" "12 \<le> length filename" "dir_scan (canon filename) (dir_slots s) = Found k"
    and "dir_slots s ! k = entry_bytes e" "entry_wf e" "unat (de_size e) = length w" "is_chain (fat_at s) (starting_cluster e) cs"
    and "take (length w) (file_data s cs) = w" "length w \<le> 512 * (spc s * length cs)" "0x6000 \<le> ptr" "n < 2 ^ 16"
  obtains s1 s2 where "file_open filename FMODE_READ s = Some (0, s1)" "file_read ptr (of_nat n) 0 s1 = Some (take n w, s2)"
    "\<forall>es. file_data s2 es = file_data s es"
proof -
  have e: "e = bytes_entry (dir_slots s ! k)" unfolding assms(5) by (rule entry_roundtrip [OF assms(6), symmetric])
  obtain s1 where s1: "file_open filename FMODE_READ s = Some (0, s1)" "fat_ok s1" "same_disk s s1"
      "open_at s1 0 FMODE_READ (de_size e) cs 0" "chain_of s1 cs"
    by (rule open_read_start [OF assms(1,2,3,4) e assms(8)])
  note same = same_disk_data [OF s1(3)]
  obtain s2 where s2: "file_read ptr (of_nat n) 0 s1 = Some (take (min n (length w)) (file_data s1 cs), s2)" "same_disk s1 s2"
    using file_read_pos [OF s1(2,5,4) _ _ assms(11,12)] assms(7,10) by (auto simp: same(1))
  have "take (min n (length w)) (file_data s cs) = take n w" using assms(9) by (metis take_take)
  then have "file_read ptr (of_nat n) 0 s1 = Some (take n w, s2)" using s2(1) same(3) by simp
  moreover have "\<forall>es. file_data s2 es = file_data s es" using same(3) same_disk_data(3) [OF s2(2)] by simp
  ultimately show thesis using that s1(1) by blast
qed

text \<open>C11. What is written is read back: a new file is opened for writing, any number of blocks is written to
  it by \<open>file_write\<close>, the file is closed and opened again for reading; \<open>file_read\<close> then returns the
  concatenation of the blocks (its first \<open>n\<close> bytes). The calls take as many clusters as they need,
  whatever the sizes of the blocks, as long as the free clusters among 2..255 can hold the bytes and one
  more; the contents of every other file whose clusters, all in use, lie in 2..255 stay as they were. (For
  clusters above this range the code is wrong: the search for a free one overruns its buffer,
  \<open>fat_search_overruns_sector\<close>, and sector numbers wrap, \<open>file_start_sector_wraps\<close>.)\<close>

theorem write_then_read:
  assumes "fat_ok s" "fd_ready s" "12 \<le> length filename" "valid_name (canon filename)"
    and "dir_scan (canon filename) (dir_slots s) = Missing" "first_idx slot_free (dir_slots s) = Some k"
    and "\<forall>b \<in> set blocks. length b < 2 ^ 16" "length (concat blocks) < 512 * (spc s * card (free_set s))"
    and "0x6000 \<le> ptr" "n < 2 ^ 16"
  shows "\<exists>s1 s2 s3 s4 s5. file_open filename FMODE_WRITE s = Some (0, s1) \<and> write_all blocks s1 = Some s2
    \<and> file_close 0 s2 = Some s3 \<and> file_open filename FMODE_READ s3 = Some (0, s4)
    \<and> file_read ptr (of_nat n) 0 s4 = Some (take n (concat blocks), s5)
    \<and> (\<forall>es. (\<forall>c \<in> set es. alloc_range c \<and> fat_at s c \<noteq> CLUSTER_FREE) \<longrightarrow> file_data s5 es = file_data s es)"
proof -
  obtain s1 s2 s3 e cs where s3: "file_open filename FMODE_WRITE s = Some (0, s1)" "write_all blocks s1 = Some s2"
    "file_close 0 s2 = Some s3" "fat_ok s3" "fd_ready s3" "spc s3 = spc s"
    "dir_slots s3 = (dir_slots s)[k := entry_bytes e]" "entry_wf e" "unat (de_size e) = length (concat blocks)"
    "dir_scan (canon filename) (dir_slots s3) = Found k" "is_chain (fat_at s3) (starting_cluster e) cs"
    "take (length (concat blocks)) (file_data s3 cs) = concat blocks" "length (concat blocks) \<le> 512 * (spc s * length cs)"
    "\<forall>es. (\<forall>d \<in> set es. alloc_range d \<and> fat_at s d \<noteq> CLUSTER_FREE) \<longrightarrow> file_data s3 es = file_data s es"
    by (rule store_file [OF assms(1-8)])
  have k: "k < length (dir_slots s)" using first_idxD [OF assms(6)] by simp
  have slot: "dir_slots s3 ! k = entry_bytes e" unfolding s3(7) by (rule nth_list_update_eq [OF k])
  have room: "length (concat blocks) \<le> 512 * (spc s3 * length cs)" using s3(6,13) by simp
  obtain s4 s5 where s5: "file_open filename FMODE_READ s3 = Some (0, s4)" "file_read ptr (of_nat n) 0 s4 = Some (take n (concat blocks), s5)"
    "\<forall>es. file_data s5 es = file_data s3 es"
    by (rule stored_file_reads [OF s3(4,5) assms(3) s3(10) slot s3(8,9,11,12) room assms(9,10)])
  then have "\<forall>es. (\<forall>c \<in> set es. alloc_range c \<and> fat_at s c \<noteq> CLUSTER_FREE) \<longrightarrow> file_data s5 es = file_data s es"
    using s3(14) by simp
  with s3(1-3) s5(1,2) show ?thesis by blast
qed

text \<open>Two blocks of 700 bytes on a blank disk: the first write ends in the second sector, which is also the
  second cluster.\<close>

lemma blank_free_set: "card (free_set (flat_fs 0)) = 254"
proof -
  have "free_set (flat_fs 0) = {2..<256}" by (auto simp: free_set_def flat_fs_fat)
  then show ?thesis by simp
qed

lemma write_then_read_witness:
  "\<exists>s1 s2 s4 s5. file_open hello_arg FMODE_WRITE (flat_fs 0) = Some (0, s1)
     \<and> write_all [replicate 700 1, replicate 700 2] s1 = Some s2
     \<and> file_read 0x8000 (of_nat 1000) 0 s4 = Some (replicate 700 1 @ replicate 300 2, s5)"
proof -
  have valid: "valid_name (canon hello_arg)"
    unfolding hello_arg valid_name_def
    by (intro exI [of _ "[0x48, 0x45, 0x4c, 0x4c, 0x4f]"] exI [of _ "[0x43]"]) (simp add: hello_name_def cstr_def)
  have missing: "dir_scan (canon hello_arg) (dir_slots (flat_fs 0)) = Missing" by (simp add: blank_dir)
  have slot: "first_idx slot_free (dir_slots (flat_fs 0)) = Some 0" by (simp add: blank_dir)
  have room: "length (concat [replicate 700 1, replicate 700 (2 :: u8)]) < 512 * (spc (flat_fs 0) * card (free_set (flat_fs 0)))"
    unfolding blank_free_set by (simp add: spc_def flat_fs_def)
  have "take 1000 (concat [replicate 700 1, replicate 700 (2 :: u8)]) = replicate 700 1 @ replicate 300 2" by simp
  with write_then_read [OF flat_fs_ok flat_fs_ready hello_arg(2) valid missing slot _ room, where ptr = "0x8000" and n = 1000]
  show ?thesis by auto
qed

end
