(* ===== verification/Command_Shell.thy ===== *)
theory Command_Shell
  imports Process_Properties File_Lifecycle
begin

text \<open>
  The command processor of \<open>src/command\<close>: reading a line, splitting it, the built-in commands and the
  start of programs. Its globals are the record \<open>shell\<close>, which also holds the kernel behind the system
  calls, the bytes that are still to arrive from the terminal and what has been printed. A \<open>char *\<close>
  into \<open>input\<close> is an offset, \<open>NULL\<close> is \<open>None\<close>. The library functions \<open>gets\<close>, \<open>strtok\<close>,
  \<open>getchar\<close> and \<open>putchar\<close> are modelled by what C says of them; \<open>puts\<close> adds no line end, which
  all its uses here rely on. \<open>fopen\<close>, \<open>fgets\<close>, \<open>fclose\<close> and \<open>syscall_pexec\<close> belong to a library outside the repository and are
  parameters.
\<close>

record shell =
  input :: bytes
  cmd :: "nat option"
  argv :: "nat option list"
  argc :: u16
  program :: bytes
  kern :: kernel
  arriving :: bytes
  printed :: bytes

record 'h libc =
  fopen :: "bytes \<Rightarrow> kernel \<Rightarrow> 'h option \<times> kernel"
  fgets :: "'h \<Rightarrow> kernel \<Rightarrow> bytes option \<times> kernel"
  fclose :: "'h \<Rightarrow> kernel \<Rightarrow> kernel"
  pexec :: "int \<Rightarrow> bytes option list \<Rightarrow> u16 \<Rightarrow> kernel \<Rightarrow> (int \<times> kernel) option"

abbreviation (input) ASCII_ACK :: u8 where "ASCII_ACK \<equiv> 0x06"
abbreviation (input) ASCII_NAK :: u8 where "ASCII_NAK \<equiv> 0x15"
abbreviation (input) ASCII_EOT :: u8 where "ASCII_EOT \<equiv> 0x04"
abbreviation (input) FATTR_RO :: u8 where "FATTR_RO \<equiv> 0x01"
abbreviation (input) FATTR_HID :: u8 where "FATTR_HID \<equiv> 0x02"
abbreviation (input) FATTR_SYS :: u8 where "FATTR_SYS \<equiv> 0x04"

section \<open>Console and system calls\<close>

definition puts :: "bytes \<Rightarrow> shell \<Rightarrow> shell" where
  "puts s sh = sh\<lparr>printed := printed sh @ s\<rparr>"

text \<open>\<open>getchar\<close> waits for ever when nothing arrives any more.\<close>

definition getchar :: "shell \<Rightarrow> (u8 \<times> shell) option" where
  "getchar sh = (case arriving sh of [] \<Rightarrow> None | c # cs \<Rightarrow> Some (c, sh\<lparr>arriving := cs\<rparr>))"

definition gets :: "bytes \<Rightarrow> shell \<Rightarrow> shell option" where
  "gets line sh = do { buf \<leftarrow> memcpy (input sh) 0 (line @ [0]); Some (sh\<lparr>input := buf\<rparr>) }"

definition with_fs :: "(fs \<Rightarrow> ('r \<times> fs) option) \<Rightarrow> shell \<Rightarrow> ('r \<times> shell) option" where
  "with_fs call sh = do { (r, f) \<leftarrow> call (kfs (kern sh)); Some (r, sh\<lparr>kern := (kern sh)\<lparr>kfs := f\<rparr>\<rparr>) }"

definition with_kernel :: "(kernel \<Rightarrow> kernel option) \<Rightarrow> shell \<Rightarrow> shell option" where
  "with_kernel call sh = do { k \<leftarrow> call (kern sh); Some (sh\<lparr>kern := k\<rparr>) }"

text \<open>The memory at \<open>argv[i]\<close>.\<close>

definition arg :: "shell \<Rightarrow> nat \<Rightarrow> bytes option" where
  "arg sh i = do {
     a \<leftarrow> rd (argv sh) i;
     p \<leftarrow> a;
     if p < length (input sh) then Some (drop p (input sh)) else None }"

section \<open>Strings\<close>

text \<open>\<open>strtok(s, " ")\<close> from offset \<open>p\<close> of the string: the token, where the next call goes on, and the
  string with a NUL behind the token.\<close>

definition strtok_at :: "nat \<Rightarrow> bytes \<Rightarrow> (nat option \<times> nat \<times> bytes) option" where
  "strtok_at p s =
     (let b = p + length (takeWhile (\<lambda>c. c = 0x20) (drop p s)) in
      do {
        c \<leftarrow> rd s b;
        if c = 0 then Some (None, b, s)
        else do {
          let e = b + length (takeWhile (\<lambda>c. c \<noteq> 0x20 \<and> c \<noteq> 0) (drop b s));
          d \<leftarrow> rd s e;
          if d = 0 then Some (Some b, e, s) else Some (Some b, e + 1, s[e := 0])
        }
      })"

fun toupper_chars :: "bytes \<Rightarrow> bytes option" where
  "toupper_chars [] = None"
| "toupper_chars (c # s) =
     (if c = 0 then Some (c # s)
      else map_option ((#) (if 0x61 \<le> c \<and> c \<le> 0x7a then c - (0x61 - 0x41) else c)) (toupper_chars s))"

definition utils_toupper :: "nat option \<Rightarrow> shell \<Rightarrow> shell option" where
  "utils_toupper s sh = do {
     p \<leftarrow> s;
     t \<leftarrow> toupper_chars (drop p (input sh));
     Some (sh\<lparr>input := take p (input sh) @ t\<rparr>) }"

definition utils_chartonib :: "u8 \<Rightarrow> u8" where
  "utils_chartonib c =
     (if c \<le> 0x39 \<and> 0x30 \<le> c then c - 0x30
      else if c \<le> 0x66 \<and> 0x61 \<le> c then c - 0x61 + 10
      else 0xff)"

text \<open>The loop of \<open>utils_strtou\<close>, \<open>n\<close> characters from its end.\<close>

fun strtou_loop :: "nat \<Rightarrow> u16 \<Rightarrow> bytes \<Rightarrow> u16 option" where
  "strtou_loop 0 val s = Some val"
| "strtou_loop (Suc n) val [] = None"
| "strtou_loop (Suc n) val (c # s) =
     (if c = 0 then Some val else strtou_loop n (push_bit 4 val OR ucast (utils_chartonib c)) s)"

definition utils_strtou :: "bytes \<Rightarrow> u16 option" where
  "utils_strtou s = strtou_loop 4 0 s"

section \<open>Splitting the line\<close>

lemma strtok_at_bounds:
  assumes "strtok_at p s = Some (Some q, p', s')"
  shows "p < p'" "p < length s" "length s' = length s" "p' \<le> length s"
proof -
  define b where "b = p + length (takeWhile (\<lambda>c. c = 0x20) (drop p s))"
  define e where "e = b + length (takeWhile (\<lambda>c. c \<noteq> 0x20 \<and> c \<noteq> 0) (drop b s))"
  from assms have b: "b < length s" "s ! b \<noteq> 0" and e: "e < length s" "p' = e \<or> p' = e + 1" "length s' = length s"
    by (auto simp: strtok_at_def rd_def Let_def b_def [symmetric] e_def [symmetric] split: if_splits)
  have "s ! b \<noteq> 0x20"
    using nth_length_takeWhile [of "\<lambda>c. c = 0x20" "drop p s"] b(1) by (simp add: b_def)
  then have "takeWhile (\<lambda>c. c \<noteq> 0x20 \<and> c \<noteq> 0) (drop b s) \<noteq> []"
    using b(2) by (subst Cons_nth_drop_Suc [OF b(1), symmetric]) simp
  then have "b < e" by (simp add: e_def)
  moreover have "p \<le> b" by (simp add: b_def)
  ultimately show "p < p'" "p < length s" "length s' = length s" "p' \<le> length s" using e b by auto
qed

lemma strtok_at_less: "strtok_at p s = Some (Some q, p', s') \<Longrightarrow> length s' - p' < length s - p"
  using strtok_at_bounds [of p s q p' s'] by simp

text \<open>The loop of \<open>parse\<close>; \<open>p\<close> is where \<open>strtok\<close> goes on.\<close>

function parse_args :: "nat \<Rightarrow> shell \<Rightarrow> shell option" where
  "parse_args p sh =
     (case strtok_at p (input sh) of
        None \<Rightarrow> None
      | Some (a, p', s) \<Rightarrow>
          (case a of
             None \<Rightarrow> Some (sh\<lparr>input := s\<rparr>)
           | Some q \<Rightarrow>
               if unat (argc sh) < length (argv sh)
               then parse_args p' (sh\<lparr>input := s, argv := (argv sh)[unat (argc sh) := Some q], argc := argc sh + 1\<rparr>)
               else None))"
  by pat_completeness auto
termination
  by (relation "measure (\<lambda>(p, sh). length (input sh) - p)") (auto dest: strtok_at_less)

declare parse_args.simps [simp del]

definition parse :: "shell \<Rightarrow> shell option" where
  "parse sh = do {
     (c, p, s) \<leftarrow> strtok_at 0 (input sh);
     let sh1 = sh\<lparr>cmd := c, input := s\<rparr>;
     if c = None then Some sh1 else parse_args p (sh1\<lparr>argc := 0\<rparr>) }"

section \<open>The built-in commands\<close>

definition command_clear :: "shell \<Rightarrow> (int \<times> shell) option" where
  "command_clear sh = Some (0, puts (0x1b # ascii ''[2J'' @ 0x1b # ascii ''[1;1H'') sh)"

text \<open>The part of \<open>command_chmod\<close> that is compiled.\<close>

definition command_chmod :: "shell \<Rightarrow> (int \<times> shell) option" where
  "command_chmod sh =
     (if argc sh < 2 then Some (1, puts (ascii ''Usage: chmod <file> <permissions>'' @ [10, 13]) sh)
      else do { a \<leftarrow> rd (argv sh) 0; sh1 \<leftarrow> utils_toupper a sh; Some (0, sh1) })"

definition command_del :: "shell \<Rightarrow> (int \<times> shell) option" where
  "command_del sh =
     (if argc sh \<noteq> 1 then Some (1, puts (ascii ''Usage: del <filename>'' @ [10, 13]) sh)
      else do {
        filename \<leftarrow> arg sh 0;
        (error, sh1) \<leftarrow> with_fs (file_delete filename) sh;
        if error = E_FILENOTFOUND then Some (2, puts (ascii ''File not found.'' @ [10, 13]) sh1)
        else if error = 0 then Some (0, puts (ascii ''Deleted.'' @ [10, 13]) sh1)
        else Some (0, puts (ascii ''Unknown error during deletion: '' @ print_u (of_int error) @ [10, 13]) sh1)
      })"

text \<open>One line of \<open>command_dir\<close>.\<close>

definition dir_line :: "bytes \<Rightarrow> FINFO \<Rightarrow> bytes" where
  "dir_line name f =
     ascii ''    '' @ name @ replicate (20 - length name) 0x20
     @ [if fi_attr f AND FATTR_SYS \<noteq> 0 then of_char (CHR ''s'') else of_char (CHR ''~''),
        if fi_attr f AND FATTR_HID \<noteq> 0 then of_char (CHR ''h'') else of_char (CHR ''~''),
        if fi_attr f AND FATTR_RO \<noteq> 0 then of_char (CHR ''r'') else of_char (CHR ''~'')]
     @ ascii ''  '' @ padded 0x20 5 (print_u (ucast (fi_size f)))
     @ ascii ''  '' @ padded 0x30 4 (print_u (created_year f)) @ ascii ''-''
     @ padded 0x30 2 (print_u (ucast (created_month f))) @ ascii ''-''
     @ padded 0x30 2 (print_u (ucast (created_day f))) @ [10, 13]"

text \<open>The loop of \<open>command_dir\<close> over \<open>n\<close> more entries from \<open>f\<close>. The locals \<open>filename\<close> and
  \<open>finfo\<close> keep their values; \<open>finfo\<close> is not initialised at first.\<close>

fun dir_loop :: "nat \<Rightarrow> u16 \<Rightarrow> bytes \<Rightarrow> FINFO option \<Rightarrow> shell \<Rightarrow> shell option" where
  "dir_loop 0 f filename finfo sh = Some sh"
| "dir_loop (Suc n) f filename finfo sh = do {
     ((error, name), sh1) \<leftarrow> with_fs (\<lambda>s. do { (e, buf, s') \<leftarrow> file_entry filename f s; Some ((e, buf), s') }) sh;
     if error = 0 then do {
       (r, sh2) \<leftarrow> with_fs (file_info name) sh1;
       info \<leftarrow> (case r of Inl e \<Rightarrow> finfo | Inr i \<Rightarrow> Some i);
       if 0 \<in> set name then dir_loop n (f + 1) name (Some info) (puts (dir_line (cstr name) info) sh2) else None
     } else dir_loop n (f + 1) name finfo
         (puts (ascii ''    Error in file entry '' @ print_u f @ ascii '': '' @ print_d (of_int error) @ [10, 13]) sh1)
   }"

definition command_dir :: "bytes \<Rightarrow> shell \<Rightarrow> (int \<times> shell) option" where
  "command_dir filename sh = do {
     (file_count, sh1) \<leftarrow> with_fs file_entries sh;
     sh2 \<leftarrow> dir_loop (unat file_count) 0 filename None (puts (print_u file_count @ ascii '' files:'' @ [10, 13]) sh1);
     Some (0, sh2) }"

text \<open>\<open>command_type\<close>: the lines of one file, and the loop over the arguments from \<open>a\<close>.\<close>

partial_function (option) type_lines :: "'h libc \<Rightarrow> 'h \<Rightarrow> shell \<Rightarrow> shell option" where
  "type_lines c h sh =
     (case fgets c h (kern sh) of
        (None, k) \<Rightarrow> Some (sh\<lparr>kern := k\<rparr>)
      | (Some line, k) \<Rightarrow> type_lines c h (puts (cstr line) (sh\<lparr>kern := k\<rparr>)))"

fun type_files :: "'h libc \<Rightarrow> nat \<Rightarrow> nat \<Rightarrow> shell \<Rightarrow> (int \<times> shell) option" where
  "type_files c 0 a sh = Some (0, sh)"
| "type_files c (Suc n) a sh = do {
     name \<leftarrow> arg sh a;
     (case fopen c name (kern sh) of
        (None, k) \<Rightarrow> Some (2, puts (ascii ''Could not find file: '' @ cstr name @ [10, 13]) (sh\<lparr>kern := k\<rparr>))
      | (Some h, k) \<Rightarrow> do {
          sh1 \<leftarrow> type_lines c h (sh\<lparr>kern := k\<rparr>);
          type_files c n (a + 1) (sh1\<lparr>kern := fclose c h (kern sh1)\<rparr>) })
   }"

definition command_type :: "'h libc \<Rightarrow> shell \<Rightarrow> (int \<times> shell) option" where
  "command_type c sh =
     (if argc sh < 1 then Some (1, puts (ascii ''Usage: type <files>'' @ [10, 13]) sh)
      else type_files c (unat (argc sh)) 0 sh)"

section \<open>Receiving a file\<close>

text \<open>The protocol of \<open>command_load\<close> and of the \<open>xmodem\<close> program: the wait for the letter r, the data of
  a packet, and the loop over the packets.\<close>

partial_function (option) wait_for_r :: "shell \<Rightarrow> shell option" where
  "wait_for_r sh = do { (c, sh1) \<leftarrow> getchar sh; if c = of_char (CHR ''r'') then Some sh1 else wait_for_r sh1 }"

fun get_data :: "nat \<Rightarrow> shell \<Rightarrow> (bytes \<times> shell) option" where
  "get_data 0 sh = Some ([], sh)"
| "get_data (Suc n) sh = do { (c, sh1) \<leftarrow> getchar sh; (cs, sh2) \<leftarrow> get_data n sh1; Some (c # cs, sh2) }"

partial_function (option) receive_packets :: "int \<Rightarrow> shell \<Rightarrow> shell option" where
  "receive_packets fd sh = do {
     (header, sh1) \<leftarrow> getchar sh;
     if header = ASCII_EOT then Some sh1
     else do {
       (n1, sh2) \<leftarrow> getchar sh1;
       (n2, sh3) \<leftarrow> getchar sh2;
       (data, sh4) \<leftarrow> get_data 128 sh3;
       (checksum, sh5) \<leftarrow> getchar sh4;
       (written, sh6) \<leftarrow> with_fs (file_write data fd) sh5;
       receive_packets fd (puts [ASCII_ACK] sh6)
     }
   }"

definition receive_file :: "bytes \<Rightarrow> shell \<Rightarrow> (int \<times> shell) option" where
  "receive_file name sh = do {
     (fd, sh1) \<leftarrow> with_fs (file_open name FMODE_WRITE) sh;
     sh2 \<leftarrow> wait_for_r (puts (ascii ''Press <r> to begin receiving...'' @ [13, 10]) sh1);
     sh3 \<leftarrow> with_kernel (terminal_set_mode 1) sh2;
     sh4 \<leftarrow> receive_packets fd (puts [ASCII_NAK] sh3);
     (r, sh5) \<leftarrow> with_fs (\<lambda>s. map_option (Pair ()) (file_close fd s)) (puts [ASCII_ACK] sh4);
     sh6 \<leftarrow> with_kernel (terminal_set_mode 0) sh5;
     Some (0, sh6) }"

text \<open>\<open>command_load\<close> goes on after its usage message.\<close>

definition command_load :: "shell \<Rightarrow> (int \<times> shell) option" where
  "command_load sh =
     (let sh0 = (if argc sh \<noteq> 1 then puts (ascii ''Usage: load <file>'' @ [13, 10]) sh else sh)
      in do { name \<leftarrow> arg sh0 0; receive_file name sh0 })"

text \<open>The stand-alone program.\<close>

definition xmodem_main :: "shell \<Rightarrow> (int \<times> shell) option" where
  "xmodem_main sh =
     (if argc sh \<noteq> 1 then Some (1, puts (ascii ''Usage: xmodem <file>'' @ [13, 10]) sh)
      else do { name \<leftarrow> arg sh 0; receive_file name sh })"

section \<open>The zebra\<close>

definition zebra_pattern :: "u32 list" where
  "zebra_pattern =
     [0, 0x00180000, 0x001c0000, 0x01bf0000, 0x004e8000, 0x0389c000, 0x0498a000,
      0x01017000, 0x02212c00, 0x02623b00, 0x04066ec0, 0x080442b0, 0x118c43ac, 0x18f842eb,
      0x1c66467a, 0x1ec2444e, 0x0f81444b, 0x0700ccc9, 0x00009889, 0x00005099, 0x00005191,
      0x00003211, 0x00002631, 0x00001463, 0x0000148a, 0x00001488, 0x00000888, 0x00000890]"

fun zebra_cells :: "nat \<Rightarrow> u32 \<Rightarrow> bytes" where
  "zebra_cells 0 line = []"
| "zebra_cells (Suc n) line =
     (if line = 0 then []
      else (if line AND 0x80000000 \<noteq> 0 then ascii ''##'' else ascii ''  '') @ zebra_cells n (push_bit 1 line))"

text \<open>\<open>zebra_image\<close> is the local array, not initialised.\<close>

definition zebra_display :: "bytes \<Rightarrow> shell \<Rightarrow> shell option" where
  "zebra_display zebra_image sh = do {
     image \<leftarrow> memcpy zebra_image 0 (concat (map (\<lambda>line. zebra_cells 32 line @ [13, 10]) zebra_pattern) @ [0]);
     Some (puts ([13, 10] @ ascii ''Zeus the Zebra by Katie Buttriss.'' @ [13, 10, 13, 10]) (puts (cstr image) sh)) }"

section \<open>The command loop\<close>

definition commands :: "bytes list" where
  "commands = [ascii ''CLEAR'', ascii ''DIR'', ascii ''CHMOD'', ascii ''TYPE'', ascii ''LOAD'', ascii ''DEL'']"

text \<open>The index of the built-in command that \<open>cmd\<close> names.\<close>

definition get_command :: "shell \<Rightarrow> nat option option" where
  "get_command sh = do {
     p \<leftarrow> cmd sh;
     if 0 \<in> set (drop p (input sh)) then Some (first_idx (\<lambda>name. cstr (drop p (input sh)) = name) commands) else None }"

definition run_command :: "'h libc \<Rightarrow> bytes \<Rightarrow> nat \<Rightarrow> shell \<Rightarrow> (int \<times> shell) option" where
  "run_command c filename i sh =
     (if i = 0 then command_clear sh
      else if i = 1 then command_dir filename sh
      else if i = 2 then command_chmod sh
      else if i = 3 then command_type c sh
      else if i = 4 then command_load sh
      else command_del sh)"

text \<open>A command that is not built in is the name of a program; \<open>hp\<close> as in \<open>process_load\<close>.\<close>

definition run_program :: "'h libc \<Rightarrow> u16 \<Rightarrow> int \<Rightarrow> shell \<Rightarrow> (int \<times> shell) option" where
  "run_program c hp ecode sh = do {
     p \<leftarrow> cmd sh;
     buf \<leftarrow> memcpy (program sh) 0 (take 8 (cstr (drop p (input sh))) @ ascii ''.EXE'' @ [0]);
     (pd, k) \<leftarrow> process_load hp buf (kern sh);
     let sh1 = sh\<lparr>program := buf, kern := k\<rparr>;
     if pd = E_FILENOTFOUND then Some (ecode, puts (cstr buf @ ascii '' could not be found.'' @ [10, 13]) sh1)
     else if pd < 0
     then Some (ecode, puts (ascii ''Error occurred loading program '' @ cstr buf @ ascii '': ''
            @ print_d (of_int pd) @ [10, 13]) sh1)
     else do {
       (r, k1) \<leftarrow> pexec c pd (map (arg sh1) [0..<16]) (argc sh1) (kern sh1);
       Some (r, sh1\<lparr>kern := k1\<rparr>) }
   }"

text \<open>The handler of the cancel signal; it returns to the \<open>setjmp\<close> of the loop.\<close>

definition shell_cancel :: "u16 \<Rightarrow> shell \<Rightarrow> shell" where
  "shell_cancel address sh =
     puts ([10, 13] @ ascii ''CANCEL in $'' @ padded 0x30 4 (hexadecimal (unat address)) @ [10, 13]) sh"

text \<open>One turn of the loop in \<open>user_main\<close>: \<open>jumped\<close> says that it starts after \<open>longjmp\<close>, \<open>line\<close> is what
  is typed, \<open>handler\<close> the address of \<open>cancel\<close>. The result is the new value of \<open>exitcode\<close>, here \<open>ecode\<close>.\<close>

definition shell_prompt :: "u16 \<Rightarrow> bool \<Rightarrow> int \<Rightarrow> shell \<Rightarrow> shell option" where
  "shell_prompt handler jumped ecode sh = do {
     sh1 \<leftarrow> with_kernel (signal_sethandler handler 0) sh;
     let code = (if jumped then -1 else ecode);
     let sh2 = (if code = -1 then puts ([13, 10] @ ascii ''Program cancelled by user.'' @ [13, 10]) sh1 else sh1);
     Some (puts (ascii ''('' @ print_d (of_int code) @ ascii '') > '') sh2) }"

definition shell_line :: "'h libc \<Rightarrow> u16 \<Rightarrow> bytes \<Rightarrow> bytes \<Rightarrow> int \<Rightarrow> shell \<Rightarrow> (int \<times> shell) option" where
  "shell_line c hp filename line ecode sh = do {
     sh1 \<leftarrow> gets line sh;
     sh2 \<leftarrow> parse sh1;
     sh3 \<leftarrow> utils_toupper (cmd sh2) sh2;
     command_to_run \<leftarrow> get_command sh3;
     (case command_to_run of
        None \<Rightarrow> run_program c hp ecode sh3
      | Some i \<Rightarrow> run_command c filename i sh3) }"

definition shell_turn :: "'h libc \<Rightarrow> u16 \<Rightarrow> u16 \<Rightarrow> bytes \<Rightarrow> bool \<Rightarrow> bytes \<Rightarrow> int \<Rightarrow> shell \<Rightarrow> (int \<times> shell) option" where
  "shell_turn c handler hp filename jumped line ecode sh = do {
     sh1 \<leftarrow> shell_prompt handler jumped ecode sh;
     shell_line c hp filename line ecode sh1 }"

text \<open>\<open>user_main\<close> for as many turns as lines are typed.\<close>

definition shell_banner :: "bytes \<Rightarrow> bytes \<Rightarrow> shell \<Rightarrow> shell option" where
  "shell_banner version zebra_image sh =
     zebra_display zebra_image (puts (
       0x1b # ascii ''[2J'' @ 0x1b # ascii ''[1;1H'' @ 0x1b # ascii ''[32m''
       @ ascii ''ZEBRA Command Processor (v0.1.2)'' @ [10, 13]
       @ ascii ''ZEBRA Kernel version: v'' @ version @ [13, 10]
       @ ascii ''Copyright (C) 2020 Jay Valentine'' @ [10, 13, 10, 13]
       @ ascii ''System Information:'' @ [13, 10]
       @ ascii ''    '' @ print_u (numbanks (kern sh) * 32) @ ascii ''KB user memory ('' @ print_u (numbanks (kern sh))
       @ ascii '' banks)'' @ [13, 10]) sh)"

fun shell_turns :: "'h libc \<Rightarrow> u16 \<Rightarrow> u16 \<Rightarrow> bytes \<Rightarrow> (bool \<times> bytes) list \<Rightarrow> int \<Rightarrow> shell \<Rightarrow> (int \<times> shell) option" where
  "shell_turns c handler hp filename [] ecode sh = Some (ecode, sh)"
| "shell_turns c handler hp filename ((jumped, line) # turns) ecode sh = do {
     (code, sh1) \<leftarrow> shell_turn c handler hp filename jumped line ecode sh;
     shell_turns c handler hp filename turns code sh1 }"

definition shell_main :: "'h libc \<Rightarrow> u16 \<Rightarrow> u16 \<Rightarrow> bytes \<Rightarrow> bytes \<Rightarrow> bytes \<Rightarrow> (bool \<times> bytes) list \<Rightarrow> shell \<Rightarrow> (int \<times> shell) option" where
  "shell_main c handler hp filename version zebra_image turns sh = do {
     sh1 \<leftarrow> shell_banner version zebra_image sh;
     shell_turns c handler hp filename turns 0 sh1 }"

end
