(* ===== verification/Shell_Parsing.thy ===== *)
theory Shell_Parsing
  imports Command_Shell
begin

text \<open>
  Reading a command line: \<open>parse\<close> splits it into words, as long as there are at most 16 arguments, and
  a line without a word leaves \<open>cmd\<close> a null pointer that the loop then uses.
\<close>

section \<open>Words\<close>

text \<open>The words of a line, separated by spaces.\<close>

function words :: "bytes \<Rightarrow> bytes list" where
  "words s =
     (case dropWhile (\<lambda>c. c = 0x20) s of
        [] \<Rightarrow> []
      | c # cs \<Rightarrow> takeWhile (\<lambda>c. c \<noteq> 0x20) (c # cs) # words (dropWhile (\<lambda>c. c \<noteq> 0x20) cs))"
  by pat_completeness auto
termination
proof (relation "measure length")
  fix s :: bytes and c cs
  assume "dropWhile (\<lambda>c. c = 0x20) s = c # cs"
  then have "length (c # cs) \<le> length s" by (metis length_dropWhile_le)
  moreover have "length (dropWhile (\<lambda>c. c \<noteq> 0x20) cs) \<le> length cs" by (rule length_dropWhile_le)
  ultimately show "(dropWhile (\<lambda>c. c \<noteq> 0x20) cs, s) \<in> measure length" by simp
qed simp

declare words.simps [simp del]

lemma words_Nil [simp]: "words [] = []"
  by (subst words.simps) simp

lemma words_space [simp]: "words (0x20 # s) = words s"
  by (subst (1 2) words.simps) simp

lemma words_all_spaces: "dropWhile (\<lambda>c. c = 0x20) s = [] \<Longrightarrow> words s = []"
  by (subst words.simps) (simp only: list.case)

lemma words_word:
  assumes "dropWhile (\<lambda>c. c = 0x20) s = u" "u \<noteq> []"
  shows "words s = takeWhile (\<lambda>c. c \<noteq> 0x20) u # words (dropWhile (\<lambda>c. c \<noteq> 0x20) u)"
proof (cases u)
  case (Cons c cs)
  then have "c \<noteq> 0x20" using assms(1) hd_dropWhile [of "\<lambda>c. c = 0x20" s] by auto
  with Cons assms show ?thesis by (subst words.simps) simp
qed (use assms in simp)

section \<open>One token\<close>

lemma takeWhile_stop: "\<not> P x \<Longrightarrow> takeWhile P (t @ x # r) = takeWhile P t"
  by (induction t) auto

lemma drop_split: "drop p s = a @ b \<Longrightarrow> drop (p + length a) s = b"
  by (metis add.commute append_eq_conv_conj drop_drop)

text \<open>The string \<open>t\<close>, ended by a NUL, is scanned from offset \<open>p\<close>.\<close>

lemma strtok_words:
  assumes "drop p s = t @ 0 # r" "0 \<notin> set t"
  obtains (none) b where "words t = []" "strtok_at p s = Some (None, b, s)"
    | (token) b p' s' w t' x where "words t = w # words t'" "strtok_at p s = Some (Some b, p', s')"
      "drop b s' = w @ 0 # x" "0 \<notin> set w" "drop p' s' = t' @ 0 # r" "0 \<notin> set t'" "take p s' = take p s" "p \<le> b"
      "b + length w < p' \<or> t' = []" "length s' = length s" "b < length s" "p < p'"
proof -
  define u where "u = dropWhile (\<lambda>c. c = 0x20) t"
  define b where "b = p + length (takeWhile (\<lambda>c. c = 0x20) t)"
  have t: "t = takeWhile (\<lambda>c. c = 0x20) t @ u" by (simp add: u_def)
  have u: "drop b s = u @ 0 # r" unfolding b_def using assms(1) t by (intro drop_split) (metis append.assoc)
  have b: "p + length (takeWhile (\<lambda>c. c = 0x20) (drop p s)) = b"
    unfolding b_def assms(1) by (subst takeWhile_stop) simp_all
  have nz: "0 \<notin> set u" using assms(2) t by (metis Un_iff set_append)
  have bl: "b < length s" using arg_cong [OF u, of length] by simp
  have sb: "rd s b = Some ((u @ 0 # r) ! 0)" using arg_cong [OF u, of "\<lambda>l. l ! 0"] bl by (simp add: rd_def)
  show thesis
  proof (cases "u = []")
    case True
    then have "strtok_at p s = Some (None, b, s)" using sb by (simp add: strtok_at_def Let_def b)
    moreover have "words t = []" using True by (intro words_all_spaces) (simp add: u_def)
    ultimately show thesis using none by blast
  next
    case False
    define w where "w = takeWhile (\<lambda>c. c \<noteq> 0x20) u"
    define v where "v = dropWhile (\<lambda>c. c \<noteq> 0x20) u"
    have wv: "u = w @ v" by (simp add: w_def v_def)
    have words: "words t = w # words v" unfolding w_def v_def using u_def False by (intro words_word) simp_all
    have c: "hd u \<noteq> 0x20" using False hd_dropWhile [of "\<lambda>c. c = 0x20" t] by (simp add: u_def)
    then have "w \<noteq> []" using False by (cases u) (simp_all add: w_def)
    define e where "e = b + length w"
    have v: "drop e s = v @ 0 # r" unfolding e_def using u wv by (intro drop_split) simp
    have el: "e < length s" using arg_cong [OF v, of length] by simp
    have se: "rd s e = Some ((v @ 0 # r) ! 0)" using arg_cong [OF v, of "\<lambda>l. l ! 0"] el by (simp add: rd_def)
    have nzw: "0 \<notin> set w" "0 \<notin> set v" using nz wv by auto
    have "takeWhile (\<lambda>c. c \<noteq> 0x20 \<and> c \<noteq> 0) (drop b s) = w"
    proof -
      have "takeWhile (\<lambda>c. c \<noteq> 0x20 \<and> c \<noteq> 0) (u @ 0 # r) = takeWhile (\<lambda>c. c \<noteq> 0x20 \<and> c \<noteq> 0) u"
        by (subst takeWhile_stop) simp_all
      also have "\<dots> = w" unfolding w_def using nz by (intro takeWhile_cong) auto
      finally show ?thesis by (simp only: u)
    qed
    moreover have "(u @ 0 # r) ! 0 \<noteq> 0" using False nz by (cases u) auto
    ultimately have scan: "strtok_at p s = (if (v @ 0 # r) ! 0 = 0 then Some (Some b, e, s) else Some (Some b, e + 1, s[e := 0]))"
      using sb se by (simp add: strtok_at_def Let_def b e_def)
    have pb: "p \<le> b" "b < e" using \<open>w \<noteq> []\<close> by (simp_all add: b_def e_def)
    show thesis
    proof (cases v)
      case Nil
      then have "strtok_at p s = Some (Some b, e, s)" using scan by simp
      moreover have "drop b s = w @ 0 # r" using u wv Nil by simp
      ultimately show thesis using token [of w "[]" b e s r] words Nil v nzw(1) pb bl by simp
    next
      case (Cons a v')
      then have a: "a = 0x20" using hd_dropWhile [of "\<lambda>c. c \<noteq> 0x20" u] by (simp add: v_def)
      let ?s = "s[e := 0]"
      have scan: "strtok_at p s = Some (Some b, e + 1, ?s)" using scan Cons a by simp
      have "drop b ?s = w @ 0 # v' @ 0 # r"
        using u wv Cons by (simp add: drop_update_swap e_def nth_append list_update_append)
      moreover have "drop (e + 1) ?s = v' @ 0 # r"
        using drop_split [of e s "[a]" "v' @ 0 # r"] v Cons by (simp add: drop_update_cancel)
      moreover have "take p ?s = take p s" using pb by (simp add: take_update_cancel)
      ultimately show thesis
        using token [of w v' b "e + 1" ?s "v' @ 0 # r"] scan words Cons a nzw pb bl by (simp add: e_def)
    qed
  qed
qed

section \<open>All tokens\<close>

text \<open>Offset \<open>q\<close> of \<open>s\<close> holds the string \<open>w\<close>.\<close>

definition string_at :: "bytes \<Rightarrow> nat \<Rightarrow> bytes \<Rightarrow> bool" where
  "string_at s q w \<longleftrightarrow> q < length s \<and> 0 \<in> set (drop q s) \<and> cstr (drop q s) = w"

lemma string_atI: "drop q s = w @ 0 # x \<Longrightarrow> 0 \<notin> set w \<Longrightarrow> string_at s q w"
proof -
  assume a: "drop q s = w @ 0 # x" "0 \<notin> set w"
  have "q < length s" using a(1) by (cases "q < length s") auto
  with a show ?thesis by (simp add: string_at_def)
qed

text \<open>A string that ends before \<open>p\<close> stays when only bytes from \<open>p\<close> on change.\<close>

lemma string_at_kept:
  assumes "drop q s = w @ 0 # x" "0 \<notin> set w" "q + length w < p" "take p s' = take p s"
  shows "string_at s' q w"
proof (rule string_atI)
  have "drop q (take p s') = drop q (take p s)" by (simp add: assms(4))
  also have "\<dots> = take (p - q) (w @ 0 # x)" by (simp add: drop_take assms(1))
  also have "\<dots> = w @ 0 # take (p - q - length w - 1) x"
    using assms(3) by (simp add: take_Cons')
  finally have "drop q (take p s' @ drop p s') = (w @ 0 # take (p - q - length w - 1) x) @ drop (q - length (take p s')) (drop p s')"
    by (simp only: drop_append)
  then show "drop q s' = w @ 0 # take (p - q - length w - 1) x @ drop (q - length (take p s')) (drop p s')" by simp
qed (rule assms(2))

lemma parse_args_words:
  assumes "drop p (input sh) = t @ 0 # r" "0 \<notin> set t" "length (argv sh) = 16" "unat (argc sh) + length (words t) \<le> 16"
  shows "\<exists>sh'. parse_args p sh = Some sh' \<and> cmd sh' = cmd sh \<and> unat (argc sh') = unat (argc sh) + length (words t)
    \<and> length (argv sh') = 16 \<and> length (input sh') = length (input sh) \<and> take p (input sh') = take p (input sh)
    \<and> (t = [] \<longrightarrow> input sh' = input sh) \<and> (\<forall>i < unat (argc sh). argv sh' ! i = argv sh ! i)
    \<and> (\<forall>i < length (words t). \<exists>q. argv sh' ! (unat (argc sh) + i) = Some q \<and> p \<le> q \<and> string_at (input sh') q (words t ! i))
    \<and> kern sh' = kern sh \<and> arriving sh' = arriving sh \<and> printed sh' = printed sh \<and> program sh' = program sh"
  using assms
proof (induction "length (words t)" arbitrary: t p sh)
  case 0
  show ?case using 0(2,3)
  proof (cases rule: strtok_words)
    case (none b)
    then show ?thesis using 0(4) by (subst parse_args.simps) simp
  next
    case (token b p' s' w t' x)
    then show ?thesis using 0(1) by simp
  qed
next
  case (Suc n)
  show ?case using Suc.prems(1,2)
  proof (cases rule: strtok_words)
    case (none b)
    then show ?thesis using Suc.hyps(2) by simp
  next
    case (token b p' s' w t' x)
    let ?k = "unat (argc sh)"
    have k: "?k < 16" using Suc.prems(4) token(1) by simp
    then have k1: "unat (argc sh + 1) = ?k + 1" by (subst unat_Suc_word) simp_all
    define sh1 where "sh1 = sh\<lparr>input := s', argv := (argv sh)[?k := Some b], argc := argc sh + 1\<rparr>"
    have sh1: "drop p' (input sh1) = t' @ 0 # r" "length (argv sh1) = 16" "unat (argc sh1) = ?k + 1" "input sh1 = s'"
      using token(5) Suc.prems(3) k1 by (simp_all add: sh1_def)
    have step: "parse_args p sh = parse_args p' sh1"
      using token(2) k Suc.prems(3) by (subst parse_args.simps) (simp add: sh1_def)
    obtain sh' where sh': "parse_args p' sh1 = Some sh'" "cmd sh' = cmd sh1" "unat (argc sh') = ?k + 1 + length (words t')"
      "length (argv sh') = 16" "length (input sh') = length s'" "take p' (input sh') = take p' s'"
      "t' = [] \<longrightarrow> input sh' = s'" "\<forall>i < ?k + 1. argv sh' ! i = argv sh1 ! i"
      "\<forall>i < length (words t'). \<exists>q. argv sh' ! (?k + 1 + i) = Some q \<and> p' \<le> q \<and> string_at (input sh') q (words t' ! i)"
      "kern sh' = kern sh1" "arriving sh' = arriving sh1" "printed sh' = printed sh1" "program sh' = program sh1"
      using Suc.hyps(1) [of t' p' sh1] Suc.hyps(2) token(1,6) sh1 Suc.prems(4) by auto
    have "string_at (input sh') b w"
      using token(9)
    proof
      assume "b + length w < p'"
      then show ?thesis by (rule string_at_kept [OF token(3,4) _ sh'(6)])
    next
      assume "t' = []"
      then show ?thesis using string_atI [OF token(3,4)] sh'(7) by simp
    qed
    then have "\<exists>q. argv sh' ! (?k + i) = Some q \<and> p \<le> q \<and> string_at (input sh') q (words t ! i)" if "i < length (words t)" for i
      using that sh'(8,9) token(1,8,12) k Suc.prems(3) by (cases i) (auto simp: sh1_def)
    moreover have "take p (input sh') = take p (input sh)"
      using arg_cong [OF sh'(6), of "take p"] token(7,12) by (simp add: min_def)
    moreover have "argv sh' ! i = argv sh ! i" if "i < ?k" for i using sh'(8) that by (simp add: sh1_def)
    moreover have "t \<noteq> []" using token(1) by auto
    ultimately show ?thesis
      using step sh'(1-5,10-13) token(1,10) by (intro exI [of _ sh']) (simp add: sh1_def)
  qed
qed

lemma parse_args_overrun:
  assumes "drop p (input sh) = t @ 0 # r" "0 \<notin> set t" "length (argv sh) = 16"
    and "unat (argc sh) \<le> 16" "16 < unat (argc sh) + length (words t)"
  shows "parse_args p sh = None"
  using assms
proof (induction "length (words t)" arbitrary: t p sh)
  case (Suc n)
  show ?case using Suc.prems(1,2)
  proof (cases rule: strtok_words)
    case (none b)
    then show ?thesis using Suc.hyps(2) by simp
  next
    case (token b p' s' w t' x)
    let ?k = "unat (argc sh)"
    show ?thesis
    proof (cases "?k < 16")
      case False
      then show ?thesis using token(2) Suc.prems(3) by (subst parse_args.simps) simp
    next
      case True
      then have k1: "unat (argc sh + 1) = ?k + 1" by (subst unat_Suc_word) simp_all
      define sh1 where "sh1 = sh\<lparr>input := s', argv := (argv sh)[?k := Some b], argc := argc sh + 1\<rparr>"
      have "parse_args p sh = parse_args p' sh1"
        using token(2) True Suc.prems(3) by (subst parse_args.simps) (simp add: sh1_def)
      also have "\<dots> = None"
        using token(1,5,6) Suc.hyps(2) Suc.prems(3,5) True k1
        by (intro Suc.hyps(1) [of t']) (simp_all add: sh1_def)
      finally show ?thesis .
    qed
  qed
qed simp

text \<open>The buffer after \<open>gets\<close>.\<close>

lemma gets_buffer:
  assumes "length (input sh) = 256" "length line < 256"
  obtains r where "gets line sh = Some (sh\<lparr>input := line @ 0 # r\<rparr>)" "length (line @ 0 # r) = 256"
  using assms that [of "drop (length line + 1) (input sh)"] by (simp add: gets_def memcpy_def)

text \<open>The whole of \<open>gets\<close> and \<open>parse\<close>.\<close>

definition read_line :: "bytes \<Rightarrow> shell \<Rightarrow> shell option" where
  "read_line line sh = do { sh1 \<leftarrow> gets line sh; parse sh1 }"

lemma read_line_cases:
  assumes "length (input sh) = 256" "length (argv sh) = 16" "length line < 256" "0 \<notin> set line"
  obtains (empty) sh' where "words line = []" "read_line line sh = Some sh'" "cmd sh' = None"
    | (overrun) w ws where "words line = w # ws" "16 < length ws" "read_line line sh = None"
    | (split) w ws sh' p where "words line = w # ws" "length ws \<le> 16" "read_line line sh = Some sh'" "cmd sh' = Some p"
        "string_at (input sh') p w" "0 \<notin> set w" "unat (argc sh') = length ws" "length (argv sh') = 16" "length (input sh') = 256"
        "\<forall>i < length ws. \<exists>q. argv sh' ! i = Some q \<and> p + length w < q \<and> string_at (input sh') q (ws ! i)"
        "kern sh' = kern sh" "arriving sh' = arriving sh" "printed sh' = printed sh" "program sh' = program sh"
proof -
  obtain r where r: "gets line sh = Some (sh\<lparr>input := line @ 0 # r\<rparr>)" "length (line @ 0 # r) = 256"
    using gets_buffer [OF assms(1,3)] .
  have "drop 0 (line @ 0 # r) = line @ 0 # r" by simp
  then show ?thesis using assms(4)
  proof (cases rule: strtok_words)
    case (none b)
    then show ?thesis using empty by (simp add: r(1) read_line_def parse_def)
  next
    case (token b p s' w t x)
    define sh1 where "sh1 = sh\<lparr>cmd := Some b, input := s', argc := 0\<rparr>"
    have call: "read_line line sh = parse_args p sh1"
      using token(2) by (simp add: r(1) read_line_def parse_def sh1_def)
    have sh1: "drop p (input sh1) = t @ 0 # r" "length (argv sh1) = 16" "argc sh1 = 0"
      using token(5) assms(2) by (simp_all add: sh1_def)
    show ?thesis
    proof (cases "length (words t) \<le> 16")
      case False
      then show ?thesis using parse_args_overrun [OF sh1(1) token(6) sh1(2)] sh1(3) overrun token(1) call by simp
    next
      case True
      then obtain sh' where sh': "parse_args p sh1 = Some sh'" "cmd sh' = Some b" "unat (argc sh') = length (words t)"
        "length (argv sh') = 16" "length (input sh') = 256" "take p (input sh') = take p s'" "t = [] \<longrightarrow> input sh' = s'"
        "\<forall>i < length (words t). \<exists>q. argv sh' ! i = Some q \<and> p \<le> q \<and> string_at (input sh') q (words t ! i)"
        "kern sh' = kern sh" "arriving sh' = arriving sh" "printed sh' = printed sh" "program sh' = program sh"
        using parse_args_words [OF sh1(1) token(6) sh1(2)] token(10) r(2) by (auto simp: sh1_def)
      have cmd: "string_at (input sh') b w"
        using token(9) string_at_kept [OF token(3,4) _ sh'(6)] string_atI [OF token(3,4)] sh'(7) by metis
      have args: "\<forall>i < length (words t). \<exists>q. argv sh' ! i = Some q \<and> b + length w < q \<and> string_at (input sh') q (words t ! i)"
      proof (cases "t = []")
        case False
        then have "b + length w < p" using token(9) by simp
        then show ?thesis using sh'(8) by (meson less_le_trans)
      qed simp
      show ?thesis
        by (rule split [OF token(1) True _ sh'(2) cmd token(4) sh'(3-5) args sh'(9-12)]) (simp add: call sh'(1))
    qed
  qed
qed

text \<open>A shell on a file system, before its first command.\<close>

definition demo_shell :: "fs \<Rightarrow> shell" where
  "demo_shell f =
     \<lparr>input = replicate 256 0, cmd = None, argv = replicate 16 None, argc = 0, program = replicate 16 0,
      kern = shell_kernel\<lparr>kfs := f\<rparr>, arriving = [], printed = []\<rparr>"

lemma demo_shell [simp]:
  "length (input (demo_shell f)) = 256" "length (argv (demo_shell f)) = 16" "kfs (kern (demo_shell f)) = f"
  "printed (demo_shell f) = []"
  by (simp_all add: demo_shell_def)

section \<open>From the line to the command\<close>

lemma toupper_chars_word: "0 \<notin> set w \<Longrightarrow> toupper_chars (w @ 0 # x) = Some (map upper w @ 0 # x)"
  by (induction w) (auto simp: upper_def)

lemma upper_no_nul: "0 \<notin> set w \<Longrightarrow> 0 \<notin> set (map upper w)"
  by (induction w) (auto dest: upper_nz simp del: set_map)

lemma string_atE:
  assumes "string_at s q w"
  obtains x where "drop q s = w @ 0 # x" "q < length s"
proof -
  have "dropWhile (\<lambda>c. c \<noteq> 0) (drop q s) \<noteq> []" using assms by (auto simp: string_at_def)
  then have "dropWhile (\<lambda>c. c \<noteq> 0) (drop q s) = 0 # tl (dropWhile (\<lambda>c. c \<noteq> 0) (drop q s))"
    using hd_dropWhile [of "\<lambda>c. c \<noteq> 0" "drop q s"] by (cases "dropWhile (\<lambda>c. c \<noteq> 0) (drop q s)") auto
  then have "drop q s = w @ 0 # tl (dropWhile (\<lambda>c. c \<noteq> 0) (drop q s))"
    using assms takeWhile_dropWhile_id [of "\<lambda>c. c \<noteq> 0" "drop q s"] by (simp add: string_at_def cstr_def)
  then show thesis using that assms by (simp add: string_at_def)
qed

text \<open>\<open>utils_toupper(cmd)\<close> changes the command and leaves the strings behind it alone.\<close>

lemma utils_toupper_word:
  assumes "cmd sh = Some p" "string_at (input sh) p w" "0 \<notin> set w"
  obtains s where "utils_toupper (cmd sh) sh = Some (sh\<lparr>input := s\<rparr>)" "length s = length (input sh)"
    "string_at s p (map upper w)" "\<And>q u. p + length w < q \<Longrightarrow> string_at (input sh) q u \<Longrightarrow> string_at s q u"
proof -
  obtain x where x: "drop p (input sh) = w @ 0 # x" "p < length (input sh)"
    using string_atE [OF assms(2)] .
  define s where "s = take p (input sh) @ map upper w @ 0 # x"
  have sh: "input sh = take p (input sh) @ w @ 0 # x" using x(1) by (metis append_take_drop_id)
  have len: "length (input sh) = p + length w + 1 + length x"
    using arg_cong [OF x(1), of length] x(2) by simp
  have "utils_toupper (cmd sh) sh = Some (sh\<lparr>input := s\<rparr>)"
    using assms(1,3) x(1) by (simp add: utils_toupper_def toupper_chars_word s_def)
  moreover have "length s = length (input sh)" using len x(2) by (simp add: s_def)
  moreover have "string_at s p (map upper w)"
    using x(2) upper_no_nul [OF assms(3)] by (intro string_atI [of _ _ _ x]) (simp_all add: s_def)
  moreover have "string_at s q u" if q: "p + length w < q" "string_at (input sh) q u" for q u
  proof -
    have "drop q (take p (input sh) @ v @ 0 # x) = drop (q - p - length w - 1) x" if "length v = length w" for v
      using q(1) x(2) that by (simp add: drop_Cons')
    then have "drop q s = drop q (input sh)" using sh by (metis s_def length_map)
    with q(2) \<open>length s = length (input sh)\<close> show ?thesis by (simp add: string_at_def)
  qed
  ultimately show thesis using that by blast
qed

text \<open>C13. Reading and dispatching a command line. For every line of up to 255 bytes: its first word, in upper
  case, selects the built-in command with that name, or else the program of that name; the other words are the
  arguments, \<open>argc\<close> of them, in order. A line without a word makes \<open>utils_toupper\<close> dereference the null pointer
  \<open>cmd\<close>, and more than 16 arguments are written past the end of \<open>argv\<close>.\<close>

theorem shell_line_dispatches:
  assumes "length (input sh) = 256" "length (argv sh) = 16" "length line < 256" "0 \<notin> set line"
  shows "case words line of
      [] \<Rightarrow> shell_line c hp filename line ecode sh = None
    | w # ws \<Rightarrow>
        if length ws \<le> 16
        then \<exists>sh' p. shell_line c hp filename line ecode sh =
            (case first_idx (\<lambda>name. map upper w = name) commands of
               None \<Rightarrow> run_program c hp ecode sh'
             | Some i \<Rightarrow> run_command c filename i sh')
          \<and> cmd sh' = Some p \<and> string_at (input sh') p (map upper w)
          \<and> unat (argc sh') = length ws \<and> (\<forall>i < length ws. \<exists>t. arg sh' i = Some t \<and> cstr t = ws ! i)
          \<and> kern sh' = kern sh \<and> arriving sh' = arriving sh \<and> printed sh' = printed sh
        else shell_line c hp filename line ecode sh = None"
proof -
  have line: "shell_line c hp filename line ecode sh = do {
      sh2 \<leftarrow> read_line line sh;
      sh3 \<leftarrow> utils_toupper (cmd sh2) sh2;
      command_to_run \<leftarrow> get_command sh3;
      (case command_to_run of
         None \<Rightarrow> run_program c hp ecode sh3
       | Some i \<Rightarrow> run_command c filename i sh3) }"
    by (simp add: shell_line_def read_line_def)
  from assms show ?thesis
  proof (cases rule: read_line_cases)
    case (empty sh')
    then show ?thesis by (simp add: line utils_toupper_def)
  next
    case (overrun w ws)
    then show ?thesis by (simp add: line)
  next
    case (split w ws sh' p)
    obtain s where s: "utils_toupper (cmd sh') sh' = Some (sh'\<lparr>input := s\<rparr>)" "length s = length (input sh')"
      "string_at s p (map upper w)" "\<And>q u. p + length w < q \<Longrightarrow> string_at (input sh') q u \<Longrightarrow> string_at s q u"
      by (rule utils_toupper_word [OF split(4,5,6)]) blast
    define sh3 where "sh3 = sh'\<lparr>input := s\<rparr>"
    have "get_command sh3 = Some (first_idx (\<lambda>name. map upper w = name) commands)"
      using s(3) by (simp add: get_command_def sh3_def split(4) string_at_def)
    then have "shell_line c hp filename line ecode sh =
        (case first_idx (\<lambda>name. map upper w = name) commands of
           None \<Rightarrow> run_program c hp ecode sh3
         | Some i \<Rightarrow> run_command c filename i sh3)"
      by (simp add: line split(3) s(1) flip: sh3_def)
    moreover have "\<exists>t. arg sh3 i = Some t \<and> cstr t = ws ! i" if i: "i < length ws" for i
    proof -
      obtain q where "argv sh' ! i = Some q" "string_at s q (ws ! i)" using split(10) i s(4) by blast
      then show ?thesis using i split(2,8) by (auto simp: arg_def rd_def string_at_def sh3_def)
    qed
    ultimately show ?thesis
      using split(2,4,7,11-13) s(3)
      by (simp only: split(1) list.case if_True) (intro exI [of _ sh3] exI [of _ p], simp add: sh3_def)
  qed
qed

definition demo_libc :: "unit libc" where
  "demo_libc = \<lparr>fopen = (\<lambda>_ k. (None, k)), fgets = (\<lambda>_ k. (None, k)), fclose = (\<lambda>_ k. k), pexec = (\<lambda>_ _ _ k. Some (0, k))\<rparr>"

lemma shell_line_dispatches_witness:
  "\<exists>sh' p. shell_line demo_libc 0 (replicate 13 0) (ascii '' del  hello.c'') 0 (demo_shell shell_fs) = command_del sh'
     \<and> kern sh' = kern (demo_shell shell_fs) \<and> argc sh' = 1 \<and> (\<exists>t. arg sh' 0 = Some t \<and> cstr t = ascii ''hello.c'')"
proof -
  have words: "words (ascii '' del  hello.c'') = [ascii ''del'', ascii ''hello.c'']" by code_simp
  have line: "length (ascii '' del  hello.c'') < 256" "0 \<notin> set (ascii '' del  hello.c'')" by simp_all
  have "first_idx (\<lambda>name. map upper (ascii ''del'') = name) commands = Some 5" by code_simp
  moreover have "unat (argc sh') = 1 \<longleftrightarrow> argc sh' = 1" for sh' by (simp add: word_unat_eq_iff)
  ultimately show ?thesis
    using shell_line_dispatches [OF demo_shell(1,2) line, of demo_libc 0 "replicate 13 0" 0 shell_fs] unfolding words
    by (auto simp: run_command_def)
qed

end
