(* ===== verification/Shell_Claims.thy ===== *)
theory Shell_Claims
  imports Shell_Parsing
begin

text \<open>
  What the built-in commands of the command processor do on the file system of the kernel.
\<close>

section \<open>DIR\<close>

lemma cstr_take: "length (cstr b) \<le> n \<Longrightarrow> cstr (take n b @ [0]) = cstr b"
proof (induction b arbitrary: n)
  case (Cons c b)
  then show ?case by (cases n) (auto simp: cstr_def split: if_splits)
qed (simp add: cstr_def)

lemma canon_cstr:
  assumes "length b = 13" "0 \<in> set b"
  shows "canon b = map upper (cstr b)"
proof -
  have "length (cstr b) \<le> 12" using cstr_less [OF assms(2)] assms(1) by simp
  then show ?thesis by (simp add: canon_def cstr_take)
qed

definition entry_info :: "DirectoryEntry_T \<Rightarrow> FINFO" where
  "entry_info e = \<lparr>fi_attr = attributes e, fi_size = de_size e, created_year = 1980 + drop_bit 9 (creation_date e),
     created_month = ucast (drop_bit 5 (creation_date e) AND 0x000f), created_day = ucast (creation_date e AND 0x001f)\<rparr>"

lemma file_info_ok:
  assumes "fs_wf s" "12 \<le> length filename" "dir_scan (canon filename) (dir_slots s) = Found k"
  obtains s' where "file_info filename s = Some (Inr (entry_info (bytes_entry (dir_slots s ! k))), s')" "cache_only s s'" "fs_wf s'"
proof -
  obtain u where u: "filename_upper filename = Some u" "0 \<in> set u" "cstr u = canon filename"
    using filename_upper_canon [OF assms(2)] by metis
  obtain s' where s': "filesystem_get_directory_entry u s = Some (Inr (bytes_entry (dir_slots s ! k)), s')" "cache_only s s'" "fs_wf s'"
    using get_entry_cases [OF assms(1) u(2)] assms(3) u(3) by (metis scan.distinct(3) scan.simps(8))
  then have "file_info filename s = Some (Inr (entry_info (bytes_entry (dir_slots s ! k))), s')"
    by (simp add: file_info_def u(1) entry_info_def)
  with s'(2,3) show ?thesis using that by blast
qed

text \<open>The names of a directory that differ from each other and are in upper case.\<close>

definition plain_names :: "bytes list \<Rightarrow> bool" where
  "plain_names slots \<longleftrightarrow> inj_on slot_string (set (live slots))
     \<and> (\<forall>slot \<in> set (live slots). map upper (slot_string slot) = slot_string slot)"

definition slot_line :: "bytes \<Rightarrow> bytes" where
  "slot_line slot = dir_line (slot_string slot) (entry_info (bytes_entry slot))"

abbreviation set_fs :: "fs \<Rightarrow> shell \<Rightarrow> shell" where
  "set_fs f sh \<equiv> sh\<lparr>kern := (kern sh)\<lparr>kfs := f\<rparr>\<rparr>"

lemma dir_loop_ok:
  assumes "fs_wf (kfs (kern sh))" "geometry (kfs (kern sh))" "length filename = 13"
    and "slots = dir_slots (kfs (kern sh))" "length (live slots) < 2 ^ 16" "plain_names slots" "e + n = length (live slots)"
  shows "\<exists>f. cache_only (kfs (kern sh)) f \<and> fs_wf f \<and> dir_loop n (of_nat e) filename finfo sh
    = Some (set_fs f (puts (concat (map slot_line (drop e (live slots)))) sh))"
  using assms
proof (induction n arbitrary: e filename finfo sh)
  case 0
  then show ?case by (intro exI [of _ "kfs (kern sh)"]) (simp add: puts_def)
next
  case (Suc n)
  let ?s = "kfs (kern sh)"
  have e: "e < length (live slots)" "e < 2 ^ 16" using Suc.prems(5,7) by simp_all
  define slot where "slot = live slots ! e"
  have slot: "slot \<in> set (live slots)" using e(1) by (simp add: slot_def)
  obtain f1 name where f1: "cache_only ?s f1" "fs_wf f1" "file_entry filename (of_nat e) ?s = Some (0, name, f1)"
      "length name = 13" "0 \<in> set name" "cstr name = slot_string slot"
    using file_entry_ok [OF Suc.prems(1,2) _ Suc.prems(3) e(2)] Suc.prems(4,5) e(1) unfolding slot_def by auto
  obtain k where k: "dir_scan (slot_string slot) slots = Found k" "slots ! k = slot"
    using dir_scan_live [OF slot] Suc.prems(6) by (auto simp: plain_names_def)
  have canon: "canon name = slot_string slot"
    using Suc.prems(6) slot by (simp add: canon_cstr f1(4-6) plain_names_def)
  note co = cache_onlyD [OF f1(1)]
  obtain f2 where f2: "file_info name f1 = Some (Inr (entry_info (bytes_entry slot)), f2)" "cache_only f1 f2" "fs_wf f2"
    using file_info_ok [OF f1(2), of name k] f1(4) k co(3) Suc.prems(4) by (auto simp: canon)
  define sh2 where "sh2 = puts (slot_line slot) (set_fs f2 sh)"
  have loop: "dir_loop (Suc n) (of_nat e) filename finfo sh = dir_loop n (of_nat (Suc e)) name (Some (entry_info (bytes_entry slot))) sh2"
    using f1(3,5,6) f2(1) by (simp add: with_fs_def sh2_def slot_line_def add.commute)
  note co2 = cache_onlyD [OF cache_only_trans [OF f1(1) f2(2)]]
  have fs: "kfs (kern sh2) = f2" by (simp add: sh2_def puts_def)
  obtain f where f: "cache_only f2 f" "fs_wf f" "dir_loop n (of_nat (Suc e)) name (Some (entry_info (bytes_entry slot))) sh2
      = Some (set_fs f (puts (concat (map slot_line (drop (Suc e) (live slots)))) sh2))"
    using Suc.IH [of sh2 name "Suc e"] f2(3) co2(3,5) f1(4) Suc.prems(2,4-7) unfolding fs by auto
  have "drop e (live slots) = slot # drop (Suc e) (live slots)" using e(1) by (simp add: slot_def Cons_nth_drop_Suc)
  then have "set_fs f (puts (concat (map slot_line (drop (Suc e) (live slots)))) sh2)
      = set_fs f (puts (concat (map slot_line (drop e (live slots)))) sh)"
    by (simp add: sh2_def puts_def)
  with loop f(2,3) cache_only_trans [OF cache_only_trans [OF f1(1) f2(2)] f(1)] show ?case by (intro exI [of _ f]) simp
qed

text \<open>C14. DIR prints the number of files of the root directory and one line for each of them, in the order of
  the directory, with its name, attributes, size and date, when the names differ and are in upper case; it changes nothing
  but the sector cache of the kernel. This composes \<open>file_entries\<close>, \<open>file_entry\<close> and \<open>file_info\<close>, which looks
  every name up again: for a name with small letters that fails, and the line shows what is in the structure.\<close>

theorem command_dir_lists:
  assumes "fs_wf (kfs (kern sh))" "geometry (kfs (kern sh))" "length filename = 13"
    and "length (live (dir_slots (kfs (kern sh)))) < 2 ^ 16" "plain_names (dir_slots (kfs (kern sh)))"
  shows "\<exists>f. cache_only (kfs (kern sh)) f \<and> command_dir filename sh = Some (0, sh\<lparr>
      kern := (kern sh)\<lparr>kfs := f\<rparr>,
      printed := printed sh @ print_u (of_nat (length (live (dir_slots (kfs (kern sh)))))) @ ascii '' files:'' @ [10, 13]
        @ concat (map slot_line (live (dir_slots (kfs (kern sh)))))\<rparr>)"
proof -
  let ?s = "kfs (kern sh)" and ?n = "length (live (dir_slots (kfs (kern sh))))"
  obtain f1 where f1: "file_entries ?s = Some (of_nat ?n, f1)" "cache_only ?s f1" "fs_wf f1"
    using file_entries_ok [OF assms(1,2)] .
  note co = cache_onlyD [OF f1(2)]
  define sh2 where "sh2 = puts (print_u (of_nat ?n) @ ascii '' files:'' @ [10, 13]) (set_fs f1 sh)"
  have fs: "kfs (kern sh2) = f1" by (simp add: sh2_def puts_def)
  obtain f where f: "cache_only f1 f" "dir_loop ?n (of_nat 0) filename None sh2
      = Some (set_fs f (puts (concat (map slot_line (drop 0 (live (dir_slots ?s))))) sh2))"
    using dir_loop_ok [of sh2 filename "dir_slots ?s" 0 ?n None] f1(3) co(3,5) assms(2-5) unfolding fs by auto
  have n: "unat (of_nat ?n :: u16) = ?n" using assms(4) by (intro unat_of_nat_u16) simp
  have "command_dir filename sh = Some (0, set_fs f (puts (concat (map slot_line (live (dir_slots ?s)))) sh2))"
    using f(2) by (simp add: command_dir_def with_fs_def f1(1) n sh2_def)
  with cache_only_trans [OF f1(2) f(1)] show ?thesis by (intro exI [of _ f]) (simp add: sh2_def puts_def)
qed

lemma hello_line: "slot_line (entry_bytes hello_entry) = ascii ''    HELLO.C             ~~~      5  1980-01-01'' @ [10, 13]"
proof -
  have "bytes_entry (entry_bytes hello_entry) = hello_entry" using hello_entry(1) by (rule entry_roundtrip)
  then have "slot_line (entry_bytes hello_entry) = dir_line (cstr hello_name) (entry_info hello_entry)"
    by (simp add: slot_line_def hello_entry(3))
  also have "\<dots> = ascii ''    HELLO.C             ~~~      5  1980-01-01'' @ [10, 13]" by code_simp
  finally show ?thesis .
qed

lemma command_dir_lists_witness:
  "\<exists>s sh'. command_dir (replicate 13 0) (demo_shell s) = Some (0, sh')
    \<and> printed sh' = ascii ''1 files:'' @ [10, 13] @ ascii ''    HELLO.C             ~~~      5  1980-01-01'' @ [10, 13]"
proof -
  obtain s where s: "fs_wf s" "geometry s" "dir_slots s = entry_bytes hello_entry # replicate 15 (replicate 32 0)"
    using hello_fs by metis
  have live: "live (dir_slots s) = [entry_bytes hello_entry]"
    using hello_entry(2) by (simp add: s(3) live_def is_file_def replicate_Suc [of 14, simplified])
  moreover have "map upper (cstr hello_name) = cstr hello_name" by code_simp
  ultimately have "plain_names (dir_slots s)" by (simp add: plain_names_def hello_entry(3))
  moreover have "print_u (of_nat 1) = ascii ''1''" by code_simp
  ultimately show ?thesis
    using command_dir_lists [of "demo_shell s" "replicate 13 0"] s(1,2) live hello_line
    by (intro exI [of _ s]) auto
qed

end
