(* ===== verification/Shell_Load.thy ===== *)
theory Shell_Load
  imports Shell_Claims
begin

text \<open>
  LOAD: the packets that arrive from the terminal become the contents of a new file.
\<close>

section \<open>The transfer\<close>

text \<open>A packet as it arrives: header, two bytes with its number, 128 bytes of data, and a checksum.\<close>

record packet =
  header :: u8
  number :: "u8 \<times> u8"
  payload :: bytes
  checksum :: u8

definition packet_bytes :: "packet \<Rightarrow> bytes" where
  "packet_bytes p = header p # fst (number p) # snd (number p) # payload p @ [checksum p]"

definition packet_ok :: "packet \<Rightarrow> bool" where
  "packet_ok p \<longleftrightarrow> header p \<noteq> ASCII_EOT \<and> length (payload p) = 128"

lemma getchar_Cons: "arriving sh = c # cs \<Longrightarrow> getchar sh = Some (c, sh\<lparr>arriving := cs\<rparr>)"
  by (simp add: getchar_def)

lemma wait_for_r_ok:
  "arriving sh = noise @ of_char (CHR ''r'') # cs \<Longrightarrow> of_char (CHR ''r'') \<notin> set noise
    \<Longrightarrow> wait_for_r sh = Some (sh\<lparr>arriving := cs\<rparr>)"
proof (induction noise arbitrary: sh)
  case Nil
  then show ?case by (subst wait_for_r.simps) (simp add: getchar_def)
next
  case (Cons c noise)
  then have "wait_for_r (sh\<lparr>arriving := noise @ of_char (CHR ''r'') # cs\<rparr>) = Some (sh\<lparr>arriving := cs\<rparr>)" by simp
  with Cons.prems show ?case by (subst wait_for_r.simps) (simp add: getchar_def)
qed

lemma get_data_ok: "arriving sh = d @ cs \<Longrightarrow> get_data (length d) sh = Some (d, sh\<lparr>arriving := cs\<rparr>)"
proof (induction d arbitrary: sh)
  case (Cons c d)
  then have "get_data (length d) (sh\<lparr>arriving := d @ cs\<rparr>) = Some (d, sh\<lparr>arriving := cs\<rparr>)" by simp
  with Cons.prems show ?case by (simp add: getchar_def)
qed simp

lemma receive_packets_ok:
  assumes "arriving sh = concat (map packet_bytes ps) @ ASCII_EOT # cs" "\<forall>p \<in> set ps. packet_ok p"
    and "write_all (map payload ps) (kfs (kern sh)) = Some f"
  shows "receive_packets 0 sh = Some (set_fs f (puts (replicate (length ps) ASCII_ACK) (sh\<lparr>arriving := cs\<rparr>)))"
  using assms
proof (induction ps arbitrary: sh)
  case Nil
  then show ?case by (subst receive_packets.simps) (simp add: getchar_def puts_def)
next
  case (Cons p ps)
  let ?rest = "concat (map packet_bytes ps) @ ASCII_EOT # cs"
  have p: "header p \<noteq> ASCII_EOT" "length (payload p) = 128" using Cons.prems(2) by (simp_all add: packet_ok_def)
  obtain r f1 where f1: "file_write (payload p) 0 (kfs (kern sh)) = Some (r, f1)" "write_all (map payload ps) f1 = Some f"
    using Cons.prems(3) by (auto simp: bind_eq_Some_conv)
  define sh1 where "sh1 = puts [ASCII_ACK] (set_fs f1 (sh\<lparr>arriving := ?rest\<rparr>))"
  have data: "get_data 128 (sh\<lparr>arriving := payload p @ checksum p # ?rest\<rparr>)
      = Some (payload p, sh\<lparr>arriving := checksum p # ?rest\<rparr>)"
    using get_data_ok [of "sh\<lparr>arriving := payload p @ checksum p # ?rest\<rparr>" "payload p"] p(2) by simp
  have arr: "arriving sh = header p # fst (number p) # snd (number p) # payload p @ checksum p # ?rest"
    using Cons.prems(1) packet_bytes_def [of p] by simp
  have "receive_packets 0 sh = receive_packets 0 sh1"
    using arr p(1) data f1(1)
    by (subst receive_packets.simps) (simp add: getchar_def with_fs_def sh1_def puts_def)
  also have "\<dots> = Some (set_fs f (puts (replicate (length ps) ASCII_ACK) (sh1\<lparr>arriving := cs\<rparr>)))"
    using Cons.prems(2) f1(2) by (intro Cons.IH) (simp_all add: sh1_def puts_def)
  finally show ?case by (simp add: sh1_def puts_def)
qed

lemma terminal_set_mode_ok:
  fixes k :: kernel
  assumes "process_info (process_current_ptr k) k \<noteq> None"
  obtains k' where "terminal_set_mode m k = Some k'" "kfs k' = kfs k" "process_info (process_current_ptr k') k' \<noteq> None"
proof -
  obtain k' where k': "terminal_set_mode m k = Some k'"
    using assms by (cases "terminal_set_mode m k") (simp_all add: terminal_set_mode_def)
  moreover have "kfs k' = kfs k" using k' by (auto simp: terminal_set_mode_def process_update_def split: option.splits)
  moreover have "process_info (process_current_ptr k') k' \<noteq> None"
    using assms process_info_update [OF k' [unfolded terminal_set_mode_def]] process_update_ptr [OF k' [unfolded terminal_set_mode_def]]
    by simp
  ultimately show thesis using that by blast
qed

definition load_prompt :: bytes where
  "load_prompt = ascii ''Press <r> to begin receiving...'' @ [13, 10]"

lemma receive_file_ok:
  assumes "process_info (process_current_ptr (kern sh)) (kern sh) \<noteq> None"
    and "arriving sh = noise @ of_char (CHR ''r'') # concat (map packet_bytes ps) @ ASCII_EOT # cs"
    and "of_char (CHR ''r'') \<notin> set noise" "\<forall>p \<in> set ps. packet_ok p"
    and "file_open name FMODE_WRITE (kfs (kern sh)) = Some (0, f1)" "write_all (map payload ps) f1 = Some f2" "file_close 0 f2 = Some f3"
  obtains sh' where "receive_file name sh = Some (0, sh')" "kfs (kern sh') = f3" "arriving sh' = cs"
    "printed sh' = printed sh @ load_prompt @ [ASCII_NAK] @ replicate (length ps) ASCII_ACK @ [ASCII_ACK]"
proof -
  let ?data = "concat (map packet_bytes ps) @ ASCII_EOT # cs"
  define sh1 where "sh1 = puts load_prompt (set_fs f1 sh)"
  have wait: "wait_for_r sh1 = Some (sh1\<lparr>arriving := ?data\<rparr>)"
    using assms(2,3) by (intro wait_for_r_ok [of _ noise]) (simp_all add: sh1_def puts_def)
  have "process_info (process_current_ptr (kern sh1)) (kern sh1) \<noteq> None"
    using assms(1) by (simp add: sh1_def puts_def process_info_def split: if_splits)
  then obtain k1 where k1: "terminal_set_mode 1 (kern sh1) = Some k1" "kfs k1 = kfs (kern sh1)"
      "process_info (process_current_ptr k1) k1 \<noteq> None"
    by (rule terminal_set_mode_ok)
  define sh3 where "sh3 = puts [ASCII_NAK] (sh1\<lparr>arriving := ?data, kern := k1\<rparr>)"
  have "receive_packets 0 sh3 = Some (set_fs f2 (puts (replicate (length ps) ASCII_ACK) (sh3\<lparr>arriving := cs\<rparr>)))"
    using assms(4,6) k1(2) by (intro receive_packets_ok) (simp_all add: sh3_def sh1_def puts_def)
  then have packets: "receive_packets 0 sh3 = Some (sh3\<lparr>arriving := cs, kern := k1\<lparr>kfs := f2\<rparr>,
      printed := printed sh3 @ replicate (length ps) ASCII_ACK\<rparr>)"
    by (simp add: puts_def sh3_def)
  have "process_info (process_current_ptr (k1\<lparr>kfs := f3\<rparr>)) (k1\<lparr>kfs := f3\<rparr>) \<noteq> None"
    using k1(3) by (simp add: process_info_def split: if_splits)
  then obtain k2 where k2: "terminal_set_mode 0 (k1\<lparr>kfs := f3\<rparr>) = Some k2" "kfs k2 = kfs (k1\<lparr>kfs := f3\<rparr>)"
    by (rule terminal_set_mode_ok)
  have "receive_file name sh = Some (0, sh3\<lparr>arriving := cs, kern := k2,
      printed := printed sh3 @ replicate (length ps) ASCII_ACK @ [ASCII_ACK]\<rparr>)"
    using assms(5,7) wait k1(1) packets k2(1)
    by (simp add: receive_file_def with_fs_def with_kernel_def puts_def sh3_def sh1_def load_prompt_def)
  then show thesis
    using that k2(2) by (simp add: sh3_def sh1_def puts_def)
qed

text \<open>C12. LOAD stores what it receives. After the user has pressed r, the 128-byte payloads of the packets
  up to the end of transmission become the contents of a new file: opening the file and reading it gives them, in
  order. Every packet is acknowledged, whatever its number and its checksum; what arrives after the end is left
  for the next command; the contents of every other file whose clusters, all in use, lie in 2..255 stay as they
  were. The new file needs a free directory slot and free clusters in that range. This goes through the system calls of
  \<open>command_load\<close> down to the sectors of the disk.\<close>

theorem command_load_stores:
  assumes "argc sh = 1" "arg sh 0 = Some name" "12 \<le> length name" "valid_name (canon name)"
    and "process_info (process_current_ptr (kern sh)) (kern sh) \<noteq> None"
    and "fat_ok (kfs (kern sh))" "fd_ready (kfs (kern sh))"
    and "dir_scan (canon name) (dir_slots (kfs (kern sh))) = Missing" "first_idx slot_free (dir_slots (kfs (kern sh))) = Some k"
    and "arriving sh = noise @ of_char (CHR ''r'') # concat (map packet_bytes ps) @ ASCII_EOT # cs"
    and "of_char (CHR ''r'') \<notin> set noise" "\<forall>p \<in> set ps. packet_ok p"
    and "128 * length ps < 512 * (spc (kfs (kern sh)) * card (free_set (kfs (kern sh))))"
    and "0x6000 \<le> ptr" "n < 2 ^ 16"
  shows "\<exists>sh' f1 f2. command_load sh = Some (0, sh') \<and> arriving sh' = cs
    \<and> printed sh' = printed sh @ load_prompt @ [ASCII_NAK] @ replicate (length ps) ASCII_ACK @ [ASCII_ACK]
    \<and> file_open name FMODE_READ (kfs (kern sh')) = Some (0, f1)
    \<and> file_read ptr (of_nat n) 0 f1 = Some (take n (concat (map payload ps)), f2)
    \<and> (\<forall>es. (\<forall>c \<in> set es. alloc_range c \<and> fat_at (kfs (kern sh)) c \<noteq> CLUSTER_FREE)
         \<longrightarrow> file_data (kfs (kern sh')) es = file_data (kfs (kern sh)) es)"
proof -
  let ?s = "kfs (kern sh)" and ?blocks = "map payload ps"
  have ok: "length (payload p) = 128" if "p \<in> set ps" for p using that assms(12) by (simp add: packet_ok_def)
  then have blocks: "\<forall>b \<in> set ?blocks. length b < 2 ^ 16" by auto
  have "length (concat ?blocks) = 128 * length ps" using ok by (induction ps) simp_all
  then have room: "length (concat ?blocks) < 512 * (spc ?s * card (free_set ?s))" using assms(13) by simp
  obtain s1 s2 s3 e cl where s3: "file_open name FMODE_WRITE ?s = Some (0, s1)" "write_all ?blocks s1 = Some s2"
    "file_close 0 s2 = Some s3" "fat_ok s3" "fd_ready s3" "spc s3 = spc ?s"
    "dir_slots s3 = (dir_slots ?s)[k := entry_bytes e]" "entry_wf e" "unat (de_size e) = length (concat ?blocks)"
    "dir_scan (canon name) (dir_slots s3) = Found k" "is_chain (fat_at s3) (starting_cluster e) cl"
    "take (length (concat ?blocks)) (file_data s3 cl) = concat ?blocks" "length (concat ?blocks) \<le> 512 * (spc ?s * length cl)"
    "\<forall>es. (\<forall>d \<in> set es. alloc_range d \<and> fat_at ?s d \<noteq> CLUSTER_FREE) \<longrightarrow> file_data s3 es = file_data ?s es"
    by (rule store_file [OF assms(6,7,3,4,8,9) blocks room])
  have k: "k < length (dir_slots ?s)" using first_idxD [OF assms(9)] by simp
  have slot: "dir_slots s3 ! k = entry_bytes e" unfolding s3(7) by (rule nth_list_update_eq [OF k])
  have fits: "length (concat ?blocks) \<le> 512 * (spc s3 * length cl)" using s3(6,13) by simp
  obtain s4 s5 where s5: "file_open name FMODE_READ s3 = Some (0, s4)" "file_read ptr (of_nat n) 0 s4 = Some (take n (concat ?blocks), s5)"
    by (rule stored_file_reads [OF s3(4,5) assms(3) s3(10) slot s3(8,9,11,12) fits assms(14,15)])
  obtain sh' where sh': "receive_file name sh = Some (0, sh')" "kfs (kern sh') = s3" "arriving sh' = cs"
    "printed sh' = printed sh @ load_prompt @ [ASCII_NAK] @ replicate (length ps) ASCII_ACK @ [ASCII_ACK]"
    by (rule receive_file_ok [OF assms(5,10,11,12) s3(1,2,3)])
  have "command_load sh = Some (0, sh')" using assms(1,2) sh'(1) by (simp add: command_load_def)
  with sh'(2-4) s5 s3(14) show ?thesis by blast
qed

definition demo_packet :: packet where
  "demo_packet = \<lparr>header = 1, number = (1, 0xfe), payload = replicate 128 0x41, checksum = 0\<rparr>"

lemma command_load_stores_witness:
  "\<exists>sh sh' f1 f2. arriving sh = of_char (CHR ''r'') # packet_bytes demo_packet @ [ASCII_EOT]
    \<and> command_load sh = Some (0, sh') \<and> file_open hello_arg FMODE_READ (kfs (kern sh')) = Some (0, f1)
    \<and> file_read 0x8000 (of_nat 128) 0 f1 = Some (replicate 128 0x41, f2)"
proof -
  define sh where "sh = (demo_shell (flat_fs 0))\<lparr>input := hello_arg, argv := [Some 0], argc := 1,
    arriving := of_char (CHR ''r'') # packet_bytes demo_packet @ [ASCII_EOT]\<rparr>"
  have fs: "kfs (kern sh) = flat_fs 0" by (simp add: sh_def)
  have "process_info (process_current_ptr (kern sh)) (kern sh) \<noteq> None"
    by (simp add: sh_def demo_shell_def shell_kernel_def process_info_def)
  moreover have "arg sh 0 = Some hello_arg" "argc sh = 1"
    using hello_arg(2) by (auto simp: sh_def arg_def rd_def)
  moreover have "valid_name (canon hello_arg)"
    unfolding hello_arg valid_name_def
    by (intro exI [of _ "[0x48, 0x45, 0x4c, 0x4c, 0x4f]"] exI [of _ "[0x43]"]) (simp add: hello_name_def cstr_def)
  moreover have "dir_scan (canon hello_arg) (dir_slots (flat_fs 0)) = Missing" by (simp add: blank_dir)
  moreover have "arriving sh = [] @ of_char (CHR ''r'') # concat (map packet_bytes [demo_packet]) @ ASCII_EOT # []"
    by (simp add: sh_def)
  moreover have "\<forall>p \<in> set [demo_packet]. packet_ok p" by (simp add: packet_ok_def demo_packet_def)
  moreover have "128 * length [demo_packet] < 512 * (spc (flat_fs 0) * card (free_set (flat_fs 0)))"
    unfolding blank_free_set by (simp add: spc_def flat_fs_def)
  moreover have "take 128 (concat (map payload [demo_packet])) = replicate 128 0x41" by (simp add: demo_packet_def)
  ultimately obtain sh' f1 f2 where "command_load sh = Some (0, sh')"
      "file_open hello_arg FMODE_READ (kfs (kern sh')) = Some (0, f1)"
      "file_read 0x8000 (of_nat 128) 0 f1 = Some (replicate 128 0x41, f2)"
    using command_load_stores [of sh hello_arg 0 "[]" "[demo_packet]" "[]" "0x8000" 128]
      hello_arg(2) flat_fs_ok flat_fs_ready blank_dir(2) unfolding fs by auto
  moreover have "arriving sh = of_char (CHR ''r'') # packet_bytes demo_packet @ [ASCII_EOT]" by (simp add: sh_def)
  ultimately show ?thesis by blast
qed

end
