(* ===== verification/Monitor.thy ===== *)
theory Monitor
  imports C_Prelude
begin

unbundle bit_operations_syntax

text \<open>
  The debugger of \<open>src/builtin/monitor/main.c\<close>. It reads and writes the memory of the machine, so the whole address space
  is one map \<open>memory\<close>, in which also its buffer \<open>input\<close> and the array behind \<open>cmd_argv\<close> lie; pointers are 16-bit
  addresses and \<open>NULL\<close> is 0. Its other globals are fields of the record. \<open>strtok\<close>, \<open>strcmp\<close> and \<open>gets\<close> are
  modelled by what C says of them; the three system calls are parameters, because they run other programs.
\<close>

type_synonym addr_space = "u16 \<Rightarrow> u8"

record monitor =
  memory :: addr_space
  input_at :: u16
  mon_cmd :: u16
  cmd_argv :: u16
  cmd_argc :: u16
  in_breakpoint :: bool
  old_byte :: u8
  breakpoints_set :: u8
  typed :: "bytes list"
  shown :: bytes

record monitor_calls =
  sighandle :: "monitor \<Rightarrow> monitor"
  mon_pload :: "u16 \<Rightarrow> monitor \<Rightarrow> monitor option"
  mon_pexec :: "u16 \<Rightarrow> monitor \<Rightarrow> (u16 \<times> monitor) option"

definition show_bytes :: "bytes \<Rightarrow> monitor \<Rightarrow> monitor" where
  "show_bytes b s = s\<lparr>shown := shown s @ b\<rparr>"

section \<open>Memory\<close>

definition mem_load16 :: "addr_space \<Rightarrow> u16 \<Rightarrow> u16" where
  "mem_load16 m p = push_bit 8 (ucast (m (p + 1))) OR ucast (m p)"

definition mem_store16 :: "u16 \<Rightarrow> u16 \<Rightarrow> addr_space \<Rightarrow> addr_space" where
  "mem_store16 p v m = m(p := ucast v, p + 1 := ucast (drop_bit 8 v))"

fun mem_store_bytes :: "u16 \<Rightarrow> bytes \<Rightarrow> addr_space \<Rightarrow> addr_space" where
  "mem_store_bytes p [] m = m"
| "mem_store_bytes p (b # bs) m = mem_store_bytes (p + 1) bs (m(p := b))"

text \<open>The first address from \<open>p\<close> on whose byte is not \<open>P\<close>, and the string at \<open>p\<close>.\<close>

partial_function (option) span_from :: "(u8 \<Rightarrow> bool) \<Rightarrow> addr_space \<Rightarrow> u16 \<Rightarrow> u16 option" where
  "span_from P m p = (if P (m p) then span_from P m (p + 1) else Some p)"

partial_function (option) mem_string :: "addr_space \<Rightarrow> u16 \<Rightarrow> bytes option" where
  "mem_string m p = (if m p = 0 then Some [] else do { s \<leftarrow> mem_string m (p + 1); Some (m p # s) })"

text \<open>\<open>strcmp(s, p) == 0\<close> for a constant \<open>s\<close>.\<close>

fun str_is :: "addr_space \<Rightarrow> bytes \<Rightarrow> u16 \<Rightarrow> bool" where
  "str_is m [] p \<longleftrightarrow> m p = 0"
| "str_is m (c # cs) p \<longleftrightarrow> m p = c \<and> str_is m cs (p + 1)"

text \<open>\<open>strtok\<close> with the separator " ": the token or \<open>NULL\<close>, where the next call goes on, and the memory.\<close>

definition strtok_mem :: "u16 \<Rightarrow> addr_space \<Rightarrow> (u16 \<times> u16 \<times> addr_space) option" where
  "strtok_mem p m = do {
     b \<leftarrow> span_from (\<lambda>c. c = 0x20) m p;
     if m b = 0 then Some (0, b, m)
     else do {
       e \<leftarrow> span_from (\<lambda>c. c \<noteq> 0x20 \<and> c \<noteq> 0) m b;
       Some (if m e = 0 then (b, e, m) else (b, e + 1, m(e := 0)))
     }
   }"

section \<open>Intel HEX\<close>

definition get_nybble_from_char :: "u8 \<Rightarrow> u8" where
  "get_nybble_from_char c =
     (if c < 0x30 then 0xff
      else if c \<le> 0x39 then c - 0x30
      else if c < 0x41 then 0xff
      else if c \<le> 0x46 then c - 0x41 + 10
      else if c < 0x61 then 0xff
      else if c \<le> 0x66 then c - 0x61 + 10
      else 0xff)"

definition get_byte :: "addr_space \<Rightarrow> u16 \<Rightarrow> u8" where
  "get_byte m str = push_bit 4 (get_nybble_from_char (m str)) OR get_nybble_from_char (m (str + 1))"

text \<open>The loop over \<open>n\<close> data bytes: it stores a byte before it reads the next one.\<close>

fun store_record :: "nat \<Rightarrow> u16 \<Rightarrow> u16 \<Rightarrow> addr_space \<Rightarrow> addr_space" where
  "store_record 0 rec address m = m"
| "store_record (Suc n) rec address m = store_record n (rec + 2) (address + 1) (m(address := get_byte m rec))"

definition process_ihex_record :: "u16 \<Rightarrow> monitor \<Rightarrow> monitor" where
  "process_ihex_record rec s =
     (let m = memory s;
          data_count = get_byte m (rec + 1);
          address_higher = ucast (get_byte m (rec + 3)) :: u16;
          address_lower = ucast (get_byte m (rec + 5)) :: u16;
          address = push_bit 8 address_higher OR address_lower;
          record_type = get_byte m (rec + 7) in
      if record_type = 0 then s\<lparr>memory := store_record (unat data_count) (rec + 9) address m\<rparr> else s)"

section \<open>Reading a command\<close>

text \<open>\<open>gets(input)\<close>; a line of 100 bytes or more would overrun the buffer.\<close>

definition get_line :: "monitor \<Rightarrow> monitor option" where
  "get_line s =
     (case typed s of
        [] \<Rightarrow> None
      | line # ls \<Rightarrow>
          if length line < 100 then Some (s\<lparr>typed := ls, memory := mem_store_bytes (input_at s) (line @ [0]) (memory s)\<rparr>)
          else None)"

partial_function (option) monitor_parse_args :: "u16 \<Rightarrow> monitor \<Rightarrow> monitor option" where
  "monitor_parse_args p s = do {
     (a, p', m) \<leftarrow> strtok_mem p (memory s);
     if a = 0 then Some (s\<lparr>memory := m\<rparr>)
     else monitor_parse_args p' (s\<lparr>memory := mem_store16 (cmd_argv s + 2 * cmd_argc s) a m, cmd_argc := cmd_argc s + 1\<rparr>)
   }"

definition monitor_parse :: "monitor \<Rightarrow> monitor option" where
  "monitor_parse s = do {
     (c, p, m) \<leftarrow> strtok_mem (input_at s) (memory s);
     let s1 = s\<lparr>mon_cmd := c, memory := m\<rparr>;
     if c = 0 then Some s1 else monitor_parse_args p (s1\<lparr>cmd_argc := 0\<rparr>) }"

section \<open>The commands\<close>

definition INST_BREAK :: u8 where "INST_BREAK = 0xef"
definition BREAKPOINTS_MAX :: u8 where "BREAKPOINTS_MAX = 1"

definition set_breakpoint :: "u16 \<Rightarrow> monitor \<Rightarrow> monitor" where
  "set_breakpoint address s =
     show_bytes (ascii ''Breakpoint set at $'' @ padded 0x30 4 (hexadecimal (unat address)) @ [10, 13])
       (s\<lparr>old_byte := memory s address, memory := (memory s)(address := INST_BREAK),
          breakpoints_set := breakpoints_set s + 1\<rparr>)"

abbreviation (input) last_load_address :: u16 where "last_load_address \<equiv> 0x8000"

definition monitor_run :: "monitor_calls \<Rightarrow> monitor \<Rightarrow> monitor option" where
  "monitor_run calls s =
     (if in_breakpoint s
      then Some (show_bytes (ascii ''Cannot run program while in breakpoint.'' @ [13, 10]) s)
      else do {
        let s1 = show_bytes (ascii ''Executing at address $'' @ hexadecimal (unat last_load_address) @ ascii ''...'' @ [13, 10])
            (set_breakpoint last_load_address s);
        (ret, s2) \<leftarrow> mon_pexec calls last_load_address s1;
        Some (show_bytes (ascii ''Program returned $'' @ hexadecimal (unat ret) @ ascii ''.'' @ [13, 10]) s2)
      })"

definition monitor_load :: "monitor_calls \<Rightarrow> monitor \<Rightarrow> monitor option" where
  "monitor_load calls s =
     (if in_breakpoint s
      then Some (show_bytes (ascii ''Cannot load program while in breakpoint.'' @ [13, 10]) s)
      else do {
        name \<leftarrow> mem_string (memory s) (mem_load16 (memory s) (cmd_argv s));
        s1 \<leftarrow> mon_pload calls (mem_load16 (memory s) (cmd_argv s)) (show_bytes (ascii ''Loading '' @ name @ ascii ''...'' @ [13, 10]) s);
        Some (show_bytes (ascii ''Loaded at address $'' @ hexadecimal (unat last_load_address) @ ascii ''.'' @ [13, 10]) s1)
      })"

definition monitor_break :: "monitor \<Rightarrow> monitor" where
  "monitor_break s =
     (if breakpoints_set s = BREAKPOINTS_MAX
      then show_bytes (ascii ''Too many breakpoints set.'' @ [13, 10]) s
      else
        let break_address_string = mem_load16 (memory s) (cmd_argv s);
            break_address_upper = ucast (get_byte (memory s) break_address_string) :: u16;
            break_address_lower = ucast (get_byte (memory s) (break_address_string + 2)) :: u16
        in set_breakpoint (push_bit 8 break_address_upper OR break_address_lower) s)"

text \<open>One turn of the loop of \<open>process_commands\<close>; the flag says that it returns.\<close>

definition monitor_command :: "monitor_calls \<Rightarrow> monitor \<Rightarrow> (bool \<times> monitor) option" where
  "monitor_command calls s =
     (let is = (\<lambda>name. str_is (memory s) name (mon_cmd s)) in
      if is (ascii ''run'') then map_option (Pair False) (monitor_run calls s)
      else if is (ascii ''load'') then map_option (Pair False) (monitor_load calls s)
      else if is (ascii ''continue'')
      then (if in_breakpoint s then Some (True, s)
            else Some (False, show_bytes (ascii ''Can only continue when in breakpoint.'' @ [13, 10]) s))
      else if is (ascii ''break'') then Some (False, monitor_break s)
      else Some (False, s))"

definition monitor_line :: "monitor_calls \<Rightarrow> monitor \<Rightarrow> (bool \<times> monitor) option" where
  "monitor_line calls s = do {
     s1 \<leftarrow> get_line (show_bytes (ascii ''> '') s);
     if memory s1 (input_at s1) = of_char (CHR '':'') then Some (False, process_ihex_record (input_at s1) s1)
     else do { s2 \<leftarrow> monitor_parse s1; monitor_command calls s2 } }"

partial_function (option) process_commands :: "monitor_calls \<Rightarrow> monitor \<Rightarrow> monitor option" where
  "process_commands calls s = do {
     (returns, s1) \<leftarrow> monitor_line calls s;
     if returns then Some s1 else process_commands calls s1 }"

section \<open>The signal handler and main\<close>

record SIGARG_DEBUG_T =
  break_address :: u16
  reg_f :: u8
  reg_a :: u8
  reg_c :: u8
  reg_b :: u8
  reg_e :: u8
  reg_d :: u8
  reg_l :: u8
  reg_h :: u8
  reg_ix :: u16
  reg_iy :: u16

definition sigarg_at :: "addr_space \<Rightarrow> u16 \<Rightarrow> SIGARG_DEBUG_T" where
  "sigarg_at m p =
     \<lparr>break_address = mem_load16 m p, reg_f = m (p + 2), reg_a = m (p + 3), reg_c = m (p + 4), reg_b = m (p + 5),
      reg_e = m (p + 6), reg_d = m (p + 7), reg_l = m (p + 8), reg_h = m (p + 9),
      reg_ix = mem_load16 m (p + 10), reg_iy = mem_load16 m (p + 12)\<rparr>"

abbreviation (input) hex2 :: "u8 \<Rightarrow> bytes" where "hex2 v \<equiv> padded 0x30 2 (hexadecimal (unat v))"
abbreviation (input) hex4 :: "u16 \<Rightarrow> bytes" where "hex4 v \<equiv> padded 0x30 4 (hexadecimal (unat v))"

definition show_registers :: "SIGARG_DEBUG_T \<Rightarrow> bytes" where
  "show_registers d =
     ascii ''BREAK at $'' @ hex4 (break_address d) @ [10, 13, 10, 13]
     @ ascii ''Registers:'' @ [10, 13]
     @ ascii ''A: '' @ hex2 (reg_a d) @ ascii '' F: '' @ hex2 (reg_f d) @ [10, 13, 10, 13]
     @ ascii ''B: '' @ hex2 (reg_b d) @ ascii '' C: '' @ hex2 (reg_c d) @ [10, 13]
     @ ascii ''D: '' @ hex2 (reg_d d) @ ascii '' E: '' @ hex2 (reg_e d) @ [10, 13]
     @ ascii ''H: '' @ hex2 (reg_h d) @ ascii '' L: '' @ hex2 (reg_l d) @ [10, 13, 10, 13]
     @ ascii ''IX: '' @ hex4 (reg_ix d) @ [10, 13]
     @ ascii ''IY: '' @ hex4 (reg_iy d) @ [10, 13, 10, 13]"

definition debug_break :: "monitor_calls \<Rightarrow> u16 \<Rightarrow> monitor \<Rightarrow> monitor option" where
  "debug_break calls a s =
     (let m = (memory s)(break_address (sigarg_at (memory s) a) := old_byte s);
          s1 = s\<lparr>in_breakpoint := True, memory := m, breakpoints_set := breakpoints_set s - 1\<rparr>;
          s2 = show_bytes (show_registers (sigarg_at m a)) s1
      in map_option (\<lambda>s3. s3\<lparr>in_breakpoint := False\<rparr>) (process_commands calls s2))"

definition monitor_main :: "monitor_calls \<Rightarrow> monitor \<Rightarrow> (int \<times> monitor) option" where
  "monitor_main calls s =
     (let s1 = (sighandle calls s)\<lparr>in_breakpoint := False, breakpoints_set := 0\<rparr>
      in map_option (Pair 0) (process_commands calls (show_bytes (ascii ''Z80 Debugger/Monitor.'' @ [10, 13]) s1)))"

end
