(* ===== verification/Monitor_Claims.thy ===== *)
theory Monitor_Claims
  imports Monitor
begin

text \<open>
  The debugger loads what an Intel HEX file says, and a breakpoint leaves the memory as it was once it has been
  reached and the program goes on.
\<close>

section \<open>Addresses\<close>

text \<open>\<open>x\<close> is one of the \<open>n\<close> bytes from \<open>p\<close>, which may go past 0xffff.\<close>

definition within :: "u16 \<Rightarrow> nat \<Rightarrow> u16 \<Rightarrow> bool" where
  "within p n x \<longleftrightarrow> unat (x - p) < n"

lemma unat_sub_Suc: "x \<noteq> p \<Longrightarrow> unat (x - p) = Suc (unat (x - (p + 1 :: u16)))"
proof -
  assume "x \<noteq> p"
  then have ne: "x - p \<noteq> 0" by simp
  have "unat (x - p - 1) = unat (x - p) - 1" using ne by (rule unat_minus_one)
  moreover have "0 < unat (x - p)" using ne unat_gt_0 [of "x - p"] by blast
  moreover have "x - (p + 1) = x - p - 1" by simp
  ultimately show ?thesis by (simp only:)
qed

lemma unat_minus_one_u16: "unat (- 1 :: u16) = 65535"
  by (simp add: unsigned_minus_1_eq_mask mask_eq_exp_minus_1)

lemma within_Suc: "within p (Suc n) x \<longleftrightarrow> x = p \<or> within (p + 1) n x" if "n < 2 ^ 16"
proof (cases "x = p")
  case False
  then show ?thesis using unat_sub_Suc [of x p] by (simp add: within_def)
qed (simp add: within_def)

lemma not_within_Suc: "\<not> within p (Suc n) x \<Longrightarrow> x \<noteq> p \<and> \<not> within (p + 1) n x"
  using unat_sub_Suc [of x p] by (cases "x = p") (simp_all add: within_def)

lemma within_offset: "i < n \<Longrightarrow> n \<le> 2 ^ 16 \<Longrightarrow> within p n (p + of_nat i)"
  by (simp add: within_def unat_of_nat)

lemma within_shift:
  assumes "within (p + of_nat k) n x" "k + n \<le> l" "l \<le> 2 ^ 16"
  shows "within p l x"
proof -
  have n: "unat (x - (p + of_nat k)) < n" using assms(1) by (simp add: within_def)
  have k: "unat (of_nat k :: u16) = k" using n assms(2,3) by (simp add: unat_of_nat)
  have "unat (x - (p + of_nat k) + of_nat k) = unat (x - (p + of_nat k)) + k"
    using n k assms(2,3) by (subst unat_add_lt) simp_all
  moreover have "x - p = x - (p + of_nat k) + of_nat k" by simp
  ultimately show ?thesis using n assms(2) by (simp only: within_def)
qed

lemma mem_store_bytes_nth:
  "length bs \<le> 2 ^ 16 \<Longrightarrow> mem_store_bytes p bs m x = (if within p (length bs) x then bs ! unat (x - p) else m x)"
proof (induction bs arbitrary: p m)
  case (Cons b bs)
  show ?case
  proof (cases "x = p")
    case True
    with Cons show ?thesis by (simp add: within_def unat_minus_one_u16)
  next
    case False
    with Cons unat_sub_Suc [OF False] show ?thesis by (simp add: within_def)
  qed
qed (simp add: within_def)

lemma mem_store_bytes_append: "mem_store_bytes p (xs @ ys) m = mem_store_bytes (p + of_nat (length xs)) ys (mem_store_bytes p xs m)"
  by (induction xs arbitrary: p m) (simp_all add: add.assoc add.commute)

section \<open>Strings in memory\<close>

text \<open>The bytes \<open>bs\<close> are in memory from \<open>p\<close> on.\<close>

fun holds_at :: "addr_space \<Rightarrow> u16 \<Rightarrow> bytes \<Rightarrow> bool" where
  "holds_at m p [] \<longleftrightarrow> True"
| "holds_at m p (b # bs) \<longleftrightarrow> m p = b \<and> holds_at m (p + 1) bs"

lemma holds_at_append: "holds_at m p (xs @ ys) \<longleftrightarrow> holds_at m p xs \<and> holds_at m (p + of_nat (length xs)) ys"
  by (induction xs arbitrary: p) (auto simp: add.assoc add.commute)

lemma holds_at_cong: "(\<And>x. within p (length bs) x \<Longrightarrow> m' x = m x) \<Longrightarrow> length bs \<le> 2 ^ 16 \<Longrightarrow> holds_at m' p bs = holds_at m p bs"
proof (induction bs arbitrary: p)
  case (Cons b bs)
  have "within p (length (b # bs)) p" by (simp add: within_def)
  moreover have "within p (length (b # bs)) x" if "within (p + 1) (length bs) x" for x
    using that Cons.prems(2) within_Suc [of "length bs" p x] by simp
  ultimately show ?case using Cons by simp
qed simp

lemma holds_at_stored: "length bs \<le> 2 ^ 16 \<Longrightarrow> holds_at (mem_store_bytes p bs m) p bs"
proof (induction bs arbitrary: p m)
  case (Cons b bs)
  have "mem_store_bytes (p + 1) bs (m(p := b)) p = b"
    using Cons.prems by (subst mem_store_bytes_nth) (simp_all add: within_def unat_minus_one_u16)
  with Cons show ?case by simp
qed simp

lemma span_word:
  "holds_at m p (w @ [c]) \<Longrightarrow> \<forall>x \<in> set w. P x \<Longrightarrow> \<not> P c \<Longrightarrow> span_from P m p = Some (p + of_nat (length w))"
proof (induction w arbitrary: p)
  case Nil
  then show ?case by (subst span_from.simps) simp
next
  case (Cons x w)
  then have "span_from P m p = span_from P m (p + 1)" by (subst span_from.simps) simp
  with Cons show ?case by (simp add: add.assoc add.commute)
qed

lemma strtok_mem_end: "m p = 0 \<Longrightarrow> strtok_mem p m = Some (0, p, m)"
  using span_word [of m p "[]" 0 "\<lambda>c. c = 0x20"] by (simp add: strtok_mem_def)

lemma strtok_mem_word:
  assumes "holds_at m p (w @ [c])" "w \<noteq> []" "\<forall>x \<in> set w. x \<noteq> 0x20 \<and> x \<noteq> 0" "c = 0 \<or> c = 0x20"
  shows "strtok_mem p m = Some (if c = 0 then (p, p + of_nat (length w), m)
    else (p, p + of_nat (length w) + 1, m(p + of_nat (length w) := 0)))"
proof -
  obtain x w' where w: "w = x # w'" using assms(2) by (cases w) auto
  then have x: "m p = x" "x \<noteq> 0x20" "x \<noteq> 0" using assms(1,3) by simp_all
  then have "span_from (\<lambda>c. c = 0x20) m p = Some p" by (subst span_from.simps) simp
  moreover have "span_from (\<lambda>c. c \<noteq> 0x20 \<and> c \<noteq> 0) m p = Some (p + of_nat (length w))"
    using assms(1,3,4) by (intro span_word) auto
  moreover have "m (p + of_nat (length w)) = c" using assms(1) by (simp add: holds_at_append)
  ultimately show ?thesis using x by (simp add: strtok_mem_def)
qed

lemma str_is_stored: "0 \<notin> set w \<Longrightarrow> 0 \<notin> set name \<Longrightarrow> holds_at m p (w @ [0]) \<Longrightarrow> str_is m name p \<longleftrightarrow> name = w"
proof (induction name arbitrary: w p)
  case Nil
  then show ?case by (cases w) auto
next
  case (Cons c name)
  then show ?case by (cases w) auto
qed

lemma mem_load16_store16 [simp]: "mem_load16 (mem_store16 p v m) p = v"
proof -
  have "p \<noteq> p + 1" by simp
  then have "mem_load16 (mem_store16 p v m) p = push_bit 8 (ucast (ucast (drop_bit 8 v) :: u8)) OR ucast (ucast v :: u8)"
    by (simp add: mem_load16_def mem_store16_def)
  also have "\<dots> = v"
    by (rule bit_word_eqI) (auto simp: bit_simps)
  finally show ?thesis .
qed

lemma mem_store16_other: "x \<noteq> p \<Longrightarrow> x \<noteq> p + 1 \<Longrightarrow> mem_store16 p v m x = m x"
  by (simp add: mem_store16_def)

section \<open>Hexadecimal digits\<close>

definition hex_digit :: "u8 \<Rightarrow> u8" where
  "hex_digit d = (if d < 10 then 0x30 + d else 0x37 + d)"

definition hex_byte :: "u8 \<Rightarrow> bytes" where
  "hex_byte b = [hex_digit (drop_bit 4 b), hex_digit (b AND 15)]"

lemma nybble_hex_digit: "d < 16 \<Longrightarrow> get_nybble_from_char (hex_digit d) = d"
proof -
  assume "d < 16"
  then have "unat d < 16" by (simp add: word_less_nat_alt)
  moreover have "\<forall>n \<in> set [0..<16]. get_nybble_from_char (hex_digit (of_nat n)) = of_nat n"
    by code_simp
  ultimately have "get_nybble_from_char (hex_digit (of_nat (unat d))) = of_nat (unat d)" by (auto dest: bspec [of _ _ "unat d"])
  then show ?thesis by simp
qed

lemma get_byte_hex: "holds_at m p (hex_byte b) \<Longrightarrow> get_byte m p = b"
proof -
  assume h: "holds_at m p (hex_byte b)"
  have "unat b < 2 ^ LENGTH(8)" by (rule unsigned_less)
  then have "drop_bit 4 b < 16" by (simp add: word_less_nat_alt unat_drop_bit_eq drop_bit_eq_div unat_div)
  moreover have "b AND 15 < 16" by (rule le_less_trans [OF word_and_le1]) simp
  ultimately have "get_byte m p = push_bit 4 (drop_bit 4 b) OR (b AND 15)"
    using h by (simp add: get_byte_def hex_byte_def nybble_hex_digit)
  also have "15 = (mask 4 :: u8)" by (simp add: mask_eq_exp_minus_1)
  also have "push_bit 4 (drop_bit 4 b) OR (b AND mask 4) = b" by (rule bit_word_eqI) (auto simp: bit_simps)
  finally show ?thesis .
qed

lemma length_hex_byte [simp]: "length (hex_byte b) = 2"
  by (simp add: hex_byte_def)

section \<open>Lines\<close>

text \<open>The memory after \<open>gets\<close> of a line.\<close>

definition line_in :: "bytes \<Rightarrow> monitor \<Rightarrow> addr_space" where
  "line_in line s = mem_store_bytes (input_at s) (line @ [0]) (memory s)"

abbreviation in_input :: "monitor \<Rightarrow> u16 \<Rightarrow> bool" where
  "in_input s \<equiv> within (input_at s) 100"

lemma within_mono: "within p n x \<Longrightarrow> n \<le> k \<Longrightarrow> within p k x"
  by (simp add: within_def)

lemma line_in_other: "length line < 100 \<Longrightarrow> \<not> in_input s x \<Longrightarrow> line_in line s x = memory s x"
  using within_mono [of "input_at s" "length line + 1" x 100] by (auto simp: line_in_def mem_store_bytes_nth)

lemma line_in_holds: "length line < 100 \<Longrightarrow> holds_at (line_in line s) (input_at s) (line @ [0])"
  unfolding line_in_def by (rule holds_at_stored) simp

lemma get_line_ok:
  "typed s = line # ls \<Longrightarrow> length line < 100 \<Longrightarrow> get_line s = Some (s\<lparr>typed := ls, memory := line_in line s\<rparr>)"
  by (simp add: get_line_def line_in_def)

section \<open>Records\<close>

text \<open>The text of a record with address, type, data and checksum.\<close>

type_synonym hex_record = "u16 \<times> u8 \<times> bytes \<times> u8"

fun hex_line :: "hex_record \<Rightarrow> bytes" where
  "hex_line (a, t, d, c) = of_char (CHR '':'') # hex_byte (of_nat (length d)) @ hex_byte (ucast (drop_bit 8 a)) @ hex_byte (ucast a)
     @ hex_byte t @ concat (map hex_byte d) @ hex_byte c"

fun stored_record :: "hex_record \<Rightarrow> addr_space \<Rightarrow> addr_space" where
  "stored_record (a, t, d, c) m = (if t = 0 then mem_store_bytes a d m else m)"

text \<open>A record fits into the buffer and its data do not go there.\<close>

fun record_fits :: "monitor \<Rightarrow> hex_record \<Rightarrow> bool" where
  "record_fits s (a, t, d, c) \<longleftrightarrow> length d \<le> 44 \<and> (\<forall>x. in_input s x \<longrightarrow> \<not> within a (length d) x)"

lemma length_hex_data [simp]: "length (concat (map hex_byte d)) = 2 * length d"
  by (induction d) simp_all

lemma store_record_holds:
  assumes "holds_at m rec (concat (map hex_byte d))" "\<forall>x. within rec (2 * length d) x \<longrightarrow> \<not> within a (length d) x" "length d \<le> 44"
  shows "store_record (length d) rec a m = mem_store_bytes a d m"
  using assms
proof (induction d arbitrary: rec a m)
  case (Cons b d)
  have h: "holds_at m rec (hex_byte b)" "holds_at m (rec + 2) (concat (map hex_byte d))"
    using Cons.prems(1) by (simp_all add: holds_at_append)
  have sub: "within rec (2 * length (b # d)) x" if "within (rec + 2) (2 * length d) x" for x
    using that Cons.prems(3) within_Suc [of "Suc (2 * length d)" rec x] within_Suc [of "2 * length d" "rec + 1" x]
    by (simp add: add.assoc)
  have apart: "x \<noteq> a \<and> \<not> within (a + 1) (length d) x" if "within (rec + 2) (2 * length d) x" for x
    using Cons.prems(2) sub [OF that] not_within_Suc [of a "length d" x] by simp
  have "holds_at (m(a := b)) (rec + 2) (concat (map hex_byte d))"
    by (rule holds_at_cong [THEN iffD2, OF _ _ h(2)]) (use apart Cons.prems(3) in auto)
  then have "store_record (length d) (rec + 2) (a + 1) (m(a := b)) = mem_store_bytes (a + 1) d (m(a := b))"
    by (rule Cons.IH) (use apart Cons.prems(3) in simp_all)
  then show ?case using get_byte_hex [OF h(1)] by simp
qed simp

lemma process_record:
  assumes "holds_at (memory s) (input_at s) (hex_line r)" "record_fits s r"
  shows "process_ihex_record (input_at s) s = s\<lparr>memory := stored_record r (memory s)\<rparr>"
proof -
  obtain a t d c where r: "r = (a, t, d, c)" by (cases r)
  let ?m = "memory s" and ?p = "input_at s"
  have d: "length d \<le> 44" using assms(2) by (simp add: r)
  have h: "holds_at ?m (?p + 1) (hex_byte (of_nat (length d)))" "holds_at ?m (?p + 3) (hex_byte (ucast (drop_bit 8 a)))"
    "holds_at ?m (?p + 5) (hex_byte (ucast a))" "holds_at ?m (?p + 7) (hex_byte t)" "holds_at ?m (?p + 9) (concat (map hex_byte d))"
    using assms(1) by (simp_all add: r holds_at_append add.assoc)
  have n: "unat (of_nat (length d) :: u8) = length d" using d by (simp add: unat_of_nat)
  have a: "push_bit 8 (ucast (ucast (drop_bit 8 a) :: u8)) OR ucast (ucast a :: u8) = a"
    by (rule bit_word_eqI) (auto simp: bit_simps)
  have "within ?p 100 x" if "within (?p + 9) (2 * length d) x" for x
    using that d by (simp add: within_def) unat_arith
  then have "\<forall>x. within (?p + 9) (2 * length d) x \<longrightarrow> \<not> within a (length d) x" using assms(2) by (auto simp: r)
  then have "store_record (length d) (?p + 9) a ?m = mem_store_bytes a d ?m" using h(5) d by (intro store_record_holds)
  then show ?thesis
    by (simp add: process_ihex_record_def Let_def h(1-4) [THEN get_byte_hex] n a r)
qed

lemma hex_line_facts: "\<exists>cs. hex_line r = of_char (CHR '':'') # cs" "record_fits s r \<Longrightarrow> length (hex_line r) < 100"
  by (cases r; simp)+

lemma monitor_line_record:
  assumes "typed s = hex_line r # ls" "record_fits s r"
  shows "monitor_line calls s = Some (False, show_bytes (ascii ''> '')
    (s\<lparr>typed := ls, memory := stored_record r (line_in (hex_line r) s)\<rparr>))"
proof -
  note len = hex_line_facts(2) [OF assms(2)]
  define s1 where "s1 = (show_bytes (ascii ''> '') s)\<lparr>typed := ls, memory := line_in (hex_line r) s\<rparr>"
  have get: "get_line (show_bytes (ascii ''> '') s) = Some s1"
    using get_line_ok [of "show_bytes (ascii ''> '') s" "hex_line r" ls] assms(1) len
    by (simp add: show_bytes_def line_in_def s1_def)
  have holds: "holds_at (memory s1) (input_at s1) (hex_line r)"
    using line_in_holds [OF len, of s] by (simp add: s1_def show_bytes_def holds_at_append)
  moreover have "record_fits s1 r" using assms(2) by (cases r) (simp add: s1_def show_bytes_def)
  ultimately have "process_ihex_record (input_at s1) s1 = s1\<lparr>memory := stored_record r (memory s1)\<rparr>"
    by (rule process_record)
  moreover have "memory s1 (input_at s1) = of_char (CHR '':'')"
    using holds hex_line_facts(1) [of r] by auto
  ultimately have "monitor_line calls s = Some (False, s1\<lparr>memory := stored_record r (memory s1)\<rparr>)"
    by (simp only: monitor_line_def get Option.bind.bind_lunit refl if_True)
  then show ?thesis by (simp add: s1_def show_bytes_def)
qed

text \<open>Outside of the buffer a record has the same effect whatever was typed before.\<close>

lemma stored_record_cong:
  "m x = m' x \<Longrightarrow> record_fits s r \<Longrightarrow> stored_record r m x = stored_record r m' x"
  by (cases r) (simp add: mem_store_bytes_nth)

lemma fold_records_cong:
  "m x = m' x \<Longrightarrow> \<forall>r \<in> set rs. record_fits s r \<Longrightarrow> fold stored_record rs m x = fold stored_record rs m' x"
proof (induction rs arbitrary: m m')
  case (Cons r rs)
  then have "stored_record r m x = stored_record r m' x" by (intro stored_record_cong [of _ _ _ s]) simp_all
  from Cons.IH [of "stored_record r m" "stored_record r m'", OF this] Cons.prems(2) show ?case by simp
qed simp

text \<open>C15. Loading an Intel HEX file. When the lines of a file are typed, the data of each data record are
  stored at its address, one record after the other, and nothing else changes in memory except the buffer
  of the line; records of other types, among them the end of file, store nothing. The checksums are not
  looked at. The debugger then reads the next line. Every record must fit the line of 100 bytes, which limits it
  to 44 data bytes or less (a comment in \<open>main.c\<close> says that the maximum is 255), and its data must not lie in the buffer.\<close>

theorem hex_file_loads:
  assumes "typed s = map hex_line rs @ ls" "\<forall>r \<in> set rs. record_fits s r"
  shows "\<exists>s'. process_commands calls s = process_commands calls s' \<and> typed s' = ls
    \<and> (\<forall>x. \<not> in_input s x \<longrightarrow> memory s' x = fold stored_record rs (memory s) x)
    \<and> (input_at s' = input_at s \<and> breakpoints_set s' = breakpoints_set s \<and> in_breakpoint s' = in_breakpoint s)"
  using assms
proof (induction rs arbitrary: s)
  case Nil
  then show ?case by (intro exI [of _ s]) simp
next
  case (Cons r rs)
  define s1 where "s1 = show_bytes (ascii ''> '')
      (s\<lparr>typed := map hex_line rs @ ls, memory := stored_record r (line_in (hex_line r) s)\<rparr>)"
  have s1: "input_at s1 = input_at s" "typed s1 = map hex_line rs @ ls" "memory s1 = stored_record r (line_in (hex_line r) s)"
    "breakpoints_set s1 = breakpoints_set s" "in_breakpoint s1 = in_breakpoint s"
    by (simp_all add: s1_def show_bytes_def)
  have r: "record_fits s r" using Cons.prems(2) by simp
  have "record_fits s1 q \<longleftrightarrow> record_fits s q" for q by (cases q) (simp add: s1(1))
  then have fits: "\<forall>q \<in> set rs. record_fits s1 q" using Cons.prems(2) by simp
  have "monitor_line calls s = Some (False, s1)"
    using monitor_line_record [OF _ r, of "map hex_line rs @ ls" calls] Cons.prems(1) by (simp add: s1_def)
  then have step: "process_commands calls s = process_commands calls s1"
    by (subst process_commands.simps) simp
  obtain s' where s': "process_commands calls s1 = process_commands calls s'" "typed s' = ls"
      "\<forall>x. \<not> in_input s1 x \<longrightarrow> memory s' x = fold stored_record rs (memory s1) x"
      "input_at s' = input_at s1" "breakpoints_set s' = breakpoints_set s1" "in_breakpoint s' = in_breakpoint s1"
    using Cons.IH [OF s1(2) fits] by blast
  have "fold stored_record rs (memory s1) x = fold stored_record (r # rs) (memory s) x" if "\<not> in_input s x" for x
  proof -
    have "memory s1 x = stored_record r (memory s) x"
      unfolding s1(3) using line_in_other [OF hex_line_facts(2) [OF r] that] r by (rule stored_record_cong)
    from fold_records_cong [of "memory s1" x "stored_record r (memory s)", OF this fits] show ?thesis by simp
  qed
  then show ?case using step s' s1 by (intro exI [of _ s']) simp
qed

text \<open>Two records, three bytes to 0xa000 and the end of the file, typed to a debugger with its buffer at 0x9000.\<close>

definition demo_monitor :: "bytes list \<Rightarrow> monitor" where
  "demo_monitor ls =
     \<lparr>memory = (\<lambda>_. 0), input_at = 0x9000, mon_cmd = 0, cmd_argv = 0, cmd_argc = 0, in_breakpoint = False, old_byte = 0,
      breakpoints_set = 0, typed = ls, shown = []\<rparr>"

definition demo_calls :: monitor_calls where
  "demo_calls = \<lparr>sighandle = (\<lambda>s. s), mon_pload = (\<lambda>_ s. Some s), mon_pexec = (\<lambda>_ s. Some (0, s))\<rparr>"

lemma hex_file_loads_witness:
  "\<exists>s'. process_commands demo_calls (demo_monitor [ascii '':03A00000010203F7'', ascii '':00000001FF'', ascii ''run'']) = process_commands demo_calls s'
     \<and> memory s' 0xa001 = 2 \<and> typed s' = [ascii ''run'']"
proof -
  let ?rs = "[(0xa000, 0, [1, 2, 3], 0xf7), (0, 1, [], 0xff)] :: hex_record list"
  have lines: "map hex_line ?rs = [ascii '':03A00000010203F7'', ascii '':00000001FF'']"
    by (simp add: hex_byte_def hex_digit_def)
  have outside: "\<not> in_input (demo_monitor ls) 0xa001" for ls by (simp add: demo_monitor_def within_def)
  have "\<not> within 0xa000 3 x" if "in_input (demo_monitor ls) x" for x ls
  proof -
    have "unat (x - 0x9000) < 100" using that by (simp add: demo_monitor_def within_def)
    then have "unat (x - 0x9000 + 0xf000) = unat (x - 0x9000) + 0xf000" by (subst unat_add_lt) simp_all
    moreover have "x - 0xa000 = x - 0x9000 + 0xf000" by simp
    ultimately have n: "unat (x - 0xa000) = unat (x - 0x9000) + 0xf000" by (simp only:)
    show ?thesis unfolding within_def n by simp
  qed
  then have fits: "\<forall>r \<in> set ?rs. record_fits (demo_monitor ls) r" for ls by (force simp: within_def numeral_3_eq_3)
  let ?s = "demo_monitor (map hex_line ?rs @ [ascii ''run''])"
  have "typed ?s = map hex_line ?rs @ [ascii ''run'']" by (simp only: demo_monitor_def monitor.simps)
  from hex_file_loads [OF this fits] obtain s' where s': "process_commands demo_calls ?s = process_commands demo_calls s'"
      "typed s' = [ascii ''run'']" "\<forall>x. \<not> in_input ?s x \<longrightarrow> memory s' x = fold stored_record ?rs (memory ?s) x"
    by blast
  have "memory s' 0xa001 = fold stored_record ?rs (memory ?s) 0xa001" using s'(3) outside by blast
  moreover have "fold stored_record ?rs (memory ?s) 0xa001 = 2" by simp
  ultimately show ?thesis using s'(1,2) unfolding lines append.simps by (intro exI [of _ s']) simp
qed

section \<open>Commands\<close>

text \<open>The buffer of the line does not go past the end of memory, and the pointer to the first argument is not stored in it.\<close>

definition buffers_ok :: "monitor \<Rightarrow> bool" where
  "buffers_ok s \<longleftrightarrow> input_at s \<noteq> 0 \<and> unat (input_at s) + 100 \<le> 2 ^ 16 \<and> \<not> in_input s (cmd_argv s) \<and> \<not> in_input s (cmd_argv s + 1)"

lemma input_nonzero: "buffers_ok s \<Longrightarrow> i < 100 \<Longrightarrow> input_at s + of_nat i \<noteq> 0"
proof
  assume a: "buffers_ok s" "i < 100" "input_at s + of_nat i = 0"
  have "unat (of_nat i :: u16) = i" using a(2) by (simp add: unat_of_nat)
  then have "unat (input_at s + of_nat i) = unat (input_at s) + i"
    using a(1,2) by (subst unat_add_lt) (simp_all add: buffers_ok_def)
  with a(3) have "unat (input_at s) = 0" by simp
  with a(1) show False by (simp add: buffers_ok_def unat_eq_0)
qed

definition plain_word :: "bytes \<Rightarrow> bool" where
  "plain_word w \<longleftrightarrow> w \<noteq> [] \<and> (\<forall>x \<in> set w. x \<noteq> 0x20 \<and> x \<noteq> 0)"

lemma parse_word:
  assumes "holds_at (memory s) (input_at s) (w @ [0])" "plain_word w" "buffers_ok s" "length w < 100"
  shows "monitor_parse s = Some (s\<lparr>mon_cmd := input_at s, cmd_argc := 0\<rparr>)"
proof -
  have "strtok_mem (input_at s) (memory s) = Some (input_at s, input_at s + of_nat (length w), memory s)"
    using strtok_mem_word [OF assms(1)] assms(2) by (simp add: plain_word_def)
  moreover have "memory s (input_at s + of_nat (length w)) = 0" using assms(1) by (simp add: holds_at_append)
  moreover have "input_at s \<noteq> 0" using assms(3) by (simp add: buffers_ok_def)
  ultimately show ?thesis
    by (simp add: monitor_parse_def, subst monitor_parse_args.simps) (simp add: strtok_mem_end)
qed

lemma parse_word_argument:
  assumes "holds_at (memory s) (input_at s) (w @ 0x20 # v @ [0])" "plain_word w" "plain_word v" "buffers_ok s"
    and "length w + length v < 98"
  obtains m where "monitor_parse s = Some (s\<lparr>mon_cmd := input_at s, cmd_argc := 1, memory := m\<rparr>)"
    "holds_at m (input_at s) (w @ [0])" "holds_at m (mem_load16 m (cmd_argv s)) (v @ [0])"
    "\<And>x. \<not> in_input s x \<Longrightarrow> x \<noteq> cmd_argv s \<Longrightarrow> x \<noteq> cmd_argv s + 1 \<Longrightarrow> m x = memory s x"
proof -
  define q where "q = input_at s + of_nat (length w)"
  let ?p = "input_at s" and ?m = "(memory s)(q := 0)"
  define m where "m = mem_store16 (cmd_argv s) (q + 1) ?m"
  have p: "?p \<noteq> 0" using assms(4) by (simp add: buffers_ok_def)
  have q: "q + 1 = ?p + of_nat (length w + 1)" by (simp add: q_def ac_simps)
  have q1: "q + 1 \<noteq> 0" unfolding q by (rule input_nonzero [OF assms(4)]) (use assms(5) in simp)
  have out: "\<not> in_input s (cmd_argv s)" "\<not> in_input s (cmd_argv s + 1)" using assms(4) by (simp_all add: buffers_ok_def)
  have m_in: "m x = ?m x" if "in_input s x" for x
    unfolding m_def using that out by (intro mem_store16_other) auto
  have h: "holds_at (memory s) ?p (w @ [0x20])" "holds_at (memory s) (q + 1) (v @ [0])"
    using assms(1) by (simp_all add: holds_at_append q_def)
  have in_w: "in_input s x" if "within ?p (length w) x" for x using within_mono [OF that] assms(5) by simp
  have in_v: "in_input s x" if "within (q + 1) (length (v @ [0])) x" for x
    by (rule within_shift [OF that [unfolded q]]) (use assms(5) in simp_all)
  have in_q: "in_input s q" unfolding q_def using assms(5) by (intro within_offset) simp_all
  have not_q: "x \<noteq> q" if "within (q + 1) (length (v @ [0])) x" for x
    using that assms(5) by (auto simp: within_def unat_minus_one_u16)
  have not_q': "x \<noteq> q" if "within ?p (length w) x" for x
    using that assms(5) by (auto simp: within_def q_def unat_of_nat)
  have hw: "holds_at m ?p (w @ [0])"
  proof -
    have "holds_at m ?p w"
      by (rule holds_at_cong [THEN iffD2, of _ _ _ "memory s"]) (use h(1) m_in in_w not_q' assms(5) in \<open>auto simp: holds_at_append\<close>)
    then show ?thesis using m_in [OF in_q] by (simp add: holds_at_append q_def)
  qed
  have hv: "holds_at ?m (q + 1) (v @ [0])" "holds_at m (q + 1) (v @ [0])"
    by (rule holds_at_cong [THEN iffD2, OF _ _ h(2)]; use m_in in_v not_q assms(5) in simp)+
  have first: "strtok_mem ?p (memory s) = Some (?p, q + 1, ?m)"
    using strtok_mem_word [OF h(1)] assms(2) by (simp add: plain_word_def q_def)
  have second: "strtok_mem (q + 1) ?m = Some (q + 1, q + 1 + of_nat (length v), ?m)"
    using strtok_mem_word [OF hv(1)] assms(3) by (simp add: plain_word_def)
  let ?e = "q + 1 + of_nat (length v)"
  have third: "strtok_mem ?e m = Some (0, ?e, m)" using hv(2) by (intro strtok_mem_end) (simp add: holds_at_append)
  have "monitor_parse s = Some (s\<lparr>mon_cmd := ?p, cmd_argc := 1, memory := m\<rparr>)"
    using p q1 by (simp add: monitor_parse_def first, subst monitor_parse_args.simps)
      (simp add: second, subst monitor_parse_args.simps, simp add: third flip: m_def)
  moreover have "mem_load16 m (cmd_argv s) = q + 1" by (simp add: m_def)
  moreover have "m x = memory s x" if "\<not> in_input s x" "x \<noteq> cmd_argv s" "x \<noteq> cmd_argv s + 1" for x
    using mem_store16_other [OF that(2,3)] that(1) in_q by (auto simp: m_def)
  ultimately show thesis using that hw hv(2) by metis
qed

text \<open>A turn of the loop on a line that is not a record.\<close>

lemma monitor_line_command:
  assumes "typed s = (c # line) # ls" "length (c # line) < 100" "c \<noteq> of_char (CHR '':'')"
  shows "monitor_line calls s = do {
    s2 \<leftarrow> monitor_parse ((show_bytes (ascii ''> '') s)\<lparr>typed := ls, memory := line_in (c # line) s\<rparr>);
    monitor_command calls s2 }"
proof -
  have "get_line (show_bytes (ascii ''> '') s) = Some ((show_bytes (ascii ''> '') s)\<lparr>typed := ls, memory := line_in (c # line) s\<rparr>)"
    using get_line_ok [of "show_bytes (ascii ''> '') s" "c # line" ls] assms(1,2) by (simp add: show_bytes_def line_in_def)
  moreover have "line_in (c # line) s (input_at s) = c" using line_in_holds [OF assms(2)] by simp
  ultimately show ?thesis using assms(3) by (simp add: monitor_line_def show_bytes_def)
qed

lemma word_commands:
  assumes "holds_at (memory s) (mon_cmd s) (w @ [0])" "0 \<notin> set w"
  shows "monitor_command calls s =
     (if w = ascii ''run'' then map_option (Pair False) (monitor_run calls s)
      else if w = ascii ''load'' then map_option (Pair False) (monitor_load calls s)
      else if w = ascii ''continue''
      then (if in_breakpoint s then Some (True, s)
            else Some (False, show_bytes (ascii ''Can only continue when in breakpoint.'' @ [13, 10]) s))
      else if w = ascii ''break'' then Some (False, monitor_break s)
      else Some (False, s))"
proof -
  have is_name: "str_is (memory s) name (mon_cmd s) \<longleftrightarrow> w = name" if "0 \<notin> set name" for name
    using str_is_stored [OF assms(2) that assms(1)] by auto
  have "str_is (memory s) (ascii ''run'') (mon_cmd s) \<longleftrightarrow> w = ascii ''run''"
    "str_is (memory s) (ascii ''load'') (mon_cmd s) \<longleftrightarrow> w = ascii ''load''"
    "str_is (memory s) (ascii ''continue'') (mon_cmd s) \<longleftrightarrow> w = ascii ''continue''"
    "str_is (memory s) (ascii ''break'') (mon_cmd s) \<longleftrightarrow> w = ascii ''break''"
    by (rule is_name; simp)+
  then show ?thesis unfolding monitor_command_def Let_def by (simp only:)
qed

text \<open>Typing continue in a breakpoint.\<close>

lemma continue_returns:
  assumes "typed s = ascii ''continue'' # ls" "in_breakpoint s" "buffers_ok s"
  obtains s' where "process_commands calls s = Some s'" "typed s' = ls" "\<And>x. \<not> in_input s x \<Longrightarrow> memory s' x = memory s x"
    "breakpoints_set s' = breakpoints_set s"
proof -
  let ?line = "ascii ''continue''"
  define s1 where "s1 = (show_bytes (ascii ''> '') s)\<lparr>typed := ls, memory := line_in ?line s\<rparr>"
  have len: "length ?line < 100" by simp
  have s1: "input_at s1 = input_at s" "in_breakpoint s1" "memory s1 = line_in ?line s" "buffers_ok s1"
    using assms(2,3) by (simp_all add: s1_def show_bytes_def buffers_ok_def)
  have holds: "holds_at (memory s1) (input_at s1) (?line @ [0])"
    using line_in_holds [OF len, of s] by (simp only: s1)
  have parse: "monitor_parse s1 = Some (s1\<lparr>mon_cmd := input_at s1, cmd_argc := 0\<rparr>)"
    using holds by (rule parse_word) (simp_all add: plain_word_def s1(4))
  define s2 where "s2 = s1\<lparr>mon_cmd := input_at s1, cmd_argc := 0\<rparr>"
  have "holds_at (memory s2) (mon_cmd s2) (?line @ [0])" using holds by (simp add: s2_def)
  then have "monitor_command calls s2 = Some (True, s2)"
    using s1(2) by (subst word_commands [of s2 ?line]) (simp_all add: s2_def)
  moreover have "monitor_line calls s = do { s2 \<leftarrow> monitor_parse s1; monitor_command calls s2 }"
    using monitor_line_command [of s "of_char (CHR ''c'')" "ascii ''ontinue''" ls calls] assms(1) by (simp add: s1_def)
  ultimately have "monitor_line calls s = Some (True, s2)" by (simp add: parse flip: s2_def)
  then have "process_commands calls s = Some s2" by (subst process_commands.simps) simp
  moreover have "typed s2 = ls" "breakpoints_set s2 = breakpoints_set s"
    by (simp_all add: s2_def s1_def show_bytes_def)
  moreover have "memory s2 x = memory s x" if "\<not> in_input s x" for x
    using line_in_other [OF len that] by (simp add: s2_def s1(3))
  ultimately show thesis using that by blast
qed

text \<open>Typing break and an address.\<close>

definition break_line :: "u16 \<Rightarrow> bytes" where
  "break_line a = ascii ''break '' @ hex_byte (ucast (drop_bit 8 a)) @ hex_byte (ucast a)"

lemma hex_digit_plain: "d < 16 \<Longrightarrow> hex_digit d \<noteq> 0x20 \<and> hex_digit d \<noteq> 0"
proof -
  assume "d < 16"
  then have "unat d < 16" by (simp add: word_less_nat_alt)
  moreover have "\<forall>n \<in> set [0..<16]. hex_digit (of_nat n) \<noteq> 0x20 \<and> hex_digit (of_nat n) \<noteq> 0"
    by code_simp
  ultimately have "hex_digit (of_nat (unat d)) \<noteq> 0x20 \<and> hex_digit (of_nat (unat d)) \<noteq> 0" by (auto dest: bspec [of _ _ "unat d"])
  then show ?thesis by simp
qed

lemma hex_byte_digits: "drop_bit 4 b < (16 :: u8)" "b AND 15 < (16 :: u8)"
proof -
  have "unat b < 2 ^ LENGTH(8)" by (rule unsigned_less)
  then show "drop_bit 4 b < 16" by (simp add: word_less_nat_alt unat_drop_bit_eq drop_bit_eq_div unat_div)
  show "b AND 15 < 16" by (rule le_less_trans [OF word_and_le1]) simp
qed

lemma break_sets:
  assumes "typed s = break_line a # ls" "buffers_ok s" "breakpoints_set s \<noteq> BREAKPOINTS_MAX" "\<not> in_input s a"
    and "a \<noteq> cmd_argv s" "a \<noteq> cmd_argv s + 1"
  obtains s' where "monitor_line calls s = Some (False, s')" "typed s' = ls" "memory s' a = INST_BREAK" "old_byte s' = memory s a"
    "breakpoints_set s' = breakpoints_set s + 1" "input_at s' = input_at s" "cmd_argv s' = cmd_argv s"
    "\<And>x. \<not> in_input s x \<Longrightarrow> x \<noteq> cmd_argv s \<Longrightarrow> x \<noteq> cmd_argv s + 1 \<Longrightarrow> x \<noteq> a \<Longrightarrow> memory s' x = memory s x"
proof -
  let ?w = "ascii ''break''" and ?v = "hex_byte (ucast (drop_bit 8 a)) @ hex_byte (ucast a)" and ?line = "break_line a"
  define s1 where "s1 = (show_bytes (ascii ''> '') s)\<lparr>typed := ls, memory := line_in ?line s\<rparr>"
  have len: "length ?line < 100" by (simp add: break_line_def)
  have s1: "input_at s1 = input_at s" "cmd_argv s1 = cmd_argv s" "breakpoints_set s1 = breakpoints_set s"
      "memory s1 = line_in ?line s" "buffers_ok s1" "typed s1 = ls"
    using assms(2) by (simp_all add: s1_def show_bytes_def buffers_ok_def)
  have holds: "holds_at (memory s1) (input_at s1) (?w @ 0x20 # ?v @ [0])"
    using line_in_holds [OF len, of s] by (simp add: s1(1,4) break_line_def)
  have words: "plain_word ?w" "plain_word ?v" "length ?w + length ?v < 98"
    by (simp_all add: plain_word_def hex_byte_def hex_digit_plain hex_byte_digits)
  obtain m where m: "monitor_parse s1 = Some (s1\<lparr>mon_cmd := input_at s1, cmd_argc := 1, memory := m\<rparr>)"
    "holds_at m (input_at s1) (?w @ [0])" "holds_at m (mem_load16 m (cmd_argv s1)) (?v @ [0])"
    "\<And>x. \<not> in_input s1 x \<Longrightarrow> x \<noteq> cmd_argv s1 \<Longrightarrow> x \<noteq> cmd_argv s1 + 1 \<Longrightarrow> m x = memory s1 x"
    using parse_word_argument [OF holds words(1,2) s1(5) words(3)] by blast
  define s2 where "s2 = s1\<lparr>mon_cmd := input_at s1, cmd_argc := 1, memory := m\<rparr>"
  have "holds_at (memory s2) (mon_cmd s2) (?w @ [0])" using m(2) by (simp add: s2_def)
  then have command: "monitor_command calls s2 = Some (False, monitor_break s2)"
    by (subst word_commands [of s2 ?w]) simp_all
  let ?b = "mem_load16 m (cmd_argv s1)"
  have "holds_at m ?b (hex_byte (ucast (drop_bit 8 a)))" "holds_at m (?b + 2) (hex_byte (ucast a))"
    using m(3) by (simp_all add: holds_at_append)
  then have "get_byte m ?b = ucast (drop_bit 8 a)" "get_byte m (?b + 2) = ucast a" by (simp_all add: get_byte_hex)
  moreover have "push_bit 8 (ucast (ucast (drop_bit 8 a) :: u8)) OR ucast (ucast a :: u8) = a"
    by (rule bit_word_eqI) (auto simp: bit_simps)
  ultimately have break: "monitor_break s2 = set_breakpoint a s2"
    using assms(3) s1(3) by (simp add: monitor_break_def s2_def Let_def)
  have "monitor_line calls s = do { s2 \<leftarrow> monitor_parse s1; monitor_command calls s2 }"
    using monitor_line_command [of s "of_char (CHR ''b'')" "tl ?line" ls calls] assms(1) len by (simp add: s1_def break_line_def)
  then have line: "monitor_line calls s = Some (False, set_breakpoint a s2)"
    using m(1) command break by (simp flip: s2_def)
  have mem: "m x = memory s x" if "\<not> in_input s x" "x \<noteq> cmd_argv s" "x \<noteq> cmd_argv s + 1" for x
    using m(4) [of x] that line_in_other [OF len that(1)] by (simp add: s1)
  show thesis
  proof (rule that [OF line])
    show "old_byte (set_breakpoint a s2) = memory s a"
      using mem [OF assms(4-6)] by (simp add: set_breakpoint_def show_bytes_def s2_def)
  qed (use mem in \<open>simp_all add: set_breakpoint_def show_bytes_def s2_def s1\<close>)
qed

text \<open>C16. A breakpoint leaves no trace. After the line break with an address, the breakpoint instruction is at
  that address, one breakpoint is set, and nothing else has changed in memory but the buffer of the line and
  \<open>cmd_argv[0]\<close>. When the program then reaches the breakpoint, with whatever it has done to the rest of the memory,
  and the user types continue, \<open>debug_break\<close> has put the original byte back, changes nothing else but the buffer, and a new
  breakpoint can be set. The two bytes of \<open>cmd_argv[0]\<close> are a change that the program does not intend: \<open>cmd_argv\<close> is never
  initialised, so that they lie at the addresses 0 and 1.\<close>

theorem breakpoint_restores:
  assumes "typed s = break_line a # ls" "buffers_ok s" "breakpoints_set s = 0"
    and "\<not> in_input s a" "a \<noteq> cmd_argv s" "a \<noteq> cmd_argv s + 1"
  shows "\<exists>s1. monitor_line calls s = Some (False, s1) \<and> typed s1 = ls
    \<and> memory s1 a = INST_BREAK \<and> breakpoints_set s1 = BREAKPOINTS_MAX
    \<and> (\<forall>x. \<not> in_input s x \<and> x \<notin> {a, cmd_argv s, cmd_argv s + 1} \<longrightarrow> memory s1 x = memory s x)
    \<and> (\<forall>t p ls'. old_byte t = old_byte s1 \<and> breakpoints_set t = breakpoints_set s1 \<and> input_at t = input_at s1
           \<and> cmd_argv t = cmd_argv s1 \<and> break_address (sigarg_at (memory t) p) = a \<and> typed t = ascii ''continue'' # ls'
         \<longrightarrow> (\<exists>t'. debug_break calls p t = Some t' \<and> typed t' = ls' \<and> memory t' a = memory s a
               \<and> (\<forall>x. \<not> in_input s x \<and> x \<noteq> a \<longrightarrow> memory t' x = memory t x)
               \<and> breakpoints_set t' = 0 \<and> \<not> in_breakpoint t'))"
proof -
  obtain s1 where s1: "monitor_line calls s = Some (False, s1)" "typed s1 = ls" "memory s1 a = INST_BREAK" "old_byte s1 = memory s a"
    "breakpoints_set s1 = breakpoints_set s + 1" "input_at s1 = input_at s" "cmd_argv s1 = cmd_argv s"
    "\<And>x. \<not> in_input s x \<Longrightarrow> x \<noteq> cmd_argv s \<Longrightarrow> x \<noteq> cmd_argv s + 1 \<Longrightarrow> x \<noteq> a \<Longrightarrow> memory s1 x = memory s x"
    using break_sets [OF assms(1,2) _ assms(4-6), of calls] assms(3) by (auto simp: BREAKPOINTS_MAX_def)
  have "\<exists>t'. debug_break calls p t = Some t' \<and> typed t' = ls' \<and> memory t' a = memory s a
      \<and> (\<forall>x. \<not> in_input s x \<and> x \<noteq> a \<longrightarrow> memory t' x = memory t x) \<and> breakpoints_set t' = 0 \<and> \<not> in_breakpoint t'"
    if t: "old_byte t = old_byte s1" "breakpoints_set t = breakpoints_set s1" "input_at t = input_at s1" "cmd_argv t = cmd_argv s1"
      "break_address (sigarg_at (memory t) p) = a" "typed t = ascii ''continue'' # ls'" for t p ls'
  proof -
    define t1 where "t1 = show_bytes (show_registers (sigarg_at ((memory t)(a := memory s a)) p))
      (t\<lparr>in_breakpoint := True, memory := (memory t)(a := memory s a), breakpoints_set := 0\<rparr>)"
    have t1: "typed t1 = ascii ''continue'' # ls'" "in_breakpoint t1" "buffers_ok t1" "input_at t1 = input_at s"
        "memory t1 = (memory t)(a := memory s a)" "breakpoints_set t1 = 0"
      using t assms(2) s1(6,7) by (simp_all add: t1_def show_bytes_def buffers_ok_def)
    obtain t2 where t2: "process_commands calls t1 = Some t2" "typed t2 = ls'"
        "\<And>x. \<not> in_input t1 x \<Longrightarrow> memory t2 x = memory t1 x" "breakpoints_set t2 = breakpoints_set t1"
      by (rule continue_returns [OF t1(1-3), of calls]) blast
    have "debug_break calls p t = Some (t2\<lparr>in_breakpoint := False\<rparr>)"
      using t(1,2,5) s1(4,5) assms(3) t2(1) by (simp add: debug_break_def Let_def t1_def)
    then show ?thesis
      using t2(2-4) t1(4-6) assms(4) by (intro exI [of _ "t2\<lparr>in_breakpoint := False\<rparr>"]) simp
  qed
  then show ?thesis
    using s1 assms(3) by (intro exI [of _ s1]) (simp add: BREAKPOINTS_MAX_def)
qed

text \<open>A breakpoint at 0xa000; the signal frame is at 0xb000.\<close>

lemma breakpoint_restores_witness:
  "\<exists>s1 t'. monitor_line demo_calls (demo_monitor [ascii ''break A000'']) = Some (False, s1) \<and> memory s1 0xa000 = INST_BREAK
    \<and> debug_break demo_calls 0xb000 (s1\<lparr>memory := (memory s1)(0xb001 := 0xa0), typed := [ascii ''continue'']\<rparr>) = Some t'
    \<and> memory t' 0xa000 = 0 \<and> breakpoints_set t' = 0"
proof -
  let ?s = "demo_monitor [ascii ''break A000'']"
  have line: "break_line 0xa000 = ascii ''break A000''" by code_simp
  have s: "typed ?s = [break_line 0xa000]" "buffers_ok ?s" "breakpoints_set ?s = 0" "\<not> in_input ?s 0xa000"
    "0xa000 \<noteq> cmd_argv ?s" "0xa000 \<noteq> cmd_argv ?s + 1"
    unfolding line by (simp_all add: demo_monitor_def buffers_ok_def within_def)
  obtain s1 where s1: "monitor_line demo_calls ?s = Some (False, s1)" "memory s1 0xa000 = INST_BREAK"
      "\<forall>x. \<not> in_input ?s x \<and> x \<notin> {0xa000, cmd_argv ?s, cmd_argv ?s + 1} \<longrightarrow> memory s1 x = memory ?s x"
    and hit: "\<forall>t p ls'. old_byte t = old_byte s1 \<and> breakpoints_set t = breakpoints_set s1 \<and> input_at t = input_at s1
           \<and> cmd_argv t = cmd_argv s1 \<and> break_address (sigarg_at (memory t) p) = 0xa000 \<and> typed t = ascii ''continue'' # ls'
         \<longrightarrow> (\<exists>t'. debug_break demo_calls p t = Some t' \<and> typed t' = ls' \<and> memory t' 0xa000 = memory ?s 0xa000
               \<and> (\<forall>x. \<not> in_input ?s x \<and> x \<noteq> 0xa000 \<longrightarrow> memory t' x = memory t x)
               \<and> breakpoints_set t' = 0 \<and> \<not> in_breakpoint t')"
    using breakpoint_restores [OF s, of demo_calls] by blast
  have "memory s1 0xb000 = 0" using s1(3) by (simp add: demo_monitor_def within_def)
  then have "break_address (sigarg_at ((memory s1)(0xb001 := 0xa0)) 0xb000) = 0xa000"
    by (simp add: sigarg_at_def mem_load16_def)
  then obtain t' where "debug_break demo_calls 0xb000 (s1\<lparr>memory := (memory s1)(0xb001 := 0xa0), typed := [ascii ''continue'']\<rparr>) = Some t'"
      "memory t' 0xa000 = memory ?s 0xa000" "breakpoints_set t' = 0"
    using hit [rule_format, of "s1\<lparr>memory := (memory s1)(0xb001 := 0xa0), typed := [ascii ''continue'']\<rparr>" "0xb000" "[]"] by auto
  moreover have "memory ?s 0xa000 = 0" by (simp add: demo_monitor_def)
  ultimately show ?thesis using s1(1,2) by auto
qed

end
