(* ===== verification/Kernel_Calls.thy ===== *)
theory Kernel_Calls
  imports Process_Loader
begin

text \<open>
  The entries of the kernel: the system call table of \<open>kernel/syscall.asm\<close>, the two interrupts of
  \<open>kernel/interrupt.asm\<close> and the restart at address 8. Arguments are what the caller passes in registers and on the
  stack; memory is read and written through the bank that is selected. Interrupts are disabled during a system call, so
  each entry is one step. Bytes below the stack pointer, which every call may overwrite, are not modelled.

  The variables of the kernel are in the lower half of memory, which no hardware protects; the model has them as fields of
  the state. An entry that would store there on behalf of a program, like a call that leaves a table, has no result:
  nothing is said of what the program code does from then on.
\<close>

section \<open>Memory of the caller\<close>

definition fetch :: "kernel \<Rightarrow> u16 \<Rightarrow> u8" where
  "fetch k a = (if 0x8000 \<le> a then banked k (bank_current k) a else common k a)"

definition fetch_bytes :: "nat \<Rightarrow> kernel \<Rightarrow> u16 \<Rightarrow> bytes" where
  "fetch_bytes n k a = map (\<lambda>i. fetch k (a + of_nat i)) [0..<n]"

definition fetch_word :: "kernel \<Rightarrow> u16 \<Rightarrow> u16" where
  "fetch_word k a = le16 [fetch k a, fetch k (a + 1)] 0"

definition put_bytes :: "u16 \<Rightarrow> bytes \<Rightarrow> kernel \<Rightarrow> kernel" where
  "put_bytes a bs k = store_bytes (bank_current k) a bs k"

text \<open>Bytes of the banked half, and a store of the kernel at an address that the program has chosen.\<close>

definition user_area :: "u16 \<Rightarrow> nat \<Rightarrow> bool" where
  "user_area a n \<longleftrightarrow> 0x8000 \<le> unat a \<and> unat a + n \<le> 0x10000"

definition user_store :: "u16 \<Rightarrow> bytes \<Rightarrow> kernel \<Rightarrow> kernel option" where
  "user_store a bs k = (if bs = [] \<or> user_area a (length bs) then Some (put_bytes a bs k) else None)"

definition on_files :: "(fs \<Rightarrow> ('r \<times> fs) option) \<Rightarrow> kernel \<Rightarrow> ('r \<times> kernel) option" where
  "on_files call k = do { (r, f) \<leftarrow> call (kfs k); Some (r, k\<lparr>kfs := f\<rparr>) }"

section \<open>System calls\<close>

text \<open>The calls with their arguments; \<open>Sinvalid\<close> stands for the two calls that are no longer supported and for an odd call
  number. Strings are addresses: a file name is read in its first 12 bytes, an argument
  string up to the size of the buffer of \<open>process_spawn\<close>.\<close>

datatype syscall =
    Swrite u16 u16 | Sread
  | Fopen u16 u8 | Fread u16 u16 int | Fwrite u16 u16 int | Fclose int
  | Dinfo | Finfo u16 u16 | Fentries | Fentry u16 u16
  | Pspawn int u16 u16 | Sighandle u16 int | Fdelete u16 | Pload u16
  | Smode int | Sysinfo | Pstate int | Pexit int | Pexitcode int | Pblock int
  | Sinvalid

fun state_code :: "task_state \<Rightarrow> int" where
  "state_code TASK_RUNNING = 0" | "state_code TASK_READY = 1" | "state_code TASK_FINISHED = 2"
| "state_code TASK_FREE = 3" | "state_code TASK_BLOCKED = 4"

text \<open>The states of a task are few, so that statements about all of them can be evaluated.\<close>

instantiation task_state :: enum
begin

definition enum_task_state :: "task_state list" where
  "enum_task_state = [TASK_RUNNING, TASK_READY, TASK_FINISHED, TASK_FREE, TASK_BLOCKED]"

definition enum_all_task_state :: "(task_state \<Rightarrow> bool) \<Rightarrow> bool" where
  "enum_all_task_state P \<longleftrightarrow> list_all P enum_class.enum"

definition enum_ex_task_state :: "(task_state \<Rightarrow> bool) \<Rightarrow> bool" where
  "enum_ex_task_state P \<longleftrightarrow> list_ex P enum_class.enum"

instance
proof
  have all: "x \<in> set enum_class.enum" for x :: task_state by (cases x) (simp_all add: enum_task_state_def)
  then show "(UNIV :: task_state set) = set enum_class.enum" by auto
  show "distinct (enum_class.enum :: task_state list)" by (simp add: enum_task_state_def)
  show "enum_class.enum_all P \<longleftrightarrow> Ball UNIV P" for P :: "task_state \<Rightarrow> bool"
    using all by (auto simp: enum_all_task_state_def list_all_iff)
  show "enum_class.enum_ex P \<longleftrightarrow> Bex UNIV P" for P :: "task_state \<Rightarrow> bool"
    using all by (auto simp: enum_ex_task_state_def list_ex_iff)
qed

end

text \<open>\<open>pstate\<close> tells any two states apart.\<close>

lemma state_code_distinct: "\<forall>s t. state_code s = state_code t \<longrightarrow> s = t"
  by code_simp

definition finfo_bytes :: "FINFO \<Rightarrow> bytes" where
  "finfo_bytes f = [fi_attr f] @ put32 (fi_size f) @ put16 (created_year f) @ [created_month f, created_day f]"

text \<open>What is left open: the contents of the two arrays of \<open>process_spawn\<close> (of 512 bytes and 16 pointers), the address of the local \<open>header\<close>
  of \<open>process_load\<close>, and the addresses of \<open>disk_info\<close> and \<open>_sysinfo\<close>.\<close>

record layout =
  arg0 :: bytes
  argv0 :: "u16 list"
  header_at :: u16
  disk_info_at :: u16
  sysinfo_at :: u16

text \<open>The bytes that \<open>swrite\<close> sends: the count is decremented before it is tested, so that 0 stands for 65536.\<close>

definition driver_6850_tx :: "u16 \<Rightarrow> u16 \<Rightarrow> kernel \<Rightarrow> bytes" where
  "driver_6850_tx s count k = fetch_bytes (if count = 0 then 0x10000 else unat count) k s"

text \<open>The value in the result register, and the state after the call. \<open>swrite\<close>, which only sends, \<open>fclose\<close>, \<open>sighandle\<close>,
  \<open>smode\<close>, \<open>pexit\<close> and \<open>pblock\<close> return nothing, here 0. An invalid call sets the flag that the restarted kernel
  reports; the restart itself is the rule \<open>restart\<close> below.\<close>

fun syscall_handler :: "layout \<Rightarrow> syscall \<Rightarrow> kernel \<Rightarrow> (int \<times> kernel) option" where
  "syscall_handler l (Swrite s count) k = Some (0, k)"
| "syscall_handler l Sread k = terminal_get k"
| "syscall_handler l (Fopen name m) k = on_files (file_open (fetch_bytes 12 k name) m) k"
| "syscall_handler l (Fread ptr n fd) k = do {
     (data, k1) \<leftarrow> on_files (file_read ptr n fd) k;
     k2 \<leftarrow> user_store ptr data k1;
     Some (int (length data), k2) }"
| "syscall_handler l (Fwrite ptr n fd) k = do {
     (r, k1) \<leftarrow> on_files (file_write (fetch_bytes (unat n) k ptr) fd) k;
     Some (int (unat r), k1) }"
| "syscall_handler l (Fclose fd) k = do { f \<leftarrow> file_close fd (kfs k); Some (0, k\<lparr>kfs := f\<rparr>) }"
| "syscall_handler l Dinfo k = Some (int (unat (disk_info_at l)), k)"
| "syscall_handler l (Finfo name ptr) k = do {
     (r, k1) \<leftarrow> on_files (file_info (fetch_bytes 12 k name)) k;
     case r of Inl e \<Rightarrow> Some (e, k1)
     | Inr i \<Rightarrow> map_option (Pair 0) (user_store ptr (finfo_bytes i) k1) }"
| "syscall_handler l Fentries k = do { (n, k1) \<leftarrow> on_files file_entries k; Some (int (unat n), k1) }"
| "syscall_handler l (Fentry ptr e) k = do {
     (r, name, f) \<leftarrow> file_entry (fetch_bytes 13 k ptr) e (kfs k);
     if r \<noteq> 0 then Some (r, k\<lparr>kfs := f\<rparr>)
     else map_option (Pair r) (user_store ptr name (k\<lparr>kfs := f\<rparr>)) }"
| "syscall_handler l (Pspawn pd argv argc) k =
     process_spawn (arg0 l) (argv0 l) pd
       (map (\<lambda>i. fetch_bytes 512 k (fetch_word k (argv + 2 * of_nat i))) [0..<unat argc]) argc k"
| "syscall_handler l (Sighandle h sig) k = map_option (Pair 0) (signal_sethandler h sig k)"
| "syscall_handler l (Fdelete name) k = on_files (file_delete (fetch_bytes 12 k name)) k"
| "syscall_handler l (Pload name) k = process_load (header_at l) (fetch_bytes 12 k name) k"
| "syscall_handler l (Smode m) k = map_option (Pair 0) (terminal_set_mode m k)"
| "syscall_handler l Sysinfo k = Some (int (unat (sysinfo_at l)), k)"
| "syscall_handler l (Pstate p) k = map_option (\<lambda>st. (state_code st, k)) (scheduler_state p k)"
| "syscall_handler l (Pexit code) k = map_option (Pair 0) (process_exit code k)"
| "syscall_handler l (Pexitcode p) k = map_option (\<lambda>c. (c, k)) (scheduler_exitcode p k)"
| "syscall_handler l (Pblock event) k = map_option (Pair 0) (scheduler_block_current event k)"
| "syscall_handler l Sinvalid k = Some (0, k\<lparr>startup_flags := 1\<rparr>)"

section \<open>Interrupts\<close>

definition serial_read_handler :: "u8 \<Rightarrow> kernel \<Rightarrow> kernel option" where
  "serial_read_handler c k = terminal_put c k"

text \<open>A push of the interrupt handler: on the stack of the running program, or on that of the kernel, in the lower half, when
  no process has run yet.\<close>

definition stack_store :: "u16 \<Rightarrow> bytes \<Rightarrow> kernel \<Rightarrow> kernel option" where
  "stack_store a bs k = (if current_scheduled k < 0 then Some (put_bytes a bs k) else user_store a bs k)"

text \<open>The timer interrupt, with the stack pointer \<open>sp\<close> at the return address. While the kernel flag is set it does nothing.
  Otherwise the registers are pushed (\<open>registers\<close> are their bytes in the order they have in memory: IY, IX, BC, DE, HL, AF),
  the stack pointer is saved at 0xfffe of the bank, the scheduler chooses a process, its bank is selected and the stack
  pointer loaded from there. Without a signal all registers are popped. When there is one, the address of the handler
  replaces the return address on the stack, the old return address is pushed (over the two bytes below the frame) and
  popped into HL, and the other registers are popped. The result is the handler or 0, the registers that the process
  returns with, in the same order, and its stack pointer, which is at the address where it goes on.\<close>

definition timer_handler :: "bool \<Rightarrow> bytes \<Rightarrow> u16 \<Rightarrow> kernel \<Rightarrow> ((u16 \<times> bytes \<times> u16) \<times> kernel) option" where
  "timer_handler status_is_set_kernel registers sp k =
     (if status_is_set_kernel then Some ((0, registers, sp), k)
      else do {
        k1 \<leftarrow> stack_store (sp - 12) registers k;
        let k2 = put_bytes 0xfffe (put16 (sp - 12)) k1;
        (b, k3) \<leftarrow> scheduler_tick k2;
        (handler, k4) \<leftarrow> signal_get_handler (ram_bank_set b k3);
        let sp' = fetch_word k4 0xfffe;
        if handler = 0 then Some ((0, fetch_bytes 12 k4 sp', sp' + 12), k4)
        else do {
          let ret = fetch_bytes 2 k4 (sp' + 12);
          k5 \<leftarrow> user_store (sp' + 12) (put16 handler) k4;
          k6 \<leftarrow> user_store (sp' - 2) ret k5;
          Some ((handler, fetch_bytes 8 k6 sp' @ fetch_bytes 2 k6 (sp' - 2) @ fetch_bytes 2 k6 (sp' + 10), sp' + 12), k6)
        }
      })"

section \<open>Steps\<close>

text \<open>The running program makes system calls with any arguments and stores bytes in the bank that is selected, and interrupts
  come at any time. Programs that themselves store below 0x8000 are not covered. What they read there may be anything:
  \<open>Low\<close> changes the bytes of the lower half, which hold the variables of the kernel. Interrupts are off while the kernel
  flag is set, from \<open>syscall_handler\<close> to its end, so that \<open>Tick\<close> comes with the flag clear.\<close>

datatype kernel_event = Call syscall | Store u16 u8 | Arrive u8 | Tick bytes u16 | Low "u16 \<Rightarrow> u8"

fun event_enabled :: "kernel_event \<Rightarrow> kernel \<Rightarrow> bool" where
  "event_enabled (Call c) k = (0 \<le> current_scheduled k)"
| "event_enabled (Store a v) k = (0 \<le> current_scheduled k \<and> 0x8000 \<le> a)"
| "event_enabled (Arrive c) k = True"
| "event_enabled (Tick registers sp) k = (length registers = 12)"
| "event_enabled (Low m) k = True"

fun event_handler :: "layout \<Rightarrow> kernel_event \<Rightarrow> kernel \<Rightarrow> kernel option" where
  "event_handler l (Call c) k = map_option snd (syscall_handler l c k)"
| "event_handler l (Store a v) k = Some (poke (bank_current k) a v k)"
| "event_handler l (Arrive c) k = serial_read_handler c k"
| "event_handler l (Tick registers sp) k = map_option snd (timer_handler False registers sp k)"
| "event_handler l (Low m) k = Some (k\<lparr>common := m\<rparr>)"

text \<open>An event with a defined effect. A history is a sequence of these; it ends where an event has none.\<close>

definition kernel_step :: "layout \<Rightarrow> kernel_event \<Rightarrow> kernel \<Rightarrow> kernel \<Rightarrow> bool" where
  "kernel_step l ev k k' \<longleftrightarrow> event_enabled ev k \<and> event_handler l ev k = Some k'"

text \<open>What a kernel that has booted can become; \<open>k0\<close> is the state at power-on. A restart after an invalid call runs
  \<open>main\<close> again on what is in memory; the test of the banks may have left anything in them.\<close>

inductive kernel_reachable :: "layout \<Rightarrow> kernel \<Rightarrow> kernel \<Rightarrow> bool" for l k0 where
  boot: "kernel_main (arg0 l) (argv0 l) (header_at l) banks k0 = Some (pd, k) \<Longrightarrow> 0 \<le> pd \<Longrightarrow> kernel_reachable l k0 k"
| step: "kernel_reachable l k0 k \<Longrightarrow> kernel_step l ev k k' \<Longrightarrow> kernel_reachable l k0 k'"
| restart: "kernel_reachable l k0 k \<Longrightarrow> kernel_step l (Call Sinvalid) k k1
    \<Longrightarrow> kernel_main (arg0 l) (argv0 l) (header_at l) banks (k1\<lparr>banked := m\<rparr>) = Some (pd, k') \<Longrightarrow> 0 \<le> pd
    \<Longrightarrow> kernel_reachable l k0 k'"

text \<open>Events that run while bank \<open>b\<close> is not selected, and that start no program in it.\<close>

inductive kernel_away :: "layout \<Rightarrow> u8 \<Rightarrow> kernel \<Rightarrow> kernel \<Rightarrow> bool" for l b where
  stay: "bank_current k \<noteq> b \<Longrightarrow> kernel_away l b k k"
| next_event: "kernel_away l b k k1 \<Longrightarrow> kernel_step l ev k1 k2 \<Longrightarrow> bank_current k2 \<noteq> b
    \<Longrightarrow> (\<And>pd argv argc. ev = Call (Pspawn pd argv argc) \<Longrightarrow> bank (process_table k1 ! nat pd) \<noteq> b)
    \<Longrightarrow> kernel_away l b k k2"

end
