(* ===== verification/File_Invariant.thy ===== *)
theory File_Invariant
  imports File_Lifecycle
begin

text \<open>
  What every call of the file system keeps, with any arguments and on any disk: the cached sector is the one on the
  disk, sectors have 512 bytes, the geometry and the number of descriptors stay, names have 13 bytes and entries their
  32. \<open>kept_dests\<close> collects the fact for each function, so that a function that calls others only composes.
\<close>

named_theorems kept_dests

definition fs_typed :: "fs \<Rightarrow> bool" where
  "fs_typed s \<longleftrightarrow> fs_wf s \<and> entry_wf (close_entry s) \<and> (\<forall>f \<in> set (fdtable s). length (fd_name f) = 13)"

definition fs_kept :: "fs \<Rightarrow> fs \<Rightarrow> bool" where
  "fs_kept s s' \<longleftrightarrow> disk_info s' = disk_info s \<and> length (fdtable s') = length (fdtable s) \<and> (fs_typed s \<longrightarrow> fs_typed s')"

lemma fs_kept_refl [simp]: "fs_kept s s"
  by (simp add: fs_kept_def)

lemma fs_kept_trans: "fs_kept s s' \<Longrightarrow> fs_kept s' s'' \<Longrightarrow> fs_kept s s''"
  by (simp add: fs_kept_def)

section \<open>Sectors and descriptors\<close>

lemma kept_read_cached [simp]: "fs_kept s (read_sector_cached sec b s)"
  using read_sector_cached_wf [of s sec b] by (simp add: fs_kept_def fs_typed_def read_sector_cached_def)

lemma kept_write:
  assumes "memcpy (temp_sector s) off bs = Some buf" "current_cache_sector s = sec"
  shows "fs_kept s (disk_write buf sec (s\<lparr>temp_sector := buf\<rparr>))"
  using assms fs_wf_temp_length [of s] memcpy_length [OF assms(1)]
  by (auto simp: fs_kept_def fs_typed_def fs_wf_def disk_write_def disk_read_def)

lemma read_cached_sector [simp]: "current_cache_sector (read_sector_cached sec b s) = sec"
  by (simp add: read_sector_cached_def)

lemma kept_write_cached:
  "memcpy (temp_sector (read_sector_cached sec b s)) off bs = Some buf \<Longrightarrow>
   fs_kept s (disk_write buf sec ((read_sector_cached sec b s)\<lparr>temp_sector := buf\<rparr>))"
  by (rule fs_kept_trans [OF kept_read_cached kept_write]) simp_all

lemma kept_fd_update:
  assumes "fd_update fd g s = Some s'" "\<And>f. fd_at fd s = Some f \<Longrightarrow> length (fd_name f) = 13 \<Longrightarrow> length (fd_name (g f)) = 13"
  shows "fs_kept s s'"
proof -
  obtain f where f: "fd_at fd s = Some f" "s' = s\<lparr>fdtable := (fdtable s)[nat fd := g f]\<rparr>"
    using assms(1) by (auto simp: fd_update_def split: option.splits)
  then have mem: "f \<in> set (fdtable s)" by (auto simp: fd_at_def rd_def split: if_splits)
  have "length (fd_name e) = 13"
    if "e \<in> set ((fdtable s)[nat fd := g f])" "\<forall>f \<in> set (fdtable s). length (fd_name f) = 13" for e
    using set_update_subset_insert [of "fdtable s" "nat fd" "g f"] that assms(2) [OF f(1)] mem by auto
  then show ?thesis by (auto simp: fs_kept_def fs_typed_def fs_wf_def f(2) disk_read_def)
qed

definition keeps_name :: "(FileDescriptor_T \<Rightarrow> FileDescriptor_T) \<Rightarrow> bool" where
  "keeps_name g \<longleftrightarrow> (\<forall>f. fd_name (g f) = fd_name f)"

lemma keeps_name_simps [simp]:
  "keeps_name unclaim" "keeps_name (fd_start e m)"
  "keeps_name (\<lambda>f. f\<lparr>sector := n f\<rparr>)" "keeps_name (\<lambda>f. f\<lparr>current_cluster := c f, sector := n f\<rparr>)"
  "keeps_name (\<lambda>f. f\<lparr>fpos_within_sector := n16 f\<rparr>)" "keeps_name (\<lambda>f. f\<lparr>fpos_within_sector := n16 f, sector := n f\<rparr>)"
  "keeps_name (\<lambda>f. f\<lparr>fpos := n32 f\<rparr>)" "keeps_name (\<lambda>f. f\<lparr>fpos := n32 f, fpos_within_sector := n16 f\<rparr>)"
  "keeps_name (\<lambda>f. f\<lparr>fpos := n32 f, fsize := m32 f, fpos_within_sector := n16 f\<rparr>)"
  by (simp_all add: keeps_name_def unclaim_def fd_start_def)

lemma kept_fd_update_name [kept_dests]: "fd_update fd g s = Some s' \<Longrightarrow> keeps_name g \<Longrightarrow> fs_kept s s'"
  by (erule kept_fd_update) (simp add: keeps_name_def)

section \<open>The allocation table\<close>

lemma kept_fat_next [kept_dests]: "fat_next_cluster c s = Some (n, s') \<Longrightarrow> fs_kept s s'"
  by (auto simp: fat_next_cluster_def bind_eq_Some_conv Let_def)

lemma kept_fat_set [kept_dests]: "fat_set_cluster c n s = Some s' \<Longrightarrow> fs_kept s s'"
  by (auto simp: fat_set_cluster_def bind_eq_Some_conv Let_def intro: kept_write_cached)

lemma kept_fat_scan_raw: "fat_scan sec e c s = Some r \<Longrightarrow> fs_kept s (snd r)"
proof (erule fat_scan.raw_induct [where P = "\<lambda>_ _ _ s r. fs_kept s (snd r)", rotated], goal_cases)
  case (1 f sec e c s r)
  from 1(2) show ?case
    by (auto simp: bind_eq_Some_conv Let_def split: if_splits dest!: 1(1) intro: fs_kept_trans [OF kept_read_cached])
qed

lemma kept_fat_find [kept_dests]: "fat_find_free_cluster s = Some (c, s') \<Longrightarrow> fs_kept s s'"
  using kept_fat_scan_raw [of _ 2 2 s] by (auto simp: fat_find_free_cluster_def)

lemma kept_fat_start [kept_dests]: "fat_allocate_start_cluster s = Some (c, s') \<Longrightarrow> fs_kept s s'"
  by (auto simp: fat_allocate_start_cluster_def bind_eq_Some_conv split: if_splits dest!: kept_dests intro: fs_kept_trans)

lemma kept_fat_allocate [kept_dests]: "fat_allocate_cluster c s = Some (n, s') \<Longrightarrow> fs_kept s s'"
  by (auto simp: fat_allocate_cluster_def bind_eq_Some_conv split: if_splits dest!: kept_dests) (simp_all add: fs_kept_def)

lemma kept_free_clusters [kept_dests]: "free_clusters c s = Some s' \<Longrightarrow> fs_kept s s'"
proof (erule free_clusters.raw_induct [where P = "\<lambda>_ s s'. fs_kept s s'", rotated], goal_cases)
  case (1 f c s s')
  from 1(2) show ?case
    by (auto simp: bind_eq_Some_conv fat_deallocate_cluster_def split: if_splits dest!: kept_dests 1(1)) (simp add: fs_kept_def)
qed

section \<open>The directory\<close>

lemma scan_entries_found: "scan_entries name sec fs = Some (Found f) \<Longrightarrow> f \<in> set fs"
  by (induction fs) (auto simp: bind_eq_Some_conv split: if_splits)

lemma kept_directory_find_raw:
  "directory_find name sec s = Some r \<Longrightarrow> fs_kept s (snd r)
    \<and> (\<forall>t f. fst r = Some (t, f) \<longrightarrow> current_cache_sector (snd r) = t \<and> f + 32 \<le> 512)"
proof (erule directory_find.raw_induct [where P = "\<lambda>_ _ s r. fs_kept s (snd r)
    \<and> (\<forall>t f. fst r = Some (t, f) \<longrightarrow> current_cache_sector (snd r) = t \<and> f + 32 \<le> 512)", rotated], goal_cases)
  case (1 find name sec s r)
  let ?s = "read_sector_cached sec True s"
  from 1(2) obtain x where x: "scan_entries name (temp_sector ?s) offsets = Some x"
      "(case x of Missing \<Rightarrow> Some (None, ?s) | Found f \<Rightarrow> Some (Some (sec, f), ?s) | More \<Rightarrow> find name (sec + 1) ?s) = Some r"
    by (auto simp: bind_eq_Some_conv Let_def)
  show ?case
  proof (cases x)
    case (Found f)
    then show ?thesis using x offsets_bound [OF scan_entries_found [of name "temp_sector ?s" offsets f]] by auto
  next
    case More
    then show ?thesis using x(2) 1(1) [of name "sec + 1" ?s r] by (auto intro: fs_kept_trans [OF kept_read_cached])
  qed (use x(2) in auto)
qed

lemma kept_directory_find:
  assumes "directory_find name sec s = Some (r, s')"
  shows "fs_kept s s'" "r = Some (t, f) \<Longrightarrow> current_cache_sector s' = t \<and> f + 32 \<le> 512"
  using kept_directory_find_raw [OF assms] by auto

lemma bytes_entry_wf: "32 \<le> length b \<Longrightarrow> entry_wf (bytes_entry b)"
  by (simp add: entry_wf_def bytes_entry_def)

lemma kept_get_entry:
  assumes "filesystem_get_directory_entry name s = Some (r, s')"
  shows "fs_kept s s'" "r = Inr e \<Longrightarrow> fs_typed s \<Longrightarrow> entry_wf e"
proof -
  obtain q s1 where q: "directory_find name (root_region (disk_info s)) s = Some (q, s1)" "s' = s1"
      "\<And>t f. q = Some (t, f) \<Longrightarrow> r = Inr (bytes_entry (take 32 (drop f (temp_sector s1))))" "q = None \<Longrightarrow> r = Inl E_FILENOTFOUND"
    using assms by (auto simp: filesystem_get_directory_entry_def bind_eq_Some_conv split: option.splits prod.splits)
  note find = kept_directory_find [OF q(1)]
  show "fs_kept s s'" using find(1) q(2) by simp
  assume e: "r = Inr e" "fs_typed s"
  then obtain t f where tf: "q = Some (t, f)" using q(4) by (cases q) auto
  have "length (temp_sector s1) = 512"
    using find(1) e(2) fs_wf_temp_length [of s1] by (simp add: fs_kept_def fs_typed_def)
  then show "entry_wf e" using q(3) [OF tf] find(2) [OF tf] e(1) by (auto intro!: bytes_entry_wf)
qed

lemma kept_set_entry: "filesystem_set_directory_entry e name s = Some (r, s') \<Longrightarrow> fs_kept s s'"
  by (auto simp: filesystem_set_directory_entry_def bind_eq_Some_conv split: option.splits
      dest: kept_directory_find intro!: fs_kept_trans [OF kept_directory_find(1) kept_write])

lemma kept_mark_entry: "filesystem_mark_directory_entry_free name s = Some (r, s') \<Longrightarrow> fs_kept s s'"
  by (auto simp: filesystem_mark_directory_entry_free_def bind_eq_Some_conv split: option.splits
      dest: kept_directory_find intro!: fs_kept_trans [OF kept_directory_find(1) kept_write])

lemmas [kept_dests] = kept_get_entry(1) kept_set_entry kept_mark_entry

lemma kept_create_raw: "file_create_from e sec s = Some r \<Longrightarrow> fs_kept s (snd r)"
proof (erule file_create_from.raw_induct [where P = "\<lambda>_ _ s r. fs_kept s (snd r)", rotated], goal_cases)
  case (1 f e sec s r)
  from 1(2) show ?case
    by (auto simp: bind_eq_Some_conv Let_def split: option.split_asm if_splits dest!: 1(1)
        intro: kept_write_cached fs_kept_trans [OF kept_read_cached])
qed

lemma kept_create [kept_dests]: "file_create e s = Some (r, s') \<Longrightarrow> fs_kept s s'"
  using kept_create_raw [of e _ s] by (auto simp: file_create_def)

lemma kept_entries_raw: "file_entries_from sec n s = Some r \<Longrightarrow> fs_kept s (snd r)"
proof (erule file_entries_from.raw_induct [where P = "\<lambda>_ _ s r. fs_kept s (snd r)", rotated], goal_cases)
  case (1 f sec n s r)
  from 1(2) show ?case
    by (auto simp: Let_def split: prod.splits if_splits dest!: 1(1) intro: fs_kept_trans [OF kept_read_cached])
qed

lemma kept_entries [kept_dests]: "file_entries s = Some (n, s') \<Longrightarrow> fs_kept s s'"
  using kept_entries_raw [of _ 0 s] by (auto simp: file_entries_def)

lemma kept_entry_raw: "file_entry_from buf e sec n s = Some r \<Longrightarrow> fs_kept s (snd (snd r))"
proof (erule file_entry_from.raw_induct [where P = "\<lambda>_ _ _ _ s r. fs_kept s (snd (snd r))", rotated], goal_cases)
  case (1 f buf e sec n s r)
  from 1(2) show ?case
    by (auto simp: Let_def bind_eq_Some_conv split: scan.split_asm if_splits dest!: 1(1) intro: fs_kept_trans [OF kept_read_cached])
qed

lemma kept_entry [kept_dests]: "file_entry buf e s = Some (r, b, s') \<Longrightarrow> fs_kept s s'"
  using kept_entry_raw [of buf e _ 0 s] by (auto simp: file_entry_def)

section \<open>Open files\<close>

lemma kept_next_sector [kept_dests]: "next_sector fd s = Some s' \<Longrightarrow> fs_kept s s'"
  by (auto simp: next_sector_def bind_eq_Some_conv split: if_splits dest!: kept_dests) (simp_all add: fs_kept_def)

lemma kept_readbyte [kept_dests]: "file_readbyte fd s = Some (c, s') \<Longrightarrow> fs_kept s s'"
  by (auto simp: file_readbyte_def bind_eq_Some_conv Let_def split: if_splits dest!: kept_dests)
    (insert kept_read_cached, simp_all add: fs_kept_def)

lemma kept_readsector [kept_dests]: "file_readsector fd s = Some (c, b, s') \<Longrightarrow> fs_kept s s'"
  by (auto simp: file_readsector_def bind_eq_Some_conv Let_def split: if_splits dest!: kept_dests) (simp_all add: fs_kept_def)

lemma kept_read_head_raw: "read_head fd n acc s = Some r \<Longrightarrow> fs_kept s (snd (snd (snd r)))"
proof (erule read_head.raw_induct [where P = "\<lambda>_ _ _ s r. fs_kept s (snd (snd (snd r)))", rotated], goal_cases)
  case (1 f fd n acc s r)
  from 1(2) show ?case
    by (auto simp: bind_eq_Some_conv split: if_splits dest!: kept_dests 1(1)) (simp_all add: fs_kept_def)
qed

lemma kept_read_head [kept_dests]: "read_head fd n acc s = Some (d, n', acc', s') \<Longrightarrow> fs_kept s s'"
  using kept_read_head_raw [of fd n acc s] by auto

lemma kept_read_sectors [kept_dests]: "read_sectors k fd n acc s = Some (d, n', acc', s') \<Longrightarrow> fs_kept s s'"
  by (induction k arbitrary: n acc s)
    (auto simp: bind_eq_Some_conv split: if_splits dest!: kept_dests intro: fs_kept_trans)

lemma kept_read_tail [kept_dests]: "read_tail k fd acc s = Some (acc', s') \<Longrightarrow> fs_kept s s'"
  by (induction k arbitrary: acc s)
    (auto simp: bind_eq_Some_conv split: if_splits dest!: kept_dests intro: fs_kept_trans)

lemma kept_read_loops [kept_dests]: "read_loops fd n acc s = Some (b, s') \<Longrightarrow> fs_kept s s'"
  by (auto simp: read_loops_def bind_eq_Some_conv split: if_splits dest!: kept_dests) (simp_all add: fs_kept_def)

lemma kept_read [kept_dests]: "file_read ptr n fd s = Some (b, s') \<Longrightarrow> fs_kept s s'"
  by (auto simp: file_read_def bind_eq_Some_conv split: if_splits dest!: kept_dests)

text \<open>The part of \<open>file_writesector\<close> up to the write.\<close>

lemma kept_writesector [kept_dests]:
  assumes "file_writesector data off fd s = Some (e, s')"
  shows "fs_kept s s'"
proof (cases "off + of_nat (length data) > bytes_per_sector (disk_info s)")
  case True
  with assms show ?thesis by (simp add: file_writesector_def Let_def)
next
  case False
  define n :: u16 where "n = of_nat (length data)"
  obtain f buf where f: "fd_at fd s = Some f"
      "memcpy (temp_sector (read_sector_cached (file_sector f s) False s)) (unat off) data = Some buf"
    using assms False by (auto simp: file_writesector_def Let_def bind_eq_Some_conv)
  define s2 where "s2 = disk_write buf (file_sector f s) ((read_sector_cached (file_sector f s) False s)\<lparr>temp_sector := buf\<rparr>)"
  have s2: "fs_kept s s2" unfolding s2_def by (rule kept_write_cached [OF f(2)])
  obtain s3 where s3: "fd_update fd (\<lambda>f. f\<lparr>fpos := fpos f + ucast n, fsize := fsize f + ucast n,
      fpos_within_sector := fpos_within_sector f + n\<rparr>) s2 = Some s3"
    using assms False f by (auto simp: file_writesector_def Let_def bind_eq_Some_conv s2_def n_def)
  have rest: "(if fpos_within_sector f + n \<noteq> bytes_per_sector (disk_info s) then Some (0, s3)
      else do {
        s4 \<leftarrow> fd_update fd (\<lambda>f. f\<lparr>fpos_within_sector := 0, sector := sector f + 1\<rparr>) s3;
        if sector f + 1 \<noteq> sectors_per_cluster (disk_info s4) then Some (0, s4)
        else do {
          (next, s5) \<leftarrow> fat_next_cluster (current_cluster f) s4;
          (next_cluster, s6) \<leftarrow>
            (if next = CLUSTER_EOF then fat_allocate_cluster (current_cluster f) s5 else Some (next, s5));
          if next = CLUSTER_EOF \<and> next_cluster = 0 then Some (E_DISKFULL, s6)
          else do {
            s7 \<leftarrow> fd_update fd (\<lambda>f. f\<lparr>current_cluster := next_cluster, sector := 0\<rparr>) s6;
            Some (0, s7)
          }
        }
      }) = Some (e, s')"
    using assms False f s3 by (simp add: file_writesector_def Let_def flip: n_def s2_def)
  have "fs_kept s3 s'"
    using rest by (auto simp: bind_eq_Some_conv split: if_splits dest!: kept_dests) (simp_all add: fs_kept_def)
  moreover have "fs_kept s2 s3" using s3 by (auto dest!: kept_dests)
  ultimately show ?thesis using s2 by (simp add: fs_kept_def)
qed

lemma kept_write_sectors [kept_dests]: "write_sectors k data fd s = Some (r, s') \<Longrightarrow> fs_kept s s'"
  by (induction k arbitrary: data s)
    (auto simp: bind_eq_Some_conv Let_def split: if_splits dest!: kept_dests intro: fs_kept_trans)

lemma bind_SomeE:
  assumes "m \<bind> f = Some r"
  obtains x where "m = Some x" "f x = Some r"
  using assms by (cases m) auto

text \<open>\<open>file_write\<close> after the bytes up to the sector boundary.\<close>

definition write_rest :: "bytes \<Rightarrow> u16 \<Rightarrow> u16 \<Rightarrow> int \<Rightarrow> bytes \<Rightarrow> fs \<Rightarrow> (u16 \<times> fs) option" where
  "write_rest data partial bps fd rest s1 =
     (if rest = [] then Some (partial, s1)
      else if bps = 0 then None
      else do {
        (r, s2) \<leftarrow> write_sectors (unat ((of_nat (length rest) :: u16) div bps)) rest fd s1;
        case r of
          None \<Rightarrow> Some (0, s2)
        | Some final \<Rightarrow>
            if final = [] then Some (of_nat (length data), s2)
            else do { (e', s3) \<leftarrow> file_writesector final 0 fd s2; Some (of_nat (length data), s3) }
      })"

lemma kept_write_rest [kept_dests]:
  assumes "write_rest data partial bps fd rest s1 = Some (r, s')"
  shows "fs_kept s1 s'"
proof (cases "rest = []")
  case False
  obtain q s2 where q: "write_sectors (unat ((of_nat (length rest) :: u16) div bps)) rest fd s1 = Some (q, s2)"
      "(case q of None \<Rightarrow> Some (0, s2) | Some final \<Rightarrow> if final = [] then Some (of_nat (length data), s2)
        else do { (e', s3) \<leftarrow> file_writesector final 0 fd s2; Some (of_nat (length data), s3) }) = Some (r, s')"
    using assms False by (auto simp: write_rest_def split: if_splits elim!: bind_SomeE)
  have "fs_kept s2 s'"
    using q(2) by (cases q) (auto simp: bind_eq_Some_conv split: if_splits dest!: kept_dests)
  moreover have "fs_kept s1 s2" using q(1) by (auto dest!: kept_dests)
  ultimately show ?thesis by (simp add: fs_kept_def)
qed (use assms in \<open>simp add: write_rest_def\<close>)

lemma kept_file_write [kept_dests]: "file_write data fd s = Some (r, s') \<Longrightarrow> fs_kept s s'"
  unfolding file_write_def Let_def write_rest_def [symmetric]
  by (auto split: if_splits elim!: bind_SomeE dest!: kept_dests) (blast intro: fs_kept_trans)+

lemma kept_open_read [kept_dests]:
  assumes "file_open_read fd s = Some (e, s')"
  shows "fs_kept s s'"
proof -
  obtain f :: FileDescriptor_T and r s1 where "filesystem_get_directory_entry (fd_name f) s = Some (r, s1)"
    and rest: "(case r of Inl error \<Rightarrow> Some (error, s1)
       | Inr entry \<Rightarrow> do { s2 \<leftarrow> fd_update fd (fd_start entry FMODE_READ) s1; Some (0, s2) }) = Some (e, s')"
    using assms by (auto simp: file_open_read_def bind_eq_Some_conv)
  then have "fs_kept s s1" by (auto dest!: kept_dests)
  moreover have "fs_kept s1 s'"
    using rest by (cases r) (auto simp: bind_eq_Some_conv dest!: kept_dests)
  ultimately show ?thesis by (rule fs_kept_trans)
qed

lemma kept_open_write [kept_dests]: "file_open_write fd s = Some (e, s') \<Longrightarrow> fs_kept s s'"
  by (auto simp: file_open_write_def bind_eq_Some_conv split: if_splits option.split_asm dest!: kept_dests) (simp_all add: fs_kept_def)

lemma kept_set_name:
  assumes "fd_at fd s = Some f" "strcpy (fd_name f) u = Some name" "fd_update fd (\<lambda>f. f\<lparr>fd_name := name\<rparr>) s = Some s'"
  shows "fs_kept s s'"
  using assms(3) by (rule kept_fd_update) (use strcpy_length [OF assms(2)] assms(1) in simp)

lemma kept_unclaim: "fd_update fd unclaim s = Some s' \<Longrightarrow> fs_kept s s'"
  by (erule kept_fd_update_name) simp

lemma kept_open [kept_dests]:
  assumes "file_open name m s = Some (r, s')"
  shows "fs_kept s s'"
proof (cases "filesystem_assign_fd s < 0")
  case False
  let ?fd = "filesystem_assign_fd s"
  obtain u f nm s1 where s1: "fd_at ?fd s = Some f" "strcpy (fd_name f) u = Some nm" "fd_update ?fd (\<lambda>f. f\<lparr>fd_name := nm\<rparr>) s = Some s1"
    and rest: "(if m \<noteq> FMODE_READ \<and> m \<noteq> FMODE_WRITE then Some (E_INVALIDMODE, s1)
        else do {
          (error, s2) \<leftarrow> (if m = FMODE_READ then file_open_read ?fd s1 else file_open_write ?fd s1);
          if error < 0 then do { s3 \<leftarrow> fd_update ?fd unclaim s2; Some (error, s3) }
          else Some (?fd, s2)
        }) = Some (r, s')"
    using assms False unfolding file_open_def Let_def by (simp only: if_False simp_thms) (elim bind_SomeE, blast)
  have "fs_kept s1 s'"
  proof (cases "m \<noteq> FMODE_READ \<and> m \<noteq> FMODE_WRITE")
    case False
    then obtain e s2 where s2: "(if m = FMODE_READ then file_open_read ?fd s1 else file_open_write ?fd s1) = Some (e, s2)"
      "(if e < 0 then do { s3 \<leftarrow> fd_update ?fd unclaim s2; Some (e, s3) } else Some (?fd, s2)) = Some (r, s')"
      using rest by (simp only: if_False) (elim bind_SomeE, auto simp only: split_paired_all prod.case)
    have "fs_kept s1 s2" using s2(1) by (auto split: if_splits dest!: kept_open_read kept_open_write)
    moreover have "fs_kept s2 s'" using s2(2) by (auto split: if_splits elim!: bind_SomeE dest!: kept_unclaim)
    ultimately show ?thesis by (rule fs_kept_trans)
  qed (use rest in simp)
  then show ?thesis using kept_set_name [OF s1] by (simp add: fs_kept_def)
qed (use assms in \<open>auto simp: file_open_def bind_eq_Some_conv\<close>)

lemma kept_new [kept_dests]: "file_new name s = Some (r, s') \<Longrightarrow> fs_kept s s'"
  by (auto simp: file_new_def bind_eq_Some_conv Let_def split: if_splits dest!: kept_open_write kept_unclaim)
    (frule (2) kept_set_name, simp add: fs_kept_def)

lemma kept_delete [kept_dests]:
  assumes "file_delete name s = Some (r, s')"
  shows "fs_kept s s'"
proof -
  obtain u q s1 where q: "filesystem_get_directory_entry u s = Some (q, s1)"
    "(case q of Inl error \<Rightarrow> Some (error, s1) | Inr direntry \<Rightarrow> do {
       s2 \<leftarrow> free_clusters (starting_cluster direntry) s1;
       filesystem_mark_directory_entry_free u s2 }) = Some (r, s')"
    using assms by (auto simp: file_delete_def bind_eq_Some_conv)
  have "fs_kept s1 s'"
    using q(2) by (cases q) (auto simp: bind_eq_Some_conv dest!: kept_dests intro: fs_kept_trans)
  then show ?thesis using q(1) by (auto dest!: kept_dests intro: fs_kept_trans)
qed

lemma kept_info [kept_dests]:
  assumes "file_info name s = Some (r, s')"
  shows "fs_kept s s'"
proof -
  obtain u q s1 where q: "filesystem_get_directory_entry u s = Some (q, s1)"
    "(case q of Inl error \<Rightarrow> Some (Inl error, s1) | Inr direntry \<Rightarrow> Some (Inr
       \<lparr>fi_attr = attributes direntry, fi_size = de_size direntry, created_year = 1980 + drop_bit 9 (creation_date direntry),
        created_month = ucast (drop_bit 5 (creation_date direntry) AND 0x000f),
        created_day = ucast (creation_date direntry AND 0x001f)\<rparr>, s1)) = Some (r, s')"
    using assms by (auto simp: file_info_def bind_eq_Some_conv)
  then have "s' = s1" by (cases q) auto
  then show ?thesis using q(1) by (auto dest!: kept_dests)
qed

lemma kept_close [kept_dests]:
  assumes "file_close fd s = Some s'"
  shows "fs_kept s s'"
proof -
  obtain f where f: "fd_at fd s = Some f" using assms by (auto simp: file_close_def bind_eq_Some_conv)
  show ?thesis
  proof (cases "mode f = FMODE_WRITE")
    case True
    obtain r s1 where get: "filesystem_get_directory_entry (fd_name f) s = Some (r, s1)"
      using assms True f by (auto simp: file_close_def bind_eq_Some_conv)
    define entry where "entry = (case r of Inl e \<Rightarrow> close_entry s1 | Inr entry \<Rightarrow> entry)\<lparr>de_size := fsize f\<rparr>"
    obtain e s2 where set: "filesystem_set_directory_entry entry (fd_name f) (s1\<lparr>close_entry := entry\<rparr>) = Some (e, s2)"
        "fd_update fd unclaim s2 = Some s'"
      using assms True f get by (auto simp: file_close_def bind_eq_Some_conv Let_def entry_def)
    have "entry_wf entry" if "fs_typed s"
      using kept_get_entry [OF get] that by (cases r) (auto simp: entry_def fs_kept_def fs_typed_def entry_wf_def)
    then have "fs_kept s (s1\<lparr>close_entry := entry\<rparr>)"
      using kept_get_entry(1) [OF get] by (auto simp: fs_kept_def fs_typed_def fs_wf_def disk_read_def)
    then show ?thesis using set by (auto dest!: kept_set_entry kept_unclaim intro: fs_kept_trans)
  qed (use assms f in \<open>auto simp: file_close_def dest!: kept_dests\<close>)
qed

end
