(* ===== verification/Kernel_Invariant.thy ===== *)
theory Kernel_Invariant
  imports Kernel_Calls File_Invariant
begin

text \<open>
  What holds of the whole kernel after any history of system calls, with any arguments, and interrupts: all tables have
  their sizes and indices stay inside them, the sector cache is coherent, and every loaded process has a bank of its own.
\<close>

section \<open>The scheduler\<close>

text \<open>The invariant of the scheduler, with all tasks naming process descriptors and the current process that of the
  current task.\<close>

definition sched_typed :: "'a sched_scheme \<Rightarrow> bool" where
  "sched_typed s \<longleftrightarrow> sched_wf s
     \<and> (\<forall>i < MAX_SCHEDULED. int i < num_scheduled s
          \<longrightarrow> 0 \<le> pid (schedule_table s ! i) \<and> pid (schedule_table s ! i) < int PROCS_MAX)
     \<and> (0 \<le> current_scheduled s \<longrightarrow> process_current_ptr s = schedule_current_pid s)"

lemma sched_typedD:
  assumes "sched_typed s"
  shows "sched_wf s" "0 \<le> current_scheduled s \<Longrightarrow> process_current_ptr s = schedule_current_pid s"
    "\<And>i. int i < num_scheduled s \<Longrightarrow> 0 \<le> pid (schedule_table s ! i) \<and> pid (schedule_table s ! i) < int PROCS_MAX"
proof -
  show "sched_wf s" "0 \<le> current_scheduled s \<Longrightarrow> process_current_ptr s = schedule_current_pid s"
    using assms by (simp_all add: sched_typed_def)
  show "0 \<le> pid (schedule_table s ! i) \<and> pid (schedule_table s ! i) < int PROCS_MAX" if "int i < num_scheduled s" for i
    using assms that sched_wfD(3) [of s] by (simp add: sched_typed_def)
qed

lemma typed_current:
  assumes "sched_typed s" "0 \<le> current_scheduled s"
  shows "0 \<le> process_current_ptr s \<and> process_current_ptr s < int PROCS_MAX"
  using sched_typedD [OF assms(1)] assms(2) sched_wfD(5,8) [of s] by simp

text \<open>A call that keeps the invariant of the table and the identifiers in it.\<close>

lemma typed_same_pids:
  assumes "sched_typed s" "sched_wf s'" "num_scheduled s' = num_scheduled s" "current_scheduled s' = current_scheduled s"
    and "schedule_current_pid s' = schedule_current_pid s" "process_current_ptr s' = process_current_ptr s"
    and "\<And>j. j < MAX_SCHEDULED \<Longrightarrow> pid (schedule_table s' ! j) = pid (schedule_table s ! j)"
  shows "sched_typed s'"
  using assms by (simp add: sched_typed_def)

lemma typed_add:
  assumes "sched_typed s" "scheduler_add p s = (r, s')" "0 \<le> p" "p < int PROCS_MAX"
  shows "sched_typed s'"
proof -
  note ty = sched_typedD [OF assms(1)]
  have wf: "sched_wf s'" using add_wf [OF ty(1) assms(2)] .
  show ?thesis
  proof (cases "num_scheduled s = int MAX_SCHEDULED")
    case True
    then show ?thesis using assms(1,2) by (simp add: scheduler_add_eq [OF ty(1)])
  next
    case False
    then have s': "s' = s\<lparr>schedule_table := (schedule_table s)[nat (num_scheduled s) := (schedule_table s ! nat (num_scheduled s))
        \<lparr>state := TASK_READY, blocking_event := EVENT_NO_EVENT, pid := p\<rparr>], num_scheduled := num_scheduled s + 1\<rparr>"
      using assms(2) by (simp add: scheduler_add_eq [OF ty(1)])
    have "0 \<le> pid (schedule_table s' ! i) \<and> pid (schedule_table s' ! i) < int PROCS_MAX"
      if "i < MAX_SCHEDULED" "int i < num_scheduled s'" for i
    proof (cases "i = nat (num_scheduled s)")
      case True
      then show ?thesis using that(1) assms(3,4) sched_wfD(1) [OF ty(1)] by (simp add: s')
    next
      case False
      then show ?thesis using that(2) ty(3) [of i] sched_wfD(2) [OF ty(1)] by (simp add: s')
    qed
    moreover have "0 \<le> current_scheduled s' \<longrightarrow> process_current_ptr s' = schedule_current_pid s'" using ty(2) by (simp add: s')
    ultimately show ?thesis using wf by (simp add: sched_typed_def)
  qed
qed

lemma typed_next:
  assumes "sched_typed s" "scheduler_next s = Some (p, s')"
  shows "sched_typed s'" "0 \<le> current_scheduled s'"
proof -
  note ty = sched_typedD [OF assms(1)]
  obtain i where i: "s' = run_slot i s" "int i < num_scheduled s" "i < MAX_SCHEDULED" "sched_wf s'"
    using scheduler_next_cases [OF ty(1)] assms(2) by (metis Pair_inject option.distinct(1) option.inject)
  have pids: "pid (schedule_table s' ! j) = pid (schedule_table s ! j)" if "j < MAX_SCHEDULED" for j
    using that i(3) sched_wfD(1) [OF ty(1)] by (simp add: i(1) run_slot_nth)
  have "num_scheduled s' = num_scheduled s" by (simp add: i(1) run_slot_def Let_def)
  moreover have "process_current_ptr s' = schedule_current_pid s'" by (simp add: i(1) run_slot_def Let_def)
  ultimately show "sched_typed s'" using i(4) ty(3) pids by (simp add: sched_typed_def)
  show "0 \<le> current_scheduled s'" by (simp add: i(1) run_slot_def Let_def)
qed

lemma typed_exit:
  assumes "sched_typed s" "scheduler_exit (scheduler_current_pid s) code s = Some s'" "0 \<le> current_scheduled s"
  shows "sched_typed s'"
proof -
  note ty = sched_typedD [OF assms(1)]
  have "int (nat (current_scheduled s)) < num_scheduled s"
    "pid (schedule_table s ! nat (current_scheduled s)) = scheduler_current_pid s"
    using sched_wfD(5,8) [OF ty(1)] assms(3) by (simp_all add: scheduler_current_pid_def)
  then obtain i where i: "first_slot s i (scheduler_current_pid s)" by (rule first_slot_exists)
  have "i < length (schedule_table s)" using first_slotD(1) [OF i] sched_wfD(1,3) [OF ty(1)] by simp
  then show ?thesis
    using exit_wf [OF ty(1) i assms(2)] assms(2) sched_wfD(1) [OF ty(1)]
    by (intro typed_same_pids [OF assms(1)]) (auto simp: scheduler_exit_slot [OF ty(1) i] nth_list_update)
qed

lemma typed_block:
  assumes "sched_typed s" "scheduler_block_current event s = Some s'"
  shows "sched_typed s'"
proof -
  note ty = sched_typedD [OF assms(1)]
  have "0 \<le> current_scheduled s"
    using assms(2) by (auto simp: scheduler_block_current_def entry_update_def entry_at_def split: if_splits)
  then have c: "current_scheduled s = int (nat (current_scheduled s))" "int (nat (current_scheduled s)) < num_scheduled s"
    using sched_wfD(5) [OF ty(1)] by simp_all
  have "nat (current_scheduled s) < length (schedule_table s)" using c(2) sched_wfD(1,3) [OF ty(1)] by linarith
  then show ?thesis
    using block_wf [OF ty(1) c assms(2)] assms(2) sched_wfD(1) [OF ty(1)]
    by (intro typed_same_pids [OF assms(1)]) (auto simp: block_current_eq [OF ty(1) c] nth_list_update)
qed

section \<open>Banks\<close>

text \<open>A loaded process has a bank that is marked as used, and no other process has it.\<close>

definition loaded :: "procdesc list \<Rightarrow> nat \<Rightarrow> bool" where
  "loaded t p \<longleftrightarrow> p < length t \<and> base_address (t ! p) \<noteq> 0"

definition banks_ok :: "procdesc list \<Rightarrow> mem \<Rightarrow> bool" where
  "banks_ok t m \<longleftrightarrow> mem_wf m \<and> num_pages m \<le> 255
     \<and> (\<forall>p. loaded t p \<longrightarrow> int (unat (bank (t ! p))) \<in> pages_used m)
     \<and> (\<forall>p q. loaded t p \<and> loaded t q \<and> p \<noteq> q \<longrightarrow> bank (t ! p) \<noteq> bank (t ! q))"

lemma banks_cong:
  assumes "banks_ok t m" "length t' = length t"
    and "\<And>p. p < length t \<Longrightarrow> base_address (t' ! p) = base_address (t ! p) \<and> bank (t' ! p) = bank (t ! p)"
  shows "banks_ok t' m"
proof -
  have "loaded t' p = loaded t p" for p using assms(2,3) by (auto simp: loaded_def)
  moreover have "bank (t' ! p) = bank (t ! p)" if "loaded t p" for p using that assms(3) by (auto simp: loaded_def)
  ultimately show ?thesis using assms(1) by (auto simp: banks_ok_def)
qed

lemma banks_load:
  assumes "banks_ok t m" "memory_allocate m = (page, m')" "0 \<le> page" "p < length t" "\<not> loaded t p" "bank d = of_int page"
  shows "banks_ok (t[p := d]) m'"
proof -
  have wf: "mem_wf m" "num_pages m \<le> 255" using assms(1) by (simp_all add: banks_ok_def)
  note used = pages_used_allocate [OF wf(1) assms(2)]
  have m': "mem_wf m'" "num_pages m' = num_pages m"
    using memory_allocate_wf [OF wf(1)] num_pages_memory_allocate [of m] assms(2) by simp_all
  have less: "page < num_pages m" using assms(2,3) by (cases m rule: memory_allocate_cases) auto
  obtain n where n: "page = int n" "n < 256" using less wf(2) assms(3) nonneg_int_cases [of page] by auto
  then have "unat (of_int page :: u8) = n" by (simp add: unsigned_of_nat take_bit_nat_eq_self)
  then have new: "int (unat (bank d)) = page" "page \<notin> pages_used m" "page \<in> pages_used m'"
    using used assms(3,6) n(1) by simp_all
  have old: "int (unat (bank (t ! q))) \<in> pages_used m" if "loaded t q" for q
    using that assms(1) by (simp add: banks_ok_def)
  have sub: "pages_used m \<subseteq> pages_used m'" using used(1) by auto
  have lo: "q \<noteq> p \<Longrightarrow> loaded (t[p := d]) q \<longleftrightarrow> loaded t q" for q by (auto simp: loaded_def)
  have apart: "bank (t ! q) \<noteq> bank d" if "loaded t q" for q
    using new(1,2) old [OF that] by metis
  show ?thesis
    unfolding banks_ok_def
  proof (intro conjI allI impI)
    show "mem_wf m'" "num_pages m' \<le> 255" using m' wf(2) by simp_all
    show "int (unat (bank (t[p := d] ! q))) \<in> pages_used m'" if "loaded (t[p := d]) q" for q
      using that new old lo sub assms(4) by (cases "q = p") auto
    show "bank (t[p := d] ! q) \<noteq> bank (t[p := d] ! r)"
      if r: "loaded (t[p := d]) q \<and> loaded (t[p := d]) r \<and> q \<noteq> r" for q r
    proof (cases "q = p \<or> r = p")
      case False
      then have "loaded t q \<and> loaded t r \<and> q \<noteq> r" using r lo by simp
      then show ?thesis using False assms(1) unfolding banks_ok_def by simp
    next
      case True
      then show ?thesis using r lo apart [of q] apart [of r] assms(4) by auto
    qed
  qed
qed

section \<open>The kernel\<close>

definition kernel_ok :: "kernel \<Rightarrow> bool" where
  "kernel_ok k \<longleftrightarrow> sched_typed k \<and> length (process_table k) = PROCS_MAX \<and> length (term_data k) = 256
     \<and> banks_ok (process_table k) (kmem k) \<and> fs_typed (kfs k)"

lemma sched_typed_fields:
  assumes "schedule_table s' = schedule_table s" "num_scheduled s' = num_scheduled s" "current_scheduled s' = current_scheduled s"
    "schedule_current_pid s' = schedule_current_pid s" "process_current_ptr s' = process_current_ptr s"
  shows "sched_typed s' = sched_typed s"
  by (simp add: sched_typed_def sched_wf_def assms)

text \<open>A change of other fields only.\<close>

lemma kernel_ok_fields:
  assumes "kernel_ok k" "schedule_table k' = schedule_table k" "num_scheduled k' = num_scheduled k"
    "current_scheduled k' = current_scheduled k" "schedule_current_pid k' = schedule_current_pid k"
    "process_current_ptr k' = process_current_ptr k" "process_table k' = process_table k" "length (term_data k') = length (term_data k)"
    "kmem k' = kmem k" "fs_typed (kfs k) \<Longrightarrow> fs_typed (kfs k')"
  shows "kernel_ok k'"
  using assms sched_typed_fields [OF assms(2-6)] by (simp add: kernel_ok_def)

lemma poke_term_data [simp]: "term_data (poke b a v k) = term_data k"
  by (simp add: poke_def)

lemma store_bytes_term_data [simp]: "term_data (store_bytes b a vs k) = term_data k"
  by (induction vs arbitrary: a k) simp_all

lemma ok_store [simp]: "kernel_ok k \<Longrightarrow> kernel_ok (store_bytes b a vs k)"
  by (erule kernel_ok_fields) simp_all

lemma ok_put [simp]: "kernel_ok k \<Longrightarrow> kernel_ok (put_bytes a vs k)"
  by (simp add: put_bytes_def)

lemma ok_files:
  "kernel_ok k \<Longrightarrow> fs_kept (kfs k) f \<Longrightarrow> kernel_ok (k\<lparr>kfs := f\<rparr>)"
  by (erule kernel_ok_fields) (simp_all add: fs_kept_def)

lemma ok_on_files:
  assumes "on_files call k = Some (r, k')" "kernel_ok k" "\<And>r f. call (kfs k) = Some (r, f) \<Longrightarrow> fs_kept (kfs k) f"
  shows "kernel_ok k'"
  using assms by (auto simp: on_files_def bind_eq_Some_conv intro: ok_files)

lemma ok_process_update:
  assumes "process_update p f k = Some k'" "kernel_ok k" "\<And>d. base_address (f d) = base_address d \<and> bank (f d) = bank d"
  shows "kernel_ok k'"
proof -
  obtain d where d: "k' = k\<lparr>process_table := (process_table k)[nat p := f d]\<rparr>" "d = process_table k ! nat p" "nat p < length (process_table k)"
    using assms(1) by (auto simp: process_update_def process_info_def split: if_splits)
  have old: "banks_ok (process_table k) (kmem k)" using assms(2) by (simp add: kernel_ok_def)
  have "banks_ok ((process_table k)[nat p := f d]) (kmem k)"
  proof (rule banks_cong [OF old])
    fix q assume "q < length (process_table k)"
    then show "base_address ((process_table k)[nat p := f d] ! q) = base_address (process_table k ! q)
        \<and> bank ((process_table k)[nat p := f d] ! q) = bank (process_table k ! q)"
      using assms(3) [of d] d(2,3) by (cases "nat p = q") simp_all
  qed simp
  moreover have "sched_typed k'" using assms(2) sched_typed_fields [of k' k] by (simp add: d(1) kernel_ok_def)
  ultimately show ?thesis using assms(2) by (simp add: d(1) kernel_ok_def)
qed

lemmas kernel_okD = kernel_ok_def [THEN iffD1]

section \<open>Terminal and signals\<close>

lemma ok_signal_set: "signal_set sig k = Some k' \<Longrightarrow> kernel_ok k \<Longrightarrow> kernel_ok k'"
  unfolding signal_set_def by (erule ok_process_update) simp_all

lemma ok_sethandler: "signal_sethandler h sig k = Some k' \<Longrightarrow> kernel_ok k \<Longrightarrow> kernel_ok k'"
  by (auto simp: signal_sethandler_def split: if_splits elim: ok_process_update)

lemma ok_set_mode: "terminal_set_mode m k = Some k' \<Longrightarrow> kernel_ok k \<Longrightarrow> kernel_ok k'"
  unfolding terminal_set_mode_def by (erule ok_process_update) simp_all

lemma ok_get_handler: "signal_get_handler k = Some (h, k') \<Longrightarrow> kernel_ok k \<Longrightarrow> kernel_ok k'"
  by (auto simp: signal_get_handler_def bind_eq_Some_conv split: if_splits elim: ok_process_update)

lemma ok_terminal_put: "terminal_put c k = Some k' \<Longrightarrow> kernel_ok k \<Longrightarrow> kernel_ok k'"
  by (auto simp: terminal_put_def bind_eq_Some_conv split: if_splits elim: ok_signal_set kernel_ok_fields)

lemma ok_terminal_get: "terminal_get k = Some (r, k') \<Longrightarrow> kernel_ok k \<Longrightarrow> kernel_ok k'"
  by (auto simp: terminal_get_def bind_eq_Some_conv split: if_splits elim: kernel_ok_fields)

section \<open>Processes\<close>

lemma ok_sched:
  assumes "kernel_ok k" "sched_typed k'" "process_table k' = process_table k" "length (term_data k') = length (term_data k)"
    "kmem k' = kmem k" "kfs k' = kfs k"
  shows "kernel_ok k'"
  using assms by (simp add: kernel_ok_def)

lemma ok_ram_bank_set [simp]: "kernel_ok k \<Longrightarrow> kernel_ok (ram_bank_set b k)"
  by (erule kernel_ok_fields) (simp_all add: ram_bank_set_def)

lemma ok_exit:
  assumes "process_exit code k = Some k'" "kernel_ok k" "0 \<le> current_scheduled k"
  shows "kernel_ok k'"
proof -
  have "sched_typed k'" using assms by (auto simp: process_exit_def kernel_ok_def intro: typed_exit)
  then show ?thesis using assms(1)
    by (intro ok_sched [OF assms(2)]) (auto simp: process_exit_def scheduler_exit_def scheduler_broadcast_event_def
        entry_update_def bind_eq_Some_conv split: option.splits)
qed

lemma ok_block:
  assumes "scheduler_block_current event k = Some k'" "kernel_ok k"
  shows "kernel_ok k'"
proof -
  have "sched_typed k'" using assms by (auto simp: kernel_ok_def intro: typed_block)
  then show ?thesis using assms(1)
    by (intro ok_sched [OF assms(2)]) (auto simp: scheduler_block_current_def entry_update_def split: option.splits)
qed

lemma ok_add:
  assumes "scheduler_add p k = (r, k')" "kernel_ok k" "0 \<le> p" "p < int PROCS_MAX"
  shows "kernel_ok k'"
proof -
  have "sched_typed k'" using assms by (auto simp: kernel_ok_def intro: typed_add)
  then show ?thesis using assms(1)
    by (intro ok_sched [OF assms(2)]) (auto simp: scheduler_add_def Let_def split: if_splits)
qed

lemma ok_spawn:
  assumes "process_spawn a0 v0 pd argv argc k = Some (r, k')" "kernel_ok k"
  shows "kernel_ok k'"
proof -
  obtain d k1 where d: "process_info pd k = Some d" "scheduler_add pd k1 = (r, k')" "kernel_ok k1"
    using assms by (auto simp: process_spawn_def bind_eq_Some_conv Let_def ram_copy_def split: if_splits prod.splits)
  then have "0 \<le> pd" "pd < int PROCS_MAX" using assms(2) by (auto simp: process_info_Some kernel_ok_def)
  then show ?thesis using ok_add [OF d(2,3)] by simp
qed

lemma ok_poke: "kernel_ok k \<Longrightarrow> kernel_ok (poke b a v k)"
  by (erule kernel_ok_fields) simp_all

lemma ok_initial_frame [simp]: "kernel_ok k \<Longrightarrow> kernel_ok (initial_frame b base k)"
  by (simp add: initial_frame_def Let_def ok_poke)

lemma ok_take_page:
  assumes "kernel_ok k" "memory_allocate (kmem k) = (page, m')" "0 \<le> page"
    and "process_update (process_allocate k) (\<lambda>d. d\<lparr>base_address := a, bank := of_int page\<rparr>) (k\<lparr>kmem := m'\<rparr>) = Some k'"
  shows "kernel_ok k'"
proof -
  let ?p = "process_allocate k"
  define i where "i = nat ?p"
  have "0 \<le> ?p" and i: "i < length (process_table k)"
    and k': "k' = k\<lparr>kmem := m', process_table := (process_table k)[i := (process_table k ! i)\<lparr>base_address := a, bank := of_int page\<rparr>]\<rparr>"
    using assms(4) by (auto simp: process_update_def process_info_def i_def split: if_splits)
  then have ip: "?p = int i" by (simp add: i_def)
  have "\<not> loaded (process_table k) i" using procslots.find_free [OF ip] by (simp add: loaded_def)
  then have "banks_ok (process_table k') (kmem k')"
    using banks_load [OF _ assms(2,3) i] assms(1) by (simp add: k' kernel_ok_def)
  moreover have "sched_typed k'" using assms(1) sched_typed_fields [of k' k] by (simp add: k' kernel_ok_def)
  ultimately show ?thesis using assms(1) by (simp add: k' kernel_ok_def)
qed

text \<open>What a call of \<open>process_load\<close> comes to: an error, with only the file system changed, or a descriptor and a page
  taken and the program stored in its bank.\<close>

lemma process_load_cases:
  assumes "process_load hp filename k = Some (r, k')"
  obtains (fails) f where "fs_kept (kfs k) f" "k' = k\<lparr>kfs := f\<rparr>"
    | (loads) f a base page m' k3 and d :: procdesc and data f3 where
      "fs_kept (kfs k) f" "memory_allocate (kmem k) = (page, m')" "0 \<le> page"
      "process_update (process_allocate k) (\<lambda>d. d\<lparr>base_address := a, bank := of_int page\<rparr>) (k\<lparr>kfs := f, kmem := m'\<rparr>) = Some k3"
      "process_info (process_allocate k) k3 = Some d" "fs_kept (kfs k3) f3"
      "process_update (process_allocate k) (\<lambda>d. d\<lparr>termstatus := 0, sigstatus := 0, sighandlers := \<lparr>cancel = 0, brk = 0\<rparr>\<rparr>)
        (ram_bank_set (bank_current k3) (initial_frame (bank d) base
          (store_bytes (bank d) a data ((ram_bank_set (bank d) k3)\<lparr>kfs := f3\<rparr>)))) = Some k'"
      "r = process_allocate k" "user_area a (length data)"
proof -
  obtain fd fs1 where op: "file_open filename FMODE_READ (kfs k) = Some (fd, fs1)"
    using assms by (auto simp: process_load_def bind_eq_Some_conv)
  note k1 = kept_open [OF op]
  show thesis
  proof (cases "fd < 0")
    case True
    then show thesis using assms op k1 by (intro fails) (auto simp: process_load_def)
  next
    case False
    then obtain header fs2 where rd: "file_read hp 2 fd fs1 = Some (header, fs2)"
      using assms op by (auto simp: process_load_def bind_eq_Some_conv)
    have k2: "fs_kept (kfs k) fs2" using k1 kept_read [OF rd] by (rule fs_kept_trans)
    let ?k2 = "k\<lparr>kfs := fs2\<rparr>"
    have pa: "process_allocate ?k2 = process_allocate k" by (simp add: process_allocate_def)
    show thesis
    proof (cases "length header \<noteq> 2 \<or> header ! 0 \<noteq> PHDR_ID_EXEC \<or> header ! 1 < USER_RAM_START_PAGE")
      case True
      then show thesis using assms op rd False k2
        by (intro fails) (auto simp: process_load_def bind_eq_Some_conv Let_def split: if_splits)
    next
      case rest: False
      obtain page m' where m': "memory_allocate (kmem ?k2) = (page, m')" by force
      let ?a = "push_bit 8 (ucast (header ! 1) :: u16)"
      from assms op rd False rest m' obtain k3 and d :: procdesc and data fs3 where
        k3: "process_update (process_allocate ?k2) (\<lambda>d. d\<lparr>base_address := ?a, bank := of_int page\<rparr>) (?k2\<lparr>kmem := m'\<rparr>) = Some k3"
        and d: "process_info (process_allocate ?k2) k3 = Some d"
        and rd3: "file_read ?a PROGRAM_KB_LIMIT fd (kfs k3) = Some (data, fs3)"
        and k8: "process_update (process_allocate ?k2) (\<lambda>d. d\<lparr>termstatus := 0, sigstatus := 0, sighandlers := \<lparr>cancel = 0, brk = 0\<rparr>\<rparr>)
          (ram_bank_set (bank_current k3) (initial_frame (bank d) (header ! 1)
            (store_bytes (bank d) ?a data ((ram_bank_set (bank d) k3)\<lparr>kfs := fs3\<rparr>)))) = Some k'"
          "r = process_allocate ?k2" and fits: "0 \<le> page" "unat ?a + length data \<le> 0x10000"
        by (auto simp: process_load_def bind_eq_Some_conv Let_def split: if_splits)
      have "0x8000 \<le> unat ?a" using rest base_addr_unat [of "header ! 1"] by (simp add: word_less_nat_alt)
      with fits have "user_area ?a (length data)" by (simp add: user_area_def)
      with m' k3 d k8 fits(1) show thesis
        by (intro loads [OF k2, where a = ?a and page = page and m' = m' and ?k3.0 = k3 and d = d and data = data,
              OF _ _ _ _ kept_read [OF rd3]])
          (simp_all add: pa)
    qed
  qed
qed

lemma ok_load:
  assumes "process_load hp filename k = Some (r, k')" "kernel_ok k"
  shows "kernel_ok k'"
  using assms(1)
proof (cases rule: process_load_cases)
  case (fails f)
  then show ?thesis using assms(2) by (simp add: ok_files)
next
  case (loads f a base page m' k3 d data f3)
  have "kernel_ok k3"
    using ok_take_page [of "k\<lparr>kfs := f\<rparr>" page m'] ok_files [OF assms(2) loads(1)] loads(2-4) by (simp add: process_allocate_def)
  then have "kernel_ok ((ram_bank_set (bank d) k3)\<lparr>kfs := f3\<rparr>)" using loads(6) by (intro ok_files) simp_all
  then show ?thesis by (intro ok_process_update [OF loads(7)]) simp_all
qed

lemma ok_tick:
  assumes "scheduler_tick k = Some (b, k')" "kernel_ok k"
  shows "kernel_ok k'" "0 \<le> current_scheduled k'"
proof -
  obtain p where p: "scheduler_next k = Some (p, k')" using assms(1) by (auto simp: scheduler_tick_def bind_eq_Some_conv)
  have "sched_typed k'" "0 \<le> current_scheduled k'" using typed_next [OF _ p] assms(2) by (simp_all add: kernel_ok_def)
  then show "kernel_ok k'" "0 \<le> current_scheduled k'"
    using p by (auto intro!: ok_sched [OF assms(2)] simp: scheduler_next_def demote_current_def entry_update_def bind_eq_Some_conv
        Let_def process_set_current_def split: option.splits if_splits)
qed

lemma ok_user_store: "user_store a bs k = Some k' \<Longrightarrow> kernel_ok k \<Longrightarrow> kernel_ok k'"
  by (auto simp: user_store_def split: if_splits)

lemma ok_stack_store: "stack_store a bs k = Some k' \<Longrightarrow> kernel_ok k \<Longrightarrow> kernel_ok k'"
  by (auto simp: stack_store_def ok_user_store split: if_splits)

text \<open>The steps of the timer interrupt.\<close>

lemma timer_parts:
  assumes "timer_handler False registers sp k = Some (r, k')"
  obtains (parts) k1 b k3 h k4 where "stack_store (sp - 12) registers k = Some k1"
    "scheduler_tick (put_bytes 0xfffe (put16 (sp - 12)) k1) = Some (b, k3)"
    "signal_get_handler (ram_bank_set b k3) = Some (h, k4)"
    "h = 0 \<Longrightarrow> r = (0, fetch_bytes 12 k4 (fetch_word k4 0xfffe), fetch_word k4 0xfffe + 12) \<and> k' = k4"
    "h \<noteq> 0 \<Longrightarrow> \<exists>k5. user_store (fetch_word k4 0xfffe + 12) (put16 h) k4 = Some k5
       \<and> user_store (fetch_word k4 0xfffe - 2) (fetch_bytes 2 k4 (fetch_word k4 0xfffe + 12)) k5 = Some k'
       \<and> r = (h, fetch_bytes 8 k' (fetch_word k4 0xfffe) @ fetch_bytes 2 k' (fetch_word k4 0xfffe - 2)
              @ fetch_bytes 2 k' (fetch_word k4 0xfffe + 10), fetch_word k4 0xfffe + 12)"
proof -
  obtain k1 where k1: "stack_store (sp - 12) registers k = Some k1"
    using assms by (auto simp: timer_handler_def bind_eq_Some_conv)
  obtain b k3 where k3: "scheduler_tick (put_bytes 0xfffe (put16 (sp - 12)) k1) = Some (b, k3)"
    using assms k1 by (auto simp: timer_handler_def bind_eq_Some_conv Let_def)
  obtain h k4 where k4: "signal_get_handler (ram_bank_set b k3) = Some (h, k4)"
    using assms k1 k3 by (auto simp: timer_handler_def bind_eq_Some_conv Let_def)
  note eq = assms [unfolded timer_handler_def Let_def, simplified, unfolded k1, simplified, unfolded k3, simplified,
      unfolded k4, simplified]
  show thesis
    by (rule parts [OF k1 k3 k4]) (use eq in \<open>auto simp: bind_eq_Some_conv\<close>)
qed

lemma ok_timer:
  assumes "timer_handler False registers sp k = Some (r, k')" "kernel_ok k"
  shows "kernel_ok k'"
  using assms(1)
proof (cases rule: timer_parts)
  case (parts k1 b k3 h k4)
  have "kernel_ok k4"
    using ok_get_handler [OF parts(3)] ok_tick(1) [OF parts(2)] ok_stack_store [OF parts(1) assms(2)] by simp
  then show ?thesis using parts(4,5) by (cases "h = 0") (auto elim: ok_user_store)
qed

section \<open>Events\<close>

lemma ok_syscall:
  assumes "syscall_handler l c k = Some (r, k')" "kernel_ok k" "0 \<le> current_scheduled k"
  shows "kernel_ok k'"
proof (cases c)
  case (Fread ptr n fd)
  with assms show ?thesis
    by (auto simp: bind_eq_Some_conv dest: kept_read elim!: ok_user_store ok_on_files)
next
  case (Finfo name ptr)
  with assms(1) obtain i k1 where i: "on_files (file_info (fetch_bytes 12 k name)) k = Some (i, k1)"
      "(case i of Inl e \<Rightarrow> Some (e, k1) | Inr f \<Rightarrow> map_option (Pair 0) (user_store ptr (finfo_bytes f) k1)) = Some (r, k')"
    by (auto simp: bind_eq_Some_conv)
  have "kernel_ok k1" by (rule ok_on_files [OF i(1) assms(2)]) (rule kept_info)
  then show ?thesis using i(2) by (cases i) (auto elim: ok_user_store)
next
  case (Fentry ptr e)
  with assms show ?thesis
    by (auto simp: bind_eq_Some_conv intro!: ok_files dest: kept_entry elim!: ok_user_store split: if_splits)
next
  case (Fclose fd)
  with assms show ?thesis by (auto simp: bind_eq_Some_conv intro!: ok_files dest: kept_close)
next
  case Sinvalid
  with assms show ?thesis by (auto elim: kernel_ok_fields)
next
  case (Fopen name m)
  with assms show ?thesis by (auto elim!: ok_on_files dest: kept_open)
next
  case (Fdelete name)
  with assms show ?thesis by (auto elim!: ok_on_files dest: kept_delete)
next
  case (Fwrite ptr n fd)
  with assms show ?thesis by (auto simp: bind_eq_Some_conv elim!: ok_on_files dest: kept_file_write)
next
  case Fentries
  with assms show ?thesis by (auto simp: bind_eq_Some_conv elim!: ok_on_files dest: kept_entries)
qed (use assms in \<open>auto elim: ok_terminal_get ok_spawn ok_sethandler ok_load ok_set_mode ok_exit ok_block\<close>)

lemma ok_step:
  assumes "kernel_step l ev k k'" "kernel_ok k"
  shows "kernel_ok k'"
  using assms
  by (cases ev) (auto simp: kernel_step_def serial_read_handler_def
      elim: ok_syscall ok_terminal_put ok_timer intro: ok_poke kernel_ok_fields)

section \<open>Boot\<close>

text \<open>All that is needed of the memory at power-on is that arrays have their length. It stays so, whatever happens.\<close>

definition array_sizes :: "kernel \<Rightarrow> bool" where
  "array_sizes k \<longleftrightarrow> length (schedule_table k) = MAX_SCHEDULED \<and> length (process_table k) = PROCS_MAX
     \<and> length (term_data k) = 256 \<and> length (page_table (kmem k)) = PAGES_MAX
     \<and> (\<forall>n. length (disk (kfs k) n) = SECTOR_SIZE) \<and> (\<forall>f \<in> set (fdtable (kfs k)). length (fd_name f) = 13)
     \<and> entry_wf (close_entry (kfs k))"

lemma ok_array_sizes: "kernel_ok k \<Longrightarrow> array_sizes k"
  by (simp add: array_sizes_def kernel_ok_def sched_typed_def sched_wf_def banks_ok_def mem_wf_def fs_typed_def fs_wf_def)

lemma filesystem_init_typed:
  assumes "array_sizes k"
  shows "fs_typed (snd (filesystem_init (kfs k)))"
  using assms by (auto simp: array_sizes_def fs_typed_def fs_wf_def filesystem_init_def Let_def fdtable_init_def filesystem_calc_num_sectors_def
      filesystem_calc_data_region_def filesystem_calc_root_region_def filesystem_calc_fat_region_def disk_read_def)

lemma memory_init_banks:
  assumes "memory_init (int (unat (banks :: u8))) m = Some (e, m')" "length (page_table m) = PAGES_MAX"
  shows "mem_wf m'" "num_pages m' \<le> 255"
proof -
  have b: "int (unat banks) \<le> 255" using unsigned_less [of banks, where 'a = int] by simp
  then have e: "e = 0" "num_pages m' = int (unat banks)" using assms(1) by (auto simp: memory_init_def)
  then show "mem_wf m'" "num_pages m' \<le> 255" using assms b memory_init_wf by simp_all
qed

lemma ok_boot:
  assumes "kernel_main a0 v0 hp banks k0 = Some (pd, k)" "array_sizes k0" "0 \<le> pd"
  shows "kernel_ok k"
proof -
  let ?fs = "snd (filesystem_init (kfs k0))"
  obtain e m1 where m1: "memory_init (int (unat banks)) (kmem k0) = Some (e, m1)"
    using assms(1) by (auto simp: kernel_main_def bind_eq_Some_conv Let_def)
  note wf = memory_init_banks [OF m1]
  define k4 where "k4 = terminal_init (scheduler_init (process_init ((ram_bank_set (banks - 1)
    (k0\<lparr>kfs := ?fs, numbanks := ucast banks\<rparr>))\<lparr>kmem := m1\<rparr>)))\<lparr>startup_flags := 0\<rparr>"
  have "kernel_ok k4"
    using wf assms(2) filesystem_init_typed [OF assms(2)]
    by (auto simp: kernel_ok_def k4_def terminal_init_def scheduler_init_def process_init_def array_sizes_def sched_typed_def
        sched_wf_def banks_ok_def loaded_def ram_bank_set_def)
  moreover obtain k5 e2 where k5: "process_load hp COMMAND_EXE k4 = Some (pd, k5)"
      "process_spawn a0 v0 pd [] 0 k5 = Some (e2, k)"
    using assms(1,3) m1 by (auto simp: kernel_main_def k4_def [symmetric] Let_def bind_eq_Some_conv split: if_splits)
  ultimately show ?thesis using ok_load ok_spawn by blast
qed

lemma reachable_ok:
  assumes "kernel_reachable l k0 k" "array_sizes k0"
  shows "kernel_ok k"
  using assms(1)
proof (induction rule: kernel_reachable.induct)
  case (boot banks pd k)
  then show ?case using ok_boot assms(2) by blast
next
  case (step k ev k')
  then show ?case using ok_step by blast
next
  case (restart k k1 banks m pd k')
  have "kernel_ok (k1\<lparr>banked := m\<rparr>)"
    using ok_step [OF restart(2,5)] by (rule kernel_ok_fields) simp_all
  then show ?case using ok_boot restart(3,4) ok_array_sizes by blast
qed

text \<open>In such a state the terminal interrupt always succeeds once a process runs.\<close>

lemma ok_current:
  assumes "kernel_ok k" "0 \<le> current_scheduled k"
  shows "process_info (process_current_ptr k) k = Some (process_table k ! nat (process_current_ptr k))"
    "process_current k = Some (process_table k ! nat (process_current_ptr k))"
  using typed_current [of k] assms by (simp_all add: kernel_ok_def process_current_def process_info_Some nat_less_iff)

lemma terminal_put_defined:
  assumes "kernel_ok k" "0 \<le> current_scheduled k"
  shows "serial_read_handler c k \<noteq> None"
proof -
  note d = ok_current [OF assms]
  have "signal_set SIGSTAT_CANCEL k \<noteq> None" using d(1) by (simp add: signal_set_def)
  moreover have "unat (term_head k) < length (term_data k)"
    using assms(1) unat_u8_less [of "term_head k"] by (simp add: kernel_ok_def)
  ultimately show ?thesis using d(2) by (auto simp: serial_read_handler_def terminal_put_def terminal_status_def)
qed

text \<open>The calls that have a result whatever their arguments are.\<close>

fun total_call :: "syscall \<Rightarrow> bool" where
  "total_call (Swrite s count) = True" | "total_call Sread = True" | "total_call Dinfo = True"
| "total_call (Sighandle h sig) = True" | "total_call (Smode m) = True" | "total_call Sysinfo = True"
| "total_call (Pexit code) = True" | "total_call (Pblock event) = True" | "total_call Sinvalid = True"
| "total_call c = False"

lemma total_call_defined:
  assumes "kernel_ok k" "0 \<le> current_scheduled k" "total_call c"
  shows "syscall_handler l c k \<noteq> None"
proof -
  note d = ok_current [OF assms(1,2)]
  have ty: "sched_typed k" using assms(1) by (simp add: kernel_ok_def)
  note wf = sched_wfD [OF sched_typedD(1) [OF ty]]
  have c: "current_scheduled k = int (nat (current_scheduled k))" "int (nat (current_scheduled k)) < num_scheduled k"
    "pid (schedule_table k ! nat (current_scheduled k)) = scheduler_current_pid k"
    using wf(5,8) assms(2) by (simp_all add: scheduler_current_pid_def)
  from c(2,3) obtain i where i: "first_slot k i (scheduler_current_pid k)" by (rule first_slot_exists)
  have "terminal_get k \<noteq> None"
    using assms(1) unat_u8_less [of "term_tail k"] by (auto simp: terminal_get_def kernel_ok_def rd_def)
  moreover have "signal_sethandler h sig k \<noteq> None" for h sig
    using d(1) by (simp add: signal_sethandler_def del: not_None_eq)
  moreover have "terminal_set_mode m k \<noteq> None" for m
    using d(1) by (simp add: terminal_set_mode_def)
  moreover have "process_exit code k \<noteq> None" for code
    by (simp add: process_exit_def scheduler_exit_slot [OF sched_typedD(1) [OF ty] i])
  moreover have "scheduler_block_current event k \<noteq> None" for event
    by (simp add: block_current_eq [OF sched_typedD(1) [OF ty] c(1,2)])
  ultimately show ?thesis using assms(3) by (cases c) auto
qed

text \<open>\<open>pstate\<close> and \<open>pexitcode\<close> have a result when some entry of the table has the identifier.\<close>

lemma lookup_defined:
  assumes "kernel_ok k"
  shows "scheduler_state p k \<noteq> None \<longleftrightarrow> p \<in> pid ` set (schedule_table k)"
    "scheduler_exitcode p k \<noteq> None \<longleftrightarrow> p \<in> pid ` set (schedule_table k)"
proof -
  have "entry_at (scheduler_entry p k) k \<noteq> None \<longleftrightarrow> p \<in> pid ` set (schedule_table k)"
  proof (cases "first_idx (\<lambda>e. pid e = p) (schedule_table k)")
    case None
    then have "scheduler_entry p k = -1" by (simp only: scheduler_entry_def c_index_simps)
    moreover have "p \<notin> pid ` set (schedule_table k)" using None by auto
    ultimately show ?thesis by (simp add: entry_at_def)
  next
    case (Some i)
    note f = first_idxD [OF Some]
    have "schedule_table k ! i \<in> set (schedule_table k)" "pid (schedule_table k ! i) = p" using f by simp_all
    then have "p \<in> pid ` set (schedule_table k)" by blast
    then show ?thesis using Some f by (simp add: scheduler_entry_def entry_at_def)
  qed
  then show "scheduler_state p k \<noteq> None \<longleftrightarrow> p \<in> pid ` set (schedule_table k)"
    "scheduler_exitcode p k \<noteq> None \<longleftrightarrow> p \<in> pid ` set (schedule_table k)"
    by (simp_all add: scheduler_state_def scheduler_exitcode_def)
qed

text \<open>The calls with a descriptor of a file or process.\<close>

lemma descriptor_in_table:
  assumes "kernel_ok k"
  shows "syscall_handler l (Pspawn pd argv argc) k \<noteq> None \<Longrightarrow> 0 \<le> pd \<and> pd < int PROCS_MAX"
    "syscall_handler l (Fclose fd) k \<noteq> None \<Longrightarrow> 0 \<le> fd \<and> nat fd < length (fdtable (kfs k))"
proof -
  show "0 \<le> pd \<and> pd < int PROCS_MAX" if "syscall_handler l (Pspawn pd argv argc) k \<noteq> None"
    using that assms by (auto simp: process_spawn_def process_info_Some kernel_ok_def bind_eq_Some_conv split: if_splits)
  show "0 \<le> fd \<and> nat fd < length (fdtable (kfs k))" if "syscall_handler l (Fclose fd) k \<noteq> None"
    using that by (auto simp: file_close_def fd_at_def rd_def bind_eq_Some_conv split: if_splits)
qed

text \<open>The timer interrupt finds a task when one is READY or RUNNING and the stack pointer is in the upper half, if no signal
  is pending.\<close>

lemma tick_defined:
  assumes "kernel_ok k"
  shows "scheduler_tick k \<noteq> None \<longleftrightarrow> (\<exists>i. int i < num_scheduled k \<and> runnable k i)"
proof -
  have ty: "sched_typed k" and len: "length (process_table k) = PROCS_MAX" using assms by (simp_all add: kernel_ok_def)
  from sched_typedD(1) [OF ty] show ?thesis
  proof (cases rule: scheduler_next_cases)
    case stuck
    then show ?thesis by (auto simp: scheduler_tick_def)
  next
    case (runs i)
    have "process_info (pid (schedule_table k ! i)) (run_slot i k) \<noteq> None"
      using sched_typedD(3) [OF ty runs(4)] len by (simp add: process_info_def run_slot_def Let_def nat_less_iff)
    then show ?thesis using runs by (auto simp: scheduler_tick_def)
  qed
qed

end
