(* ===== verification/Kernel_Isolation.thy ===== *)
theory Kernel_Isolation
  imports Kernel_Invariant
begin

text \<open>
  Which banks an event of the kernel writes: the one that is selected before or after it, the one of a program that is
  started, and a fresh page. So the bank of a loaded process stays as it is while the process does not run, and the process
  finds its context when it is selected again.
\<close>

section \<open>Which banks an event writes\<close>

lemma store_bytes_other: "b \<noteq> c \<Longrightarrow> banked (store_bytes c a vs k) b = banked k b"
  by (induction vs arbitrary: a k) (auto simp: poke_def)

lemma put_bytes_other: "b \<noteq> bank_current k \<Longrightarrow> banked (put_bytes a vs k) b = banked k b"
  by (simp add: put_bytes_def store_bytes_other)

lemma put_bytes_fields [simp]:
  "kmem (put_bytes a vs k) = kmem k" "kfs (put_bytes a vs k) = kfs k" "bank_current (put_bytes a vs k) = bank_current k"
  "process_table (put_bytes a vs k) = process_table k" "process_current_ptr (put_bytes a vs k) = process_current_ptr k"
  by (simp_all add: put_bytes_def)

lemma initial_frame_other: "b \<noteq> c \<Longrightarrow> banked (initial_frame c base k) b = banked k b"
  by (simp add: initial_frame_def Let_def poke_def)

lemma process_update_fields:
  "process_update p f k = Some k' \<Longrightarrow> banked k' = banked k \<and> bank_current k' = bank_current k"
  by (auto simp: process_update_def split: option.splits)

lemma on_files_fields:
  "on_files call k = Some (r, k') \<Longrightarrow> banked k' = banked k \<and> bank_current k' = bank_current k \<and> process_table k' = process_table k"
  by (auto simp: on_files_def bind_eq_Some_conv)

lemma terminal_put_fields:
  "terminal_put c k = Some k' \<Longrightarrow> banked k' = banked k \<and> bank_current k' = bank_current k"
  by (auto simp: terminal_put_def signal_set_def bind_eq_Some_conv split: if_splits dest: process_update_fields)

lemma get_handler_fields:
  "signal_get_handler k = Some (h, k') \<Longrightarrow> banked k' = banked k \<and> bank_current k' = bank_current k"
  by (auto simp: signal_get_handler_def bind_eq_Some_conv split: if_splits dest: process_update_fields)

lemma entry_update_fields:
  "entry_update i f k = Some k' \<Longrightarrow> banked k' = banked k \<and> process_table k' = process_table k"
  by (auto simp: entry_update_def split: option.splits)

lemma demote_fields: "demote_current k = Some k' \<Longrightarrow> banked k' = banked k \<and> process_table k' = process_table k"
  by (auto simp: demote_current_def split: if_splits option.split_asm dest: entry_update_fields)

lemma scheduler_tick_fields:
  assumes "scheduler_tick k = Some (b, k')"
  shows "banked k' = banked k \<and> process_table k' = process_table k \<and> b = bank (process_table k ! nat (process_current_ptr k'))"
proof -
  obtain p where p: "scheduler_next k = Some (p, k')" "process_info p k' \<noteq> None" "b = bank (the (process_info p k'))"
    using assms by (auto simp: scheduler_tick_def bind_eq_Some_conv)
  then obtain k1 c k2 where s: "demote_current k = Some k1"
      "entry_update c (\<lambda>e. e\<lparr>state := TASK_RUNNING\<rparr>) (k1\<lparr>current_scheduled := c\<rparr>) = Some k2"
      "k' = process_set_current p (k2\<lparr>schedule_current_pid := p\<rparr>)"
    by (auto simp: scheduler_next_def bind_eq_Some_conv Let_def)
  show ?thesis
    using demote_fields [OF s(1)] entry_update_fields [OF s(2)] p(2,3)
    by (simp add: s(3) process_set_current_def process_info_def split: if_splits)
qed

lemma scheduler_add_fields:
  "scheduler_add p k = (r, k') \<Longrightarrow> banked k' = banked k \<and> process_table k' = process_table k \<and> bank_current k' = bank_current k"
  by (simp only: scheduler_add_def Let_def split: if_splits) auto

lemma spawn_fields:
  assumes "process_spawn a0 v0 pd argv argc k = Some (r, k')"
  shows "process_table k' = process_table k" "bank (process_table k ! nat pd) \<noteq> b \<Longrightarrow> banked k' b = banked k b"
    "0 \<le> pd \<and> nat pd < length (process_table k)"
proof -
  obtain ab av and d :: procdesc where d: "process_info pd k = Some d"
      "scheduler_add pd (store_bytes (bank d) 0xf820 ab (store_bytes (bank d) 0xf810 av (store_bytes (bank d) 0xf800 (put16 argc) k))) = (r, k')"
    using assms by (auto simp: process_spawn_def bind_eq_Some_conv Let_def ram_copy_def split: if_splits prod.splits)
  note add = scheduler_add_fields [OF d(2)]
  show "process_table k' = process_table k" using add by simp
  show "banked k' b = banked k b" if "bank (process_table k ! nat pd) \<noteq> b"
    using add d(1) that by (auto simp: process_info_Some store_bytes_other)
  show "0 \<le> pd \<and> nat pd < length (process_table k)" using d(1) by (simp add: process_info_Some)
qed

lemma load_other:
  assumes "process_load hp filename k = Some (r, k')" "of_int (fst (memory_allocate (kmem k))) \<noteq> b"
  shows "banked k' b = banked k b"
  using assms(1)
proof (cases rule: process_load_cases)
  case (loads f a base page m' k3 d data f3)
  have "bank d = of_int page" using loads(5) process_info_update [OF loads(4)] by (auto simp: process_info_def split: if_splits)
  then have "b \<noteq> bank d" using assms(2) loads(2) by simp
  then show ?thesis
    using process_update_fields [OF loads(7)] process_update_fields [OF loads(4)] by (simp add: initial_frame_other store_bytes_other)
qed simp

lemma banks_used:
  "banks_ok t m \<Longrightarrow> loaded t p \<Longrightarrow> int (unat (bank (t ! p))) \<in> pages_used m"
  unfolding banks_ok_def by blast

lemma banks_apart:
  "banks_ok t m \<Longrightarrow> loaded t p \<Longrightarrow> loaded t q \<Longrightarrow> p \<noteq> q \<Longrightarrow> bank (t ! p) \<noteq> bank (t ! q)"
  unfolding banks_ok_def by blast

text \<open>A page that \<open>memory_allocate\<close> hands out is not the bank of a loaded process.\<close>

lemma fresh_page:
  assumes "kernel_ok k" "loaded (process_table k) q" "memory_allocate (kmem k) = (page, m')" "0 \<le> page"
  shows "of_int page \<noteq> bank (process_table k ! q)"
proof
  assume eq: "of_int page = bank (process_table k ! q)"
  have wf: "mem_wf (kmem k)" "num_pages (kmem k) \<le> 255"
    and used: "int (unat (bank (process_table k ! q))) \<in> pages_used (kmem k)"
    using assms(1) banks_used [OF _ assms(2)] by (simp_all add: kernel_ok_def banks_ok_def)
  show False
  proof (cases "kmem k" rule: memory_allocate_cases)
    case full
    then show False using assms(3,4) by simp
  next
    case (page i)
    then have i: "i < 256" "page = int i" using wf(2) assms(3) by simp_all
    then have "unat (bank (process_table k ! q)) = i"
      using eq by (simp flip: eq add: unsigned_of_nat take_bit_nat_eq_self)
    then show False using used page(4) by (simp add: pages_used_def)
  qed
qed

lemma load_keeps_bank:
  assumes "process_load hp filename k = Some (r, k')" "kernel_ok k" "loaded (process_table k) q"
    "bank (process_table k ! q) = b"
  shows "banked k' b = banked k b"
  using assms(1)
proof (cases rule: process_load_cases)
  case (loads f a base page m' k3 d data f3)
  have "of_int page \<noteq> b" using fresh_page [OF assms(2,3) loads(2,3)] assms(4) by simp
  then show ?thesis using load_other [OF assms(1)] loads(2) by simp
qed simp

lemma user_store_other: "user_store a bs k = Some k' \<Longrightarrow> b \<noteq> bank_current k \<Longrightarrow> banked k' b = banked k b"
  by (auto simp: user_store_def put_bytes_other split: if_splits)

lemma user_store_fields:
  "user_store a bs k = Some k' \<Longrightarrow> bank_current k' = bank_current k \<and> process_table k' = process_table k"
  by (auto simp: user_store_def split: if_splits)

lemma stack_store_other: "stack_store a bs k = Some k' \<Longrightarrow> b \<noteq> bank_current k \<Longrightarrow> banked k' b = banked k b"
  by (auto simp: stack_store_def put_bytes_other user_store_other split: if_splits)

lemma stack_store_fields:
  "stack_store a bs k = Some k' \<Longrightarrow> bank_current k' = bank_current k \<and> process_table k' = process_table k"
  by (auto simp: stack_store_def user_store_fields split: if_splits)

lemma syscall_other:
  assumes "syscall_handler l c k = Some (r, k')" "b \<noteq> bank_current k"
    and "kernel_ok k" "loaded (process_table k) q" "bank (process_table k ! q) = b"
    and "\<And>pd argv argc. c = Pspawn pd argv argc \<Longrightarrow> bank (process_table k ! nat pd) \<noteq> b"
  shows "banked k' b = banked k b"
proof (cases c)
  case (Finfo name ptr)
  with assms(1) obtain i k1 where i: "on_files (file_info (fetch_bytes 12 k name)) k = Some (i, k1)"
      "(case i of Inl e \<Rightarrow> Some (e, k1) | Inr f \<Rightarrow> map_option (Pair 0) (user_store ptr (finfo_bytes f) k1)) = Some (r, k')"
    by (auto simp: bind_eq_Some_conv)
  then show ?thesis using on_files_fields [OF i(1)] assms(2) by (cases i) (auto simp: user_store_other)
next
  case (Pspawn pd argv argc)
  then show ?thesis using assms(1,6) by (auto dest: spawn_fields(2))
next
  case (Pload name)
  then show ?thesis using assms(1) load_keeps_bank [OF _ assms(3-5)] by auto
next
  case Sread
  then show ?thesis using assms(1) by (auto simp: terminal_get_def bind_eq_Some_conv split: if_splits)
next
  case (Sighandle h sig)
  then show ?thesis using assms(1) by (auto simp: signal_sethandler_def split: if_splits dest: process_update_fields)
next
  case (Smode m)
  then show ?thesis using assms(1) by (auto simp: terminal_set_mode_def dest: process_update_fields)
next
  case (Pexit code)
  then show ?thesis
    using assms(1) by (auto simp: process_exit_def scheduler_exit_def scheduler_broadcast_event_def bind_eq_Some_conv dest: entry_update_fields)
next
  case (Pblock event)
  then show ?thesis using assms(1) by (auto simp: scheduler_block_current_def dest: entry_update_fields)
next
  case (Fread ptr n fd)
  with assms(1,2) show ?thesis by (auto simp: bind_eq_Some_conv user_store_other dest!: on_files_fields)
next
  case (Fentry ptr e)
  with assms(1,2) show ?thesis by (auto simp: bind_eq_Some_conv user_store_other split: if_splits)
qed (use assms(1) in \<open>auto simp: bind_eq_Some_conv dest!: on_files_fields\<close>)

lemma signal_stores_other:
  assumes "user_store a bs k = Some k5" "user_store a' bs' k5 = Some k'" "b \<noteq> bank_current k"
  shows "banked k' b = banked k b"
  using user_store_other [OF assms(1,3)] user_store_other [OF assms(2)] user_store_fields [OF assms(1)] assms(3) by simp

lemma timer_other:
  assumes "timer_handler False registers sp k = Some (r, k')" "b \<noteq> bank_current k" "b \<noteq> bank_current k'"
  shows "banked k' b = banked k b"
  using assms(1)
proof (cases rule: timer_parts)
  case (parts k1 c k3 h k4)
  have k4: "banked k4 b = banked k b"
    using get_handler_fields [OF parts(3)] scheduler_tick_fields [OF parts(2)] stack_store_other [OF parts(1) assms(2)]
      stack_store_fields [OF parts(1)] assms(2) by (simp add: put_bytes_other)
  show ?thesis
  proof (cases "h = 0")
    case False
    then obtain k5 where k5: "user_store (fetch_word k4 0xfffe + 12) (put16 h) k4 = Some k5"
        "user_store (fetch_word k4 0xfffe - 2) (fetch_bytes 2 k4 (fetch_word k4 0xfffe + 12)) k5 = Some k'"
      using parts(5) by blast
    have "bank_current k' = bank_current k4"
      using user_store_fields [OF k5(1)] user_store_fields [OF k5(2)] by simp
    then show ?thesis using signal_stores_other [OF k5] assms(3) k4 by simp
  qed (use parts(4) k4 in simp)
qed

text \<open>An event leaves the bank of a loaded process alone, unless it is selected before or after the event, or the event
  is a \<open>pspawn\<close> of a descriptor with this bank.\<close>

lemma step_other:
  assumes "kernel_ok k" "kernel_step l ev k k'" "loaded (process_table k) q" "bank (process_table k ! q) = b"
    and "b \<noteq> bank_current k" "b \<noteq> bank_current k'"
    and "\<And>pd argv argc. ev = Call (Pspawn pd argv argc) \<Longrightarrow> bank (process_table k ! nat pd) \<noteq> b"
  shows "banked k' b = banked k b"
proof (cases ev)
  case (Call c)
  then obtain r where "syscall_handler l c k = Some (r, k')" using assms(2) by (auto simp: kernel_step_def)
  then show ?thesis using assms(5) assms(1,3,4) by (rule syscall_other) (use assms(7) Call in blast)
next
  case (Arrive c)
  then show ?thesis using assms(2) by (auto simp: kernel_step_def serial_read_handler_def dest: terminal_put_fields)
next
  case (Tick registers sp)
  then obtain r where "timer_handler False registers sp k = Some (r, k')" using assms(2) by (auto simp: kernel_step_def)
  then show ?thesis using assms(5,6) by (rule timer_other)
next
  case (Store a v)
  then show ?thesis using assms(2,5) by (auto simp: kernel_step_def poke_def)
next
  case (Low m)
  then show ?thesis using assms(2) by (auto simp: kernel_step_def)
qed

section \<open>Processes stay\<close>

definition keeps_banks :: "procdesc list \<Rightarrow> procdesc list \<Rightarrow> bool" where
  "keeps_banks t t' \<longleftrightarrow> (\<forall>q. loaded t q \<longrightarrow> loaded t' q \<and> bank (t' ! q) = bank (t ! q))"

lemma keeps_banks_refl [simp]: "keeps_banks t t"
  by (simp add: keeps_banks_def)

lemma keeps_banks_update:
  assumes "process_update p f k = Some k'" "\<And>d. base_address (f d) = base_address d \<and> bank (f d) = bank d"
  shows "keeps_banks (process_table k) (process_table k')"
  using assms by (auto simp: keeps_banks_def loaded_def process_update_def process_info_def nth_list_update split: if_splits)

lemma keeps_banks_load:
  assumes "process_load hp filename k = Some (r, k')"
  shows "keeps_banks (process_table k) (process_table k')"
  using assms
proof (cases rule: process_load_cases)
  case (loads f a base page m' k3 d data f3)
  have k3: "keeps_banks (process_table k) (process_table k3)"
    unfolding keeps_banks_def
  proof (intro allI impI)
    fix q assume q: "loaded (process_table k) q"
    have "process_allocate k \<noteq> int q" using procslots.find_free q by (auto simp: loaded_def)
    then show "loaded (process_table k3) q \<and> bank (process_table k3 ! q) = bank (process_table k ! q)"
      using loads(4) q by (auto simp: process_update_def process_info_def loaded_def nth_list_update split: if_splits)
  qed
  moreover have "keeps_banks (process_table k3) (process_table k')"
    using keeps_banks_update [OF loads(7)] by (simp add: initial_frame_def Let_def)
  ultimately show ?thesis by (simp add: keeps_banks_def)
qed simp

lemma syscall_table:
  assumes "syscall_handler l c k = Some (r, k')"
  shows "keeps_banks (process_table k) (process_table k')"
proof (cases c)
  case (Finfo name ptr)
  with assms obtain i k1 where i: "on_files (file_info (fetch_bytes 12 k name)) k = Some (i, k1)"
      "(case i of Inl e \<Rightarrow> Some (e, k1) | Inr f \<Rightarrow> map_option (Pair 0) (user_store ptr (finfo_bytes f) k1)) = Some (r, k')"
    by (auto simp: bind_eq_Some_conv)
  then show ?thesis using on_files_fields [OF i(1)] by (cases i) (auto dest: user_store_fields)
next
  case (Pspawn pd argv argc)
  then show ?thesis using assms by (auto dest: spawn_fields(1))
next
  case (Pload name)
  then show ?thesis using assms by (auto intro: keeps_banks_load)
next
  case Sread
  then show ?thesis using assms by (auto simp: terminal_get_def bind_eq_Some_conv split: if_splits)
next
  case (Sighandle h sig)
  then show ?thesis using assms by (auto simp: signal_sethandler_def split: if_splits elim!: keeps_banks_update)
next
  case (Smode m)
  then show ?thesis using assms by (auto simp: terminal_set_mode_def elim!: keeps_banks_update)
next
  case (Pexit code)
  then show ?thesis
    using assms by (auto simp: process_exit_def scheduler_exit_def scheduler_broadcast_event_def bind_eq_Some_conv dest: entry_update_fields)
next
  case (Pblock event)
  then show ?thesis using assms by (auto simp: scheduler_block_current_def dest: entry_update_fields)
qed (use assms in \<open>auto simp: bind_eq_Some_conv dest!: on_files_fields user_store_fields split: if_splits\<close>)

lemma step_table:
  assumes "kernel_step l ev k k'"
  shows "keeps_banks (process_table k) (process_table k')"
proof (cases ev)
  case (Call c)
  then show ?thesis using assms by (auto simp: kernel_step_def intro: syscall_table)
next
  case (Arrive c)
  then show ?thesis
    using assms by (auto simp: kernel_step_def serial_read_handler_def terminal_put_def signal_set_def bind_eq_Some_conv
        split: if_splits elim!: keeps_banks_update)
next
  case (Tick registers sp)
  then obtain r where "timer_handler False registers sp k = Some (r, k')" using assms by (auto simp: kernel_step_def)
  then show ?thesis
  proof (cases rule: timer_parts)
    case (parts k1 c k3 h k4)
    have "keeps_banks (process_table k3) (process_table k4)"
      using parts(3) by (auto simp: signal_get_handler_def bind_eq_Some_conv split: if_splits dest!: keeps_banks_update)
    moreover have "process_table k' = process_table k4"
      using parts(4,5) by (cases "h = 0") (auto dest!: user_store_fields)
    ultimately show ?thesis using scheduler_tick_fields [OF parts(2)] stack_store_fields [OF parts(1)] by simp
  qed
next
  case (Low m)
  then show ?thesis using assms by (auto simp: kernel_step_def)
next
  case (Store a v)
  then show ?thesis using assms by (auto simp: kernel_step_def)
qed

section \<open>While a process waits\<close>

lemma away_start: "kernel_away l b k k' \<Longrightarrow> bank_current k \<noteq> b \<and> bank_current k' \<noteq> b"
  by (induction rule: kernel_away.induct) auto

lemma away_keeps:
  assumes "kernel_away l b k k'" "kernel_ok k" "loaded (process_table k) q" "bank (process_table k ! q) = b"
  shows "banked k' b = banked k b \<and> kernel_ok k' \<and> loaded (process_table k') q \<and> bank (process_table k' ! q) = b"
  using assms
proof (induction rule: kernel_away.induct)
  case (next_event k k1 ev k2)
  then have k1: "banked k1 b = banked k b" "kernel_ok k1" "loaded (process_table k1) q" "bank (process_table k1 ! q) = b"
    by simp_all
  have "banked k2 b = banked k1 b"
    using step_other [OF k1(2) next_event(2) k1(3,4)] away_start [OF next_event(1)] next_event(3,4) by blast
  then show ?case
    using k1 ok_step [OF next_event(2)] step_table [OF next_event(2)] by (simp add: keeps_banks_def)
qed simp

section \<open>The kernel stores nothing in the lower half\<close>

text \<open>Once a process runs, no system call and no interrupt stores a byte below 0x8000 outside the fields of the state; what
  changes there is left to \<open>Low\<close>.\<close>

lemma put_bytes_common: "user_area a (length bs) \<Longrightarrow> common (put_bytes a bs k) = common k"
  by (simp add: put_bytes_def user_area_def store_bytes_banked(2))

lemma user_store_common: "user_store a bs k = Some k' \<Longrightarrow> common k' = common k"
  by (cases "bs = []") (auto simp: user_store_def put_bytes_common put_bytes_def [of a "[]"] split: if_splits)

lemma process_update_common: "process_update p f k = Some k' \<Longrightarrow> common k' = common k"
  by (auto simp: process_update_def split: option.splits)

lemma on_files_common: "on_files call k = Some (r, k') \<Longrightarrow> common k' = common k"
  by (auto simp: on_files_def bind_eq_Some_conv)

lemma entry_update_common: "entry_update i f k = Some k' \<Longrightarrow> common k' = common k"
  by (auto simp: entry_update_def split: option.splits)

lemma load_common:
  assumes "process_load hp filename k = Some (r, k')"
  shows "common k' = common k"
  using assms
proof (cases rule: process_load_cases)
  case (loads f a base page m' k3 d data f3)
  then have "common (store_bytes (bank d) a data ((ram_bank_set (bank d) k3)\<lparr>kfs := f3\<rparr>)) = common k3"
    by (simp add: user_area_def store_bytes_banked(2))
  then show ?thesis
    using process_update_common [OF loads(7)] process_update_common [OF loads(4)]
    by (simp add: initial_frame_def Let_def poke_common)
qed simp

lemma spawn_args_length: "spawn_args ss i off buf ptrs = Some (buf', ptrs') \<Longrightarrow> length buf' = length buf \<and> length ptrs' = length ptrs"
  by (induction ss i off buf ptrs rule: spawn_args.induct) (auto simp: bind_eq_Some_conv memcpy_def split: if_splits)

lemma spawn_common:
  assumes "process_spawn a0 v0 pd argv argc k = Some (r, k')" "length a0 = 512" "length v0 = 16"
  shows "common k' = common k"
proof -
  obtain ab av and d :: procdesc where d: "spawn_args (take (unat argc) argv) 0 0 a0 v0 = Some (ab, av)"
      "scheduler_add pd (store_bytes (bank d) 0xf820 ab (store_bytes (bank d) 0xf810 (take 16 (concat (map put16 av)))
         (store_bytes (bank d) 0xf800 (put16 argc) k))) = (r, k')"
    using assms(1) by (auto simp: process_spawn_def bind_eq_Some_conv Let_def ram_copy_def split: if_splits prod.splits)
  have "length ab = 512" using spawn_args_length [OF d(1)] assms(2) by simp
  then have "common (store_bytes (bank d) 0xf820 ab (store_bytes (bank d) 0xf810 (take 16 (concat (map put16 av)))
         (store_bytes (bank d) 0xf800 (put16 argc) k))) = common k"
    by (simp add: store_bytes_banked(2))
  moreover have "common k' = common (store_bytes (bank d) 0xf820 ab (store_bytes (bank d) 0xf810 (take 16 (concat (map put16 av)))
         (store_bytes (bank d) 0xf800 (put16 argc) k)))"
    using d(2) by (simp only: scheduler_add_def Let_def split: if_splits) auto
  ultimately show ?thesis by simp
qed

lemma syscall_common:
  assumes "syscall_handler l c k = Some (r, k')" "length (arg0 l) = 512" "length (argv0 l) = 16"
  shows "common k' = common k"
proof (cases c)
  case (Finfo name ptr)
  with assms(1) obtain i k1 where i: "on_files (file_info (fetch_bytes 12 k name)) k = Some (i, k1)"
      "(case i of Inl e \<Rightarrow> Some (e, k1) | Inr f \<Rightarrow> map_option (Pair 0) (user_store ptr (finfo_bytes f) k1)) = Some (r, k')"
    by (auto simp: bind_eq_Some_conv)
  then show ?thesis using on_files_common [OF i(1)] by (cases i) (auto dest: user_store_common)
next
  case (Pspawn pd argv argc)
  then show ?thesis using assms(1) spawn_common [OF _ assms(2,3)] by auto
next
  case (Pload name)
  then show ?thesis using assms(1) by (auto dest: load_common)
next
  case Sread
  then show ?thesis using assms(1) by (auto simp: terminal_get_def bind_eq_Some_conv split: if_splits)
next
  case (Sighandle h sig)
  then show ?thesis using assms(1) by (auto simp: signal_sethandler_def split: if_splits dest: process_update_common)
next
  case (Smode m)
  then show ?thesis using assms(1) by (auto simp: terminal_set_mode_def dest: process_update_common)
next
  case (Pexit code)
  then show ?thesis
    using assms(1) by (auto simp: process_exit_def scheduler_exit_def scheduler_broadcast_event_def bind_eq_Some_conv dest: entry_update_common)
next
  case (Pblock event)
  then show ?thesis using assms(1) by (auto simp: scheduler_block_current_def dest: entry_update_common)
qed (use assms(1) in \<open>auto simp: bind_eq_Some_conv dest!: on_files_common user_store_common split: if_splits\<close>)

lemma scheduler_tick_common: "scheduler_tick k = Some (b, k') \<Longrightarrow> common k' = common k"
  by (auto simp: scheduler_tick_def scheduler_next_def demote_current_def process_set_current_def bind_eq_Some_conv Let_def
      split: if_splits option.split_asm dest!: entry_update_common)

lemma timer_common:
  assumes "timer_handler False registers sp k = Some (r, k')" "0 \<le> current_scheduled k"
  shows "common k' = common k"
  using assms(1)
proof (cases rule: timer_parts)
  case (parts k1 c k3 h k4)
  have "common k1 = common k" using parts(1) assms(2) by (auto simp: stack_store_def dest: user_store_common)
  then have k3: "common k3 = common k"
    using scheduler_tick_common [OF parts(2)] by (simp add: put_bytes_common user_area_def)
  have "common k4 = common k3"
    using parts(3) by (auto simp: signal_get_handler_def bind_eq_Some_conv split: if_splits dest: process_update_common)
  moreover have "common k' = common k4" using parts(4,5) by (cases "h = 0") (auto dest!: user_store_common)
  ultimately show ?thesis using k3 by simp
qed

lemma step_common:
  assumes "kernel_step l ev k k'" "0 \<le> current_scheduled k" "length (arg0 l) = 512" "length (argv0 l) = 16"
    and "\<And>m. ev \<noteq> Low m"
  shows "common k' = common k"
proof (cases ev)
  case (Call c)
  then show ?thesis using assms(1) syscall_common [OF _ assms(3,4)] by (auto simp: kernel_step_def)
next
  case (Arrive c)
  then show ?thesis
    using assms(1) by (auto simp: kernel_step_def serial_read_handler_def terminal_put_def signal_set_def bind_eq_Some_conv
        split: if_splits dest: process_update_common)
next
  case (Tick registers sp)
  then show ?thesis using assms(1,2) by (auto simp: kernel_step_def dest: timer_common)
next
  case (Store a v)
  then show ?thesis using assms(1) by (auto simp: kernel_step_def poke_def)
next
  case (Low m)
  then show ?thesis using assms(5) by blast
qed

section \<open>Saving and restoring the context\<close>

text \<open>The context that the timer interrupt saves in the bank that is selected.\<close>

text \<open>The context that the timer interrupt saves in the bank that is selected.\<close>

lemma frame_address:
  fixes sp :: u16
  assumes "0x800c \<le> unat sp" "i < 12"
  shows "unat (sp - 12 + of_nat i) = unat sp - 12 + i"
proof -
  have "unat (sp - 12) = unat sp - 12" using assms(1) by (subst unat_sub) (simp_all add: word_le_nat_alt)
  moreover have "unat sp < 0x10000" using unsigned_less [of sp, where 'a = nat] by simp
  ultimately show ?thesis
    using assms by (subst unat_add_lt) (simp_all add: unsigned_of_nat take_bit_nat_eq_self)
qed

lemma saved_context:
  assumes "stack_store (sp - 12) registers k = Some k1" "length registers = 12" "0x800c \<le> unat sp" "unat sp \<le> 0xfffc"
  shows "banked (put_bytes 0xfffe (put16 (sp - 12)) k1) (bank_current k) a =
    (if 0xfffe \<le> unat a then put16 (sp - 12) ! (unat a - 0xfffe)
     else if unat sp - 12 \<le> unat a \<and> unat a < unat sp then registers ! (unat a - (unat sp - 12))
     else banked k (bank_current k) a)"
proof -
  have sp: "unat (sp - 12) = unat sp - 12" using assms(3) by (subst unat_sub) (simp_all add: word_le_nat_alt)
  have k1: "k1 = put_bytes (sp - 12) registers k"
    using assms sp by (auto simp: stack_store_def user_store_def user_area_def split: if_splits)
  have "unat a < 0x10000" using unsigned_less [of a, where 'a = nat] by simp
  then show ?thesis
    using assms(2-4) sp by (auto simp: k1 put_bytes_def store_bytes_banked)
qed

lemma fetch_banked: "0x8000 \<le> unat a \<Longrightarrow> fetch k a = banked k (bank_current k) a"
  by (simp add: fetch_def word_le_nat_alt)

lemma fetch_bytes_banked:
  assumes "\<And>i. i < n \<Longrightarrow> 0x8000 \<le> unat (a + of_nat i)"
  shows "fetch_bytes n k a = map (\<lambda>i. banked k (bank_current k) (a + of_nat i)) [0..<n]"
  using assms by (simp add: fetch_bytes_def fetch_banked)

text \<open>What the interrupt that selects a suspended bank does to it, and with which registers the process goes on.\<close>

lemma resume:
  assumes "timer_handler False registers' sp' k = Some ((h, regs, st), k')" "bank_current k' = b" "bank_current k \<noteq> b"
    and "le16 [banked k b 0xfffe, banked k b 0xffff] 0 = sp - 12" "0x800c \<le> unat sp" "unat sp \<le> 0xfffc"
  defines "frame \<equiv> map (\<lambda>i. banked k b (sp - 12 + of_nat i)) [0..<12]"
  shows "st = sp"
    and "h = 0 \<Longrightarrow> regs = frame \<and> banked k' b = banked k b"
    and "h \<noteq> 0 \<Longrightarrow> 0x800e \<le> unat sp \<and> regs = take 8 frame @ [banked k b sp, banked k b (sp + 1)] @ drop 10 frame
      \<and> (\<forall>a. banked k' b a =
          (if unat sp \<le> unat a \<and> unat a < unat sp + 2 then put16 h ! (unat a - unat sp)
           else if unat sp - 14 \<le> unat a \<and> unat a < unat sp - 12 then [banked k b sp, banked k b (sp + 1)] ! (unat a - (unat sp - 14))
           else banked k b a))"
proof -
  have "st = sp \<and> (h = 0 \<longrightarrow> regs = frame \<and> banked k' b = banked k b)
    \<and> (h \<noteq> 0 \<longrightarrow> 0x800e \<le> unat sp \<and> regs = take 8 frame @ [banked k b sp, banked k b (sp + 1)] @ drop 10 frame
      \<and> (\<forall>a. banked k' b a =
          (if unat sp \<le> unat a \<and> unat a < unat sp + 2 then put16 h ! (unat a - unat sp)
           else if unat sp - 14 \<le> unat a \<and> unat a < unat sp - 12 then [banked k b sp, banked k b (sp + 1)] ! (unat a - (unat sp - 14))
           else banked k b a)))"
    using assms(1)
  proof (cases rule: timer_parts)
    case (parts k1 c k3 h' k4)
    have h': "h' = h" using parts(4,5) by (cases "h' = 0") auto
    have same: "bank_current k' = bank_current k4"
      using parts(4,5) by (cases "h' = 0") (auto dest!: user_store_fields)
    have k4: "banked k4 b = banked k b" "bank_current k4 = b"
      using get_handler_fields [OF parts(3)] scheduler_tick_fields [OF parts(2)] stack_store_other [OF parts(1)]
        stack_store_fields [OF parts(1)] same assms(2,3) by (auto simp: put_bytes_other)
    then have word: "fetch_word k4 0xfffe = sp - 12" using assms(4) by (simp add: fetch_word_def fetch_def)
    have range: "0x8000 \<le> unat (sp - 12 + of_nat i)" if "i < 12" for i
      using frame_address [OF assms(5) that] assms(5) by simp
    have frame: "fetch_bytes 12 k4 (sp - 12) = frame"
      using fetch_bytes_banked [of 12 "sp - 12" k4, OF range] by (simp add: frame_def k4)
    show ?thesis
    proof (cases "h = 0")
      case True
      then show ?thesis using parts(4) h' word frame k4(1) by simp
    next
      case False
      have next1: "unat (sp + 1) = unat sp + 1" using assms(6) by (subst unat_Suc_word) auto
      define rt where "rt = [banked k b sp, banked k b (sp + 1)]"
      have rt: "length rt = 2" by (simp add: rt_def)
      have ret: "fetch_bytes 2 k4 sp = rt"
        using assms(5) next1 by (simp add: fetch_bytes_def fetch_banked k4 numeral_2_eq_2 rt_def)
      obtain k5 where k5: "user_store sp (put16 h) k4 = Some k5"
          "user_store (sp - 14) rt k5 = Some k'"
          "regs = fetch_bytes 8 k' (sp - 12) @ fetch_bytes 2 k' (sp - 14) @ fetch_bytes 2 k' (sp - 2)" "st = sp"
        using parts(5) False h' word ret by (auto simp: diff_add_eq)
      have s5: "k5 = put_bytes sp (put16 h) k4" using k5(1) by (simp add: user_store_def split: if_splits)
      have area: "user_area (sp - 14) 2" using k5(2) by (simp add: user_store_def rt_def numeral_2_eq_2 split: if_splits)
      have "14 \<le> unat sp" using assms(5) by simp
      then have sp14: "unat (sp - 14) = unat sp - 14" by (subst unat_sub) (simp_all add: word_le_nat_alt)
      then have "0x8000 \<le> unat sp - 14" using area by (simp add: user_area_def)
      then have low: "0x800e \<le> unat sp" by linarith
      have k': "k' = put_bytes (sp - 14) rt k5"
        using k5(2) by (simp add: user_store_def split: if_splits)
      have mem: "banked k' b a =
          (if unat sp \<le> unat a \<and> unat a < unat sp + 2 then put16 h ! (unat a - unat sp)
           else if unat sp - 14 \<le> unat a \<and> unat a < unat sp - 12 then rt ! (unat a - (unat sp - 14))
           else banked k b a)" for a
        using low sp14 assms(6) k4 rt by (auto simp: k' s5 put_bytes_def store_bytes_banked)
      have bank': "bank_current k' = b" using assms(2) .
      have in_frame: "banked k' b (sp - 12 + of_nat i) = frame ! i" if "i < 12" for i
      proof -
        define n where "n = unat sp - 12"
        have n: "unat sp = n + 12" using assms(5) by (simp add: n_def)
        show ?thesis using that frame_address [OF assms(5) that] by (simp add: mem frame_def n)
      qed
      have fr: "fetch k' (sp - 12 + of_nat i) = frame ! i" if "i < 12" for i
        using in_frame [OF that] range [OF that] by (simp add: fetch_banked bank')
      have len: "length frame = 12" by (simp add: frame_def)
      have "fetch_bytes 8 k' (sp - 12) = take 8 frame"
        using fr len by (intro nth_equalityI) (simp_all add: fetch_bytes_def)
      moreover have "fetch_bytes 2 k' (sp - 2) = drop 10 frame"
      proof (rule nth_equalityI)
        fix i assume "i < length (fetch_bytes 2 k' (sp - 2))"
        then have i: "i < 2" by (simp add: fetch_bytes_def)
        have eq: "sp - 2 + of_nat i = sp - 12 + of_nat (10 + i)" by simp
        have "fetch k' (sp - 2 + of_nat i) = frame ! (10 + i)" unfolding eq using i by (intro fr) simp
        then show "fetch_bytes 2 k' (sp - 2) ! i = drop 10 frame ! i"
          using i len by (simp add: fetch_bytes_def)
      qed (simp add: fetch_bytes_def len)
      moreover have "fetch_bytes 2 k' (sp - 14) = rt"
      proof -
        define n where "n = unat sp - 14"
        have n: "unat sp = n + 14" "0x8000 \<le> n" using low by (simp_all add: n_def)
        have "unat (sp - 14) = n" using sp14 n by simp
        moreover from this have "unat (sp - 14 + 1) = n + 1"
          using n assms(6) by (subst unat_Suc_word) auto
        ultimately show ?thesis using n by (simp add: fetch_bytes_def fetch_banked bank' mem numeral_2_eq_2 rt_def)
      qed
      ultimately show ?thesis using False k5(3,4) low mem by (simp add: rt_def)
    qed
  qed
  then show "st = sp" "h = 0 \<Longrightarrow> regs = frame \<and> banked k' b = banked k b"
    "h \<noteq> 0 \<Longrightarrow> 0x800e \<le> unat sp \<and> regs = take 8 frame @ [banked k b sp, banked k b (sp + 1)] @ drop 10 frame
      \<and> (\<forall>a. banked k' b a =
          (if unat sp \<le> unat a \<and> unat a < unat sp + 2 then put16 h ! (unat a - unat sp)
           else if unat sp - 14 \<le> unat a \<and> unat a < unat sp - 12 then [banked k b sp, banked k b (sp + 1)] ! (unat a - (unat sp - 14))
           else banked k b a))" by blast+
qed

end
