(* ===== verification/Kernel_Claims.thy ===== *)
theory Kernel_Claims
  imports Kernel_Isolation Process_Properties
begin

text \<open>
  The properties of the kernel as a whole, over every history of system calls, stores of programs, received bytes and timer
  interrupts, with the examples that instantiate them.
\<close>

section \<open>Examples\<close>

text \<open>A machine with the card of \<open>shell_kernel\<close> at power-on, and one with two processes, the first of them running.\<close>

definition demo_layout :: layout where
  "demo_layout = \<lparr>arg0 = replicate 512 0, argv0 = replicate 16 0, header_at = 0xf000, disk_info_at = 0x7000, sysinfo_at = 0x7100\<rparr>"

definition power_on_kernel :: kernel where
  "power_on_kernel = shell_kernel\<lparr>term_data := replicate 256 0\<rparr>"

definition demo_process :: "u16 \<Rightarrow> u8 \<Rightarrow> procdesc" where
  "demo_process a b = \<lparr>base_address = a, bank = b, termstatus = 0, sigstatus = 0, sighandlers = \<lparr>cancel = 0, brk = 0\<rparr>\<rparr>"

definition demo_task :: "task_state \<Rightarrow> int \<Rightarrow> schedule_entry" where
  "demo_task st p = \<lparr>state = st, blocking_event = 0, pid = p, exitcode = 0\<rparr>"

definition two_kernel :: kernel where
  "two_kernel = shell_kernel
     \<lparr>process_table := demo_process 0x8000 0 # demo_process 0x8000 1 # replicate 14 (demo_process 0 0),
      schedule_table := demo_task TASK_RUNNING 0 # demo_task TASK_READY 1 # replicate 14 (demo_task TASK_FREE 0),
      num_scheduled := 2, term_data := replicate 256 0,
      kmem := \<lparr>num_pages = 4, page_table = [2, 2, 1, 1] @ replicate 252 0\<rparr>, kfs := flat_fs 0\<rparr>"

lemma power_on_sizes: "array_sizes power_on_kernel"
  by (auto simp: array_sizes_def power_on_kernel_def shell_kernel_def shell_disk_length flat_fs_def entry_wf_def)

lemma power_on_boots:
  "\<exists>k. kernel_main (replicate 512 0) (replicate 16 0) 0xf000 4 power_on_kernel = Some (0, k)"
proof -
  have "snd (filesystem_init (kfs power_on_kernel)) = shell_fs" "fat_ok shell_fs" "fd_ready shell_fs"
    using shell_kernel_tables(4) [of shell_fs] shell_fs_ok shell_fs(10) by (simp_all add: power_on_kernel_def)
  then show ?thesis
    using boot_result [where ?k0.0 = power_on_kernel and banks = 4 and hp = "0xf000" and ?fs1.0 = shell_fs
        and ?arg0.0 = "replicate 512 0" and ?argv0.0 = "replicate 16 0"
        and e = shell_entry and cs = "[2]" and i = 0 and img = "[0x0a, 0x80, 0xc3, 0x00, 0x80]",
        OF _ _ _ shell_found shell_slot [symmetric] _ _ shell_image [symmetric]]
      shell_chain shell_header shell_fs(6) shell_kernel_tables by (auto simp: power_on_kernel_def)
qed

lemma two_kernel_ok: "kernel_ok two_kernel"
proof -
  have "sched_typed two_kernel"
    by (auto simp: sched_typed_def sched_wf_def two_kernel_def shell_kernel_def demo_task_def nth_Cons')
  moreover have "mem_wf (kmem two_kernel)" "num_pages (kmem two_kernel) = 4"
    by (auto simp: mem_wf_def two_kernel_def less_Suc_eq numeral_eq_Suc)
  moreover have "loaded (process_table two_kernel) p \<longleftrightarrow> p = 0 \<or> p = 1" for p
    by (auto simp: loaded_def two_kernel_def demo_process_def nth_Cons')
  moreover have "pages_used (kmem two_kernel) = {0, 1}"
    by (auto simp: pages_used_def two_kernel_def less_Suc_eq numeral_eq_Suc)
  moreover have "fs_typed (kfs two_kernel)"
    using flat_fs_wf(1) [of 0] by (auto simp: two_kernel_def fs_typed_def flat_fs_def entry_wf_def)
  ultimately show ?thesis
    by (auto simp: kernel_ok_def banks_ok_def two_kernel_def demo_process_def)
qed

text \<open>Two timer interrupts select process 1 and then process 0 again.\<close>

lemmas tick_simps = timer_handler_def stack_store_def user_store_def user_area_def scheduler_tick_def scheduler_next_def demote_current_def entry_update_def entry_at_def
  process_info_def process_set_current_def signal_get_handler_def process_current_def demo_task_def demo_process_def put_bytes_def

lemma scheduler_find_hit:
  "0 \<le> c + 1 \<Longrightarrow> c + 1 < n \<Longrightarrow> nat (c + 1) < length t \<Longrightarrow> state (t ! nat (c + 1)) = TASK_READY
   \<Longrightarrow> scheduler_find t n c = Some (c + 1)"
  by (subst scheduler_find.simps) simp

lemma scheduler_find_wrap:
  "n \<le> c + 1 \<Longrightarrow> 0 < length t \<Longrightarrow> state (t ! 0) = TASK_READY \<Longrightarrow> scheduler_find t n c = Some 0"
  by (subst scheduler_find.simps) simp

lemma two_kernel_tick:
  "\<exists>r k. timer_handler False (replicate 12 7) 0xf000 two_kernel = Some (r, k) \<and> bank_current k = 1
     \<and> process_table k = process_table two_kernel \<and> num_scheduled k = 2 \<and> current_scheduled k = 1
     \<and> schedule_table k = demo_task TASK_READY 0 # demo_task TASK_RUNNING 1 # replicate 14 (demo_task TASK_FREE 0)"
  by (simp add: tick_simps two_kernel_def shell_kernel_def scheduler_find_hit ram_bank_set_def Let_def)

lemma two_kernel_tock:
  assumes "process_table k = process_table two_kernel" "num_scheduled k = 2" "current_scheduled k = 1"
    "schedule_table k = demo_task TASK_READY 0 # demo_task TASK_RUNNING 1 # replicate 14 (demo_task TASK_FREE 0)"
  shows "\<exists>regs st k'. timer_handler False (replicate 12 9) 0xe000 k = Some ((0, regs, st), k') \<and> bank_current k' = 0"
  using assms by (simp add: tick_simps scheduler_find_wrap ram_bank_set_def Let_def two_kernel_def)

section \<open>Properties\<close>

text \<open>C6. Types and indices of the whole kernel. A history starts from any memory at power-on in which arrays have their
  lengths, boots, and goes on with system calls with any arguments and any card, stores of programs in their bank, received
  bytes, timer interrupts and restarts, as long as each has a defined effect: it ends at a call or interrupt with which
  the C code leaves a table or a buffer, does not return, or stores below 0x8000 (the values without a result of
  \<open>syscall_handler\<close> and \<open>timer_handler\<close>). After every history \<open>kernel_ok\<close> holds: the scheduler has its invariant
  \<open>sched_wf\<close>, all tasks name descriptors of the process table, the current process is that of the current task, the
  terminal buffer has 256 bytes, the cached sector is the one on the card, file names and entries have their sizes, and
  the banks of loaded processes are marked as used, none of them twice.
  For what has a defined effect then, once a process runs: the serial interrupt for every byte; \<open>swrite\<close>, \<open>sread\<close>, \<open>dinfo\<close>,
  \<open>sighandle\<close>, \<open>smode\<close>, \<open>sysinfo\<close>, \<open>pexit\<close>, \<open>pblock\<close> and the unsupported calls for all arguments; \<open>pstate\<close> and
  \<open>pexitcode\<close> exactly for identifiers that some entry of the schedule table has; \<open>pspawn\<close> and \<open>fclose\<close> only for
  descriptors in their tables; the choice of a task by the timer interrupt exactly if one is READY or RUNNING.\<close>

theorem kernel_invariant:
  assumes "array_sizes k0" "kernel_reachable l k0 k"
  shows "kernel_ok k \<and> (0 \<le> current_scheduled k \<longrightarrow>
      serial_read_handler c k \<noteq> None
    \<and> (total_call call \<longrightarrow> syscall_handler l call k \<noteq> None)
    \<and> (syscall_handler l (Pstate p) k \<noteq> None \<longleftrightarrow> p \<in> pid ` set (schedule_table k))
    \<and> (syscall_handler l (Pexitcode p) k \<noteq> None \<longleftrightarrow> p \<in> pid ` set (schedule_table k))
    \<and> (syscall_handler l (Pspawn pd argv argc) k \<noteq> None \<longrightarrow> 0 \<le> pd \<and> pd < int PROCS_MAX)
    \<and> (syscall_handler l (Fclose fd) k \<noteq> None \<longrightarrow> 0 \<le> fd \<and> nat fd < length (fdtable (kfs k)))
    \<and> (scheduler_tick k \<noteq> None \<longleftrightarrow> (\<exists>i. int i < num_scheduled k \<and> runnable k i)))"
proof -
  have ok: "kernel_ok k" using reachable_ok [OF assms(2,1)] .
  moreover have "syscall_handler l (Pstate p) k \<noteq> None \<longleftrightarrow> p \<in> pid ` set (schedule_table k)"
    "syscall_handler l (Pexitcode p) k \<noteq> None \<longleftrightarrow> p \<in> pid ` set (schedule_table k)"
    using lookup_defined [OF ok, of p] by (simp_all del: not_None_eq)
  moreover note terminal_put_defined [OF ok] total_call_defined [OF ok] descriptor_in_table [OF ok] tick_defined [OF ok]
  ultimately show ?thesis by blast
qed

lemma kernel_invariant_witness:
  "\<exists>k. kernel_reachable demo_layout power_on_kernel k \<and> kernel_ok k \<and> length (process_table k) = PROCS_MAX"
proof -
  obtain k where "kernel_main (replicate 512 0) (replicate 16 0) 0xf000 4 power_on_kernel = Some (0, k)"
    using power_on_boots by blast
  then have k: "kernel_reachable demo_layout power_on_kernel k"
    by (intro kernel_reachable.boot [where banks = 4 and pd = 0]) (simp_all add: demo_layout_def)
  from kernel_invariant [OF power_on_sizes this] have "kernel_ok k" by blast
  then show ?thesis using k by (auto simp: kernel_ok_def)
qed

text \<open>C7. Processes are separated. An event with a defined effect leaves every byte of the bank of a loaded process as it is,
  and leaves its descriptor loaded with the same bank, provided that the bank is not selected before or after the event
  and the event is not a \<open>pspawn\<close> of a descriptor with this bank. Two loaded processes never have the same bank. Once a
  process runs, no system call, interrupt or store changes a byte of the lower half other than the kernel's own variables.
  Without a defined effect, and so not covered, are the events with which the C code overwrites the kernel: \<open>fread\<close>
  (also of 0 bytes inside a sector), \<open>finfo\<close> or \<open>fentry\<close> with bytes to store below 0x8000 or past 0xffff, \<open>pload\<close> of an
  image that passes 0xffff or without a free page or descriptor, and an interrupt with a stack that does not lie in the
  upper half; stores of programs below 0x8000, which no hardware prevents, are no events of the model.\<close>

theorem processes_separated:
  assumes "kernel_ok k" "loaded (process_table k) q"
    and "kernel_step l ev k k'" "bank (process_table k ! q) \<notin> {bank_current k, bank_current k'}"
    and "\<And>pd argv argc. ev = Call (Pspawn pd argv argc) \<Longrightarrow> bank (process_table k ! nat pd) \<noteq> bank (process_table k ! q)"
  shows "banked k' (bank (process_table k ! q)) = banked k (bank (process_table k ! q))
    \<and> loaded (process_table k') q \<and> bank (process_table k' ! q) = bank (process_table k ! q)
    \<and> (\<forall>p. loaded (process_table k') p \<and> p \<noteq> q \<longrightarrow> bank (process_table k' ! p) \<noteq> bank (process_table k ! q))
    \<and> (0 \<le> current_scheduled k \<and> length (arg0 l) = 512 \<and> length (argv0 l) = 16 \<and> (\<forall>m. ev \<noteq> Low m) \<longrightarrow> common k' = common k)"
proof -
  have q: "loaded (process_table k') q" "bank (process_table k' ! q) = bank (process_table k ! q)"
    using step_table [OF assms(3)] assms(2) by (simp_all add: keeps_banks_def)
  have "banks_ok (process_table k') (kmem k')" using ok_step [OF assms(3,1)] by (simp add: kernel_ok_def)
  then have "\<forall>p. loaded (process_table k') p \<and> p \<noteq> q \<longrightarrow> bank (process_table k' ! p) \<noteq> bank (process_table k ! q)"
    using banks_apart q by metis
  then show ?thesis
    using step_other [OF assms(1,3,2) refl] step_common [OF assms(3)] assms(4,5) q by simp
qed

text \<open>C8. A preempted process finds its context again. The timer interrupts a loaded process in its bank \<open>b\<close> with
  stack pointer \<open>sp\<close>; whatever happens while \<open>b\<close> is not selected and no program is started in it, when a timer interrupt
  selects it again the process goes on with the same stack pointer and the registers that were pushed. Without a signal it
  goes on at the address where it was interrupted. With a signal it goes on at the handler, with the address where it was
  interrupted in HL, whose own value is lost, and in the two bytes below the saved registers. All other bytes of the bank
  above and below the saved frame are as they were, but for the two at 0xfffe.\<close>

theorem context_survives:
  assumes "kernel_ok k" "loaded (process_table k) q" "bank (process_table k ! q) = b" "bank_current k = b"
    and "length registers = 12" "0x800c \<le> unat sp" "unat sp \<le> 0xfffc"
    and out: "timer_handler False registers sp k = Some (r1, k1)" and away: "kernel_away l b k1 k2"
    and again: "timer_handler False registers' sp' k2 = Some ((h, regs, st), k3)" "bank_current k3 = b"
  shows "st = sp
    \<and> regs = (if h = 0 then registers else take 8 registers @ [fetch k sp, fetch k (sp + 1)] @ drop 10 registers)
    \<and> fetch_word k3 sp = (if h = 0 then fetch_word k sp else h)
    \<and> (\<forall>a. 0x8000 \<le> unat a \<and> unat a < unat sp - (if h = 0 then 12 else 14) \<or> unat sp + 2 \<le> unat a \<and> unat a < 0xfffe
         \<longrightarrow> fetch k3 a = fetch k a)"
proof -
  define m where "m a = (if 0xfffe \<le> unat a then put16 (sp - 12) ! (unat a - 0xfffe)
     else if unat sp - 12 \<le> unat a \<and> unat a < unat sp then registers ! (unat a - (unat sp - 12))
     else banked k b a)" for a :: u16
  have step: "kernel_step l (Tick registers sp) k k1" using assms(5) out by (simp add: kernel_step_def)
  have k1: "banked k1 b a = m a" for a
    using out
  proof (cases rule: timer_parts)
    case (parts s c s3 h1 s4)
    have "bank_current k1 = bank_current s4" using parts(4,5) by (cases "h1 = 0") (auto dest!: user_store_fields)
    then have "b \<noteq> bank_current s4" using away_start [OF away] by metis
    then have "banked k1 b = banked s4 b"
      using parts(4,5) signal_stores_other by (cases "h1 = 0") (simp, blast)
    also have "\<dots> = banked (put_bytes 0xfffe (put16 (sp - 12)) s) b"
      using get_handler_fields [OF parts(3)] scheduler_tick_fields [OF parts(2)] by simp
    finally show ?thesis using saved_context [OF parts(1) assms(5-7), of a] assms(4) by (simp add: m_def)
  qed
  have k2: "banked k2 b a = m a" for a
    using away_keeps [OF away ok_step [OF step assms(1)], of q] step_table [OF step] assms(2,3) k1 by (simp add: keeps_banks_def)
  have "le16 [banked k2 b 0xfffe, banked k2 b 0xffff] 0 = sp - 12"
    by (simp add: k2 m_def put16_def) (simp add: put16_def [symmetric])
  note re = resume [OF again away_start [OF away, THEN conjunct2] this assms(6,7)]
  have next1: "unat (sp + 1) = unat sp + 1" using assms(7) by (subst unat_Suc_word) auto
  have frame: "map (\<lambda>i. banked k2 b (sp - 12 + of_nat i)) [0..<12] = registers"
  proof (rule nth_equalityI)
    fix i assume "i < length (map (\<lambda>i. banked k2 b (sp - 12 + of_nat i)) [0..<12])"
    then have i: "i < 12" by simp
    define n where "n = unat sp - 12"
    have n: "unat sp = n + 12" "n \<le> 0xfff0" using assms(6,7) by (simp_all add: n_def)
    show "map (\<lambda>i. banked k2 b (sp - 12 + of_nat i)) [0..<12] ! i = registers ! i"
      using i frame_address [OF assms(6) i] n(2) by (simp add: k2 m_def n(1))
  qed (simp add: assms(5))
  have fk: "fetch k a = banked k b a" if "0x8000 \<le> unat a" for a
    using that by (simp add: fetch_banked assms(4))
  have fk3: "fetch k3 a = banked k3 b a" if "0x8000 \<le> unat a" for a
    using that by (simp add: fetch_banked again(2))
  have ret: "banked k2 b sp = fetch k sp" "banked k2 b (sp + 1) = fetch k (sp + 1)"
    using assms(6,7) next1 by (simp_all add: k2 m_def fk)
  show ?thesis
  proof (cases "h = 0")
    case True
    have k3: "banked k3 b a = m a" for a using re(2) [OF True] by (simp add: k2)
    then show ?thesis
      using True re(1,2) frame assms(6,7) next1 by (auto simp: fetch_word_def fk fk3 k3 m_def)
  next
    case False
    note h = re(3) [OF False, unfolded frame ret]
    then have "fetch_word k3 sp = h"
      using assms(6,7) next1 by (simp add: fetch_word_def fk3 put16_def) (simp add: put16_def [symmetric])
    moreover have "fetch k3 a = fetch k a"
      if "0x8000 \<le> unat a \<and> unat a < unat sp - 14 \<or> unat sp + 2 \<le> unat a \<and> unat a < 0xfffe" for a
      using that h assms(6,7) by (auto simp: fk fk3 k2 m_def)
    ultimately show ?thesis using False re(1) h by simp
  qed
qed

text \<open>Process 1 waits while process 0 stores a byte; process 0 is preempted and comes back.\<close>

lemma two_kernel_store: "kernel_step demo_layout (Store 0x9000 5) two_kernel (poke 0 0x9000 5 two_kernel)"
  by (simp add: kernel_step_def two_kernel_def shell_kernel_def)

lemma two_kernel_processes:
  "loaded (process_table two_kernel) 0" "bank (process_table two_kernel ! 0) = 0" "bank_current two_kernel = 0"
  "loaded (process_table two_kernel) 1" "bank (process_table two_kernel ! 1) = 1"
  by (simp_all add: two_kernel_def demo_process_def loaded_def shell_kernel_def)

lemma processes_separated_witness:
  "banked (poke 0 0x9000 5 two_kernel) 1 = banked two_kernel 1 \<and> bank (process_table (poke 0 0x9000 5 two_kernel) ! 1) = 1"
  using processes_separated [OF two_kernel_ok two_kernel_processes(4) two_kernel_store] two_kernel_processes by simp

lemma context_survives_witness:
  "\<exists>k k'. timer_handler False (replicate 12 9) 0xe000 k = Some ((0, replicate 12 7, 0xf000), k')"
proof -
  obtain r k where k: "timer_handler False (replicate 12 7) 0xf000 two_kernel = Some (r, k)" "bank_current k = 1"
     "process_table k = process_table two_kernel" "num_scheduled k = 2" "current_scheduled k = 1"
     "schedule_table k = demo_task TASK_READY 0 # demo_task TASK_RUNNING 1 # replicate 14 (demo_task TASK_FREE 0)"
    using two_kernel_tick by blast
  obtain regs st k' where k': "timer_handler False (replicate 12 9) 0xe000 k = Some ((0, regs, st), k')" "bank_current k' = 0"
    using two_kernel_tock [OF k(3-6)] by blast
  have away: "kernel_away demo_layout 0 k k" using k(2) by (intro kernel_away.stay) simp
  show ?thesis
    using context_survives [OF two_kernel_ok two_kernel_processes(1,2,3) _ _ _ k(1) away k'] k'(1)
    by (intro exI [of _ k] exI [of _ k']) simp
qed

end
