(* ===== verification/Bank_Test.thy ===== *)
theory Bank_Test
  imports C_Prelude
begin

text \<open>
  The count of the memory banks, \<open>ram_bank_test\<close> of \<open>kernel/ram.asm\<close>. The address decoder of the board is a parameter: the
  chip that answers when bank \<open>b\<close> is selected is \<open>decode b\<close>. Only the byte at 0x8000 of each chip is used, \<open>cells\<close>.
\<close>

section \<open>The test\<close>

text \<open>The first loop, over all 256 values of L.\<close>

definition ram_bank_test_init :: "(u8 \<Rightarrow> 'p) \<Rightarrow> ('p \<Rightarrow> u8) \<Rightarrow> 'p \<Rightarrow> u8" where
  "ram_bank_test_init decode cells = fold (\<lambda>i c. c(decode (of_nat i) := 0xff)) [0..<256] cells"

text \<open>The second loop: it ends at the first bank whose cell is no longer 0xff, or when L wraps.\<close>

function ram_bank_test_loop :: "(u8 \<Rightarrow> 'p) \<Rightarrow> u8 \<Rightarrow> ('p \<Rightarrow> u8) \<Rightarrow> u8" where
  "ram_bank_test_loop decode L cells =
     (if cells (decode L) \<noteq> 0xff then L
      else let cells' = cells(decode L := L) in
        if L + 1 \<noteq> 0 then ram_bank_test_loop decode (L + 1) cells' else L + 1)"
  by pat_completeness auto
termination
proof (relation "measure (\<lambda>(decode, L, cells). 256 - unat L)", goal_cases)
  case (2 decode L cells cells')
  have "unat L + 1 < 256"
  proof (rule ccontr)
    assume "\<not> unat L + 1 < 256"
    then have "unat L = 255" using unsigned_less [of L, where 'a = nat] by simp
    then have "L = 255" by (simp add: word_unat_eq_iff)
    then show False using 2 by simp
  qed
  then show ?case using unat_Suc_word [of L] by simp
qed simp

definition ram_bank_test :: "(u8 \<Rightarrow> 'p) \<Rightarrow> ('p \<Rightarrow> u8) \<Rightarrow> u8" where
  "ram_bank_test decode cells = ram_bank_test_loop decode 0 (ram_bank_test_init decode cells)"

declare ram_bank_test_loop.simps [simp del]

section \<open>What it counts\<close>

lemma init_cells: "ram_bank_test_init decode cells (decode L) = 0xff"
proof -
  have "fold (\<lambda>i c. c(decode (of_nat i) := 0xff)) xs cells p = (if p \<in> (\<lambda>i. decode (of_nat i)) ` set xs then 0xff else cells p)"
    for xs :: "nat list" and p
    by (induction xs arbitrary: cells) auto
  moreover have "decode L \<in> (\<lambda>i. decode (of_nat i)) ` set [0..<256]"
    using unsigned_less [of L, where 'a = nat] by (intro image_eqI [of _ _ "unat L"]) simp_all
  ultimately show ?thesis by (simp add: ram_bank_test_init_def)
qed

text \<open>The loop with the decoder of a board with \<open>n\<close> banks, once \<open>k\<close> of them are numbered.\<close>

lemma loop_counts:
  assumes "\<And>b. decode b = unat b mod n" "0 < n" "n \<le> 256" "k \<le> n" "k < 256"
    and "\<And>j. j < k \<Longrightarrow> cells j = of_nat j" "\<And>j. k \<le> j \<Longrightarrow> j < n \<Longrightarrow> cells j = 0xff"
  shows "ram_bank_test_loop decode (of_nat k) cells = of_nat n"
  using assms(4-)
proof (induction "n - k" arbitrary: k cells)
  case 0
  then have k: "k = n" "unat (of_nat k :: u8) = k" by (simp_all add: unsigned_of_nat take_bit_nat_eq_self)
  then have "cells (decode (of_nat k)) = 0" using 0 assms(1,2) by simp
  then show ?case using k(1) by (subst ram_bank_test_loop.simps) simp
next
  case (Suc d)
  then have k: "k < n" "unat (of_nat k :: u8) = k" by (simp_all add: unsigned_of_nat take_bit_nat_eq_self)
  then have dec: "decode (of_nat k) = k" using assms(1) by simp
  show ?case
  proof (cases "k = 255")
    case True
    then have "n = 256" using k(1) assms(3) by simp
    then show ?thesis using Suc.prems(4) [of k] dec k(1) True by (subst ram_bank_test_loop.simps) simp
  next
    case False
    then have "Suc k < 256" using Suc.prems(2) by simp
    then have "unat (of_nat (Suc k) :: u8) = Suc k" by (simp only: unsigned_of_nat take_bit_nat_eq_self) (simp add: take_bit_nat_eq_self)
    then have "(of_nat k :: u8) + 1 \<noteq> 0" by (metis add.commute of_nat_Suc unat_0 nat.distinct(1))
    then have "ram_bank_test_loop decode (of_nat k) cells = ram_bank_test_loop decode (of_nat (Suc k)) (cells(k := of_nat k))"
      using Suc.prems(4) [of k] dec k(1) by (subst ram_bank_test_loop.simps) (simp add: add.commute)
    also have "\<dots> = of_nat n"
      using Suc.hyps(2) Suc.prems k(1) \<open>Suc k < 256\<close> by (intro Suc.hyps(1)) (auto simp: less_Suc_eq)
    finally show ?thesis .
  qed
qed

text \<open>C24. Counting the banks of a board with \<open>n\<close> banks whose decoder ignores the upper bits of the bank number:
  \<open>ram_bank_test\<close> returns \<open>n\<close> in eight bits, whatever the memory holds. With all 256 banks that is 0.\<close>

theorem ram_bank_test_counts:
  assumes "\<And>b. decode b = unat b mod n" "0 < n" "n \<le> 256"
  shows "ram_bank_test decode cells = of_nat n"
proof -
  have "ram_bank_test_init decode cells j = 0xff" if "j < n" for j
  proof -
    have "unat (of_nat j :: u8) = j" using that assms(3) by (simp add: unsigned_of_nat take_bit_nat_eq_self)
    then have "decode (of_nat j) = j" using that assms(1) by simp
    then show ?thesis using init_cells [of decode cells "of_nat j"] by simp
  qed
  then show ?thesis
    using loop_counts [of decode n 0 "ram_bank_test_init decode cells", OF assms] by (simp add: ram_bank_test_def)
qed

lemma ram_bank_test_counts_witness:
  "ram_bank_test (\<lambda>b. unat b mod 4) (\<lambda>_. 3) = 4 \<and> ram_bank_test (\<lambda>b. unat b mod 256) (\<lambda>_. 0) = 0"
  using ram_bank_test_counts [of "\<lambda>b. unat b mod 4" 4 "\<lambda>_. 3"] ram_bank_test_counts [of "\<lambda>b. unat b mod 256" 256 "\<lambda>_. 0"] by simp

end
