(* ===== verification/Test_Kernel.thy ===== *)
theory Test_Kernel
  imports Task_Scheduler Page_Memory
begin

text \<open>
  The unit tests of the page allocator and of the scheduler (\<open>kernel/unit_test\<close>), run on the model. A test is a definition
  that reads like the C function and holds when no assertion fails; its evaluation in the kernel is the lemma
  \<open>..._passes\<close>.
\<close>

declare scheduler_find.simps [code]

definition holds :: "bool \<Rightarrow> 'a \<Rightarrow> 'a option" where
  "holds cond s = (if cond then Some s else None)"

section \<open>Memory\<close>

text \<open>\<open>memory_init(16)\<close>, and calls of \<open>memory_allocate\<close> with the results that the test expects.\<close>

definition sixteen_pages :: "mem option" where
  "sixteen_pages = map_option snd (memory_init 16 \<lparr>num_pages = 0, page_table = replicate 256 0\<rparr>)"

definition allocations :: "int list \<Rightarrow> mem \<Rightarrow> mem option" where
  "allocations ps m = (let (rs, m') = allocate_many (length ps) m in holds (rs = ps) m')"

definition test_alloc_first :: bool where
  "test_alloc_first \<longleftrightarrow> do { m \<leftarrow> sixteen_pages; allocations [0] m } \<noteq> None"

lemma test_alloc_first_passes: test_alloc_first by code_simp

definition test_alloc_all :: bool where
  "test_alloc_all \<longleftrightarrow> do { m \<leftarrow> sixteen_pages; allocations (map int [0..<16]) m } \<noteq> None"

lemma test_alloc_all_passes: test_alloc_all by code_simp

definition test_alloc_too_many :: bool where
  "test_alloc_too_many \<longleftrightarrow> do {
     m \<leftarrow> sixteen_pages; allocations (map int [0..<16] @ [E_NOPAGES, E_NOPAGES]) m } \<noteq> None"

lemma test_alloc_too_many_passes: test_alloc_too_many by code_simp

definition test_alloc_then_free :: bool where
  "test_alloc_then_free \<longleftrightarrow> do {
     m \<leftarrow> sixteen_pages; m1 \<leftarrow> allocations [0, 1, 2] m; m2 \<leftarrow> memory_free 1 m1; allocations [1] m2 } \<noteq> None"

lemma test_alloc_then_free_passes: test_alloc_then_free by code_simp

definition test_free_disabled :: bool where
  "test_free_disabled \<longleftrightarrow> do {
     m \<leftarrow> sixteen_pages; m1 \<leftarrow> allocations (map int [0..<16]) m; m2 \<leftarrow> memory_free 22 m1;
     allocations [E_NOPAGES] m2 } \<noteq> None"

lemma test_free_disabled_passes: test_free_disabled by code_simp

definition test_init_too_many :: bool where
  "test_init_too_many \<longleftrightarrow> map_option fst (memory_init 257 \<lparr>num_pages = 0, page_table = replicate 256 0\<rparr>) = Some E_INIT"

lemma test_init_too_many_passes: test_init_too_many by code_simp

section \<open>Scheduler\<close>

definition test_sched :: sched where
  "test_sched = scheduler_init
     \<lparr>process_table = replicate 16 \<lparr>base_address = 0, bank = 0, termstatus = 0, sigstatus = 0, sighandlers = \<lparr>cancel = 0, brk = 0\<rparr>\<rparr>,
      process_current_ptr = 0, term_data = [], term_head = 0, term_tail = 0, current_scheduled = 0, num_scheduled = 0,
      schedule_table = replicate 16 \<lparr>state = TASK_FREE, blocking_event = 0, pid = 0, exitcode = 0\<rparr>,
      schedule_current_pid = 0\<rparr>"

definition added :: "int list \<Rightarrow> sched" where
  "added ps = fold (\<lambda>p s. snd (scheduler_add p s)) ps test_sched"

text \<open>The loops: \<open>n\<close> calls of \<open>scheduler_next\<close>, the \<open>i\<close>-th of which has the result \<open>ps ! (i mod length ps)\<close> and leaves
  the task running.\<close>

fun nexts :: "nat \<Rightarrow> int list \<Rightarrow> sched \<Rightarrow> sched option" where
  "nexts 0 ps s = Some s"
| "nexts (Suc n) ps s = do {
     (p, s1) \<leftarrow> scheduler_next s;
     s2 \<leftarrow> holds (p = hd ps \<and> scheduler_state p s1 = Some TASK_RUNNING) s1;
     nexts n (rotate1 ps) s2 }"

definition ASSERT_STATES :: "(int \<times> task_state) list \<Rightarrow> sched \<Rightarrow> sched option" where
  "ASSERT_STATES es s = holds (\<forall>(p, st) \<in> set es. scheduler_state p s = Some st) s"

definition ticked :: "sched \<Rightarrow> sched option" where
  "ticked s = map_option snd (scheduler_tick s)"

definition test_scheduled_single :: bool where
  "test_scheduled_single \<longleftrightarrow> nexts 100 [0] (added [0]) \<noteq> None"

lemma test_scheduled_single_passes: test_scheduled_single by code_simp

definition test_scheduled_multiple :: bool where
  "test_scheduled_multiple \<longleftrightarrow> nexts 100 [6, 9, 2] (added [6, 9, 2]) \<noteq> None"

lemma test_scheduled_multiple_passes: test_scheduled_multiple by code_simp

definition test_scheduled_multiple_2 :: bool where
  "test_scheduled_multiple_2 \<longleftrightarrow> do {
     s \<leftarrow> nexts 3 [0] (added [0]); nexts 4 [1, 0] (snd (scheduler_add 1 s)) } \<noteq> None"

lemma test_scheduled_multiple_2_passes: test_scheduled_multiple_2 by code_simp

definition test_scheduled_exit :: bool where
  "test_scheduled_exit \<longleftrightarrow> do {
     s \<leftarrow> nexts 100 [6, 9, 2] (added [6, 9, 2]); s1 \<leftarrow> scheduler_exit 6 0 s; nexts 100 [9, 2] s1 } \<noteq> None"

lemma test_scheduled_exit_passes: test_scheduled_exit by code_simp

definition test_schedule_too_many :: bool where
  "test_schedule_too_many \<longleftrightarrow>
     (\<forall>i < 16. fst (scheduler_add (int i) (added (map int [0..<i]))) = 0)
     \<and> fst (scheduler_add 16 (added (map int [0..<16]))) = E_TOO_MANY_TASKS"

lemma test_schedule_too_many_passes: test_schedule_too_many by code_simp

definition test_schedule_return_status :: bool where
  "test_schedule_return_status \<longleftrightarrow> do { s \<leftarrow> scheduler_exit 9 42 (added [9]); scheduler_exitcode 9 s } = Some 42"

lemma test_schedule_return_status_passes: test_schedule_return_status by code_simp

definition test_schedule_wait_process :: bool where
  "test_schedule_wait_process \<longleftrightarrow> do {
     s \<leftarrow> ASSERT_STATES [(9, TASK_READY)] (added [9]);
     s1 \<leftarrow> holds (scheduler_event 9 s = Some EVENT_NO_EVENT) s;
     s2 \<leftarrow> scheduler_block 9 EVENT_PROCESS_FINISHED s1;
     s3 \<leftarrow> ASSERT_STATES [(9, TASK_BLOCKED)] s2;
     holds (scheduler_event 9 s3 = Some EVENT_PROCESS_FINISHED) s3 } \<noteq> None"

lemma test_schedule_wait_process_passes: test_schedule_wait_process by code_simp

definition test_schedule_transition_from_waiting_process_finished :: bool where
  "test_schedule_transition_from_waiting_process_finished \<longleftrightarrow> do {
     s \<leftarrow> ASSERT_STATES [(5, TASK_READY), (6, TASK_READY)] (added [5, 6]);
     s1 \<leftarrow> ticked s;
     s2 \<leftarrow> ASSERT_STATES [(5, TASK_RUNNING), (6, TASK_READY)] s1;
     s3 \<leftarrow> scheduler_block 5 EVENT_PROCESS_FINISHED s2;
     s4 \<leftarrow> ASSERT_STATES [(5, TASK_BLOCKED), (6, TASK_READY)] s3;
     s5 \<leftarrow> ticked s4;
     s6 \<leftarrow> ASSERT_STATES [(5, TASK_BLOCKED), (6, TASK_RUNNING)] s5;
     s7 \<leftarrow> scheduler_exit 6 42 s6;
     ASSERT_STATES [(5, TASK_READY), (6, TASK_FINISHED)] s7 } \<noteq> None"

lemma test_schedule_transition_from_waiting_process_finished_passes:
  test_schedule_transition_from_waiting_process_finished by code_simp

text \<open>The last test runs a process 52, and \<open>scheduler_tick\<close> reads its bank outside the 16 descriptors: with the code as it
  is, the test is undefined. With a number inside the table, \<open>p\<close>, it passes.\<close>

definition test_schedule_task_not_scheduled_when_waiting :: "int \<Rightarrow> bool" where
  "test_schedule_task_not_scheduled_when_waiting p \<longleftrightarrow> do {
     s \<leftarrow> ASSERT_STATES [(14, TASK_READY), (p, TASK_READY)] (added [14, p]);
     s1 \<leftarrow> ticked s;
     s2 \<leftarrow> ASSERT_STATES [(14, TASK_RUNNING), (p, TASK_READY)] s1;
     s3 \<leftarrow> scheduler_block 14 EVENT_PROCESS_FINISHED s2;
     s4 \<leftarrow> ASSERT_STATES [(14, TASK_BLOCKED), (p, TASK_READY)] s3;
     s5 \<leftarrow> ticked s4;
     s6 \<leftarrow> ASSERT_STATES [(14, TASK_BLOCKED), (p, TASK_RUNNING)] s5;
     s7 \<leftarrow> fold (\<lambda>i r. do { s \<leftarrow> r; s1 \<leftarrow> ticked s; ASSERT_STATES [(14, TASK_BLOCKED), (p, TASK_RUNNING)] s1 }) [0..<10] (Some s6);
     s8 \<leftarrow> scheduler_exit p 42 s7;
     s9 \<leftarrow> ASSERT_STATES [(14, TASK_READY), (p, TASK_FINISHED)] s8;
     s10 \<leftarrow> ticked s9;
     ASSERT_STATES [(14, TASK_RUNNING), (p, TASK_FINISHED)] s10 } \<noteq> None"

lemma test_schedule_task_not_scheduled_when_waiting_passes: "test_schedule_task_not_scheduled_when_waiting 15" by code_simp

lemma test_schedule_task_not_scheduled_when_waiting_undefined: "\<not> test_schedule_task_not_scheduled_when_waiting 52" by code_simp

end
