(* ===== verification/Test_Basic.thy ===== *)
theory Test_Basic
  imports Basic_Interp
begin

text \<open>
  The unit tests of the BASIC interpreter (\<open>builtin/basic/unit_test\<close>), run on the model: those that take seconds to evaluate. A test is a definition that reads
  like the C function and holds when no assertion fails; its evaluation in the kernel is the lemma \<open>..._passes\<close>. The
  buffers on the stack of a test are at fixed addresses below the program region: tokens at 0x8000, names of variables
  from 0x8100 on.
\<close>

declare mem_cstr.simps [code] statement_end.simps [code] search_backwards.simps [code] search_forwards.simps [code]
  do_print.simps [code]

section \<open>The macros of the tests\<close>

definition fresh_basic :: basic where
  "fresh_basic = program_new \<lparr>ram = (\<lambda>_. 0), program_start = 0x9000, program_max = 0xf000,
     program_end_ptr = 0, program_running = False,
     program_registers = replicate 26 \<lparr>reg_defined = False, reg_value = 0\<rparr>,
     program_context = [], program_return_stack = [],
     program_current_line = 0, program_last_inserted_line = 0, program_next_line = 0,
     rnd = 0, console = []\<rparr>"

text \<open>\<open>ASSERT\<close>: a test that fails is \<open>None\<close>.\<close>

definition ASSERT :: "bool \<Rightarrow> 'a \<Rightarrow> 'a option" where
  "ASSERT cond s = (if cond then Some s else None)"

definition MAKE_VAR_TOK :: "u16 \<Rightarrow> string \<Rightarrow> basic \<Rightarrow> basic" where
  "MAKE_VAR_TOK buf name b = b\<lparr>ram := store_bytes buf
     (if length name = 1 then [TOK_REGISTER, hd (ascii name) - of_char (CHR ''A'')]
      else TOK_VARIABLE # of_nat (length name + 1) # ascii name @ [0]) (ram b)\<rparr>"

definition SET_TEST_VAR :: "u16 \<Rightarrow> string \<Rightarrow> numeric_t \<Rightarrow> basic \<Rightarrow> basic option" where
  "SET_TEST_VAR buf name v b = map_option snd (program_set_numeric buf v (MAKE_VAR_TOK buf name b))"

definition HELPER_TOKENIZE :: "u16 \<Rightarrow> string \<Rightarrow> basic \<Rightarrow> basic option" where
  "HELPER_TOKENIZE dst s b = do {
     (e, toks) \<leftarrow> statement_tokenize (ascii s @ [0]);
     ASSERT (e = None) (b\<lparr>ram := store_bytes dst toks (ram b)\<rparr>) }"

definition HELPER_INTERPRET :: "u16 \<Rightarrow> basic \<Rightarrow> basic option" where
  "HELPER_INTERPRET toks b = do { (e, b1) \<leftarrow> statement_interpret 3 toks b; ASSERT (e = None) b1 }"

text \<open>Parts that many tests share: what a parser writes and leaves, the value or the error of an expression, the outcome of a
  statement, the value of a variable, an array with one element set.\<close>

definition parsed :: "(bytes \<Rightarrow> (bytes \<times> bytes) option option) \<Rightarrow> string \<Rightarrow> (bytes \<times> nat) option" where
  "parsed parser input = (case parser (ascii input @ [0]) of
     Some (Some (toks, rest)) \<Rightarrow> Some (toks, length input + 1 - length rest) | _ \<Rightarrow> None)"

definition eval_with :: "string \<Rightarrow> (numeric_t \<Rightarrow> bool) \<Rightarrow> basic \<Rightarrow> basic option" where
  "eval_with input P b = do {
     b1 \<leftarrow> HELPER_TOKENIZE 0x8000 input b;
     (r, b2) \<leftarrow> eval_numeric 2 0x8000 b1;
     case r of Inl e \<Rightarrow> None
     | Inr (num, end_ptr) \<Rightarrow> ASSERT (P num \<and> ram b2 end_ptr = TOK_TERMINATOR) b2 }"

definition eval_fails :: "string \<Rightarrow> error_t \<Rightarrow> basic \<Rightarrow> basic option" where
  "eval_fails input err b = do {
     b1 \<leftarrow> HELPER_TOKENIZE 0x8000 input b;
     (r, b2) \<leftarrow> eval_numeric 2 0x8000 b1;
     ASSERT (r = Inl err) b2 }"

definition interpret_with :: "string \<Rightarrow> error_t option \<Rightarrow> basic \<Rightarrow> basic option" where
  "interpret_with input err b = do {
     b1 \<leftarrow> HELPER_TOKENIZE 0x8000 input b;
     (e, b2) \<leftarrow> statement_interpret 3 0x8000 b1;
     ASSERT (e = err) b2 }"

definition on_line_456 :: "basic \<Rightarrow> basic" where
  "on_line_456 b = b\<lparr>ram := store16 (program_current_line b) 456 (ram b)\<rparr>"

definition ASSERT_NUMERIC :: "u16 \<Rightarrow> numeric_t \<Rightarrow> basic \<Rightarrow> basic option" where
  "ASSERT_NUMERIC toks v b = do { r \<leftarrow> program_get_numeric toks b; ASSERT (r = Inr v) b }"

definition ASSERT_ALLOC :: "u16 \<Rightarrow> string \<Rightarrow> u8 \<Rightarrow> basic \<Rightarrow> basic option" where
  "ASSERT_ALLOC buf name n b0 = do {
     let b = MAKE_VAR_TOK buf name b0;
     r \<leftarrow> program_get_array buf b;
     case r of Inl e \<Rightarrow> None | Inr a \<Rightarrow> ASSERT (ram b a = TOK_ALLOC \<and> ram b (a + 1) = n) b }"

definition ARRAY_ACCESS :: "u16 \<Rightarrow> u16 \<Rightarrow> u16" where
  "ARRAY_ACCESS arr index = arr + 2 + 2 * (index - 1)"

definition make_array :: "u16 \<Rightarrow> string \<Rightarrow> u8 \<Rightarrow> basic \<Rightarrow> (u16 \<times> basic) option" where
  "make_array buf name n b = do {
     b1 \<leftarrow> program_create_array buf n (MAKE_VAR_TOK buf name b);
     r \<leftarrow> program_get_array buf b1;
     case r of Inl e \<Rightarrow> None | Inr a \<Rightarrow> Some (a, b1) }"

definition set_element :: "u16 \<Rightarrow> u16 \<Rightarrow> u16 \<Rightarrow> basic \<Rightarrow> basic" where
  "set_element arr index v b = b\<lparr>ram := store16 (ARRAY_ACCESS arr index) v (ram b)\<rparr>"

section \<open>Tokens\<close>

definition test_operator_parse_minus :: "bool" where
  "test_operator_parse_minus \<longleftrightarrow> map_option fst (parsed t_operator_parse ''-'') = Some [TOK_OPERATOR, OP_MINUS]"

lemma test_operator_parse_minus_passes: test_operator_parse_minus by code_simp

definition test_operator_parse_plus :: "bool" where
  "test_operator_parse_plus \<longleftrightarrow> map_option fst (parsed t_operator_parse ''+'') = Some [TOK_OPERATOR, OP_PLUS]"

lemma test_operator_parse_plus_passes: test_operator_parse_plus by code_simp

definition test_operator_parse_equal :: "bool" where
  "test_operator_parse_equal \<longleftrightarrow> map_option fst (parsed t_operator_parse ''='') = Some [TOK_OPERATOR, OP_EQUAL]"

lemma test_operator_parse_equal_passes: test_operator_parse_equal by code_simp

definition test_operator_parse_lparen :: "bool" where
  "test_operator_parse_lparen \<longleftrightarrow> map_option fst (parsed t_operator_parse ''('') = Some [TOK_OPERATOR, OP_LPAREN]"

lemma test_operator_parse_lparen_passes: test_operator_parse_lparen by code_simp

definition test_operator_parse_rparen :: "bool" where
  "test_operator_parse_rparen \<longleftrightarrow> map_option fst (parsed t_operator_parse '')'') = Some [TOK_OPERATOR, OP_RPAREN]"

lemma test_operator_parse_rparen_passes: test_operator_parse_rparen by code_simp

definition test_operator_parse_lt :: "bool" where
  "test_operator_parse_lt \<longleftrightarrow> map_option fst (parsed t_operator_parse ''<'') = Some [TOK_OPERATOR, OP_LT]"

lemma test_operator_parse_lt_passes: test_operator_parse_lt by code_simp

definition test_operator_parse_gt :: "bool" where
  "test_operator_parse_gt \<longleftrightarrow> map_option fst (parsed t_operator_parse ''>'') = Some [TOK_OPERATOR, OP_GT]"

lemma test_operator_parse_gt_passes: test_operator_parse_gt by code_simp

definition test_operator_parse_lteq :: "bool" where
  "test_operator_parse_lteq \<longleftrightarrow> map_option fst (parsed t_operator_parse ''<='') = Some [TOK_OPERATOR, OP_LTEQ]"

lemma test_operator_parse_lteq_passes: test_operator_parse_lteq by code_simp

definition test_operator_parse_gteq :: "bool" where
  "test_operator_parse_gteq \<longleftrightarrow> map_option fst (parsed t_operator_parse ''>='') = Some [TOK_OPERATOR, OP_GTEQ]"

lemma test_operator_parse_gteq_passes: test_operator_parse_gteq by code_simp

definition test_keyword_parse_for :: "bool" where
  "test_keyword_parse_for \<longleftrightarrow> parsed t_keyword_parse ''FOR '' = Some ([TOK_KEYWORD, KEYWORD_FOR], 3)"

lemma test_keyword_parse_for_passes: test_keyword_parse_for by code_simp

definition test_keyword_parse_to :: "bool" where
  "test_keyword_parse_to \<longleftrightarrow> parsed t_keyword_parse ''TO'' = Some ([TOK_KEYWORD, KEYWORD_TO], 2)"

lemma test_keyword_parse_to_passes: test_keyword_parse_to by code_simp

definition test_keyword_parse_next :: "bool" where
  "test_keyword_parse_next \<longleftrightarrow> parsed t_keyword_parse ''NEXT'' = Some ([TOK_KEYWORD, KEYWORD_NEXT], 4)"

lemma test_keyword_parse_next_passes: test_keyword_parse_next by code_simp

definition test_keyword_parse_gosub :: "bool" where
  "test_keyword_parse_gosub \<longleftrightarrow> parsed t_keyword_parse ''GOSUB'' = Some ([TOK_KEYWORD, KEYWORD_GOSUB], 5)"

lemma test_keyword_parse_gosub_passes: test_keyword_parse_gosub by code_simp

definition test_keyword_parse_return :: "bool" where
  "test_keyword_parse_return \<longleftrightarrow> parsed t_keyword_parse ''RETURN'' = Some ([TOK_KEYWORD, KEYWORD_RETURN], 6)"

lemma test_keyword_parse_return_passes: test_keyword_parse_return by code_simp

definition test_keyword_parse_dim :: "bool" where
  "test_keyword_parse_dim \<longleftrightarrow> parsed t_keyword_parse ''DIM'' = Some ([TOK_KEYWORD, KEYWORD_DIM], 3)"

lemma test_keyword_parse_dim_passes: test_keyword_parse_dim by code_simp

definition test_keyword_parse_if :: "bool" where
  "test_keyword_parse_if \<longleftrightarrow> parsed t_keyword_parse ''IF'' = Some ([TOK_KEYWORD, KEYWORD_IF], 2)"

lemma test_keyword_parse_if_passes: test_keyword_parse_if by code_simp

definition test_keyword_parse_then :: "bool" where
  "test_keyword_parse_then \<longleftrightarrow> parsed t_keyword_parse ''THEN'' = Some ([TOK_KEYWORD, KEYWORD_THEN], 4)"

lemma test_keyword_parse_then_passes: test_keyword_parse_then by code_simp

definition test_numeric_parse_zero :: "bool" where
  "test_numeric_parse_zero \<longleftrightarrow> map_option fst (parsed t_numeric_parse ''0'') = Some [TOK_NUMERIC, 0, 0]"

lemma test_numeric_parse_zero_passes: test_numeric_parse_zero by code_simp

definition test_numeric_parse_positive :: "bool" where
  "test_numeric_parse_positive \<longleftrightarrow> map_option fst (parsed t_numeric_parse ''123'') = Some (TOK_NUMERIC # put16 123)"

lemma test_numeric_parse_positive_passes: test_numeric_parse_positive by code_simp

definition test_numeric_parse_positive_boundary :: "bool" where
  "test_numeric_parse_positive_boundary \<longleftrightarrow> map_option fst (parsed t_numeric_parse ''32767'') = Some (TOK_NUMERIC # put16 32767)"

lemma test_numeric_parse_positive_boundary_passes: test_numeric_parse_positive_boundary by code_simp

definition test_numeric_size :: "bool" where
  "test_numeric_size \<longleftrightarrow> map_option (hd \<circ> fst) (parsed t_numeric_parse ''32768'') = Some TOK_NUMERIC"

lemma test_numeric_size_passes: test_numeric_size by code_simp

definition test_parse_sep :: "bool" where
  "test_parse_sep \<longleftrightarrow> parsed t_sep_parse '', '' = Some ([TOK_SEPARATOR], 1)"

lemma test_parse_sep_passes: test_parse_sep by code_simp

definition test_parse_rem :: "bool" where
  "test_parse_rem \<longleftrightarrow> map_option fst (parsed t_rem_parse ''REM This is a remark'')
     = Some (TOK_REMARK # 18 # ascii '' This is a remark'' @ [0])"

lemma test_parse_rem_passes: test_parse_rem by code_simp

definition test_fnc_parse_rnd :: "bool" where
  "test_fnc_parse_rnd \<longleftrightarrow> parsed t_func_parse ''RND'' = Some ([TOK_FUNC, FUNC_RND], 3)"

lemma test_fnc_parse_rnd_passes: test_fnc_parse_rnd by code_simp

definition test_variable_parse_c :: "bool" where
  "test_variable_parse_c \<longleftrightarrow> parsed t_variable_parse ''C'' = Some ([TOK_REGISTER, 2], 1)"

lemma test_variable_parse_c_passes: test_variable_parse_c by code_simp

definition test_variable_parse_var :: "bool" where
  "test_variable_parse_var \<longleftrightarrow> parsed t_variable_parse ''VAR'' = Some (TOK_VARIABLE # 4 # ascii ''VAR'' @ [0], 3)"

lemma test_variable_parse_var_passes: test_variable_parse_var by code_simp

text \<open>This test looks at \<open>dst_buf[7]\<close>, the byte behind the seven that the parser writes, and so depends on what \<open>old\<close>
  the buffer held.\<close>

definition test_variable_parse_something :: "bytes \<Rightarrow> bool" where
  "test_variable_parse_something old \<longleftrightarrow> (case parsed t_variable_parse ''SOMETHING'' of None \<Rightarrow> False
     | Some (toks, n) \<Rightarrow> let dst_buf = toks @ drop (length toks) old in
         take 6 dst_buf = TOK_VARIABLE # 5 # ascii ''SOME'' \<and> dst_buf ! 7 = 0 \<and> length toks = 7 \<and> n = 9)"

lemma test_variable_parse_something_iff:
  assumes "length old = 11"
  shows "test_variable_parse_something old \<longleftrightarrow> old ! 7 = 0"
proof -
  have "parsed t_variable_parse ''SOMETHING'' = Some (TOK_VARIABLE # 5 # ascii ''SOME'' @ [0], 9)" by code_simp
  then show ?thesis using assms by (simp add: test_variable_parse_something_def nth_append numeral_eq_Suc)
qed

definition test_variable_get_some :: "bool" where
  "test_variable_get_some \<longleftrightarrow> (case parsed t_variable_parse ''SOMETHING'' of None \<Rightarrow> False
     | Some (toks, n) \<Rightarrow> cstr (drop 2 toks) = ascii ''SOME'' \<and> length toks = 7 \<and> n = 9)"

lemma test_variable_get_some_passes: test_variable_get_some by code_simp

definition test_variable_get_i :: "bool" where
  "test_variable_get_i \<longleftrightarrow> parsed t_variable_parse ''I'' = Some ([TOK_REGISTER, of_char (CHR ''I'') - of_char (CHR ''A'')], 1)"

lemma test_variable_get_i_passes: test_variable_get_i by code_simp

section \<open>Variables and memory\<close>

definition test_program_def_variable :: "bool" where
  "test_program_def_variable \<longleftrightarrow> do {
     let b = MAKE_VAR_TOK 0x8100 ''ABC'' fresh_basic;
     (e, b1) \<leftarrow> program_set_numeric 0x8100 42 b;
     b2 \<leftarrow> ASSERT (e = None) b1;
     ASSERT_NUMERIC 0x8100 42 b2 } \<noteq> None"

lemma test_program_def_variable_passes: test_program_def_variable by code_simp

definition test_program_def_variable_toolong :: "bool" where
  "test_program_def_variable_toolong \<longleftrightarrow> do {
     (e, b1) \<leftarrow> program_set_numeric 0x8100 42 (MAKE_VAR_TOK 0x8100 ''ABCDE'' fresh_basic);
     ASSERT (e = Some ERROR_VARNAME) b1 } \<noteq> None"

lemma test_program_def_variable_toolong_passes: test_program_def_variable_toolong by code_simp

definition test_program_get_variable_undefined :: "bool" where
  "test_program_get_variable_undefined \<longleftrightarrow> do {
     let b = MAKE_VAR_TOK 0x8100 ''ABC'' fresh_basic;
     r \<leftarrow> program_get_numeric 0x8100 b;
     ASSERT (r = Inl ERROR_UNDEFINED_VAR) b } \<noteq> None"

lemma test_program_get_variable_undefined_passes: test_program_get_variable_undefined by code_simp

definition test_program_set_variable_twice :: "bool" where
  "test_program_set_variable_twice \<longleftrightarrow> do {
     let b = MAKE_VAR_TOK 0x8100 ''ABC'' fresh_basic;
     (e1, b1) \<leftarrow> program_set_numeric 0x8100 42 b;
     b2 \<leftarrow> ASSERT (e1 = None) b1;
     b3 \<leftarrow> ASSERT_NUMERIC 0x8100 42 b2;
     (e2, b4) \<leftarrow> program_set_numeric 0x8100 15 b3;
     b5 \<leftarrow> ASSERT (e2 = None) b4;
     ASSERT_NUMERIC 0x8100 15 b5 } \<noteq> None"

lemma test_program_set_variable_twice_passes: test_program_set_variable_twice by code_simp

definition test_program_alloc :: "bool" where
  "test_program_alloc \<longleftrightarrow> (let (a, b) = program_alloc 5 fresh_basic in
     map (\<lambda>i. ram b (a + of_nat i)) [0..<7] = [TOK_ALLOC, 5, 0, 0, 0, 0, 0])"

lemma test_program_alloc_passes: test_program_alloc by code_simp

section \<open>Expressions\<close>

definition test_eval_numeric :: "bool" where
  "test_eval_numeric \<longleftrightarrow> do {
     eval_with ''123'' (\<lambda>num. num = 123) fresh_basic } \<noteq> None"

lemma test_eval_numeric_passes: test_eval_numeric by code_simp

definition test_eval_numeric_negative :: "bool" where
  "test_eval_numeric_negative \<longleftrightarrow> do {
     eval_with ''-456'' (\<lambda>num. num = - 456) fresh_basic } \<noteq> None"

lemma test_eval_numeric_negative_passes: test_eval_numeric_negative by code_simp

definition test_eval_addition :: "bool" where
  "test_eval_addition \<longleftrightarrow> do {
     eval_with ''123+4'' (\<lambda>num. num = 127) fresh_basic } \<noteq> None"

lemma test_eval_addition_passes: test_eval_addition by code_simp

definition test_eval_subtraction_negative_result :: "bool" where
  "test_eval_subtraction_negative_result \<longleftrightarrow> do {
     eval_with ''10-14'' (\<lambda>num. num = - 4) fresh_basic } \<noteq> None"

lemma test_eval_subtraction_negative_result_passes: test_eval_subtraction_negative_result by code_simp

definition test_eval_subtraction_addition :: "bool" where
  "test_eval_subtraction_addition \<longleftrightarrow> do {
     b1 \<leftarrow> HELPER_TOKENIZE 0x8000 ''10-3+4'' fresh_basic;
     (r, b2) \<leftarrow> eval_numeric 2 0x8000 b1;
     ASSERT (case r of Inl e \<Rightarrow> False | Inr (num, end_ptr) \<Rightarrow> num = 11) b2 } \<noteq> None"

lemma test_eval_subtraction_addition_passes: test_eval_subtraction_addition by code_simp

definition test_eval_variable :: "bool" where
  "test_eval_variable \<longleftrightarrow> do {
     b \<leftarrow> SET_TEST_VAR 0x8100 ''VAR'' 42 fresh_basic;
     eval_with ''VAR'' (\<lambda>num. num = 42) b } \<noteq> None"

lemma test_eval_variable_passes: test_eval_variable by code_simp

definition test_eval_variable_negation :: "bool" where
  "test_eval_variable_negation \<longleftrightarrow> do {
     b \<leftarrow> SET_TEST_VAR 0x8100 ''VAR'' 8 fresh_basic;
     eval_with ''-VAR'' (\<lambda>num. num = - 8) b } \<noteq> None"

lemma test_eval_variable_negation_passes: test_eval_variable_negation by code_simp

definition test_eval_array_access_first :: "bool" where
  "test_eval_array_access_first \<longleftrightarrow> do {
     (arr, b1) \<leftarrow> make_array 0x8100 ''ARR'' 10 fresh_basic;
     let b = set_element arr 1 42 b1;
     eval_with ''ARR(1)'' (\<lambda>num. num = 42) b } \<noteq> None"

lemma test_eval_array_access_first_passes: test_eval_array_access_first by code_simp

definition test_eval_array_access_outofrange_end :: "bool" where
  "test_eval_array_access_outofrange_end \<longleftrightarrow> do {
     (arr, b1) \<leftarrow> make_array 0x8100 ''BOB'' 24 fresh_basic;
     let b = set_element arr 12 9 b1;
     eval_fails ''BOB(13)'' ERROR_RANGE b } \<noteq> None"

lemma test_eval_array_access_outofrange_end_passes: test_eval_array_access_outofrange_end by code_simp

definition test_eval_rnd_lim :: "bool" where
  "test_eval_rnd_lim \<longleftrightarrow> do {
     eval_with ''RND(5)'' (\<lambda>num. 1 \<le> sint num \<and> sint num \<le> 5) fresh_basic } \<noteq> None"

lemma test_eval_rnd_lim_passes: test_eval_rnd_lim by code_simp

definition test_eval_mul_precedence :: "bool" where
  "test_eval_mul_precedence \<longleftrightarrow> do {
     eval_with ''5 + 1 * 3'' (\<lambda>num. num = 8) fresh_basic } \<noteq> None"

lemma test_eval_mul_precedence_passes: test_eval_mul_precedence by code_simp

section \<open>Statements\<close>

definition test_tokenize_print :: "bool" where
  "test_tokenize_print \<longleftrightarrow> statement_tokenize (ascii ''PRINT'' @ [0]) = Some (None, [TOK_KEYWORD, KEYWORD_PRINT, TOK_TERMINATOR])"

lemma test_tokenize_print_passes: test_tokenize_print by code_simp

definition test_tokenize_list :: "bool" where
  "test_tokenize_list \<longleftrightarrow> statement_tokenize (ascii ''LIST'' @ [0]) = Some (None, [TOK_KEYWORD, KEYWORD_LIST, TOK_TERMINATOR])"

lemma test_tokenize_list_passes: test_tokenize_list by code_simp

definition test_tokenize_variable :: "bool" where
  "test_tokenize_variable \<longleftrightarrow> statement_tokenize (ascii ''C'' @ [0]) = Some (None, [TOK_REGISTER, 2, TOK_TERMINATOR])"

lemma test_tokenize_variable_passes: test_tokenize_variable by code_simp

definition test_tokenize_with_sep :: "bool" where
  "test_tokenize_with_sep \<longleftrightarrow> statement_tokenize (ascii ''\"HELLO\",NAME'' @ [0]) = Some (None, TOK_STRING # 6 # ascii ''HELLO'' @ 0 # TOK_SEPARATOR
     # TOK_VARIABLE # 5 # ascii ''NAME'' @ [0, TOK_TERMINATOR])"

lemma test_tokenize_with_sep_passes: test_tokenize_with_sep by code_simp

definition test_interpret_assignment :: "bool" where
  "test_interpret_assignment \<longleftrightarrow> do {
     b \<leftarrow> interpret_with ''C=1+2'' None fresh_basic;
     ASSERT_NUMERIC 0x8100 3 (MAKE_VAR_TOK 0x8100 ''C'' b) } \<noteq> None"

lemma test_interpret_assignment_passes: test_interpret_assignment by code_simp

definition test_interpret_for_missing_equals :: "bool" where
  "test_interpret_for_missing_equals \<longleftrightarrow> do {
     interpret_with ''FOR I+1 TO 4'' (Some ERROR_SYNTAX) (on_line_456 fresh_basic) } \<noteq> None"

lemma test_interpret_for_missing_equals_passes: test_interpret_for_missing_equals by code_simp

definition test_interpret_next_notvar :: "bool" where
  "test_interpret_next_notvar \<longleftrightarrow> do {
     interpret_with ''NEXT 4'' (Some ERROR_SYNTAX) (on_line_456 fresh_basic) } \<noteq> None"

lemma test_interpret_next_notvar_passes: test_interpret_next_notvar by code_simp

definition test_interpret_gosub_invalid_lineno :: "bool" where
  "test_interpret_gosub_invalid_lineno \<longleftrightarrow> do {
     interpret_with ''GOSUB FOO'' (Some ERROR_SYNTAX) (on_line_456 fresh_basic) } \<noteq> None"

lemma test_interpret_gosub_invalid_lineno_passes: test_interpret_gosub_invalid_lineno by code_simp

definition test_interpret_return_empty_stack :: "bool" where
  "test_interpret_return_empty_stack \<longleftrightarrow> do {
     interpret_with ''RETURN'' (Some ERROR_RETSTACK_EMPTY) (on_line_456 fresh_basic) } \<noteq> None"

lemma test_interpret_return_empty_stack_passes: test_interpret_return_empty_stack by code_simp

definition test_interpret_dim :: "bool" where
  "test_interpret_dim \<longleftrightarrow> do {
     b \<leftarrow> interpret_with ''DIM X(4)'' None fresh_basic;
     ASSERT_ALLOC 0x8100 ''X'' (4 * 2) b } \<noteq> None"

lemma test_interpret_dim_passes: test_interpret_dim by code_simp

definition test_interpret_assign_array_variable_index :: "bool" where
  "test_interpret_assign_array_variable_index \<longleftrightarrow> do {
     (arr, b) \<leftarrow> make_array 0x8100 ''ARR'' 15 fresh_basic;
     b1 \<leftarrow> SET_TEST_VAR 0x8120 ''IDX'' 3 b;
     b2 \<leftarrow> interpret_with ''ARR(IDX) = 42'' None b1;
     ASSERT (load16 (ram b2) (ARRAY_ACCESS arr 3) = 42) b2 } \<noteq> None"

lemma test_interpret_assign_array_variable_index_passes: test_interpret_assign_array_variable_index by code_simp

definition test_interpret_if_true :: "bool" where
  "test_interpret_if_true \<longleftrightarrow> do {
     b1 \<leftarrow> SET_TEST_VAR 0x8100 ''TEST'' 42 fresh_basic;
     b2 \<leftarrow> SET_TEST_VAR 0x8120 ''FOO'' 99 b1;
     b3 \<leftarrow> interpret_with ''IF TEST = 42 THEN FOO = 9'' None b2;
     ASSERT_NUMERIC 0x8120 9 b3 } \<noteq> None"

lemma test_interpret_if_true_passes: test_interpret_if_true by code_simp

definition test_tokenize_and_interpret_rem :: "bool" where
  "test_tokenize_and_interpret_rem \<longleftrightarrow> do {
     b \<leftarrow> HELPER_TOKENIZE 0x8000 ''REM This is a comment'' fresh_basic;
     b1 \<leftarrow> ASSERT (ram b 0x8000 = TOK_REMARK) b;
     HELPER_INTERPRET 0x8000 b1 } \<noteq> None"

lemma test_tokenize_and_interpret_rem_passes: test_tokenize_and_interpret_rem by code_simp

end
