(* ===== verification/Spec2Isabelle.thy ===== *)
theory Spec2Isabelle
  imports Scheduler_Claims Process_Properties Loader_Claims Basic_Run_Claims Basic_File File_Lifecycle Shell_Load Monitor_Claims
    Kernel_Claims Bank_Test Test_Kernel Test_Basic
begin

text \<open>
  Z80-OS, a small multitasking operating system for a Z80 board with 32 KB of common memory, banks of 32 KB for
  user programs, a CF card with a FAT16 file system and a serial terminal. This development models its C code
  and proves what makes it correct.

  \<^bold>\<open>The program and its parts.\<close> The boot loader (\<open>src/loader\<close>) mounts the card, finds
  \<open>KERNEL.BIN\<close> and copies it to memory. The kernel (\<open>src/kernel\<close>) initialises its tables, loads
  \<open>COMMAND.EXE\<close> as process 0 and then lives in interrupts: the UART interrupt feeds the terminal, the timer
  interrupt asks the scheduler for the next task, and system calls reach the files, the processes, the signals and
  the terminal. Loading a process takes a page from the page allocator, a descriptor from the process table and the
  bytes of a file; ending it makes the scheduler mark its task. The shell (\<open>src/command\<close>) reads lines from the terminal and runs
  its built-in commands and other programs through the system calls of the kernel. \<open>src/builtin\<close> holds user
  programs: a BASIC interpreter, a debugger and a receiver of files.

  \<^bold>\<open>Theories and code.\<close>
  \<^item> \<open>C_Prelude\<close>: machine types of the SDCC Z80 target, little-endian access, C strings, checked array
    access, the search loop and its interface \<open>slot_finder\<close>.
  \<^item> \<open>Page_Memory\<close>: \<open>kernel/memory.c\<close>. \<open>Process_Table\<close>: the descriptors of
    \<open>kernel/process.c\<close>, \<open>kernel/signal.c\<close>, \<open>kernel/include/bits.h\<close>. \<open>Terminal\<close>:
    \<open>kernel/terminal.c\<close>, with the interface \<open>byte_queue\<close>.
  \<^item> \<open>Task_Scheduler\<close>: \<open>kernel/scheduler.c\<close>; \<open>Scheduler_Proofs\<close>, \<open>Scheduler_Properties\<close> and
    \<open>Scheduler_Claims\<close>: its invariant, its step relation, round robin, fairness, refinement.
  \<^item> \<open>Disk_Cache\<close>: the sector cache and the mounting of \<open>kernel/file.c\<close>, the sector addresses of
    \<open>kernel/disk.asm\<close>, with the interface \<open>block_device\<close>. \<open>File_Allocation\<close>: FAT chains, with the
    interface \<open>fat_map\<close>. \<open>Directory\<close>: root directory entries; \<open>Directory_Properties\<close>: lookup,
    update, creation, listing. \<open>File_Operations\<close>: the calls on file descriptors; \<open>File_Reading\<close>: reading
    along a chain; \<open>File_Properties\<close> and \<open>File_Effects\<close>: reading, creating and deleting files;
    \<open>File_Writing\<close>: writing at the end of a chain that grows; \<open>File_Lifecycle\<close>: a file from its
    creation to its being read back, with the interface \<open>appender\<close>.
  \<^item> \<open>Process_Loader\<close>: \<open>process_load\<close>, \<open>process_spawn\<close>, \<open>process_exit\<close> and
    \<open>kernel/main.c\<close>, over banked memory (\<open>kernel/ram.asm\<close>); \<open>Process_Properties\<close>: their effects, on a
    concrete disk with a shell as well. \<open>Bank_Test\<close>: the count of the banks.
  \<^item> \<open>Kernel_Calls\<close>: the entries of the kernel, \<open>kernel/syscall.asm\<close> and \<open>kernel/interrupt.asm\<close>, as steps
    of the kernel state, and the states that can be reached. \<open>File_Invariant\<close>: what every file system call keeps;
    \<open>Kernel_Invariant\<close>: what every step keeps; \<open>Kernel_Isolation\<close>: which banks a step writes;
    \<open>Kernel_Claims\<close>: the properties of the kernel as a whole.
  \<^item> \<open>Boot_Loader\<close>: \<open>loader/file.c\<close> and \<open>loader/main.c\<close>; \<open>Loader_Properties\<close>,
    \<open>Loader_Claims\<close>: the loader reads what the kernel file system reads.
  \<^item> \<open>Basic_Tokens\<close>: the parsers and printers of tokens (\<open>t_*.c\<close>, \<open>statement_tokenize\<close>);
    \<open>Basic_Listing\<close>: they are inverse. \<open>Basic_Program\<close>: \<open>program.c\<close>; \<open>Basic_Eval\<close>:
    \<open>eval.c\<close>, \<open>t_variable_get_ptr\<close>, \<open>t_func_call\<close>; \<open>Basic_Expressions\<close>,
    \<open>Basic_Eval_Claims\<close>: the value of an expression. \<open>Basic_Interp\<close>: the keywords, statements and
    \<open>RUN\<close>; \<open>Basic_Program_Claims\<close>, \<open>Basic_Run_Claims\<close>: stored programs, and running them.
    \<open>Basic_File\<close>: \<open>main.c\<close>, a program read from a file.
  \<^item> \<open>Command_Shell\<close>: \<open>src/command\<close> over the kernel state, and \<open>builtin/xmodem/main.c\<close>;
    \<open>Shell_Parsing\<close>: from a typed line to the command; \<open>Shell_Claims\<close>: DIR; \<open>Shell_Load\<close>: LOAD.
    \<open>Monitor\<close>: \<open>builtin/monitor/main.c\<close>; \<open>Monitor_Claims\<close>: Intel HEX files and breakpoints.
  \<^item> \<open>Test_Kernel\<close>, \<open>Test_Basic\<close>: unit tests of the repository, run on the model.

  \<^bold>\<open>How code and model correspond.\<close> The globals of a C file are a record, a struct is a record, a
  C function is a definition with the same name that takes and returns the state. Records extend each other
  where components share state: the process table is part of the schedule state, and both are part of the kernel
  state, which adds the page table, the file system and the memory. The loops of a function are definitions of
  their own, named in a comment. A result \<open>Some\<close> says that the call returns and stays inside its objects;
  \<open>None\<close> stands for an access outside an array, a read of an uninitialised variable, or a loop that does
  not end. So a theorem with \<open>Some\<close> in its conclusion is total, and a theorem with \<open>None\<close> shows a
  defect. Loops without a bound in the code are partial functions (\<open>partial_function\<close>), so that divergence is
  \<open>None\<close> and nothing else; where a bound is natural it is used: the scheduler searches \<open>num_scheduled\<close>
  entries, \<open>free_clusters\<close> follows at most one chain. BASIC takes numbers for the room on the C stack and the
  statements executed: \<open>eval_numeric n\<close> is right for every expression nested less than \<open>n\<close> deep, and
  \<open>for_loop_terminates\<close> gives the number of statements that is enough. \<open>int\<close> and \<open>size_t\<close> have 16 bits
  and wrap, \<open>char\<close> is an unsigned byte.

  \<^bold>\<open>What is proved.\<close>
  \<^item> Scheduler: the table is consistent after every history, a tick starts the next runnable task in cyclic
    order, every runnable task is started within one round, and the operations refine a map from identifiers to tasks,
    as long as no identifier is added twice, which the code does not prevent.
  \<^item> Memory and terminal: a page has one owner; the ring buffer is a queue, and CANCEL a signal.
  \<^item> File system: mounting, allocation and release of chains, directory lookup, update and listing; reading
    returns the bytes of the chain, creating and deleting touch one slot and one chain, and what has been written
    in any number of pieces is read back. Allocation is correct for clusters 2 to 255; above, the code is not.
  \<^item> Processes: loading places the image and the first stack frame and nothing else, spawning builds \<open>argc\<close>
    and \<open>argv\<close>, and the kernel boots into the shell.
  \<^item> The kernel as a whole: after any history of calls and interrupts with a defined effect its tables are
    consistent, and it is shown which calls always have one and which identifiers and descriptors the others need; loaded
    processes have banks of their own that other processes do not change; a preempted process goes on with its registers, its
    stack and its memory, but for HL when a signal is delivered.
  \<^item> Boot loader: lookup and reading agree with the kernel's.
  \<^item> BASIC: listing and tokenizing are inverse, expressions get their value, typed lines are appended to the
    program and listed, a program survives as a text file, searches find their line, loops end.
  \<^item> Shell: a line is split into its words and dispatched, DIR lists the directory, and what LOAD receives can be
    read back. These compose the system calls down to the sectors.
  \<^item> Debugger: an Intel HEX file is stored where it says, and a breakpoint puts the byte back that it replaced.

  Defects are theorems as well: each states exactly what the code does instead.

  \<^bold>\<open>Not modelled, and why.\<close> How the assembly of \<open>syscall.asm\<close> keeps the registers of the caller, and what calls
  leave below the stack pointer; which of two pending interrupts \<open>interrupt.asm\<close> serves; ports
  (\<open>driver_6850.asm\<close>, \<open>status.asm\<close>); the CF-card protocol below a sector read or write (the disk is a map from
  28-bit sector numbers to sectors); DEBUG code; the RAM test of the loader, whose result is a parameter. Nothing protects
  the kernel from stores to the lower half of memory, where its variables are, fields of the state here. A store of the kernel
  that would go there (a buffer of a system call, an image that passes 0xffff, a stack pointer) has the result \<open>None\<close>, and
  programs that store there themselves are not covered; what they read there may be anything. While \<open>process_load\<close> reads a
  file its own stack lies in the bank that it fills, below the stack pointer of its caller; that an image can overwrite it is not
  modelled.
  The C library and the user side of the system calls are outside the repository: \<open>strtok\<close>, \<open>strcmp\<close>,
  \<open>gets\<close> and \<open>printf\<close> follow the C standard, while \<open>fopen\<close>, \<open>fgets\<close> and the calls that run another
  program are parameters. The desktop build of BASIC, with offsets in place of pointers, is not modelled.
\<close>

end
